(* ===== verification/Py_Prelude.thy ===== *)
theory Py_Prelude
  imports Complex_Main "HOL-Library.AList" "HOL-Library.Sublist"
begin

text \<open>
  The vocabulary every component shares: the Python values the program handles (JSON values,
  dictionaries, exceptions with their messages), state passing with exceptions, and the
  automation the component theories use.

  A Python function that can raise or change state is a function from the state before to a
  result and the state after, \<open>('s, 'a) py\<close>.  An exception does not undo what was done
  before it: the state is returned with the exception too.
\<close>

section \<open>Collections of facts\<close>

named_theorems py_simps \<open>evaluation of state-passing programs\<close>
named_theorems frame_intro \<open>introduction rules for \<open>keeps\<close>\<close>
named_theorems dict_simps \<open>reading dictionaries\<close>

section \<open>Values\<close>

text \<open>
  What \<^verbatim>\<open>json.loads\<close> returns: \<^verbatim>\<open>None\<close>, a bool, an int, a finite float (kept as its exact
  value), a string, a list, a dict in insertion order.
\<close>

datatype json =
    JNull
  | JBool bool
  | JInt int
  | JFloat rat
  | JStr string
  | JList "json list"
  | JObj "(string \<times> json) list"

type_synonym dict = "(string \<times> json) list"

text \<open>
  An exception message is an f-string: literal pieces and interpolated values.  The rendering
  of an interpolated value is left to Python.
\<close>

datatype frag = Txt string | Val json

type_synonym message = "frag list"

text \<open>
  The exceptions of the program.  \<open>ScenarioError\<close> is the scenarios' own subclass of
  \<^verbatim>\<open>RuntimeError\<close>.  \<open>OtherError\<close> stands for whatever a library call raises beside the
  exceptions the code names; \<open>Blocked\<close> is not an exception but a wait for a lock that the
  waiting thread holds itself.
\<close>

datatype exc =
    ValueError message
  | RuntimeError message
  | ScenarioError message
  | AttributeError
  | TypeError
  | KeyError string
  | IndexError
  | OtherError string
  | Blocked

type_synonym 'a result = "exc + 'a"

definition opt_json :: "string option \<Rightarrow> json" where
  "opt_json v = (case v of None \<Rightarrow> JNull | Some s \<Rightarrow> JStr s)"

lemma opt_json_simps [simp]:
  "opt_json None = JNull" "opt_json (Some s) = JStr s"
  by (simp_all add: opt_json_def)

lemma opt_json_inject [simp]: "opt_json a = opt_json b \<longleftrightarrow> a = b"
  by (auto simp: opt_json_def split: option.splits)

section \<open>Dictionaries\<close>

text \<open>\<^verbatim>\<open>d.get(k)\<close>, \<^verbatim>\<open>d.get(k, default)\<close>, \<^verbatim>\<open>d[k]\<close> and \<^verbatim>\<open>d[k] = v\<close> on a dict.\<close>

definition dict_get_or :: "dict \<Rightarrow> string \<Rightarrow> json \<Rightarrow> json" where
  "dict_get_or d k v = (case map_of d k of None \<Rightarrow> v | Some x \<Rightarrow> x)"

definition dict_get :: "dict \<Rightarrow> string \<Rightarrow> json" where
  "dict_get d k = dict_get_or d k JNull"

definition dict_item :: "dict \<Rightarrow> string \<Rightarrow> json result" where
  "dict_item d k = (case map_of d k of None \<Rightarrow> Inl (KeyError k) | Some x \<Rightarrow> Inr x)"

definition dict_set :: "dict \<Rightarrow> string \<Rightarrow> json \<Rightarrow> dict" where
  "dict_set d k v = AList.update k v d"

lemma dict_get_simps [simp]:
  "dict_get [] k = JNull"
  "dict_get ((k', v) # d) k = (if k = k' then v else dict_get d k)"
  by (simp_all add: dict_get_def dict_get_or_def)

lemma dict_get_or_simps [simp]:
  "dict_get_or [] k v = v"
  "dict_get_or ((k', x) # d) k v = (if k = k' then x else dict_get_or d k v)"
  by (simp_all add: dict_get_or_def)

lemma dict_item_simps [simp]:
  "dict_item [] k = Inl (KeyError k)"
  "dict_item ((k', v) # d) k = (if k = k' then Inr v else dict_item d k)"
  by (simp_all add: dict_item_def)

lemma dict_set_simps [simp]:
  "dict_set [] k v = [(k, v)]"
  "dict_set ((k', x) # d) k v = (if k' = k then (k, v) # d else (k', x) # dict_set d k v)"
  by (simp_all add: dict_set_def)

lemma dict_get_set [simp]:
  "dict_get (dict_set d k v) k' = (if k' = k then v else dict_get d k')"
  by (simp add: dict_get_def dict_get_or_def dict_set_def update_conv')

text \<open>
  The same operations on a value that need not be a dict: \<^verbatim>\<open>v.get(k)\<close> raises AttributeError
  on anything but a dict; \<^verbatim>\<open>v[k]\<close> with a string key raises TypeError on anything but a dict.
\<close>

definition json_get :: "json \<Rightarrow> string \<Rightarrow> json result" where
  "json_get v k = (case v of JObj d \<Rightarrow> Inr (dict_get d k) | _ \<Rightarrow> Inl AttributeError)"

definition json_item :: "json \<Rightarrow> string \<Rightarrow> json result" where
  "json_item v k = (case v of JObj d \<Rightarrow> dict_item d k | _ \<Rightarrow> Inl TypeError)"

text \<open>
  \<^verbatim>\<open>s in v\<close> for a string \<open>s\<close>: a key of a dict, a member of a list, a substring of a string;
  TypeError on the other values.
\<close>

definition json_contains :: "json \<Rightarrow> string \<Rightarrow> bool result" where
  "json_contains v s = (case v of
       JObj d \<Rightarrow> Inr (map_of d s \<noteq> None)
     | JList xs \<Rightarrow> Inr (JStr s \<in> set xs)
     | JStr t \<Rightarrow> Inr (sublist s t)
     | _ \<Rightarrow> Inl TypeError)"

lemma json_get_obj [simp]: "json_get (JObj d) k = Inr (dict_get d k)"
  by (simp add: json_get_def)

lemma json_item_obj [simp]: "json_item (JObj d) k = dict_item d k"
  by (simp add: json_item_def)

lemma json_contains_obj [simp]: "json_contains (JObj d) k = Inr (map_of d k \<noteq> None)"
  by (simp add: json_contains_def)

text \<open>\<^verbatim>\<open>for x in v\<close>: the elements of a list, the keys of a dict, the characters of a string.\<close>

definition json_iter :: "json \<Rightarrow> json list result" where
  "json_iter v = (case v of
       JList xs \<Rightarrow> Inr xs
     | JObj d \<Rightarrow> Inr (map (\<lambda>(k, _). JStr k) d)
     | JStr s \<Rightarrow> Inr (map (\<lambda>c. JStr [c]) s)
     | _ \<Rightarrow> Inl TypeError)"

lemma json_iter_list [simp]: "json_iter (JList xs) = Inr xs"
  by (simp add: json_iter_def)

section \<open>Results without state\<close>

definition rbind :: "'a result \<Rightarrow> ('a \<Rightarrow> 'b result) \<Rightarrow> 'b result" where
  "rbind r f = (case r of Inl e \<Rightarrow> Inl e | Inr x \<Rightarrow> f x)"

lemma rbind_simps [simp]:
  "rbind (Inl e) f = Inl e" "rbind (Inr x) f = f x"
  by (simp_all add: rbind_def)

lemma rbind_Inr_iff: "rbind r f = Inr y \<longleftrightarrow> (\<exists>x. r = Inr x \<and> f x = Inr y)"
  by (cases r) auto

lemma rbind_Inl_iff:
  "rbind r f = Inl e \<longleftrightarrow> r = Inl e \<or> (\<exists>x. r = Inr x \<and> f x = Inl e)"
  by (cases r) auto

text \<open>A list comprehension whose element expression may raise.\<close>

fun rmap :: "('a \<Rightarrow> 'b result) \<Rightarrow> 'a list \<Rightarrow> 'b list result" where
  "rmap f [] = Inr []"
| "rmap f (x # xs) = rbind (f x) (\<lambda>y. rbind (rmap f xs) (\<lambda>ys. Inr (y # ys)))"

lemma rmap_Inr_iff: "rmap f xs = Inr ys \<longleftrightarrow> list_all2 (\<lambda>x y. f x = Inr y) xs ys"
proof (induction xs arbitrary: ys)
  case Nil
  show ?case by auto
next
  case (Cons x xs)
  show ?case
    by (cases ys) (auto simp: rbind_Inr_iff Cons.IH)
qed

text \<open>The first element that raises decides the exception.\<close>

lemma rmap_Inl_iff:
  "rmap f xs = Inl e \<longleftrightarrow>
     (\<exists>us x vs. xs = us @ x # vs \<and> (\<forall>u \<in> set us. \<exists>y. f u = Inr y) \<and> f x = Inl e)"
proof (induction xs)
  case Nil
  show ?case by simp
next
  case (Cons x xs)
  show ?case
  proof (cases "f x")
    case (Inl e')
    have "rmap f (x # xs) = Inl e \<longleftrightarrow> e' = e" using Inl by simp
    also have "\<dots> \<longleftrightarrow> (\<exists>us z vs. x # xs = us @ z # vs \<and>
        (\<forall>u \<in> set us. \<exists>y. f u = Inr y) \<and> f z = Inl e)"
      using Inl by (auto simp: Cons_eq_append_conv intro: exI [of _ "[]"])
    finally show ?thesis .
  next
    case (Inr y)
    have "rmap f (x # xs) = Inl e \<longleftrightarrow> rmap f xs = Inl e"
      using Inr by (cases "rmap f xs") auto
    also have "\<dots> \<longleftrightarrow> (\<exists>us z vs. x # xs = us @ z # vs \<and>
        (\<forall>u \<in> set us. \<exists>y. f u = Inr y) \<and> f z = Inl e)"
      unfolding Cons.IH using Inr by (auto simp: Cons_eq_append_conv) (metis set_ConsD)+
    finally show ?thesis .
  qed
qed

section \<open>State passing with exceptions\<close>

type_synonym ('s, 'a) py = "'s \<Rightarrow> 'a result \<times> 's"

definition pret :: "'a \<Rightarrow> ('s, 'a) py" where
  "pret x s = (Inr x, s)"

definition praise :: "exc \<Rightarrow> ('s, 'a) py" where
  "praise e s = (Inl e, s)"

definition plift :: "'a result \<Rightarrow> ('s, 'a) py" where
  "plift r s = (r, s)"

definition pread :: "('s \<Rightarrow> 'a) \<Rightarrow> ('s, 'a) py" where
  "pread f s = (Inr (f s), s)"

definition pupdate :: "('s \<Rightarrow> 's) \<Rightarrow> ('s, unit) py" where
  "pupdate f s = (Inr (), f s)"

definition pbind :: "('s, 'a) py \<Rightarrow> ('a \<Rightarrow> ('s, 'b) py) \<Rightarrow> ('s, 'b) py" where
  "pbind m f s = (case m s of (Inl e, s') \<Rightarrow> (Inl e, s') | (Inr x, s') \<Rightarrow> f x s')"

text \<open>A list comprehension and a for loop whose body has effects.\<close>

fun pmap :: "('a \<Rightarrow> ('s, 'b) py) \<Rightarrow> 'a list \<Rightarrow> ('s, 'b list) py" where
  "pmap f [] = pret []"
| "pmap f (x # xs) = pbind (f x) (\<lambda>y. pbind (pmap f xs) (\<lambda>ys. pret (y # ys)))"

fun pfor :: "('a \<Rightarrow> ('s, unit) py) \<Rightarrow> 'a list \<Rightarrow> ('s, unit) py" where
  "pfor f [] = pret ()"
| "pfor f (x # xs) = pbind (f x) (\<lambda>_. pfor f xs)"

text \<open>
  \<^verbatim>\<open>try: m finally: fin\<close>: the finaliser runs on every path; an exception of its own replaces
  the result of the body, whatever that was.
\<close>

definition pfinally :: "('s, 'a) py \<Rightarrow> ('s, unit) py \<Rightarrow> ('s, 'a) py" where
  "pfinally m fin s = (case m s of (r, s') \<Rightarrow>
     (case fin s' of (Inl e, s'') \<Rightarrow> (Inl e, s'') | (Inr _, s'') \<Rightarrow> (r, s'')))"

lemma pbind_Inr [py_simps]: "m s = (Inr x, s') \<Longrightarrow> pbind m f s = f x s'"
  by (simp add: pbind_def)

lemma pbind_Inl [py_simps]: "m s = (Inl e, s') \<Longrightarrow> pbind m f s = (Inl e, s')"
  by (simp add: pbind_def)

text \<open>
  Programs without effects are normalised to pairing with their result, so that they meet no
  matter whether they are applied to a state.
\<close>

lemma pure_Pair [simp, py_simps]:
  "pret x = Pair (Inr x)" "praise e = Pair (Inl e)" "plift r = Pair r"
  by (rule ext, simp add: pret_def praise_def plift_def)+

lemma py_basic_simps [simp, py_simps]:
  "pread f s = (Inr (f s), s)"
  "pupdate g s = (Inr (), g s)"
  by (simp_all add: pread_def pupdate_def)

lemma pbind_Pair [simp, py_simps]:
  "pbind (Pair (Inr x)) k = k x"
  "pbind (Pair (Inl e)) k = Pair (Inl e)"
  by (rule ext, simp add: pbind_def)+

lemma pbind_basic_simps [simp, py_simps]:
  "pbind (pread f) k s = k (f s) s"
  "pbind (pupdate g) k' s = k' () (g s)"
  by (simp_all add: pbind_def)

lemma pbind_result_iff:
  "pbind m f s = (Inr y, t) \<longleftrightarrow> (\<exists>x s'. m s = (Inr x, s') \<and> f x s' = (Inr y, t))"
  by (auto simp: pbind_def split: prod.splits sum.splits)

lemma pbind_error_iff:
  "pbind m f s = (Inl e, t) \<longleftrightarrow>
     m s = (Inl e, t) \<or> (\<exists>x s'. m s = (Inr x, s') \<and> f x s' = (Inl e, t))"
  by (auto simp: pbind_def split: prod.splits sum.splits)

lemma pmap_length: "pmap f xs s = (Inr ys, t) \<Longrightarrow> length ys = length xs"
  by (induction xs arbitrary: s ys) (auto simp: pbind_result_iff)

section \<open>What a program keeps\<close>

text \<open>
  \<open>keeps R m\<close>: whatever \<open>m\<close> does, and whether or not it raises, the state after is
  related to the state before.  With \<open>R\<close> an equality of some fields this is a frame
  condition, with \<open>R s t = (I s \<longrightarrow> I t)\<close> the preservation of an invariant, with an order a
  monotonicity.
\<close>

definition keeps :: "('s \<Rightarrow> 's \<Rightarrow> bool) \<Rightarrow> ('s, 'a) py \<Rightarrow> bool" where
  "keeps R m \<longleftrightarrow> (\<forall>s. R s (snd (m s)))"

lemma keepsI: "(\<And>s. R s (snd (m s))) \<Longrightarrow> keeps R m"
  by (simp add: keeps_def)

lemma keepsD: "keeps R m \<Longrightarrow> m s = (r, t) \<Longrightarrow> R s t"
  unfolding keeps_def by (metis snd_conv)

lemma keeps_snd: "keeps R m \<Longrightarrow> R s (snd (m s))"
  by (simp add: keeps_def)

text \<open>
  The contract: a relation that a sequence of steps may be checked against one step at a time.
\<close>

locale step_order =
  fixes R :: "'s \<Rightarrow> 's \<Rightarrow> bool"
  assumes step_refl: "R s s"
    and step_trans: "R s t \<Longrightarrow> R t u \<Longrightarrow> R s u"
begin

lemma keeps_basic [frame_intro]:
  "keeps R (pret x)" "keeps R (praise e)" "keeps R (plift r)" "keeps R (pread f)"
  "keeps R (Pair r)"
  by (simp_all add: keeps_def step_refl)

lemma keeps_bind [frame_intro]:
  assumes "keeps R m" and "\<And>x. keeps R (f x)"
  shows "keeps R (pbind m f)"
proof (rule keepsI)
  fix s
  obtain r t where m: "m s = (r, t)" by fastforce
  have st: "R s t" using assms(1) m by (rule keepsD)
  show "R s (snd (pbind m f s))"
  proof (cases r)
    case (Inl e)
    then show ?thesis using m st by (simp add: pbind_def)
  next
    case (Inr x)
    have "R t (snd (f x t))" using assms(2) by (simp add: keeps_def)
    then show ?thesis using m st Inr by (simp add: pbind_def) (rule step_trans)
  qed
qed

lemma keeps_map [frame_intro]: "(\<And>x. keeps R (f x)) \<Longrightarrow> keeps R (pmap f xs)"
  by (induction xs) (auto intro!: keeps_basic keeps_bind)

lemma keeps_for [frame_intro]: "(\<And>x. keeps R (f x)) \<Longrightarrow> keeps R (pfor f xs)"
  by (induction xs) (auto intro!: keeps_basic keeps_bind)

lemma keeps_finally [frame_intro]:
  assumes "keeps R m" and "keeps R fin"
  shows "keeps R (pfinally m fin)"
proof (rule keepsI)
  fix s
  obtain r t where m: "m s = (r, t)" by fastforce
  obtain r' u where fin: "fin t = (r', u)" by fastforce
  have "R s u"
    using keepsD [OF assms(1) m] keepsD [OF assms(2) fin] by (rule step_trans)
  then show "R s (snd (pfinally m fin s))"
    using m fin by (cases r') (simp_all add: pfinally_def)
qed

end

section \<open>Encoders and decoders\<close>

text \<open>
  The contract of a pair of an encoder and a decoder that may raise: decoding inverts
  encoding on the well-formed values, and only well-formed values are ever decoded.
\<close>

locale codec =
  fixes enc :: "'a \<Rightarrow> 'b"
    and dec :: "'b \<Rightarrow> 'a result"
    and wf :: "'a \<Rightarrow> bool"
  assumes dec_enc: "wf x \<Longrightarrow> dec (enc x) = Inr x"
    and dec_wf: "dec y = Inr x \<Longrightarrow> wf x"
begin

lemma dec_enc_iff: "dec (enc x) = Inr x \<longleftrightarrow> wf x"
  using dec_enc dec_wf by blast

lemma dec_idem: "dec y = Inr x \<Longrightarrow> dec (enc x) = Inr x"
  by (simp add: dec_enc dec_wf)

lemma enc_inj: "inj_on enc {x. wf x}"
  by (rule inj_onI) (metis dec_enc mem_Collect_eq sum.inject(2))

end

section \<open>Lists\<close>

lemma list_all2_map_eq: "list_all2 (\<lambda>x y. f x = g y) xs ys \<longleftrightarrow> map f xs = map g ys"
  by (induction xs arbitrary: ys) (case_tac ys; auto)+

lemma distinct_map_fst_index:
  "distinct (map fst ps) \<Longrightarrow> (k, v) \<in> set ps \<Longrightarrow> map_of ps k = Some v"
  by simp

end
