(* ===== verification/Transactions.thy ===== *)
theory Transactions
  imports Py_Prelude
begin

text \<open>
  The transactions of the block builder (\<^verbatim>\<open>block_builder/transaction.py\<close>): the frozen dataclass
  \<^verbatim>\<open>Transaction\<close>, its parser \<^verbatim>\<open>fromJson\<close>, its printers \<^verbatim>\<open>toJson\<close> and \<^verbatim>\<open>toRpcParams\<close>, and the two
  field readers.  The parser is shown equal to a table of field checks, inverse to \<^verbatim>\<open>toJson\<close>, and
  \<^verbatim>\<open>toRpcParams\<close> is shown to forget exactly the hash, the type and the chain id.
\<close>

section \<open>Data and operations\<close>

record Transaction =
  tx_hash :: "string option"
  tx_type :: "string option"
  tx_chainId :: "string option"
  tx_nonce :: string
  tx_fromAddress :: string
  tx_toAddress :: "string option"
  tx_value :: string
  tx_gas :: string
  tx_gasPrice :: "string option"
  tx_maxFeePerGas :: "string option"
  tx_maxPriorityFeePerGas :: "string option"
  tx_input :: string

text \<open>\<open>''' + key + '''\<close> written out: the quoted key of the messages.\<close>

definition quoted :: "string \<Rightarrow> string" where
  "quoted key = [CHR 0x27] @ key @ [CHR 0x27]"

definition required_str :: "dict \<Rightarrow> string \<Rightarrow> string result" where
  "required_str data key = (case dict_get data key of
       JStr value \<Rightarrow>
         (if value = '''' then Inl (ValueError [Txt (quoted key @ '' must be a non-empty string'')])
          else Inr value)
     | _ \<Rightarrow> Inl (ValueError [Txt (quoted key @ '' must be a non-empty string'')]))"

definition optional_str :: "dict \<Rightarrow> string \<Rightarrow> string option result" where
  "optional_str data key = (case dict_get data key of
       JNull \<Rightarrow> Inr None
     | JStr value \<Rightarrow> Inr (Some value)
     | _ \<Rightarrow> Inl (ValueError [Txt (quoted key @ '' must be a string'')]))"

text \<open>\<open>_optional_str(data, "value") or "0x0"\<close>: both \<open>None\<close> and the empty string are falsy.\<close>

definition str_or :: "string option \<Rightarrow> string \<Rightarrow> string" where
  "str_or v w = (case v of None \<Rightarrow> w | Some s \<Rightarrow> if s = '''' then w else s)"

definition Transaction_fromJson :: "dict \<Rightarrow> Transaction result" where
  "Transaction_fromJson data =
     rbind (optional_str data ''hash'') (\<lambda>h.
     rbind (optional_str data ''type'') (\<lambda>ty.
     rbind (optional_str data ''chainId'') (\<lambda>ch.
     rbind (required_str data ''nonce'') (\<lambda>no.
     rbind (required_str data ''from'') (\<lambda>fr.
     rbind (optional_str data ''to'') (\<lambda>to.
     rbind (optional_str data ''value'') (\<lambda>va.
     rbind (required_str data ''gas'') (\<lambda>ga.
     rbind (optional_str data ''gasPrice'') (\<lambda>gp.
     rbind (optional_str data ''maxFeePerGas'') (\<lambda>mf.
     rbind (optional_str data ''maxPriorityFeePerGas'') (\<lambda>mp.
     rbind (required_str data ''input'') (\<lambda>inp.
       Inr \<lparr>tx_hash = h, tx_type = ty, tx_chainId = ch, tx_nonce = no, tx_fromAddress = fr,
            tx_toAddress = to, tx_value = str_or va ''0x0'', tx_gas = ga, tx_gasPrice = gp,
            tx_maxFeePerGas = mf, tx_maxPriorityFeePerGas = mp, tx_input = inp\<rparr>))))))))))))"

definition Transaction_toJson :: "Transaction \<Rightarrow> dict" where
  "Transaction_toJson t =
     [(''hash'', opt_json (tx_hash t)),
      (''type'', opt_json (tx_type t)),
      (''chainId'', opt_json (tx_chainId t)),
      (''nonce'', JStr (tx_nonce t)),
      (''from'', JStr (tx_fromAddress t)),
      (''to'', opt_json (tx_toAddress t)),
      (''value'', JStr (tx_value t)),
      (''gas'', JStr (tx_gas t)),
      (''gasPrice'', opt_json (tx_gasPrice t)),
      (''maxFeePerGas'', opt_json (tx_maxFeePerGas t)),
      (''maxPriorityFeePerGas'', opt_json (tx_maxPriorityFeePerGas t)),
      (''input'', JStr (tx_input t))]"

text \<open>\<open>if v is not None: params[key] = v\<close>\<close>

definition set_if_some :: "string \<Rightarrow> string option \<Rightarrow> dict \<Rightarrow> dict" where
  "set_if_some key v params = (case v of None \<Rightarrow> params | Some s \<Rightarrow> dict_set params key (JStr s))"

definition Transaction_toRpcParams :: "Transaction \<Rightarrow> dict" where
  "Transaction_toRpcParams t =
     set_if_some ''maxPriorityFeePerGas'' (tx_maxPriorityFeePerGas t)
      (set_if_some ''maxFeePerGas'' (tx_maxFeePerGas t)
       (set_if_some ''gasPrice'' (tx_gasPrice t)
         [(''from'', JStr (tx_fromAddress t)),
          (''to'', opt_json (tx_toAddress t)),
          (''nonce'', JStr (tx_nonce t)),
          (''value'', JStr (tx_value t)),
          (''gas'', JStr (tx_gas t)),
          (''data'', JStr (tx_input t))]))"

section \<open>The parser as a table of field checks\<close>

text \<open>
  The reference: the fields in the order the keyword arguments are evaluated, each required or
  optional; what makes a field acceptable; what a bad field raises; what is read when all
  fields are good.
\<close>

datatype presence = Required | Optional

definition field_order :: "(string \<times> presence) list" where
  "field_order =
     [(''hash'', Optional), (''type'', Optional), (''chainId'', Optional), (''nonce'', Required),
      (''from'', Required), (''to'', Optional), (''value'', Optional), (''gas'', Required),
      (''gasPrice'', Optional), (''maxFeePerGas'', Optional),
      (''maxPriorityFeePerGas'', Optional), (''input'', Required)]"

fun field_ok :: "dict \<Rightarrow> string \<times> presence \<Rightarrow> bool" where
  "field_ok data (key, Required) = (\<exists>c s. dict_get data key = JStr (c # s))"
| "field_ok data (key, Optional) = (dict_get data key = JNull \<or> (\<exists>s. dict_get data key = JStr s))"

fun field_error :: "string \<times> presence \<Rightarrow> exc" where
  "field_error (key, Required) = ValueError [Txt (quoted key @ '' must be a non-empty string'')]"
| "field_error (key, Optional) = ValueError [Txt (quoted key @ '' must be a string'')]"

definition read_opt :: "dict \<Rightarrow> string \<Rightarrow> string option" where
  "read_opt data key = (case dict_get data key of JStr s \<Rightarrow> Some s | _ \<Rightarrow> None)"

definition read_str :: "dict \<Rightarrow> string \<Rightarrow> string" where
  "read_str data key = str_or (read_opt data key) ''''"

definition read_transaction :: "dict \<Rightarrow> Transaction" where
  "read_transaction data =
     \<lparr>tx_hash = read_opt data ''hash'', tx_type = read_opt data ''type'',
      tx_chainId = read_opt data ''chainId'', tx_nonce = read_str data ''nonce'',
      tx_fromAddress = read_str data ''from'', tx_toAddress = read_opt data ''to'',
      tx_value = str_or (read_opt data ''value'') ''0x0'', tx_gas = read_str data ''gas'',
      tx_gasPrice = read_opt data ''gasPrice'', tx_maxFeePerGas = read_opt data ''maxFeePerGas'',
      tx_maxPriorityFeePerGas = read_opt data ''maxPriorityFeePerGas'',
      tx_input = read_str data ''input''\<rparr>"

text \<open>Each reader is its row of the table.\<close>

lemma str_or_simps [simp]:
  "str_or None w = w" "str_or (Some (c # s)) w = c # s" "str_or (Some []) w = w"
  by (simp_all add: str_or_def)

lemma required_str_table:
  "required_str data key =
     (if field_ok data (key, Required) then Inr (read_str data key)
      else Inl (field_error (key, Required)))"
  by (auto simp: required_str_def read_str_def read_opt_def neq_Nil_conv split: json.splits)

lemma optional_str_table:
  "optional_str data key =
     (if field_ok data (key, Optional) then Inr (read_opt data key)
      else Inl (field_error (key, Optional)))"
  by (auto simp: optional_str_def read_opt_def split: json.splits)

lemmas reader_tables = required_str_table optional_str_table

lemma rbind_if:
  "rbind (if b then Inr x else Inl e) f = (if b then f x else Inl e)"
  by simp

definition wf_transaction :: "Transaction \<Rightarrow> bool" where
  "wf_transaction t \<longleftrightarrow> tx_nonce t \<noteq> '''' \<and> tx_fromAddress t \<noteq> '''' \<and> tx_value t \<noteq> '''' \<and>
     tx_gas t \<noteq> '''' \<and> tx_input t \<noteq> ''''"

lemma table_of_fields:
  "Transaction_fromJson data =
     (case List.find (\<lambda>f. \<not> field_ok data f) field_order of
        Some f \<Rightarrow> Inl (field_error f)
      | None \<Rightarrow> Inr (read_transaction data))"
  unfolding Transaction_fromJson_def reader_tables rbind_if field_order_def read_transaction_def
  by (simp del: field_ok.simps field_error.simps)

text \<open>
  Parsing a transaction is the table of field checks: the first field of the evaluation
  order that is not acceptable decides the ValueError, and when there is none the transaction
  read from the fields is returned, with value 0x0 for an absent, null or empty value.
\<close>

theorem transaction_fromJson_table:
  "Transaction_fromJson data =
     (case List.find (\<lambda>f. \<not> field_ok data f) field_order of
        Some f \<Rightarrow> Inl (field_error f)
      | None \<Rightarrow> Inr (read_transaction data))"
  by (rule table_of_fields)

lemma read_str_nonempty: "field_ok data (key, Required) \<Longrightarrow> read_str data key \<noteq> ''''"
  by (auto simp: read_str_def read_opt_def)

lemma str_or_nonempty: "w \<noteq> '''' \<Longrightarrow> str_or v w \<noteq> ''''"
  by (simp add: str_or_def split: option.splits)

lemma fromJson_wf:
  assumes "Transaction_fromJson data = Inr t"
  shows "wf_transaction t"
proof -
  have t: "t = read_transaction data" and ok: "\<forall>f \<in> set field_order. field_ok data f"
    using assms by (auto simp: table_of_fields find_None_iff split: option.splits)
  show ?thesis
    using ok unfolding t wf_transaction_def
    by (simp add: field_order_def read_transaction_def read_str_nonempty str_or_nonempty
        del: field_ok.simps)
qed

lemma optional_str_of_opt:
  "dict_get data key = opt_json v \<Longrightarrow> optional_str data key = Inr v"
  by (cases v) (simp_all add: optional_str_def)

lemma required_str_of_str:
  "dict_get data key = JStr v \<Longrightarrow> v \<noteq> '''' \<Longrightarrow> required_str data key = Inr v"
  by (simp add: required_str_def)

lemma fromJson_toJson:
  assumes "wf_transaction t"
  shows "Transaction_fromJson (Transaction_toJson t) = Inr t"
proof -
  let ?d = "Transaction_toJson t"
  have opts:
    "optional_str ?d ''hash'' = Inr (tx_hash t)" "optional_str ?d ''type'' = Inr (tx_type t)"
    "optional_str ?d ''chainId'' = Inr (tx_chainId t)"
    "optional_str ?d ''to'' = Inr (tx_toAddress t)"
    "optional_str ?d ''value'' = Inr (Some (tx_value t))"
    "optional_str ?d ''gasPrice'' = Inr (tx_gasPrice t)"
    "optional_str ?d ''maxFeePerGas'' = Inr (tx_maxFeePerGas t)"
    "optional_str ?d ''maxPriorityFeePerGas'' = Inr (tx_maxPriorityFeePerGas t)"
    by (simp_all add: optional_str_of_opt Transaction_toJson_def)
  have reqs:
    "required_str ?d ''nonce'' = Inr (tx_nonce t)"
    "required_str ?d ''from'' = Inr (tx_fromAddress t)"
    "required_str ?d ''gas'' = Inr (tx_gas t)" "required_str ?d ''input'' = Inr (tx_input t)"
    using assms by (simp_all add: required_str_of_str Transaction_toJson_def wf_transaction_def)
  have "str_or (Some (tx_value t)) ''0x0'' = tx_value t"
    using assms by (simp add: str_or_def wf_transaction_def)
  then show ?thesis
    by (simp add: Transaction_fromJson_def opts reqs)
qed

interpretation tx_codec: codec Transaction_toJson Transaction_fromJson wf_transaction
  by unfold_locales (simp_all add: fromJson_toJson fromJson_wf)

text \<open>
  Printing then parsing: a transaction comes back unchanged from its own JSON exactly when
  its nonce, sender, value, gas and input are non-empty, which every parsed transaction is.
\<close>

theorem transaction_roundtrip:
  "(Transaction_fromJson (Transaction_toJson t) = Inr t) = wf_transaction t"
  by (rule tx_codec.dec_enc_iff)

section \<open>What the node is sent\<close>

text \<open>
  The parameters sent to the node decide the transaction up to its hash, its type and its
  chain id, which are never sent: two transactions give the same parameters exactly when they
  agree on every other field.
\<close>

theorem rpc_params_forget:
  "(Transaction_toRpcParams t = Transaction_toRpcParams u) =
     (t\<lparr>tx_hash := None, tx_type := None, tx_chainId := None\<rparr> =
      u\<lparr>tx_hash := None, tx_type := None, tx_chainId := None\<rparr>)"
  by (cases t; cases u)
     (auto simp: Transaction_toRpcParams_def set_if_some_def split: option.splits)

end
