(* ===== verification/World.thy ===== *)
theory World
  imports Py_Prelude
begin

text \<open>
  Everything outside the repository that the code talks to, as parameters of the model: the
  JSON-RPC node (Anvil), the clock, \<^verbatim>\<open>time.sleep\<close>, \<^verbatim>\<open>uuid4\<close>, the websockets and the order in
  which Python iterates over a set.  The outside world has a state of its own, of any type
  \<open>'w\<close>; each parameter is a function of that state.  Nothing is assumed about them here.
\<close>

section \<open>The parameters\<close>

text \<open>
  What \<^verbatim>\<open>urlopen\<close>, reading, decoding and \<^verbatim>\<open>json.loads\<close> can end in: a JSON document; an
  \<^verbatim>\<open>HTTPError\<close> or a \<^verbatim>\<open>URLError\<close> with its text; a body that is no UTF-8 or no JSON (a subclass of
  \<^verbatim>\<open>ValueError\<close>); any other exception of the library, such as a timeout while reading.
\<close>

datatype transport =
    Reply json
  | HttpErr string
  | UrlErr string
  | BadBody string
  | LibErr string

type_synonym ws = nat

record 'w env =
  node :: "string \<Rightarrow> json \<Rightarrow> 'w \<Rightarrow> transport \<times> 'w"
  sleep :: "rat \<Rightarrow> 'w \<Rightarrow> 'w"
  uuid_hex :: "'w \<Rightarrow> string \<times> 'w"
  clock :: "'w \<Rightarrow> string \<times> 'w"
  ws_accept :: "ws \<Rightarrow> 'w \<Rightarrow> bool \<times> 'w"
  ws_send :: "ws \<Rightarrow> json \<Rightarrow> 'w \<Rightarrow> bool \<times> 'w"
  ws_order :: "ws set \<Rightarrow> ws list"

record 'w world_state =
  world :: 'w

text \<open>Running one of the parameters on the world inside the program's state.\<close>

definition on_world :: "('w \<Rightarrow> 'a \<times> 'w) \<Rightarrow> (('w, 'z) world_state_scheme, 'a) py" where
  "on_world f s = (case f (world s) of (x, w) \<Rightarrow> (Inr x, s\<lparr>world := w\<rparr>))"

definition py_sleep :: "'w env \<Rightarrow> rat \<Rightarrow> (('w, 'z) world_state_scheme, unit) py" where
  "py_sleep env d = pupdate (\<lambda>s. s\<lparr>world := sleep env d (world s)\<rparr>)"

lemma on_world_basic [simp]:
  "on_world f s = (Inr (fst (f (world s))), s\<lparr>world := snd (f (world s))\<rparr>)"
  by (simp add: on_world_def split: prod.split)

lemma pbind_on_world [simp]:
  "pbind (on_world f) k s = k (fst (f (world s))) (s\<lparr>world := snd (f (world s))\<rparr>)"
  by (simp add: pbind_def)

lemma py_sleep_basic [simp]:
  "py_sleep env d s = (Inr (), s\<lparr>world := sleep env d (world s)\<rparr>)"
  by (simp add: py_sleep_def)

lemma pbind_py_sleep [simp]:
  "pbind (py_sleep env d) k s = k () (s\<lparr>world := sleep env d (world s)\<rparr>)"
  by (simp add: pbind_def)

section \<open>Recording the requests\<close>

text \<open>
  The same world with a log of the request bodies the node was sent, oldest first.  A property
  of the order of the node calls is stated of the log of a run in the recorded world.
\<close>

definition traced :: "'w env \<Rightarrow> ('w \<times> json list) env" where
  "traced env =
     \<lparr>node = (\<lambda>url body (w, tr). case node env url body w of (r, w') \<Rightarrow> (r, (w', tr @ [body]))),
      sleep = (\<lambda>d (w, tr). (sleep env d w, tr)),
      uuid_hex = (\<lambda>(w, tr). case uuid_hex env w of (x, w') \<Rightarrow> (x, (w', tr))),
      clock = (\<lambda>(w, tr). case clock env w of (x, w') \<Rightarrow> (x, (w', tr))),
      ws_accept = (\<lambda>c (w, tr). case ws_accept env c w of (x, w') \<Rightarrow> (x, (w', tr))),
      ws_send = (\<lambda>c m (w, tr). case ws_send env c m w of (x, w') \<Rightarrow> (x, (w', tr))),
      ws_order = ws_order env\<rparr>"

definition trace :: "('w \<times> 'l, 'z) world_state_scheme \<Rightarrow> 'l" where
  "trace s = snd (world s)"

lemma traced_simps [simp]:
  "snd (snd (node (traced env) url body w)) = snd w @ [body]"
  "snd (sleep (traced env) d w) = snd w"
  "snd (snd (uuid_hex (traced env) w)) = snd w"
  "snd (snd (clock (traced env) w)) = snd w"
  "snd (snd (ws_accept (traced env) c w)) = snd w"
  "snd (snd (ws_send (traced env) c m w)) = snd w"
  by (simp_all add: traced_def split: prod.splits)

end
