(* ===== verification/Anvil_Client.thy ===== *)
theory Anvil_Client
  imports Transactions World
begin

text \<open>
  The JSON-RPC client (\<^verbatim>\<open>block_builder/anvil.py\<close>): its state is the URL and the number of the last
  request, its operations are the JSON-RPC methods the builder uses.  The lemmas say what each
  reply turns into, that requests are numbered consecutively, and what polling for a receipt
  returns and how many requests it makes.
\<close>

section \<open>State and operations\<close>

record 'w anvil_state = "'w world_state" +
  rpcUrl :: string
  requestId :: int

definition rpc_body :: "int \<Rightarrow> string \<Rightarrow> json \<Rightarrow> json" where
  "rpc_body i method params =
     JObj [(''jsonrpc'', JStr ''2.0''), (''id'', JInt i), (''method'', JStr method),
           (''params'', params)]"

fun decode_reply :: "transport \<Rightarrow> json result" where
  "decode_reply (Reply payload) = Inr payload"
| "decode_reply (HttpErr m) = Inl (RuntimeError [Txt ''Anvil RPC request failed: '', Txt m])"
| "decode_reply (UrlErr m) = Inl (RuntimeError [Txt ''Anvil RPC request failed: '', Txt m])"
| "decode_reply (BadBody m) = Inl (ValueError [Txt m])"
| "decode_reply (LibErr m) = Inl (OtherError m)"

definition anvil_rpc :: "'w env \<Rightarrow> string \<Rightarrow> json \<Rightarrow> (('w, 'z) anvil_state_scheme, json) py" where
  "anvil_rpc env method params =
     pbind (pupdate (\<lambda>s. s\<lparr>requestId := requestId s + 1\<rparr>)) (\<lambda>_.
     pbind (pread (\<lambda>s. rpc_body (requestId s) method params)) (\<lambda>body.
     pbind (pread rpcUrl) (\<lambda>url.
     pbind (on_world (node env url body)) (\<lambda>reply.
     pbind (plift (decode_reply reply)) (\<lambda>payload.
     pbind (plift (json_contains payload ''error'')) (\<lambda>failed.
     if failed
     then pbind (plift (json_item payload ''error''))
            (\<lambda>e. praise (RuntimeError [Txt ''Anvil RPC error: '', Val e]))
     else plift (json_get payload ''result'')))))))"

definition anvil_sendTransaction ::
  "'w env \<Rightarrow> Transaction \<Rightarrow> (('w, 'z) anvil_state_scheme, json) py" where
  "anvil_sendTransaction env t =
     anvil_rpc env ''eth_sendTransaction'' (JList [JObj (Transaction_toRpcParams t)])"

definition anvil_mineBlock :: "'w env \<Rightarrow> (('w, 'z) anvil_state_scheme, unit) py" where
  "anvil_mineBlock env = pbind (anvil_rpc env ''evm_mine'' (JList [])) (\<lambda>_. pret ())"

definition anvil_snapshot :: "'w env \<Rightarrow> (('w, 'z) anvil_state_scheme, json) py" where
  "anvil_snapshot env = anvil_rpc env ''evm_snapshot'' (JList [])"

definition anvil_revert :: "'w env \<Rightarrow> json \<Rightarrow> (('w, 'z) anvil_state_scheme, unit) py" where
  "anvil_revert env snapshotId =
     pbind (anvil_rpc env ''evm_revert'' (JList [snapshotId])) (\<lambda>reverted.
     if reverted \<noteq> JBool True
     then praise (RuntimeError [Txt ''Anvil failed to revert snapshot '', Val snapshotId])
     else pret ())"

definition anvil_getLatestBlock :: "'w env \<Rightarrow> (('w, 'z) anvil_state_scheme, json) py" where
  "anvil_getLatestBlock env =
     anvil_rpc env ''eth_getBlockByNumber'' (JList [JStr ''latest'', JBool False])"

definition anvil_call ::
  "'w env \<Rightarrow> dict \<Rightarrow> string \<Rightarrow> (('w, 'z) anvil_state_scheme, json) py" where
  "anvil_call env callParams block =
     anvil_rpc env ''eth_call'' (JList [JObj callParams, JStr block])"

definition anvil_getReceipt :: "'w env \<Rightarrow> json \<Rightarrow> (('w, 'z) anvil_state_scheme, json) py" where
  "anvil_getReceipt env txHash = anvil_rpc env ''eth_getTransactionReceipt'' (JList [txHash])"

text \<open>
  The polling loop; the attempts left are its fuel and it returns \<open>None\<close> when they are used up.
  The code sleeps after every attempt that found nothing, the last one too.
\<close>

fun anvil_waitForReceipt ::
  "'w env \<Rightarrow> json \<Rightarrow> nat \<Rightarrow> rat \<Rightarrow> (('w, 'z) anvil_state_scheme, json) py" where
  "anvil_waitForReceipt env txHash 0 delay = pret JNull"
| "anvil_waitForReceipt env txHash (Suc attempts) delay =
     pbind (anvil_getReceipt env txHash) (\<lambda>receipt.
     if receipt \<noteq> JNull then pret receipt
     else pbind (py_sleep env delay)
            (\<lambda>_. anvil_waitForReceipt env txHash attempts delay))"

definition receipt_attempts :: nat where "receipt_attempts = 20"
definition receipt_delay :: rat where "receipt_delay = 1 / 10"

section \<open>One request\<close>

text \<open>What the client makes of a reply.\<close>

definition rpc_outcome :: "transport \<Rightarrow> json result" where
  "rpc_outcome reply =
     rbind (decode_reply reply) (\<lambda>payload.
     rbind (json_contains payload ''error'') (\<lambda>failed.
     if failed then rbind (json_item payload ''error'')
                      (\<lambda>e. Inl (RuntimeError [Txt ''Anvil RPC error: '', Val e]))
     else json_get payload ''result''))"

lemma anvil_rpc_run:
  "anvil_rpc env method params s =
     (let body = rpc_body (requestId s + 1) method params;
          out = node env (rpcUrl s) body (world s)
      in (rpc_outcome (fst out), s\<lparr>requestId := requestId s + 1, world := snd out\<rparr>))"
  by (simp add: anvil_rpc_def rpc_outcome_def rbind_def pbind_def Let_def split: sum.splits)

lemma rpc_outcome_obj [simp]:
  "rpc_outcome (Reply (JObj d)) =
     (case map_of d ''error'' of
        Some e \<Rightarrow> Inl (RuntimeError [Txt ''Anvil RPC error: '', Val e])
      | None \<Rightarrow> Inr (dict_get d ''result''))"
  by (simp add: rpc_outcome_def dict_item_def split: option.splits)

lemma rpc_requestId [simp]: "requestId (snd (anvil_rpc env m p s)) = requestId s + 1"
  by (simp add: anvil_rpc_run Let_def)

lemma rpc_rpcUrl [simp]: "rpcUrl (snd (anvil_rpc env m p s)) = rpcUrl s"
  by (simp add: anvil_rpc_run Let_def)

lemma rpc_more [simp]: "anvil_state.more (snd (anvil_rpc env m p s)) = anvil_state.more s"
  by (simp add: anvil_rpc_run Let_def)

text \<open>
  C40. A request to the node has the next request number whatever happens; a JSON object without
  an error member yields its result member, or None when it has none; with an error member,
  and on an HTTP or URL error, the client raises RuntimeError; a body that is not JSON raises
  ValueError, a JSON array or text raises AttributeError or TypeError, and a number, a boolean
  or null TypeError.
\<close>

theorem rpc_classification:
  "requestId (snd (anvil_rpc env m p s)) = requestId s + 1 \<and>
   fst (anvil_rpc env m p s) =
     (case fst (node env (rpcUrl s) (rpc_body (requestId s + 1) m p) (world s)) of
        Reply (JObj d) \<Rightarrow>
          (case map_of d ''error'' of
             Some e \<Rightarrow> Inl (RuntimeError [Txt ''Anvil RPC error: '', Val e])
           | None \<Rightarrow> Inr (dict_get d ''result''))
      | Reply (JList xs) \<Rightarrow> Inl (if JStr ''error'' \<in> set xs then TypeError else AttributeError)
      | Reply (JStr t) \<Rightarrow> Inl (if sublist ''error'' t then TypeError else AttributeError)
      | Reply _ \<Rightarrow> Inl TypeError
      | HttpErr e \<Rightarrow> Inl (RuntimeError [Txt ''Anvil RPC request failed: '', Txt e])
      | UrlErr e \<Rightarrow> Inl (RuntimeError [Txt ''Anvil RPC request failed: '', Txt e])
      | BadBody e \<Rightarrow> Inl (ValueError [Txt e])
      | LibErr e \<Rightarrow> Inl (OtherError e))"
  by (simp add: anvil_rpc_run Let_def split: transport.split json.split)
     (simp add: rpc_outcome_def json_contains_def json_get_def json_item_def)

section \<open>Polling for a receipt\<close>

text \<open>The state after one attempt that found nothing and the sleep after it.\<close>

definition poll_step ::
  "'w env \<Rightarrow> json \<Rightarrow> rat \<Rightarrow> ('w, 'z) anvil_state_scheme \<Rightarrow> ('w, 'z) anvil_state_scheme" where
  "poll_step env txHash delay s =
     snd (pbind (anvil_getReceipt env txHash) (\<lambda>_. py_sleep env delay) s)"

definition polled ::
  "'w env \<Rightarrow> json \<Rightarrow> rat \<Rightarrow> nat \<Rightarrow> ('w, 'z) anvil_state_scheme \<Rightarrow> ('w, 'z) anvil_state_scheme"
  where
  "polled env txHash delay i s = (poll_step env txHash delay ^^ i) s"

lemma polled_simps [simp]:
  "polled env h d 0 s = s"
  "polled env h d (Suc i) s = polled env h d i (poll_step env h d s)"
  by (simp_all add: polled_def funpow_swap1)

lemma find_upt_Suc:
  "List.find P [0..<Suc n] =
     (if P 0 then Some 0 else map_option Suc (List.find (\<lambda>i. P (Suc i)) [0..<n]))"
proof -
  have "List.find P (map Suc xs) = map_option Suc (List.find (\<lambda>i. P (Suc i)) xs)" for xs
    by (induction xs) simp_all
  then show ?thesis
    by (simp add: upt_conv_Cons map_Suc_upt [symmetric] del: upt_Suc)
qed

text \<open>
  Polling makes at most the given number of attempts and answers with the first one that
  does not come back as None, whether a receipt or an exception, in the state that attempt
  leaves; when every attempt finds None the answer is None, after all the sleeps.
\<close>

theorem waitForReceipt_first:
  "anvil_waitForReceipt env h n d s =
     (case List.find (\<lambda>i. fst (anvil_getReceipt env h (polled env h d i s)) \<noteq> Inr JNull) [0..<n] of
        Some i \<Rightarrow> anvil_getReceipt env h (polled env h d i s)
      | None \<Rightarrow> (Inr JNull, polled env h d n s))"
proof (induction n arbitrary: s)
  case 0
  show ?case by simp
next
  case (Suc n)
  obtain r t where g: "anvil_getReceipt env h s = (r, t)" by fastforce
  show ?case
  proof (cases "r = Inr JNull")
    case True
    then have "poll_step env h d s = t\<lparr>world := sleep env d (world t)\<rparr>"
      using g by (simp add: poll_step_def pbind_def)
    with True g show ?thesis
      by (simp add: Suc.IH find_upt_Suc pbind_Inr option.case_eq_if option.map_sel del: upt_Suc)
  next
    case False
    then show ?thesis
      using g by (cases r) (simp_all add: find_upt_Suc pbind_def del: upt_Suc)
  qed
qed

section \<open>What the client keeps\<close>

text \<open>
  Everything but the request number and the world is left alone, and the request number never
  goes down.
\<close>

definition anvil_frame ::
  "('w, 'z) anvil_state_scheme \<Rightarrow> ('w, 'z) anvil_state_scheme \<Rightarrow> bool" where
  "anvil_frame s t \<longleftrightarrow> anvil_state.more t = anvil_state.more s \<and> rpcUrl t = rpcUrl s \<and>
     requestId s \<le> requestId t"

text \<open>
  In the recorded world: the requests made between two states are numbered consecutively from
  the number after the first state's.
\<close>

definition body_id :: "json \<Rightarrow> json" where
  "body_id body = (case body of JObj d \<Rightarrow> dict_get d ''id'' | _ \<Rightarrow> JNull)"

definition numbered ::
  "('w \<times> json list, 'z) anvil_state_scheme \<Rightarrow> ('w \<times> json list, 'z) anvil_state_scheme \<Rightarrow> bool"
  where
  "numbered s t \<longleftrightarrow> requestId s \<le> requestId t \<and>
     (\<exists>bodies. trace t = trace s @ bodies \<and>
        map body_id bodies = map JInt [requestId s + 1..requestId t])"

interpretation anvil_frame: step_order anvil_frame
  by unfold_locales (auto simp: anvil_frame_def)

lemma upto_append: "i \<le> j \<Longrightarrow> j \<le> k \<Longrightarrow> [i + 1..j] @ [j + 1..k] = [i + 1..(k::int)]"
  by (metis add_mono_thms_linordered_semiring(3) upto_split2 zle_add1_eq_le less_add_one
      order_le_less upto_split1 append_Nil upto_empty)

interpretation numbered: step_order numbered
proof unfold_locales
  fix s t u :: "('w \<times> json list, 'z) anvil_state_scheme"
  show "numbered s s" by (simp add: numbered_def)
  assume "numbered s t" "numbered t u"
  then obtain b c where
    b: "requestId s \<le> requestId t" "trace t = trace s @ b"
       "map body_id b = map JInt [requestId s + 1..requestId t]" and
    c: "requestId t \<le> requestId u" "trace u = trace t @ c"
       "map body_id c = map JInt [requestId t + 1..requestId u]"
    by (auto simp: numbered_def)
  have "map body_id (b @ c) = map JInt [requestId s + 1..requestId u]"
    using b c upto_append [of "requestId s" "requestId t" "requestId u"]
    by (metis map_append)
  then show "numbered s u" using b c by (auto simp: numbered_def)
qed

lemma keeps_rpc [frame_intro]:
  "keeps anvil_frame (anvil_rpc env m p)" "keeps numbered (anvil_rpc (traced env) m p)"
proof -
  show "keeps anvil_frame (anvil_rpc env m p)"
    by (rule keepsI) (simp add: anvil_frame_def)
  show "keeps numbered (anvil_rpc (traced env) m p)"
    by (rule keepsI)
       (simp add: numbered_def anvil_rpc_run Let_def trace_def body_id_def rpc_body_def)
qed

lemma keeps_sleep [frame_intro]:
  "keeps anvil_frame (py_sleep env d)" "keeps numbered (py_sleep (traced env) d)"
  by (auto intro!: keepsI simp: anvil_frame_def numbered_def trace_def)

lemmas anvil_ops =
  anvil_sendTransaction_def anvil_mineBlock_def anvil_snapshot_def anvil_revert_def
  anvil_getLatestBlock_def anvil_call_def anvil_getReceipt_def

lemma keeps_anvil [frame_intro]:
  "keeps anvil_frame (anvil_sendTransaction env t)" "keeps anvil_frame (anvil_mineBlock env)"
  "keeps anvil_frame (anvil_snapshot env)" "keeps anvil_frame (anvil_revert env i)"
  "keeps anvil_frame (anvil_getLatestBlock env)" "keeps anvil_frame (anvil_call env c b)"
  "keeps anvil_frame (anvil_getReceipt env h)"
  by (auto simp: anvil_ops intro!: frame_intro)

lemma keeps_wait [frame_intro]: "keeps anvil_frame (anvil_waitForReceipt env h n d)"
  by (induction n) (auto intro!: frame_intro)

lemma numbered_anvil [frame_intro]:
  "keeps numbered (anvil_sendTransaction (traced env) t)"
  "keeps numbered (anvil_mineBlock (traced env))"
  "keeps numbered (anvil_snapshot (traced env))" "keeps numbered (anvil_revert (traced env) i)"
  "keeps numbered (anvil_getLatestBlock (traced env))"
  "keeps numbered (anvil_call (traced env) c b)"
  "keeps numbered (anvil_getReceipt (traced env) h)"
  by (auto simp: anvil_ops intro!: frame_intro)

lemma numbered_wait [frame_intro]: "keeps numbered (anvil_waitForReceipt (traced env) h n d)"
  by (induction n) (auto intro!: frame_intro)

section \<open>Reverting a snapshot\<close>

text \<open>
  A revert either raises or the node answered with true: every other answer, a false, a
  null or a missing result included, is an error to the caller.
\<close>

theorem revert_strict:
  "fst (anvil_revert env i s) =
     (case rpc_outcome (fst (node env (rpcUrl s)
              (rpc_body (requestId s + 1) ''evm_revert'' (JList [i])) (world s))) of
        Inl e \<Rightarrow> Inl e
      | Inr v \<Rightarrow> if v = JBool True then Inr ()
                 else Inl (RuntimeError [Txt ''Anvil failed to revert snapshot '', Val i]))"
  by (simp add: anvil_revert_def anvil_rpc_run pbind_def Let_def split: sum.split)

end
