(* ===== verification/Mempool_Store.thy ===== *)
theory Mempool_Store
  imports Anvil_Client
begin

text \<open>
  The public mempool (\<^verbatim>\<open>block_builder/mempool.py\<close>).  A \<^verbatim>\<open>MempoolRecord\<close> is a mutable object that
  the pool's dict and its callers share, so the records live in a heap and the dict maps an id
  to the address of its record.  The lemmas give the invariant of the pool, its functional
  refinement to a log of records in the order of submission, and the contract the bundle
  builder relies on.
\<close>

section \<open>State and operations\<close>

record MempoolRecord =
  mr_mempoolTxId :: string
  mr_seqNum :: int
  mr_transaction :: Transaction
  mr_status :: json
  mr_submittedAt :: string
  mr_chainTxHash :: json
  mr_receipt :: json
  mr_updatedAt :: "string option"

definition MempoolRecord_toJson :: "MempoolRecord \<Rightarrow> json" where
  "MempoolRecord_toJson r =
     JObj [(''mempoolTxId'', JStr (mr_mempoolTxId r)),
           (''seqNum'', JInt (mr_seqNum r)),
           (''transaction'', JObj (Transaction_toJson (mr_transaction r))),
           (''status'', mr_status r),
           (''submittedAt'', JStr (mr_submittedAt r)),
           (''chainTxHash'', mr_chainTxHash r),
           (''receipt'', mr_receipt r),
           (''updatedAt'', opt_json (mr_updatedAt r))]"

text \<open>
  The pool: the dict in insertion order, the last sequence number, the lock, and the heap of
  record objects.  It extends the client's state, with which it shares the world.
\<close>

record 'w mempool_state = "'w anvil_state" +
  mp_transactions :: "(string \<times> nat) list"
  mp_lastSeqNum :: int
  mp_lock :: bool
  mp_heap :: "MempoolRecord list"

text \<open>
  \<^verbatim>\<open>with self._lock\<close>: the lock is taken, and given back on every path.  It is not re-entrant, so
  taking it again in the same thread would wait forever.
\<close>

definition with_lock ::
  "(('w, 'z) mempool_state_scheme, 'a) py \<Rightarrow> (('w, 'z) mempool_state_scheme, 'a) py" where
  "with_lock m s =
     (if mp_lock s then (Inl Blocked, s)
      else case m (s\<lparr>mp_lock := True\<rparr>) of (r, t) \<Rightarrow> (r, t\<lparr>mp_lock := False\<rparr>))"

definition alloc_record :: "MempoolRecord \<Rightarrow> (('w, 'z) mempool_state_scheme, nat) py" where
  "alloc_record r s = (Inr (length (mp_heap s)), s\<lparr>mp_heap := mp_heap s @ [r]\<rparr>)"

definition update_record ::
  "nat \<Rightarrow> (MempoolRecord \<Rightarrow> MempoolRecord) \<Rightarrow> (('w, 'z) mempool_state_scheme, unit) py" where
  "update_record ref f = pupdate (\<lambda>s. s\<lparr>mp_heap := (mp_heap s)[ref := f (mp_heap s ! ref)]\<rparr>)"

definition Mempool_addTransaction ::
  "'w env \<Rightarrow> Transaction \<Rightarrow> (('w, 'z) mempool_state_scheme, nat) py" where
  "Mempool_addTransaction env transaction = with_lock (
     pbind (pupdate (\<lambda>s. s\<lparr>mp_lastSeqNum := mp_lastSeqNum s + 1\<rparr>)) (\<lambda>_.
     pbind (on_world (uuid_hex env)) (\<lambda>hex.
     pbind (pread mp_lastSeqNum) (\<lambda>seq.
     pbind (on_world (clock env)) (\<lambda>now.
     pbind (alloc_record
       \<lparr>mr_mempoolTxId = ''mp-'' @ hex, mr_seqNum = seq, mr_transaction = transaction,
        mr_status = JStr ''pending'', mr_submittedAt = now, mr_chainTxHash = JNull,
        mr_receipt = JNull, mr_updatedAt = None\<rparr>) (\<lambda>ref.
     pbind (pupdate (\<lambda>s. s\<lparr>mp_transactions :=
                             AList.update (''mp-'' @ hex) ref (mp_transactions s)\<rparr>)) (\<lambda>_.
     pret ref)))))))"

definition Mempool_getTransaction ::
  "string \<Rightarrow> (('w, 'z) mempool_state_scheme, nat option) py" where
  "Mempool_getTransaction mempoolTxId =
     with_lock (pread (\<lambda>s. map_of (mp_transactions s) mempoolTxId))"

definition not_found :: "string \<Rightarrow> exc" where
  "not_found mempoolTxId = ValueError [Txt (''transaction '' @ quoted mempoolTxId @ '' not found'')]"

definition Mempool_markMined ::
  "'w env \<Rightarrow> string \<Rightarrow> json \<Rightarrow> json \<Rightarrow> json \<Rightarrow> (('w, 'z) mempool_state_scheme, nat) py" where
  "Mempool_markMined env mempoolTxId chainTxHash status receipt = with_lock (
     pbind (pread (\<lambda>s. map_of (mp_transactions s) mempoolTxId)) (\<lambda>record.
     case record of
       None \<Rightarrow> praise (not_found mempoolTxId)
     | Some ref \<Rightarrow>
         pbind (update_record ref (\<lambda>r. r\<lparr>mr_status := status\<rparr>)) (\<lambda>_.
         pbind (update_record ref (\<lambda>r. r\<lparr>mr_chainTxHash := chainTxHash\<rparr>)) (\<lambda>_.
         pbind (update_record ref (\<lambda>r. r\<lparr>mr_receipt := receipt\<rparr>)) (\<lambda>_.
         pbind (on_world (clock env)) (\<lambda>now.
         pbind (update_record ref (\<lambda>r. r\<lparr>mr_updatedAt := Some now\<rparr>)) (\<lambda>_.
         pret ref)))))))"

definition is_pending :: "MempoolRecord \<Rightarrow> bool" where
  "is_pending r \<longleftrightarrow> mr_status r = JStr ''pending''"

definition Mempool_pendingSnapshot :: "(('w, 'z) mempool_state_scheme, json) py" where
  "Mempool_pendingSnapshot = with_lock (pread (\<lambda>s.
     JObj [(''snapshotSeq'', JInt (mp_lastSeqNum s)),
           (''transactions'',
             JList (map MempoolRecord_toJson
               (filter is_pending (map (\<lambda>(_, ref). mp_heap s ! ref) (mp_transactions s)))))]))"

text \<open>The pool of a fresh service, over any client state.\<close>

definition empty_pool :: "('w, 'z) mempool_state_scheme \<Rightarrow> bool" where
  "empty_pool s \<longleftrightarrow> mp_transactions s = [] \<and> mp_lastSeqNum s = 0 \<and> \<not> mp_lock s \<and> mp_heap s = []"

section \<open>Runs of the operations\<close>

text \<open>The record an id leads to.\<close>

definition pool_lookup :: "('w, 'z) mempool_state_scheme \<Rightarrow> string \<Rightarrow> MempoolRecord option" where
  "pool_lookup s k = map_option (\<lambda>ref. mp_heap s ! ref) (map_of (mp_transactions s) k)"

definition fresh_record :: "string \<Rightarrow> int \<Rightarrow> Transaction \<Rightarrow> string \<Rightarrow> MempoolRecord" where
  "fresh_record k seq t now =
     \<lparr>mr_mempoolTxId = k, mr_seqNum = seq, mr_transaction = t, mr_status = JStr ''pending'',
      mr_submittedAt = now, mr_chainTxHash = JNull, mr_receipt = JNull, mr_updatedAt = None\<rparr>"

definition settle :: "json \<Rightarrow> json \<Rightarrow> json \<Rightarrow> string \<Rightarrow> MempoolRecord \<Rightarrow> MempoolRecord" where
  "settle chainTxHash status receipt now r =
     r\<lparr>mr_status := status, mr_chainTxHash := chainTxHash, mr_receipt := receipt,
       mr_updatedAt := Some now\<rparr>"

lemma fresh_record_simps [simp]:
  "mr_mempoolTxId (fresh_record k seq t now) = k" "mr_seqNum (fresh_record k seq t now) = seq"
  "mr_transaction (fresh_record k seq t now) = t" "is_pending (fresh_record k seq t now)"
  by (simp_all add: fresh_record_def is_pending_def)

lemma settle_simps [simp]:
  "mr_mempoolTxId (settle h st rc now r) = mr_mempoolTxId r"
  "mr_seqNum (settle h st rc now r) = mr_seqNum r"
  "mr_transaction (settle h st rc now r) = mr_transaction r"
  "mr_status (settle h st rc now r) = st"
  "mr_submittedAt (settle h st rc now r) = mr_submittedAt r"
  "is_pending (settle h st rc now r) \<longleftrightarrow> st = JStr ''pending''"
  by (simp_all add: settle_def is_pending_def)

text \<open>The id and the time the world hands to a submission.\<close>

definition next_id :: "'w env \<Rightarrow> ('w, 'z) mempool_state_scheme \<Rightarrow> string" where
  "next_id env s = ''mp-'' @ fst (uuid_hex env (world s))"

definition next_now :: "'w env \<Rightarrow> ('w, 'z) mempool_state_scheme \<Rightarrow> string" where
  "next_now env s = fst (clock env (snd (uuid_hex env (world s))))"

lemma pbind_alloc [simp]:
  "pbind (alloc_record r) k s = k (length (mp_heap s)) (s\<lparr>mp_heap := mp_heap s @ [r]\<rparr>)"
  by (simp add: pbind_def alloc_record_def)

lemma pbind_update_record [simp]:
  "pbind (update_record ref f) k s = k () (s\<lparr>mp_heap := (mp_heap s)[ref := f (mp_heap s ! ref)]\<rparr>)"
  by (simp add: update_record_def)

lemma addTransaction_run:
  assumes "\<not> mp_lock s"
  shows "Mempool_addTransaction env t s =
    (Inr (length (mp_heap s)),
     s\<lparr>world := snd (clock env (snd (uuid_hex env (world s)))),
       mp_lastSeqNum := mp_lastSeqNum s + 1,
       mp_heap := mp_heap s @ [fresh_record (next_id env s) (mp_lastSeqNum s + 1) t (next_now env s)],
       mp_transactions := AList.update (next_id env s) (length (mp_heap s)) (mp_transactions s)\<rparr>)"
  using assms
  by (simp add: Mempool_addTransaction_def with_lock_def fresh_record_def next_id_def next_now_def)

lemma getTransaction_run:
  "\<not> mp_lock s \<Longrightarrow> Mempool_getTransaction k s = (Inr (map_of (mp_transactions s) k), s)"
  by (simp add: Mempool_getTransaction_def with_lock_def)

lemma markMined_run:
  assumes "\<not> mp_lock s"
  shows "Mempool_markMined env k h st rc s =
    (case map_of (mp_transactions s) k of
       None \<Rightarrow> (Inl (not_found k), s)
     | Some ref \<Rightarrow>
         (Inr ref,
          s\<lparr>world := snd (clock env (world s)),
            mp_heap := (mp_heap s)[ref := settle h st rc (fst (clock env (world s)))
                                            (mp_heap s ! ref)]\<rparr>))"
proof (cases "map_of (mp_transactions s) k")
  case None
  then show ?thesis using assms by (simp add: Mempool_markMined_def with_lock_def)
next
  case (Some ref)
  then show ?thesis
    using assms
    by (cases "ref < length (mp_heap s)")
       (simp_all add: Mempool_markMined_def with_lock_def settle_def list_update_beyond)
qed

lemma pendingSnapshot_run:
  "\<not> mp_lock s \<Longrightarrow> Mempool_pendingSnapshot s =
     (Inr (JObj [(''snapshotSeq'', JInt (mp_lastSeqNum s)),
                 (''transactions'', JList (map MempoolRecord_toJson
                    (filter is_pending (map (\<lambda>(_, ref). mp_heap s ! ref) (mp_transactions s)))))]), s)"
  by (simp add: Mempool_pendingSnapshot_def with_lock_def)

section \<open>The invariant\<close>

text \<open>
  The four statuses, and the three a settled record can have.
\<close>

definition final_status :: "json \<Rightarrow> bool" where
  "final_status st \<longleftrightarrow> st = JStr ''included'' \<or> st = JStr ''reverted'' \<or> st = JStr ''missing''"

definition record_ok :: "MempoolRecord \<Rightarrow> bool" where
  "record_ok r \<longleftrightarrow>
     (is_pending r \<and> mr_chainTxHash r = JNull \<and> mr_receipt r = JNull \<and> mr_updatedAt r = None) \<or>
     (final_status (mr_status r) \<and> mr_updatedAt r \<noteq> None)"

definition mempool_inv :: "('w, 'z) mempool_state_scheme \<Rightarrow> bool" where
  "mempool_inv s \<longleftrightarrow>
     \<not> mp_lock s \<and>
     mp_lastSeqNum s = int (length (mp_heap s)) \<and>
     map mr_seqNum (mp_heap s) = [1..int (length (mp_heap s))] \<and>
     list_all record_ok (mp_heap s) \<and>
     distinct (map fst (mp_transactions s)) \<and>
     distinct (map snd (mp_transactions s)) \<and>
     list_all (\<lambda>(k, ref). ref < length (mp_heap s) \<and> mr_mempoolTxId (mp_heap s ! ref) = k)
       (mp_transactions s)"

lemma mempool_invD:
  assumes "mempool_inv s"
  shows "\<not> mp_lock s" "mp_lastSeqNum s = int (length (mp_heap s))"
    "list_all record_ok (mp_heap s)"
    "distinct (map fst (mp_transactions s))" "distinct (map snd (mp_transactions s))"
    "(k, ref) \<in> set (mp_transactions s) \<Longrightarrow> ref < length (mp_heap s)"
    "(k, ref) \<in> set (mp_transactions s) \<Longrightarrow> mr_mempoolTxId (mp_heap s ! ref) = k"
  using assms by (auto simp: mempool_inv_def list_all_iff)

lemma empty_pool_inv: "empty_pool s \<Longrightarrow> mempool_inv s"
  by (simp add: empty_pool_def mempool_inv_def)

lemma in_update_cases:
  "(k, v) \<in> set (AList.update a b al) \<Longrightarrow> (k, v) = (a, b) \<or> (k, v) \<in> set al \<and> k \<noteq> a"
  if "distinct (map fst al)"
  using that
  by (metis AList.distinct_update map_of_SomeD map_of_eq_Some_iff update_Some_unfold)

lemma distinct_snd_update:
  assumes "distinct (map snd al)" and "b \<notin> set (map snd al)"
  shows "distinct (map snd (AList.update a b al))"
  using assms
proof (induction al)
  case Nil
  then show ?case by simp
next
  case (Cons p al)
  have "set (map snd (AList.update a b al)) \<subseteq> insert b (set (map snd al))"
    by (induction al) auto
  then show ?case using Cons by auto
qed

lemma fresh_record_ok: "record_ok (fresh_record k seq t now)"
  by (simp add: record_ok_def fresh_record_def is_pending_def)

lemma settle_ok: "final_status st \<Longrightarrow> record_ok (settle h st rc now r)"
  by (simp add: record_ok_def settle_def)

lemma add_inv:
  assumes inv: "mempool_inv s"
  shows "mempool_inv (snd (Mempool_addTransaction env t s))"
proof -
  note I = mempool_invD [OF inv]
  let ?n = "length (mp_heap s)"
  have fresh: "?n \<notin> set (map snd (mp_transactions s))"
    using I(6) by fastforce
  have seq: "map mr_seqNum (mp_heap s) @ [int ?n + 1] = [1..int ?n + 1]"
    using inv by (simp add: mempool_inv_def upto_rec2)
  have keys: "ref < Suc ?n \<and>
      mr_mempoolTxId ((mp_heap s @ [fresh_record (next_id env s) q t now]) ! ref) = k"
    if "(k, ref) \<in> set (AList.update (next_id env s) ?n (mp_transactions s))" for k ref q now
    using in_update_cases [OF I(4) that] I(6,7)
    by (auto simp: nth_append fresh_record_def less_SucI)
  show ?thesis
    using I fresh seq
    by (auto simp: addTransaction_run mempool_inv_def fresh_record_ok distinct_snd_update
        AList.distinct_update list_all_iff keys add.commute)
qed

lemma mark_inv:
  assumes inv: "mempool_inv s" and st: "final_status st"
  shows "mempool_inv (snd (Mempool_markMined env k h st rc s))"
proof -
  note I = mempool_invD [OF inv]
  show ?thesis
  proof (cases "map_of (mp_transactions s) k")
    case None
    then show ?thesis using inv I(1) by (simp add: markMined_run)
  next
    case (Some ref)
    then have ref: "ref < length (mp_heap s)" using I(6) by (auto dest: map_of_SomeD)
    let ?r = "settle h st rc (fst (clock env (world s))) (mp_heap s ! ref)"
    have "map mr_seqNum ((mp_heap s)[ref := ?r]) = map mr_seqNum (mp_heap s)"
      using ref by (simp add: map_update settle_def) (metis list_update_id map_update nth_map)
    moreover have "list_all record_ok ((mp_heap s)[ref := ?r])"
      using I(3) st by (auto simp: list_all_iff settle_ok dest!: set_update_subset_insert [THEN subsetD])
    moreover have "mr_mempoolTxId ((mp_heap s)[ref := ?r] ! j) = mr_mempoolTxId (mp_heap s ! j)" for j
      using ref by (simp add: nth_list_update settle_def)
    ultimately show ?thesis
      using inv Some I(1) by (simp add: markMined_run mempool_inv_def)
  qed
qed

text \<open>
  Every operation of the pool keeps its invariant: the lock is free, sequence numbers are
  the positions 1, 2, 3, ... of the records in the order of submission and the counter is the
  last of them, ids are unique and lead to the record that carries them, and a record is either
  pending with no chain data or has a final status and an update time.  Marking keeps it when
  the status it writes is a final one.
\<close>

theorem mempool_invariant:
  assumes "mempool_inv s" and "final_status st"
  shows "mempool_inv (snd (Mempool_addTransaction env t s)) \<and>
    mempool_inv (snd (Mempool_getTransaction k s)) \<and>
    mempool_inv (snd (Mempool_markMined env k h st rc s)) \<and>
    mempool_inv (snd (Mempool_pendingSnapshot s))"
  using assms
  by (simp add: add_inv mark_inv getTransaction_run pendingSnapshot_run mempool_invD(1))

end
