(* ===== verification/Mempool_Spec.thy ===== *)
theory Mempool_Spec
  imports Mempool_Store
begin

text \<open>
  What the mempool promises its callers.  The abstract pool is the log of the records in the
  order of submission; as long as the random ids do not repeat, the dict and the heap together
  refine it, operation by operation.  The contract the bundle builder uses is the locale
  \<open>record_store\<close>, which the pool provides whatever the ids are.  A record only ever moves
  forward, from waiting to settled.
\<close>

section \<open>The log of submissions\<close>

definition log_add :: "string \<Rightarrow> Transaction \<Rightarrow> string \<Rightarrow> MempoolRecord list \<Rightarrow> MempoolRecord list"
  where
  "log_add k t now rs = rs @ [fresh_record k (int (length rs) + 1) t now]"

definition log_find :: "string \<Rightarrow> MempoolRecord list \<Rightarrow> MempoolRecord option" where
  "log_find k rs = List.find (\<lambda>r. mr_mempoolTxId r = k) rs"

definition log_settle ::
  "string \<Rightarrow> json \<Rightarrow> json \<Rightarrow> json \<Rightarrow> string \<Rightarrow> MempoolRecord list \<Rightarrow> MempoolRecord list" where
  "log_settle k h st rc now rs =
     map (\<lambda>r. if mr_mempoolTxId r = k then settle h st rc now r else r) rs"

definition log_pending :: "MempoolRecord list \<Rightarrow> MempoolRecord list" where
  "log_pending rs = filter is_pending rs"

text \<open>The ids handed out so far did not repeat: the dict holds every record, in order.\<close>

definition uncollided :: "('w, 'z) mempool_state_scheme \<Rightarrow> bool" where
  "uncollided s \<longleftrightarrow> mempool_inv s \<and>
     mp_transactions s = zip (map mr_mempoolTxId (mp_heap s)) [0..<length (mp_heap s)]"

definition fresh_id :: "'w env \<Rightarrow> ('w, 'z) mempool_state_scheme \<Rightarrow> bool" where
  "fresh_id env s \<longleftrightarrow> next_id env s \<notin> set (map fst (mp_transactions s))"

lemma empty_pool_uncollided: "empty_pool s \<Longrightarrow> uncollided s"
  by (simp add: empty_pool_def uncollided_def empty_pool_inv)

lemma uncollided_ids:
  assumes "uncollided s"
  shows "distinct (map mr_mempoolTxId (mp_heap s))"
proof -
  have "map fst (mp_transactions s) = map mr_mempoolTxId (mp_heap s)"
    using assms by (simp add: uncollided_def)
  then show ?thesis
    using assms by (metis mempool_invD(4) uncollided_def)
qed

lemma update_new: "k \<notin> set (map fst al) \<Longrightarrow> AList.update k v al = al @ [(k, v)]"
  by (induction al) auto

lemma lookup_iff:
  assumes "uncollided s"
  shows "map_of (mp_transactions s) k = Some i \<longleftrightarrow>
    i < length (mp_heap s) \<and> mr_mempoolTxId (mp_heap s ! i) = k"
proof -
  have z: "mp_transactions s = zip (map mr_mempoolTxId (mp_heap s)) [0..<length (mp_heap s)]"
    using assms by (simp add: uncollided_def)
  show ?thesis
    using uncollided_ids [OF assms] unfolding z
    by (subst map_of_eq_Some_iff) (auto simp: set_zip intro!: exI [of _ i])
qed

lemma lookup_none:
  assumes "uncollided s" and "map_of (mp_transactions s) k = None"
  shows "\<forall>r \<in> set (mp_heap s). mr_mempoolTxId r \<noteq> k"
  using assms lookup_iff by (metis in_set_conv_nth option.distinct(1))

lemma lookup_log:
  assumes u: "uncollided s"
  shows "pool_lookup s k = log_find k (mp_heap s)"
proof (cases "map_of (mp_transactions s) k")
  case None
  then have "\<forall>r \<in> set (mp_heap s). mr_mempoolTxId r \<noteq> k"
    using lookup_none [OF u] by blast
  then show ?thesis using None by (simp add: pool_lookup_def log_find_def find_None_iff2)
next
  case (Some i)
  then have i: "i < length (mp_heap s)" "mr_mempoolTxId (mp_heap s ! i) = k"
    using lookup_iff [OF u] by auto
  have "mr_mempoolTxId (mp_heap s ! j) \<noteq> k" if "j < i" for j
    using uncollided_ids [OF u] i that by (auto simp: distinct_conv_nth)
  then have "log_find k (mp_heap s) = Some (mp_heap s ! i)"
    using i unfolding log_find_def find_Some_iff by blast
  then show ?thesis using Some by (simp add: pool_lookup_def)
qed

lemma add_uncollided:
  assumes u: "uncollided s" and f: "fresh_id env s"
  shows "uncollided (snd (Mempool_addTransaction env t s))"
proof -
  have inv: "mempool_inv s" and tr: "mp_transactions s = zip (map mr_mempoolTxId (mp_heap s)) [0..<length (mp_heap s)]"
    using u by (simp_all add: uncollided_def)
  have "mp_transactions (snd (Mempool_addTransaction env t s)) =
      mp_transactions s @ [(next_id env s, length (mp_heap s))]"
    using f mempool_invD(1) [OF inv] by (simp add: fresh_id_def update_new addTransaction_run)
  then have "mp_transactions (snd (Mempool_addTransaction env t s)) =
      zip (map mr_mempoolTxId (mp_heap s @ [fresh_record (next_id env s) q t now]))
        [0..<length (mp_heap s @ [fresh_record (next_id env s) q t now])]" for q now
    by (simp add: tr)
  moreover have "mp_heap (snd (Mempool_addTransaction env t s)) =
      mp_heap s @ [fresh_record (next_id env s) (mp_lastSeqNum s + 1) t (next_now env s)]"
    using mempool_invD(1) [OF inv] by (simp add: addTransaction_run)
  ultimately show ?thesis
    using add_inv [OF inv] unfolding uncollided_def by metis
qed

lemma add_heap:
  assumes "mempool_inv s"
  shows "mp_heap (snd (Mempool_addTransaction env t s)) =
    log_add (next_id env s) t (next_now env s) (mp_heap s)"
  using mempool_invD(1,2) [OF assms] by (simp add: addTransaction_run log_add_def)

lemma mark_heap:
  assumes u: "uncollided s"
  shows "mp_heap (snd (Mempool_markMined env k h st rc s)) =
    log_settle k h st rc (fst (clock env (world s))) (mp_heap s)"
proof -
  have l: "\<not> mp_lock s" using u by (simp add: uncollided_def mempool_inv_def)
  show ?thesis
  proof (cases "map_of (mp_transactions s) k")
    case None
    then have "\<forall>r \<in> set (mp_heap s). mr_mempoolTxId r \<noteq> k"
      using lookup_none [OF u] by blast
    then show ?thesis
      using None l by (simp add: markMined_run log_settle_def map_idI)
  next
    case (Some i)
    then have i: "i < length (mp_heap s)" "mr_mempoolTxId (mp_heap s ! i) = k"
      using lookup_iff [OF u] by auto
    have "mr_mempoolTxId (mp_heap s ! j) = k \<longleftrightarrow> j = i" if "j < length (mp_heap s)" for j
      using uncollided_ids [OF u] i that nth_eq_iff_index_eq [of "map mr_mempoolTxId (mp_heap s)" j i]
      by simp
    then show ?thesis
      using Some l by (auto simp: markMined_run log_settle_def list_eq_iff_nth_eq nth_list_update)
  qed
qed

lemma settle_id_comp: "mr_mempoolTxId (if b then settle h st rc now r else r) = mr_mempoolTxId r"
  by simp

lemma mark_uncollided:
  assumes u: "uncollided s" and st: "final_status st"
  shows "uncollided (snd (Mempool_markMined env k h st rc s))"
proof -
  have inv: "mempool_inv s" using u by (simp add: uncollided_def)
  have "map mr_mempoolTxId (log_settle k h st rc now xs) = map mr_mempoolTxId xs" for now xs
    by (simp add: log_settle_def)
  moreover have "length (log_settle k h st rc now xs) = length xs" for now xs
    by (simp add: log_settle_def)
  moreover have "mp_transactions (snd (Mempool_markMined env k h st rc s)) = mp_transactions s"
    using mempool_invD(1) [OF inv] by (simp add: markMined_run split: option.split)
  ultimately show ?thesis
    using mark_inv [OF inv st] u by (simp add: uncollided_def mark_heap [OF u])
qed

lemma mark_result:
  assumes u: "uncollided s"
  shows "(\<exists>ref. fst (Mempool_markMined env k h st rc s) = Inr ref) \<longleftrightarrow> log_find k (mp_heap s) \<noteq> None"
proof -
  have "\<not> mp_lock s" using u by (simp add: uncollided_def mempool_inv_def)
  then show ?thesis
    unfolding lookup_log [OF u, symmetric]
    by (simp add: markMined_run pool_lookup_def split: option.split)
qed

lemma records_in_order:
  assumes "uncollided s"
  shows "map (\<lambda>(_, ref). mp_heap s ! ref) (mp_transactions s) = mp_heap s"
proof -
  have tr: "mp_transactions s = zip (map mr_mempoolTxId (mp_heap s)) [0..<length (mp_heap s)]"
    using assms by (simp add: uncollided_def)
  show ?thesis unfolding tr by (intro nth_equalityI) simp_all
qed

text \<open>
  C13. The pool refines the log of submissions while the ids do not repeat: adding appends a
  pending record numbered one past the log's length, finding by id finds it in the log, marking
  settles the one record with that id and succeeds exactly when there is one, and every
  operation keeps the correspondence.
\<close>

theorem mempool_refines_log:
  assumes "uncollided s" and "fresh_id env s" and "final_status st"
  shows "uncollided (snd (Mempool_addTransaction env t s)) \<and>
    mp_heap (snd (Mempool_addTransaction env t s)) =
      log_add (next_id env s) t (next_now env s) (mp_heap s) \<and>
    pool_lookup s k = log_find k (mp_heap s) \<and>
    uncollided (snd (Mempool_markMined env k h st rc s)) \<and>
    mp_heap (snd (Mempool_markMined env k h st rc s)) =
      log_settle k h st rc (fst (clock env (world s))) (mp_heap s) \<and>
    (\<exists>ref. fst (Mempool_markMined env k h st rc s) = Inr ref) = (log_find k (mp_heap s) \<noteq> None)"
proof (intro conjI)
  have inv: "mempool_inv s" using assms(1) by (simp add: uncollided_def)
  show "uncollided (snd (Mempool_addTransaction env t s))"
    using assms(1,2) by (rule add_uncollided)
  show "mp_heap (snd (Mempool_addTransaction env t s)) =
      log_add (next_id env s) t (next_now env s) (mp_heap s)"
    using inv by (rule add_heap)
  show "pool_lookup s k = log_find k (mp_heap s)"
    using assms(1) by (rule lookup_log)
  show "uncollided (snd (Mempool_markMined env k h st rc s))"
    using assms(1,3) by (rule mark_uncollided)
  show "mp_heap (snd (Mempool_markMined env k h st rc s)) =
      log_settle k h st rc (fst (clock env (world s))) (mp_heap s)"
    using assms(1) by (rule mark_heap)
  show "(\<exists>ref. fst (Mempool_markMined env k h st rc s) = Inr ref) = (log_find k (mp_heap s) \<noteq> None)"
    using assms(1) by (rule mark_result)
qed

lemma pending_increasing:
  assumes "mempool_inv s"
  shows "sorted_wrt (<) (map mr_seqNum (log_pending (mp_heap s)))"
    "set (map mr_seqNum (log_pending (mp_heap s))) \<subseteq> {1..mp_lastSeqNum s}"
proof -
  have m: "map mr_seqNum (mp_heap s) = [1..mp_lastSeqNum s]"
    using assms by (simp add: mempool_inv_def)
  have "sorted_wrt (<) [1..mp_lastSeqNum s]"
    by (simp add: strict_sorted_iff)
  then have "sorted_wrt (\<lambda>x y. mr_seqNum x < mr_seqNum y) (mp_heap s)"
    by (simp add: m [symmetric] sorted_wrt_map)
  then show "sorted_wrt (<) (map mr_seqNum (log_pending (mp_heap s)))"
    by (simp add: log_pending_def sorted_wrt_map sorted_wrt_filter)
  have "mr_seqNum ` set (mp_heap s) = {1..mp_lastSeqNum s}"
    by (metis m set_map set_upto)
  then show "set (map mr_seqNum (log_pending (mp_heap s))) \<subseteq> {1..mp_lastSeqNum s}"
    by (auto simp: log_pending_def)
qed

lemma snapshot_of_uncollided:
  assumes "uncollided s"
  shows "Mempool_pendingSnapshot s =
    (Inr (JObj [(''snapshotSeq'', JInt (int (length (mp_heap s)))),
                (''transactions'', JList (map MempoolRecord_toJson (log_pending (mp_heap s))))]), s)"
proof -
  have inv: "mempool_inv s" using assms by (simp add: uncollided_def)
  show ?thesis
    using mempool_invD(1,2) [OF inv] records_in_order [OF assms]
    by (simp add: pendingSnapshot_run log_pending_def)
qed

text \<open>
  A pending snapshot, while the ids do not repeat, holds exactly the records of the log
  that are still pending, in the order of submission, with strictly increasing sequence
  numbers between 1 and the snapshot's sequence number, which is the number of transactions
  ever submitted; taking it changes nothing.
\<close>

theorem pending_snapshot_exact:
  assumes "uncollided s"
  shows "Mempool_pendingSnapshot s =
      (Inr (JObj [(''snapshotSeq'', JInt (int (length (mp_heap s)))),
                  (''transactions'', JList (map MempoolRecord_toJson (log_pending (mp_heap s))))]), s) \<and>
    sorted_wrt (<) (map mr_seqNum (log_pending (mp_heap s))) \<and>
    set (map mr_seqNum (log_pending (mp_heap s))) \<subseteq> {1..int (length (mp_heap s))}"
proof -
  have inv: "mempool_inv s" using assms by (simp add: uncollided_def)
  show ?thesis
    using pending_increasing [OF inv] mempool_invD(2) [OF inv] snapshot_of_uncollided [OF assms]
    by (simp add: log_pending_def)
qed

section \<open>The contract of a record store\<close>

text \<open>
  What a caller that settles records relies on: marking an id that is there replaces the record
  it leads to and nothing else, marking an unknown id raises ValueError and does nothing.
\<close>

locale record_store =
  fixes lookup :: "'s \<Rightarrow> string \<Rightarrow> MempoolRecord option"
    and mark :: "string \<Rightarrow> json \<Rightarrow> json \<Rightarrow> json \<Rightarrow> ('s, nat) py"
    and store_inv :: "'s \<Rightarrow> bool"
  assumes mark_hit: "store_inv s \<Longrightarrow> lookup s k = Some r \<Longrightarrow>
      \<exists>ref now. fst (mark k h st rc s) = Inr ref \<and>
        lookup (snd (mark k h st rc s)) = (lookup s)(k \<mapsto> settle h st rc now r)"
    and mark_miss: "store_inv s \<Longrightarrow> lookup s k = None \<Longrightarrow> mark k h st rc s = (Inl (not_found k), s)"
    and mark_keeps: "store_inv s \<Longrightarrow> final_status st \<Longrightarrow> store_inv (snd (mark k h st rc s))"
begin

text \<open>The loop of a caller that settles a list of ids, each with its own outcome.\<close>

lemma mark_all:
  assumes "store_inv s"
    and "list_all (\<lambda>(k, h, st, rc). lookup s k \<noteq> None \<and> final_status st) ms"
  shows "\<exists>t. pfor (\<lambda>(k, h, st, rc). pbind (mark k h st rc) (\<lambda>_. pret ())) ms s = (Inr (), t) \<and>
    store_inv t \<and> dom (lookup t) = dom (lookup s) \<and>
    (\<forall>k. k \<notin> fst ` set ms \<longrightarrow> lookup t k = lookup s k) \<and>
    (\<forall>k \<in> fst ` set ms. \<exists>h st rc now r. (k, h, st, rc) \<in> set ms \<and> lookup t k = Some r \<and>
       mr_status r = st \<and> mr_chainTxHash r = h \<and> mr_receipt r = rc \<and> mr_updatedAt r = Some now)"
  using assms
proof (induction ms arbitrary: s)
  case Nil
  then show ?case by simp
next
  case (Cons m ms)
  obtain k h st rc where m: "m = (k, h, st, rc)" by (cases m)
  from Cons.prems obtain r where r: "lookup s k = Some r" and st: "final_status st"
    by (auto simp: m)
  from mark_hit [OF Cons.prems(1) r, of h st rc] obtain ref now s' where
    run: "mark k h st rc s = (Inr ref, s')" and
    s': "lookup s' = (lookup s)(k \<mapsto> settle h st rc now r)"
    by (metis prod.collapse)
  have inv': "store_inv s'"
    using mark_keeps [OF Cons.prems(1) st, of k h rc] run by simp
  have all': "list_all (\<lambda>(k, h, st, rc). lookup s' k \<noteq> None \<and> final_status st) ms"
    using Cons.prems(2) by (auto simp: m s' list_all_iff)
  from Cons.IH [OF inv' all'] obtain t where
    t: "pfor (\<lambda>(k, h, st, rc). pbind (mark k h st rc) (\<lambda>_. pret ())) ms s' = (Inr (), t)" and
    inv: "store_inv t" and dom: "dom (lookup t) = dom (lookup s')" and
    out: "\<forall>k. k \<notin> fst ` set ms \<longrightarrow> lookup t k = lookup s' k" and
    hit: "\<forall>k \<in> fst ` set ms. \<exists>h st rc now r. (k, h, st, rc) \<in> set ms \<and> lookup t k = Some r \<and>
       mr_status r = st \<and> mr_chainTxHash r = h \<and> mr_receipt r = rc \<and> mr_updatedAt r = Some now"
    by blast
  have self: "lookup t k = Some (settle h st rc now r)" if "k \<notin> fst ` set ms"
    using out that s' by simp
  have "\<exists>h' st' rc' now' r'. (j, h', st', rc') \<in> set (m # ms) \<and> lookup t j = Some r' \<and>
      mr_status r' = st' \<and> mr_chainTxHash r' = h' \<and> mr_receipt r' = rc' \<and> mr_updatedAt r' = Some now'"
    if "j \<in> fst ` set (m # ms)" for j
  proof (cases "j \<in> fst ` set ms")
    case True
    then show ?thesis using hit by (metis list.set_intros(2))
  next
    case False
    then have "j = k" using that m by simp
    then show ?thesis
      using self False m by (auto simp: settle_def intro!: exI [of _ h] exI [of _ st] exI [of _ rc])
  qed
  moreover have "lookup t j = lookup s j" if "j \<notin> fst ` set (m # ms)" for j
    using out that by (simp add: m s')
  moreover have "dom (lookup t) = dom (lookup s)"
    using dom r by (auto simp: s')
  moreover have "pfor (\<lambda>(k, h, st, rc). pbind (mark k h st rc) (\<lambda>_. pret ())) (m # ms) s = (Inr (), t)"
    using t by (simp add: m pbind_def run)
  ultimately show ?case using inv by blast
qed

end

lemma pool_mark_hit:
  assumes inv: "mempool_inv s" and r: "pool_lookup s k = Some r"
  shows "\<exists>ref now. fst (Mempool_markMined env k h st rc s) = Inr ref \<and>
    pool_lookup (snd (Mempool_markMined env k h st rc s)) = (pool_lookup s)(k \<mapsto> settle h st rc now r)"
proof -
  note I = mempool_invD [OF inv]
  from r obtain ref where ref: "map_of (mp_transactions s) k = Some ref" "r = mp_heap s ! ref"
    by (auto simp: pool_lookup_def)
  have in_heap: "ref < length (mp_heap s)" using ref I(6) by (auto dest: map_of_SomeD)
  have other: "ref' \<noteq> ref" if "map_of (mp_transactions s) k' = Some ref'" "k' \<noteq> k" for k' ref'
    using I(5) ref(1) that by (metis distinct_map inj_onD map_of_SomeD prod.inject snd_conv)
  have "pool_lookup (s\<lparr>world := w, mp_heap := (mp_heap s)[ref := x]\<rparr>) k' =
      ((pool_lookup s)(k \<mapsto> x)) k'" for w x k'
  proof (cases "k' = k")
    case True
    then show ?thesis using ref in_heap by (simp add: pool_lookup_def)
  next
    case False
    then show ?thesis
      using other [OF _ False]
      by (cases "map_of (mp_transactions s) k'") (simp_all add: pool_lookup_def)
  qed
  then have upd: "pool_lookup (s\<lparr>world := w, mp_heap := (mp_heap s)[ref := x]\<rparr>) =
      (pool_lookup s)(k \<mapsto> x)" for w x
    by (rule ext)
  show ?thesis
    using ref(1) I(1) upd unfolding ref(2) by (simp add: markMined_run) blast
qed

interpretation pool: record_store pool_lookup "Mempool_markMined env" mempool_inv for env
proof unfold_locales
  fix s :: "('a, 'b) mempool_state_scheme" and k h st rc r
  assume inv: "mempool_inv s"
  show "pool_lookup s k = Some r \<Longrightarrow>
      \<exists>ref now. fst (Mempool_markMined env k h st rc s) = Inr ref \<and>
        pool_lookup (snd (Mempool_markMined env k h st rc s)) = (pool_lookup s)(k \<mapsto> settle h st rc now r)"
    by (rule pool_mark_hit [OF inv])
  show "pool_lookup s k = None \<Longrightarrow> Mempool_markMined env k h st rc s = (Inl (not_found k), s)"
    using mempool_invD(1) [OF inv] by (simp add: pool_lookup_def markMined_run)
  show "final_status st \<Longrightarrow> mempool_inv (snd (Mempool_markMined env k h st rc s))"
    by (rule mark_inv [OF inv])
qed

section \<open>Records only move forward\<close>

text \<open>The two stages of a record, in the order they are gone through.\<close>

datatype stage = Waiting | Settled

instantiation stage :: linorder
begin

definition less_eq_stage :: "stage \<Rightarrow> stage \<Rightarrow> bool" where
  "less_eq_stage a b \<longleftrightarrow> a = Waiting \<or> b = Settled"

definition less_stage :: "stage \<Rightarrow> stage \<Rightarrow> bool" where
  "less_stage a b \<longleftrightarrow> a = Waiting \<and> b = Settled"

instance
proof
  fix a b c :: stage
  show "(a < b) = (a \<le> b \<and> \<not> b \<le> a)" "a \<le> a" "a \<le> b \<or> b \<le> a"
    by (cases a; cases b; simp add: less_eq_stage_def less_stage_def)+
  show "a \<le> b \<Longrightarrow> b \<le> c \<Longrightarrow> a \<le> c" "a \<le> b \<Longrightarrow> b \<le> a \<Longrightarrow> a = b"
    by (cases a; cases b; cases c; simp add: less_eq_stage_def)+
qed

end

definition stage_of :: "MempoolRecord \<Rightarrow> stage" where
  "stage_of r = (if is_pending r then Waiting else Settled)"

text \<open>
  One record later on: it is the same submission, and its stage is the same or a later one.
\<close>

definition advances :: "MempoolRecord \<Rightarrow> MempoolRecord \<Rightarrow> bool" where
  "advances r r' \<longleftrightarrow>
     mr_mempoolTxId r' = mr_mempoolTxId r \<and> mr_seqNum r' = mr_seqNum r \<and>
     mr_transaction r' = mr_transaction r \<and> mr_submittedAt r' = mr_submittedAt r \<and>
     stage_of r \<le> stage_of r'"

text \<open>
  The pool later on: the old records are where they were and have at most advanced, new ones
  come after them, no id is ever dropped and the sequence number never goes down.
\<close>

definition pool_evolves ::
  "('w, 'z) mempool_state_scheme \<Rightarrow> ('w, 'z) mempool_state_scheme \<Rightarrow> bool" where
  "pool_evolves s t \<longleftrightarrow>
     list_all2 advances (mp_heap s) (take (length (mp_heap s)) (mp_heap t)) \<and>
     set (map fst (mp_transactions s)) \<subseteq> set (map fst (mp_transactions t)) \<and>
     mp_lastSeqNum s \<le> mp_lastSeqNum t"

lemma advances_refl [simp]: "advances r r"
  by (simp add: advances_def)

lemma advances_trans: "advances a b \<Longrightarrow> advances b c \<Longrightarrow> advances a c"
  by (auto simp: advances_def)

lemma advances_settle: "final_status st \<Longrightarrow> advances r (settle h st rc now r)"
  by (auto simp: advances_def stage_of_def less_eq_stage_def final_status_def)

lemma advances_update:
  "final_status st \<Longrightarrow> advances (xs ! i) (xs[j := settle h st rc now (xs ! j)] ! i)"
  by (cases "i = j"; cases "j < length xs")
     (simp_all add: advances_settle list_update_beyond)

lemma list_all2_take_iff:
  "list_all2 P xs (take (length xs) ys) \<longleftrightarrow>
     length xs \<le> length ys \<and> (\<forall>i < length xs. P (xs ! i) (ys ! i))"
  by (auto simp: list_all2_conv_all_nth)

interpretation pool_evolves: step_order pool_evolves
proof unfold_locales
  fix s t u :: "('a, 'b) mempool_state_scheme"
  show "pool_evolves s s"
    by (simp add: pool_evolves_def list_all2_conv_all_nth)
  assume "pool_evolves s t" "pool_evolves t u"
  then show "pool_evolves s u"
    unfolding pool_evolves_def list_all2_take_iff
    by (meson advances_trans order_less_le_trans order_trans)
qed

lemma add_evolves: "pool_evolves s (snd (Mempool_addTransaction env t s))"
proof (cases "mp_lock s")
  case True
  then show ?thesis
    by (simp add: Mempool_addTransaction_def with_lock_def pool_evolves.step_refl)
next
  case False
  then show ?thesis
    by (auto simp: addTransaction_run pool_evolves_def list_all2_conv_all_nth nth_append
        update_keys)
qed

lemma mark_evolves: "final_status st \<Longrightarrow> pool_evolves s (snd (Mempool_markMined env k h st rc s))"
proof (cases "mp_lock s")
  case True
  then show ?thesis
    by (simp add: Mempool_markMined_def with_lock_def pool_evolves.step_refl)
next
  case False
  assume "final_status st"
  then show ?thesis
    using False
    by (simp add: markMined_run pool_evolves.step_refl split: option.split)
       (simp add: pool_evolves_def list_all2_conv_all_nth advances_update)
qed

end
