(* ===== verification/Bundles.thy ===== *)
theory Bundles
  imports Mempool_Spec
begin

text \<open>
  Private bundles (\<^verbatim>\<open>block_builder/bundle.py\<close>): reading a bundle against the mempool, executing it
  on the node, simulating it inside a snapshot, and mining it with its mempool records settled.
\<close>

section \<open>Data\<close>

record BundleItem =
  bi_mempoolTxId :: "string option"
  bi_transaction :: Transaction

record Bundle =
  bundle_items :: "BundleItem list"

section \<open>Reading a bundle\<close>

definition unknown_mempool_tx :: "string \<Rightarrow> exc" where
  "unknown_mempool_tx k = ValueError [Txt (''mempool transaction '' @ quoted k @ '' not found'')]"

definition not_pending :: "string \<Rightarrow> json \<Rightarrow> exc" where
  "not_pending k status =
     ValueError [Txt (''mempool transaction '' @ quoted k @ '' is '' @ [CHR 0x27]), Val status,
                 Txt ([CHR 0x27] @ '', not '' @ quoted ''pending'')]"

definition bad_mempoolTxId :: exc where
  "bad_mempoolTxId = ValueError [Txt (quoted ''mempoolTxId'' @ '' must be a non-empty string'')]"

definition BundleItem_fromJson :: "json \<Rightarrow> (('w, 'z) mempool_state_scheme, BundleItem) py" where
  "BundleItem_fromJson data =
     pbind (plift (json_get data ''mempoolTxId'')) (\<lambda>mempoolTxId.
     if mempoolTxId \<noteq> JNull then
       (case mempoolTxId of
          JStr k \<Rightarrow>
            if k = '''' then praise bad_mempoolTxId
            else
              pbind (Mempool_getTransaction k) (\<lambda>record.
              case record of
                None \<Rightarrow> praise (unknown_mempool_tx k)
              | Some ref \<Rightarrow>
                  pbind (pread (\<lambda>s. mp_heap s ! ref)) (\<lambda>r.
                  if mr_status r \<noteq> JStr ''pending'' then praise (not_pending k (mr_status r))
                  else pret \<lparr>bi_mempoolTxId = Some k, bi_transaction = mr_transaction r\<rparr>))
        | _ \<Rightarrow> praise bad_mempoolTxId)
     else
       pbind (plift (case data of JObj d \<Rightarrow> Transaction_fromJson d | _ \<Rightarrow> Inl AttributeError)) (\<lambda>t.
       pret \<lparr>bi_mempoolTxId = None, bi_transaction = t\<rparr>))"

definition bad_transactions :: exc where
  "bad_transactions = ValueError [Txt (quoted ''transactions'' @ '' must be a non-empty list'')]"

definition Bundle_fromJson :: "dict \<Rightarrow> (('w, 'z) mempool_state_scheme, Bundle) py" where
  "Bundle_fromJson data =
     (case dict_get data ''transactions'' of
        JList rawItems \<Rightarrow>
          if length rawItems = 0 then praise bad_transactions
          else pbind (pmap BundleItem_fromJson rawItems) (\<lambda>items. pret \<lparr>bundle_items = items\<rparr>)
      | _ \<Rightarrow> praise bad_transactions)"

section \<open>Executing, simulating and mining\<close>

definition statusFromReceipt :: "json \<Rightarrow> json result" where
  "statusFromReceipt receipt =
     (if receipt = JNull then Inr (JStr ''missing'')
      else rbind (json_get receipt ''status'') (\<lambda>st.
           Inr (if st = JStr ''0x1'' then JStr ''included'' else JStr ''reverted'')))"

definition txResult :: "BundleItem \<Rightarrow> json \<Rightarrow> json \<Rightarrow> json result" where
  "txResult item txHash receipt =
     (if receipt = JNull then
        Inr (JObj [(''mempoolTxId'', opt_json (bi_mempoolTxId item)),
                   (''chainTxHash'', txHash),
                   (''status'', JStr ''missing''),
                   (''receipt'', JNull)])
      else
        rbind (statusFromReceipt receipt) (\<lambda>st.
        rbind (json_get receipt ''blockNumber'') (\<lambda>bn.
        rbind (json_get receipt ''transactionIndex'') (\<lambda>ti.
        Inr (JObj [(''mempoolTxId'', opt_json (bi_mempoolTxId item)),
                   (''chainTxHash'', txHash),
                   (''status'', st),
                   (''blockNumber'', bn),
                   (''transactionIndex'', ti),
                   (''receipt'', receipt)])))))"

text \<open>\<open>all(... == "included" for ...)\<close> stops at the first receipt that is not included.\<close>

fun all_included :: "json list \<Rightarrow> bool result" where
  "all_included [] = Inr True"
| "all_included (r # rs) =
     rbind (statusFromReceipt r) (\<lambda>st. if st = JStr ''included'' then all_included rs else Inr False)"

definition BundleBuilder_executeBundle ::
  "'w env \<Rightarrow> Bundle \<Rightarrow> (('w, 'z) anvil_state_scheme, dict) py" where
  "BundleBuilder_executeBundle env bundle =
     pbind (pmap (\<lambda>item. anvil_sendTransaction env (bi_transaction item)) (bundle_items bundle))
       (\<lambda>txHashes.
     pbind (anvil_mineBlock env) (\<lambda>_.
     pbind (pmap (\<lambda>txHash. anvil_waitForReceipt env txHash receipt_attempts receipt_delay) txHashes)
       (\<lambda>receipts.
     pbind (plift (all_included receipts)) (\<lambda>ok.
     pbind (plift (rmap (\<lambda>(item, txHash, receipt). txResult item txHash receipt)
                     (zip (bundle_items bundle) (zip txHashes receipts)))) (\<lambda>txs.
     pret [(''status'', if ok then JStr ''included'' else JStr ''failed''),
           (''transactions'', JList txs)])))))"

definition BundleBuilder_simulateBundle ::
  "'w env \<Rightarrow> Bundle \<Rightarrow> (('w, 'z) anvil_state_scheme, dict) py" where
  "BundleBuilder_simulateBundle env bundle =
     pbind (anvil_snapshot env) (\<lambda>snapshotId.
     pfinally
       (pbind (BundleBuilder_executeBundle env bundle) (\<lambda>result.
        pret (dict_set result ''simulated'' (JBool True))))
       (anvil_revert env snapshotId))"

definition mark_result_of ::
  "'w env \<Rightarrow> BundleItem \<Rightarrow> json \<Rightarrow> (('w, 'z) mempool_state_scheme, unit) py" where
  "mark_result_of env item tx =
     (case bi_mempoolTxId item of
        None \<Rightarrow> pret ()
      | Some k \<Rightarrow>
          pbind (plift (json_item tx ''chainTxHash'')) (\<lambda>h.
          pbind (plift (json_item tx ''status'')) (\<lambda>st.
          pbind (plift (json_item tx ''receipt'')) (\<lambda>rc.
          pbind (Mempool_markMined env k h st rc) (\<lambda>_. pret ())))))"

definition BundleBuilder_mineBundle ::
  "'w env \<Rightarrow> Bundle \<Rightarrow> (('w, 'z) mempool_state_scheme, dict) py" where
  "BundleBuilder_mineBundle env bundle =
     pbind (BundleBuilder_executeBundle env bundle) (\<lambda>result.
     pbind (plift (rbind (dict_item result ''transactions'') json_iter)) (\<lambda>txs.
     pbind (pfor (\<lambda>(item, tx). mark_result_of env item tx) (zip (bundle_items bundle) txs)) (\<lambda>_.
     pret result)))"

section \<open>What reading a bundle gives\<close>

text \<open>The reference: an item is read from the raw value and the pool's lookup function alone.\<close>

fun read_item :: "(string \<Rightarrow> MempoolRecord option) \<Rightarrow> json \<Rightarrow> BundleItem result" where
  "read_item look (JObj d) =
     (case dict_get d ''mempoolTxId'' of
        JNull \<Rightarrow> rbind (Transaction_fromJson d)
                   (\<lambda>t. Inr \<lparr>bi_mempoolTxId = None, bi_transaction = t\<rparr>)
      | JStr (c # cs) \<Rightarrow>
          (case look (c # cs) of
             None \<Rightarrow> Inl (unknown_mempool_tx (c # cs))
           | Some r \<Rightarrow>
               if is_pending r
               then Inr \<lparr>bi_mempoolTxId = Some (c # cs), bi_transaction = mr_transaction r\<rparr>
               else Inl (not_pending (c # cs) (mr_status r)))
      | _ \<Rightarrow> Inl bad_mempoolTxId)"
| "read_item look _ = Inl AttributeError"

definition read_bundle :: "(string \<Rightarrow> MempoolRecord option) \<Rightarrow> dict \<Rightarrow> Bundle result" where
  "read_bundle look data =
     (case dict_get data ''transactions'' of
        JList (x # xs) \<Rightarrow> rbind (rmap (read_item look) (x # xs)) (\<lambda>items. Inr \<lparr>bundle_items = items\<rparr>)
      | _ \<Rightarrow> Inl bad_transactions)"

lemma item_fromJson_run:
  assumes "\<not> mp_lock s"
  shows "BundleItem_fromJson v s = (read_item (pool_lookup s) v, s)"
proof (cases v)
  case (JObj d)
  show ?thesis
  proof (cases "dict_get d ''mempoolTxId''")
    case JNull
    then show ?thesis
      by (cases "Transaction_fromJson d") (simp_all add: JObj BundleItem_fromJson_def pbind_def)
  next
    case (JStr k)
    then show ?thesis
      using assms
      by (cases k; cases "map_of (mp_transactions s) k")
         (simp_all add: JObj BundleItem_fromJson_def pool_lookup_def getTransaction_run pbind_def
           is_pending_def)
  qed (simp_all add: JObj BundleItem_fromJson_def pbind_def)
qed (simp_all add: BundleItem_fromJson_def json_get_def)

lemma pmap_pure:
  assumes "\<And>x. f x s = (g x, s)"
  shows "pmap f xs s = (rmap g xs, s)"
  by (induction xs) (auto simp: pbind_def assms rbind_def split: sum.split)

lemma bundle_reading_run:
  assumes "\<not> mp_lock s"
  shows "Bundle_fromJson data s = (read_bundle (pool_lookup s) data, s)"
proof (cases "dict_get data ''transactions''")
  case (JList raw)
  have p: "pmap BundleItem_fromJson raw s = (rmap (read_item (pool_lookup s)) raw, s)"
    using assms by (intro pmap_pure item_fromJson_run)
  show ?thesis
    using p by (cases raw)
      (auto simp: Bundle_fromJson_def read_bundle_def JList pbind_def rbind_def split: sum.split)
qed (simp_all add: Bundle_fromJson_def read_bundle_def)

text \<open>
  Reading a bundle never changes anything, and its outcome depends only on the request and
  on which records the pool's ids lead to: the list must be non-empty, the first bad item
  decides the exception, an item with an id takes the transaction of the pending record the id
  leads to, and an item without one is parsed as a transaction.
\<close>

theorem bundle_reading:
  assumes "\<not> mp_lock s"
  shows "Bundle_fromJson data s = (read_bundle (pool_lookup s) data, s)"
  using assms by (rule bundle_reading_run)

text \<open>Every id in a bundle that was read leads to a pending record, whose transaction it carries.\<close>

definition item_ready :: "(string \<Rightarrow> MempoolRecord option) \<Rightarrow> BundleItem \<Rightarrow> bool" where
  "item_ready look item \<longleftrightarrow>
     (case bi_mempoolTxId item of
        None \<Rightarrow> wf_transaction (bi_transaction item)
      | Some k \<Rightarrow> (case look k of None \<Rightarrow> False
                    | Some r \<Rightarrow> is_pending r \<and> bi_transaction item = mr_transaction r))"

lemma read_item_ready: "read_item look v = Inr item \<Longrightarrow> item_ready look item"
  by (cases v rule: json.exhaust)
     (auto simp: item_ready_def rbind_Inr_iff fromJson_wf split: json.splits list.splits option.splits
        if_splits)

lemma read_bundle_ready:
  assumes "read_bundle look data = Inr b"
  shows "list_all (item_ready look) (bundle_items b) \<and> bundle_items b \<noteq> []"
proof -
  from assms obtain x xs items where
    r: "rmap (read_item look) (x # xs) = Inr items" and b: "b = \<lparr>bundle_items = items\<rparr>"
    by (auto simp: read_bundle_def rbind_Inr_iff simp del: rmap.simps split: json.splits list.splits)
  from r have l: "list_all2 (\<lambda>v item. read_item look v = Inr item) (x # xs) items"
    unfolding rmap_Inr_iff .
  then have "list_all (item_ready look) items"
    by (induction rule: list_all2_induct) (auto intro: read_item_ready)
  then show ?thesis using l b by (auto simp: list_all2_Cons1)
qed

section \<open>What the bundle builder keeps\<close>

lemma keeps_execute [frame_intro]: "keeps anvil_frame (BundleBuilder_executeBundle env b)"
  unfolding BundleBuilder_executeBundle_def by (intro frame_intro)

lemma keeps_simulate [frame_intro]: "keeps anvil_frame (BundleBuilder_simulateBundle env b)"
  unfolding BundleBuilder_simulateBundle_def by (intro frame_intro)

lemma numbered_execute [frame_intro]: "keeps numbered (BundleBuilder_executeBundle (traced env) b)"
  unfolding BundleBuilder_executeBundle_def by (intro frame_intro)

lemma numbered_simulate [frame_intro]:
  "keeps numbered (BundleBuilder_simulateBundle (traced env) b)"
  unfolding BundleBuilder_simulateBundle_def by (intro frame_intro)

text \<open>The pool is in the part of the state the client never touches.\<close>

definition same_pool :: "('w, 'z) mempool_state_scheme \<Rightarrow> ('w, 'z) mempool_state_scheme \<Rightarrow> bool"
  where
  "same_pool s t \<longleftrightarrow> mp_transactions t = mp_transactions s \<and> mp_lastSeqNum t = mp_lastSeqNum s \<and>
     mp_lock t = mp_lock s \<and> mp_heap t = mp_heap s"

lemma frame_same_pool: "anvil_frame s t \<Longrightarrow> same_pool s t"
  by (cases s; cases t) (simp add: anvil_frame_def same_pool_def)

lemma same_pool_lookup: "same_pool s t \<Longrightarrow> pool_lookup t = pool_lookup s"
  by (simp add: same_pool_def pool_lookup_def fun_eq_iff)

lemma same_pool_inv: "same_pool s t \<Longrightarrow> mempool_inv t \<longleftrightarrow> mempool_inv s"
  by (simp add: same_pool_def mempool_inv_def)

lemma execute_same_pool:
  "BundleBuilder_executeBundle env b s = (r, t) \<Longrightarrow> same_pool s t"
  by (rule frame_same_pool, rule keepsD [OF keeps_execute])

text \<open>
  Simulating a bundle leaves the mempool exactly as it was, whatever the node answers and
  whether or not the simulation raises.
\<close>

theorem simulation_keeps_mempool:
  "same_pool s (snd (BundleBuilder_simulateBundle env b s))"
  by (rule frame_same_pool) (rule keeps_snd [OF keeps_simulate])

section \<open>The shape of a result\<close>

lemma txResult_fields:
  assumes "txResult item h rc = Inr v"
  shows "\<exists>st d. v = JObj d \<and> statusFromReceipt rc = Inr st \<and> dict_item d ''status'' = Inr st \<and>
    dict_item d ''chainTxHash'' = Inr h \<and> dict_item d ''receipt'' = Inr rc \<and>
    dict_item d ''mempoolTxId'' = Inr (opt_json (bi_mempoolTxId item))"
  using assms
  by (auto simp: txResult_def statusFromReceipt_def rbind_Inr_iff split: if_splits)

lemma statusFromReceipt_final: "statusFromReceipt rc = Inr st \<Longrightarrow> final_status st"
  by (auto simp: statusFromReceipt_def final_status_def rbind_Inr_iff split: if_splits)

lemma all_included_True:
  "all_included rs = Inr True \<longleftrightarrow> list_all (\<lambda>r. statusFromReceipt r = Inr (JStr ''included'')) rs"
  by (induction rs) (auto simp: rbind_Inr_iff)

text \<open>One entry of a result: its item, the hash and the receipt it was made from.\<close>

definition entry_ok :: "BundleItem \<times> json \<times> json \<Rightarrow> json \<Rightarrow> bool" where
  "entry_ok p v \<longleftrightarrow> (case p of (item, h, rc) \<Rightarrow> txResult item h rc = Inr v)"

lemma execute_result:
  assumes "BundleBuilder_executeBundle env b s = (Inr res, t)"
  shows "\<exists>ok hashes receipts txs.
    length hashes = length (bundle_items b) \<and> length receipts = length (bundle_items b) \<and>
    res = [(''status'', if ok then JStr ''included'' else JStr ''failed''), (''transactions'', JList txs)] \<and>
    all_included receipts = Inr ok \<and>
    list_all2 entry_ok (zip (bundle_items b) (zip hashes receipts)) txs"
proof -
  from assms obtain hashes receipts ok txs s1 s2 where
    h: "pmap (\<lambda>item. anvil_sendTransaction env (bi_transaction item)) (bundle_items b) s = (Inr hashes, s1)" and
    r: "pmap (\<lambda>h. anvil_waitForReceipt env h receipt_attempts receipt_delay) hashes s2 = (Inr receipts, t)" and
    ok: "all_included receipts = Inr ok" and
    txs: "rmap (\<lambda>(item, h, rc). txResult item h rc) (zip (bundle_items b) (zip hashes receipts)) = Inr txs" and
    res: "res = [(''status'', if ok then JStr ''included'' else JStr ''failed''), (''transactions'', JList txs)]"
    unfolding BundleBuilder_executeBundle_def by (auto simp: pbind_result_iff)
  have "list_all2 entry_ok (zip (bundle_items b) (zip hashes receipts)) txs"
    using txs by (simp add: rmap_Inr_iff entry_ok_def [abs_def] case_prod_beta)
  then show ?thesis
    by (intro exI [of _ ok] exI [of _ hashes] exI [of _ receipts] exI [of _ txs] conjI)
       (simp_all only: res ok pmap_length [OF h] pmap_length [OF r])
qed

end
