(* ===== verification/Bundle_Mining.thy ===== *)
theory Bundle_Mining
  imports Bundles
begin

text \<open>
  What mining a bundle does to the mempool.  The marking loop is run through the contract
  \<open>record_store\<close>: every id of the bundle is settled with the outcome of its transaction, nothing
  else changes, an exception leaves the mempool as it was, and a mined id cannot be bundled
  again.
\<close>

section \<open>The answer to the caller\<close>

definition result_txs :: "dict \<Rightarrow> json list" where
  "result_txs res = (case dict_get res ''transactions'' of JList xs \<Rightarrow> xs | _ \<Rightarrow> [])"

lemma entries_fields:
  assumes "list_all2 entry_ok es txs"
  shows "map (\<lambda>v. json_item v ''mempoolTxId'') txs =
      map (\<lambda>e. Inr (opt_json (bi_mempoolTxId (fst e)))) es"
    "map (\<lambda>v. json_item v ''status'') txs = map (\<lambda>e. statusFromReceipt (snd (snd e))) es"
  using assms
proof (induction rule: list_all2_induct)
  case (Cons e es v txs)
  obtain item h rc where e: "e = (item, h, rc)" by (cases e)
  have "txResult item h rc = Inr v" using Cons(1) by (simp add: entry_ok_def e)
  from txResult_fields [OF this] obtain st d where
    v: "v = JObj d" "statusFromReceipt rc = Inr st" "dict_item d ''status'' = Inr st"
       "dict_item d ''mempoolTxId'' = Inr (opt_json (bi_mempoolTxId item))"
    by blast
  {
    case 1
    show ?case using Cons(3) by (simp add: e v)
  next
    case 2
    show ?case using Cons(4) by (simp add: e v)
  }
qed simp_all

text \<open>
  The answer to an executed bundle has one entry per item, in order and with the item's
  mempool id; every entry is included, reverted or missing; and the bundle is included exactly
  when all its entries are, and failed otherwise.
\<close>

theorem bundle_answer:
  assumes "BundleBuilder_executeBundle env b s = (Inr res, t)"
  shows "map (\<lambda>v. json_item v ''mempoolTxId'') (result_txs res) =
      map (\<lambda>i. Inr (opt_json (bi_mempoolTxId i))) (bundle_items b) \<and>
    list_all (\<lambda>v. \<exists>st. json_item v ''status'' = Inr st \<and> final_status st) (result_txs res) \<and>
    dict_get res ''status'' =
      (if list_all (\<lambda>v. json_item v ''status'' = Inr (JStr ''included'')) (result_txs res)
       then JStr ''included'' else JStr ''failed'')"
proof -
  from execute_result [OF assms] obtain ok hs rcs txs where
    len: "length hs = length (bundle_items b)" "length rcs = length (bundle_items b)" and
    res: "res = [(''status'', if ok then JStr ''included'' else JStr ''failed''), (''transactions'', JList txs)]" and
    ok: "all_included rcs = Inr ok" and
    ent: "list_all2 entry_ok (zip (bundle_items b) (zip hs rcs)) txs"
    by blast
  note F = entries_fields [OF ent]
  have items: "map fst (zip (bundle_items b) (zip hs rcs)) = bundle_items b"
    and receipts: "map (snd \<circ> snd) (zip (bundle_items b) (zip hs rcs)) = rcs"
    using len by (simp_all flip: map_map)
  have txs: "result_txs res = txs" by (simp add: res result_txs_def)
  have ids: "map (\<lambda>v. json_item v ''mempoolTxId'') txs =
      map (\<lambda>i. Inr (opt_json (bi_mempoolTxId i))) (bundle_items b)"
    unfolding F(1) by (subst (2) items [symmetric]) simp
  have sts: "map (\<lambda>v. json_item v ''status'') txs = map statusFromReceipt rcs"
    unfolding F(2) by (subst (2) receipts [symmetric]) simp
  have all: "list_all (\<lambda>v. P (json_item v ''status'')) txs \<longleftrightarrow> list_all (\<lambda>r. P (statusFromReceipt r)) rcs" for P
  proof -
    have "list_all P (map (\<lambda>v. json_item v ''status'') txs) \<longleftrightarrow> list_all P (map statusFromReceipt rcs)"
      by (simp only: sts)
    then show ?thesis by (simp add: list.pred_map comp_def)
  qed
  have "list_all (\<lambda>v. \<exists>st. json_item v ''status'' = Inr st \<and> final_status st) txs"
    using ent by (induction rule: list_all2_induct)
      (auto simp: entry_ok_def split: prod.splits dest!: txResult_fields dest: statusFromReceipt_final)
  moreover have "ok = list_all (\<lambda>v. json_item v ''status'' = Inr (JStr ''included'')) txs"
    using all_included_True [of rcs] ok all [of "\<lambda>x. x = Inr (JStr ''included'')"] by auto
  moreover have "dict_get res ''status'' = (if ok then JStr ''included'' else JStr ''failed'')"
    by (simp add: res)
  ultimately show ?thesis
    using ids unfolding txs by simp
qed

section \<open>The marking loop\<close>

text \<open>What is written for an item that has an id.\<close>

fun marks_of :: "(BundleItem \<times> json \<times> json) list \<Rightarrow> (string \<times> json \<times> json \<times> json) list" where
  "marks_of [] = []"
| "marks_of ((item, h, rc) # es) =
     (case (bi_mempoolTxId item, statusFromReceipt rc) of
        (Some k, Inr st) \<Rightarrow> (k, h, st, rc) # marks_of es
      | _ \<Rightarrow> marks_of es)"

definition bundle_ids :: "Bundle \<Rightarrow> string set" where
  "bundle_ids b = {k. Some k \<in> bi_mempoolTxId ` set (bundle_items b)}"

text \<open>The ids of a bundle that was read lead to pending records.\<close>

lemma ids_pending:
  assumes "list_all (item_ready look) (bundle_items b)" and "k \<in> bundle_ids b"
  shows "\<exists>r. look k = Some r \<and> is_pending r"
proof -
  from assms(2) obtain i where i: "i \<in> set (bundle_items b)" "bi_mempoolTxId i = Some k"
    by (auto simp: bundle_ids_def)
  then have "item_ready look i" using assms(1) by (simp add: list_all_iff)
  then show ?thesis using i(2) by (auto simp: item_ready_def split: option.splits)
qed

lemma mark_loop:
  assumes "list_all2 entry_ok es txs"
  shows "pfor (\<lambda>(item, tx). mark_result_of env item tx) (zip (map fst es) txs) =
    pfor (\<lambda>(k, h, st, rc). pbind (Mempool_markMined env k h st rc) (\<lambda>_. pret ())) (marks_of es)"
  using assms
proof (induction rule: list_all2_induct)
  case Nil
  then show ?case by simp
next
  case (Cons e es v txs)
  obtain item h rc where e: "e = (item, h, rc)" by (cases e)
  from Cons(1) obtain st d where
    v: "v = JObj d" "statusFromReceipt rc = Inr st" "dict_item d ''status'' = Inr st"
       "dict_item d ''chainTxHash'' = Inr h" "dict_item d ''receipt'' = Inr rc"
    by (auto simp: entry_ok_def e dest!: txResult_fields)
  show ?case
    using Cons(3) by (simp add: e v mark_result_of_def split: option.split)
qed

lemma marks_of_ids:
  assumes "list_all2 entry_ok es txs"
  shows "fst ` set (marks_of es) = {k. Some k \<in> bi_mempoolTxId ` fst ` set es}"
    "list_all (\<lambda>(k, h, st, rc). final_status st) (marks_of es)"
  using assms
proof (induction rule: list_all2_induct)
  case (Cons e es v txs)
  obtain item h rc where e: "e = (item, h, rc)" by (cases e)
  from Cons(1) obtain st where st: "statusFromReceipt rc = Inr st"
    by (auto simp: entry_ok_def e dest!: txResult_fields)
  {
    case 1
    then show ?case using Cons(3) st by (auto simp: e split: option.splits)
  next
    case 2
    then show ?case using Cons(4) st
      by (auto simp: e statusFromReceipt_final split: option.splits)
  }
qed simp_all

text \<open>An entry of the answer that reports an outcome of an id, and every outcome is reported.\<close>

definition reported :: "string \<Rightarrow> json \<Rightarrow> json \<Rightarrow> json \<Rightarrow> json \<Rightarrow> bool" where
  "reported k h st rc v \<longleftrightarrow> json_item v ''mempoolTxId'' = Inr (JStr k) \<and>
     json_item v ''chainTxHash'' = Inr h \<and> json_item v ''status'' = Inr st \<and>
     json_item v ''receipt'' = Inr rc"

lemma marks_reported:
  assumes "list_all2 entry_ok es txs"
  shows "list_all (\<lambda>(k, h, st, rc). \<exists>v \<in> set txs. reported k h st rc v) (marks_of es)"
  using assms
proof (induction rule: list_all2_induct)
  case (Cons e es v txs)
  obtain item h rc where e: "e = (item, h, rc)" by (cases e)
  from Cons(1) obtain st d where
    v: "v = JObj d" "statusFromReceipt rc = Inr st" "dict_item d ''status'' = Inr st"
       "dict_item d ''chainTxHash'' = Inr h" "dict_item d ''receipt'' = Inr rc"
       "dict_item d ''mempoolTxId'' = Inr (opt_json (bi_mempoolTxId item))"
    by (auto simp: entry_ok_def e dest!: txResult_fields)
  have "list_all (\<lambda>(k, h, st, rc). \<exists>u \<in> set (v # txs). reported k h st rc u) (marks_of es)"
    using Cons(3) by (rule list.pred_mono_strong) auto
  then show ?case
    using v by (auto simp: e reported_def split: option.split)
qed simp

text \<open>
  Mining is executing and then the marking loop over a list of ids with their outcomes, which
  are exactly the ids of the bundle and have final statuses.
\<close>

abbreviation mark_each ::
  "'w env \<Rightarrow> (string \<times> json \<times> json \<times> json) list \<Rightarrow> (('w, 'z) mempool_state_scheme, unit) py" where
  "mark_each env ms \<equiv>
     pfor (\<lambda>(k, h, st, rc). pbind (Mempool_markMined env k h st rc) (\<lambda>_. pret ())) ms"

lemma mine_loop_reported:
  assumes ex: "BundleBuilder_executeBundle env b s = (Inr res, s1)"
  obtains ms where "fst ` set ms = bundle_ids b" "list_all (\<lambda>(k, h, st, rc). final_status st) ms"
    "list_all (\<lambda>(k, h, st, rc). \<exists>v \<in> set (result_txs res). reported k h st rc v) ms"
    "BundleBuilder_mineBundle env b s = pbind (mark_each env ms) (\<lambda>_. pret res) s1"
proof -
  from execute_result [OF ex] obtain ok hs rcs txs where
    len: "length hs = length (bundle_items b)" "length rcs = length (bundle_items b)" and
    res: "res = [(''status'', if ok then JStr ''included'' else JStr ''failed''), (''transactions'', JList txs)]" and
    ent: "list_all2 entry_ok (zip (bundle_items b) (zip hs rcs)) txs"
    by blast
  let ?es = "zip (bundle_items b) (zip hs rcs)"
  have fst: "map fst ?es = bundle_items b" using len by simp
  then have "fst ` set ?es = set (bundle_items b)" by (metis image_set)
  then have ids: "fst ` set (marks_of ?es) = bundle_ids b"
    using marks_of_ids(1) [OF ent] by (simp add: bundle_ids_def)
  have "BundleBuilder_mineBundle env b s =
      pbind (pfor (\<lambda>(item, tx). mark_result_of env item tx) (zip (map fst ?es) txs)) (\<lambda>_. pret res) s1"
    using ex by (simp add: BundleBuilder_mineBundle_def pbind_Inr res fst)
  then have "BundleBuilder_mineBundle env b s = pbind (mark_each env (marks_of ?es)) (\<lambda>_. pret res) s1"
    unfolding mark_loop [OF ent] .
  moreover have "result_txs res = txs" by (simp add: res result_txs_def)
  ultimately show ?thesis
    using ids marks_of_ids(2) [OF ent] marks_reported [OF ent] by (intro that) simp_all
qed

lemma mine_loop:
  assumes "BundleBuilder_executeBundle env b s = (Inr res, s1)"
  obtains ms where "fst ` set ms = bundle_ids b" "list_all (\<lambda>(k, h, st, rc). final_status st) ms"
    "BundleBuilder_mineBundle env b s = pbind (mark_each env ms) (\<lambda>_. pret res) s1"
  by (rule mine_loop_reported [OF assms], rule that)

text \<open>The mined state, from the state after the bundle was executed.\<close>

lemma mine_run:
  assumes inv: "mempool_inv s" and ready: "list_all (item_ready (pool_lookup s)) (bundle_items b)"
    and ex: "BundleBuilder_executeBundle env b s = (Inr res, s1)"
  shows "\<exists>t ms. BundleBuilder_mineBundle env b s = (Inr res, t) \<and> mempool_inv t \<and>
    fst ` set ms = bundle_ids b \<and>
    (\<forall>k. k \<notin> bundle_ids b \<longrightarrow> pool_lookup t k = pool_lookup s k) \<and>
    (\<forall>k \<in> bundle_ids b. \<exists>h st rc now r. (k, h, st, rc) \<in> set ms \<and> pool_lookup t k = Some r \<and>
       mr_status r = st \<and> mr_chainTxHash r = h \<and> mr_receipt r = rc \<and> mr_updatedAt r = Some now) \<and>
    list_all (\<lambda>(k, h, st, rc). final_status st) ms \<and>
    list_all (\<lambda>(k, h, st, rc). \<exists>v \<in> set (result_txs res). reported k h st rc v) ms"
proof -
  from mine_loop_reported [OF ex] obtain ms where
    ids: "fst ` set ms = bundle_ids b" and fin: "list_all (\<lambda>(k, h, st, rc). final_status st) ms" and
    rep: "list_all (\<lambda>(k, h, st, rc). \<exists>v \<in> set (result_txs res). reported k h st rc v) ms" and
    mine: "BundleBuilder_mineBundle env b s = pbind (mark_each env ms) (\<lambda>_. pret res) s1"
    by blast
  have same: "same_pool s s1" using ex by (rule execute_same_pool)
  have inv1: "mempool_inv s1" using inv same by (simp add: same_pool_inv)
  have known: "pool_lookup s k \<noteq> None" if "k \<in> bundle_ids b" for k
    using ids_pending [OF ready that] by auto
  have "list_all (\<lambda>(k, h, st, rc). pool_lookup s1 k \<noteq> None \<and> final_status st) ms"
    using fin known ids same_pool_lookup [OF same] by (force simp: list_all_iff)
  from pool.mark_all [OF inv1 this, of env] obtain t where
    loop: "mark_each env ms s1 = (Inr (), t)" and rest: "mempool_inv t"
    "\<forall>k. k \<notin> fst ` set ms \<longrightarrow> pool_lookup t k = pool_lookup s1 k"
    "\<forall>k \<in> fst ` set ms. \<exists>h st rc now r. (k, h, st, rc) \<in> set ms \<and> pool_lookup t k = Some r \<and>
       mr_status r = st \<and> mr_chainTxHash r = h \<and> mr_receipt r = rc \<and> mr_updatedAt r = Some now"
    by blast
  have "BundleBuilder_mineBundle env b s = (Inr res, t)"
    using loop mine by (simp add: pbind_def)
  then show ?thesis
    using rest fin rep ids same_pool_lookup [OF same] by (intro exI [of _ t] exI [of _ ms]) simp
qed

lemma mine_fails:
  assumes inv: "mempool_inv s" and ready: "list_all (item_ready (pool_lookup s)) (bundle_items b)"
    and "BundleBuilder_mineBundle env b s = (Inl e, t)"
  shows "BundleBuilder_executeBundle env b s = (Inl e, t)"
proof (cases "BundleBuilder_executeBundle env b s")
  case (Pair r s1)
  show ?thesis
  proof (cases r)
    case (Inl e')
    then show ?thesis
      using Pair assms(3) by (simp add: BundleBuilder_mineBundle_def pbind_Inl)
  next
    case (Inr res)
    then show ?thesis
      using Pair assms(3) mine_run [OF inv ready, of env res s1] by auto
  qed
qed

lemma read_ready:
  assumes "mempool_inv s" and "fst (Bundle_fromJson data s) = Inr b"
  shows "list_all (item_ready (pool_lookup s)) (bundle_items b)"
proof -
  have "read_bundle (pool_lookup s) data = Inr b"
    using assms bundle_reading_run mempool_invD(1) by fastforce
  then show ?thesis using read_bundle_ready by blast
qed

text \<open>
  C3. Mining is all or nothing for the mempool: when mining a bundle that was read from the
  mempool raises, whatever the reason, no record of the mempool has changed.
\<close>

theorem mining_all_or_nothing:
  assumes "mempool_inv s" and "fst (Bundle_fromJson data s) = Inr b"
    and "fst (BundleBuilder_mineBundle env b s) = Inl e"
  shows "same_pool s (snd (BundleBuilder_mineBundle env b s))"
  using execute_same_pool mine_fails [OF assms(1) read_ready [OF assms(1,2)]] assms(3)
  by (metis prod.collapse)

lemma mining_settled_state:
  assumes "mempool_inv s" and "fst (Bundle_fromJson data s) = Inr b"
    and "BundleBuilder_mineBundle env b s = (Inr res, t)"
  shows "mempool_inv t \<and>
    {k. pool_lookup t k \<noteq> pool_lookup s k} = bundle_ids b \<and>
    bundle_ids b \<subseteq> {k. \<exists>r now. pool_lookup t k = Some r \<and> final_status (mr_status r) \<and>
                            mr_updatedAt r = Some now}"
proof -
  note ready = read_ready [OF assms(1,2)]
  obtain s1 where ex: "BundleBuilder_executeBundle env b s = (Inr res, s1)"
    using assms(3) by (auto simp: BundleBuilder_mineBundle_def pbind_result_iff)
  from mine_run [OF assms(1) ready ex] assms(3) obtain ms where
    inv: "mempool_inv t" and ids: "fst ` set ms = bundle_ids b" and
    out: "\<forall>k. k \<notin> bundle_ids b \<longrightarrow> pool_lookup t k = pool_lookup s k" and
    hit: "\<forall>k \<in> bundle_ids b. \<exists>h st rc now r. (k, h, st, rc) \<in> set ms \<and> pool_lookup t k = Some r \<and>
       mr_status r = st \<and> mr_chainTxHash r = h \<and> mr_receipt r = rc \<and> mr_updatedAt r = Some now" and
    fin: "list_all (\<lambda>(k, h, st, rc). final_status st) ms"
    by auto
  have settled: "\<exists>r now. pool_lookup t k = Some r \<and> final_status (mr_status r) \<and> mr_updatedAt r = Some now"
    if "k \<in> bundle_ids b" for k
    using hit fin that by (fastforce simp: list_all_iff)
  have was_pending: "\<exists>r. pool_lookup s k = Some r \<and> is_pending r" if "k \<in> bundle_ids b" for k
    using ids_pending [OF ready that] .
  have "pool_lookup t k \<noteq> pool_lookup s k" if "k \<in> bundle_ids b" for k
    using settled [OF that] was_pending [OF that] by (auto simp: is_pending_def final_status_def)
  then show ?thesis using inv out settled by blast
qed

text \<open>
  C1. When mining a bundle that was read from the mempool succeeds, the invariant holds after
  it, every id of the bundle leads to a record with a final status and an update time, and every
  other id leads to the record it led to before.
\<close>

theorem mining_settles:
  assumes "mempool_inv s" and "fst (Bundle_fromJson data s) = Inr b"
    and "BundleBuilder_mineBundle env b s = (Inr res, t)"
  shows "mempool_inv t \<and>
    {k. pool_lookup t k \<noteq> pool_lookup s k} = bundle_ids b \<and>
    bundle_ids b \<subseteq> {k. \<exists>r now. pool_lookup t k = Some r \<and> final_status (mr_status r) \<and>
                            mr_updatedAt r = Some now}"
  using assms by (rule mining_settled_state)

text \<open>
  C4. What the caller is told is what the mempool keeps: after a bundle was mined, the record of
  every id of the bundle has the status, the chain hash and the receipt that an entry of the
  answer reports for that id.
\<close>

theorem answer_matches_records:
  assumes "mempool_inv s" and "fst (Bundle_fromJson data s) = Inr b"
    and "BundleBuilder_mineBundle env b s = (Inr res, t)" and "k \<in> bundle_ids b"
  shows "\<exists>r. pool_lookup t k = Some r \<and>
    (\<exists>v \<in> set (result_txs res). reported k (mr_chainTxHash r) (mr_status r) (mr_receipt r) v)"
proof -
  obtain s1 where ex: "BundleBuilder_executeBundle env b s = (Inr res, s1)"
    using assms(3) by (auto simp: BundleBuilder_mineBundle_def pbind_result_iff)
  from mine_run [OF assms(1) read_ready [OF assms(1,2)] ex] assms(3) obtain ms where
    hit: "\<forall>k \<in> bundle_ids b. \<exists>h st rc now r. (k, h, st, rc) \<in> set ms \<and> pool_lookup t k = Some r \<and>
       mr_status r = st \<and> mr_chainTxHash r = h \<and> mr_receipt r = rc \<and> mr_updatedAt r = Some now" and
    rep: "list_all (\<lambda>(k, h, st, rc). \<exists>v \<in> set (result_txs res). reported k h st rc v) ms"
    by auto
  from hit assms(4) obtain r where
    "(k, mr_chainTxHash r, mr_status r, mr_receipt r) \<in> set ms" "pool_lookup t k = Some r"
    by blast
  then show ?thesis using rep by (auto simp: list_all_iff)
qed

text \<open>
  C2. No transaction is mined twice: after mining a bundle, no bundle that can be read mentions
  an id of the mined one.
\<close>

theorem no_double_mining:
  assumes "mempool_inv s" and "fst (Bundle_fromJson data s) = Inr b"
    and "BundleBuilder_mineBundle env b s = (Inr res, t)"
    and "fst (Bundle_fromJson data' t) = Inr b'"
  shows "bundle_ids b \<inter> bundle_ids b' = {}"
proof -
  have "mempool_inv t" and
    settled: "bundle_ids b \<subseteq> {k. \<exists>r now. pool_lookup t k = Some r \<and> final_status (mr_status r) \<and>
                                      mr_updatedAt r = Some now}"
    using mining_settled_state [OF assms(1-3)] by blast+
  then have "list_all (item_ready (pool_lookup t)) (bundle_items b')"
    using assms(4) by (intro read_ready)
  then have "\<exists>r. pool_lookup t k = Some r \<and> is_pending r" if "k \<in> bundle_ids b'" for k
    using that by (rule ids_pending)
  then show ?thesis
    using settled by (fastforce simp: is_pending_def final_status_def)
qed

end
