(* ===== verification/Bundle_Order.thy ===== *)
theory Bundle_Order
  imports Bundle_Mining
begin

text \<open>
  What the node sees of a bundle: the order of the requests, read off the log of the recorded
  world, and the chain after a simulation, for a node that keeps its snapshots.
\<close>

section \<open>Calls in the log\<close>

text \<open>A request without its number.\<close>

type_synonym node_call = "json \<times> json"

definition body_call :: "json \<Rightarrow> node_call" where
  "body_call body =
     (case body of JObj d \<Rightarrow> (dict_get d ''method'', dict_get d ''params'') | _ \<Rightarrow> (JNull, JNull))"

text \<open>The calls made between two states of a recorded run.\<close>

definition calls ::
  "('w \<times> json list, 'z) world_state_scheme \<Rightarrow> ('w \<times> json list, 'z) world_state_scheme \<Rightarrow>
   node_call list \<Rightarrow> bool" where
  "calls s t cs \<longleftrightarrow> (\<exists>bodies. trace t = trace s @ bodies \<and> map body_call bodies = cs)"

lemma calls_refl [simp]: "calls s s []"
  by (simp add: calls_def)

lemma calls_trans: "calls s t as \<Longrightarrow> calls t u bs \<Longrightarrow> calls s u (as @ bs)"
  by (fastforce simp: calls_def)

lemma rpc_calls:
  "anvil_rpc (traced env) m p s = (r, t) \<Longrightarrow> calls s t [(JStr m, p)]"
  by (auto simp: calls_def anvil_rpc_run Let_def trace_def body_call_def rpc_body_def
      intro: exI [of _ "[rpc_body (requestId s + 1) m p]"])

lemma sleep_calls: "py_sleep (traced env) d s = (r, t) \<Longrightarrow> calls s t []"
  by (auto simp: calls_def trace_def)

definition send_call :: "BundleItem \<Rightarrow> node_call" where
  "send_call item =
     (JStr ''eth_sendTransaction'', JList [JObj (Transaction_toRpcParams (bi_transaction item))])"

definition mine_call :: node_call where
  "mine_call = (JStr ''evm_mine'', JList [])"

definition receipt_call :: "json \<Rightarrow> node_call" where
  "receipt_call txHash = (JStr ''eth_getTransactionReceipt'', JList [txHash])"

definition snapshot_call :: node_call where
  "snapshot_call = (JStr ''evm_snapshot'', JList [])"

definition revert_call :: "json \<Rightarrow> node_call" where
  "revert_call i = (JStr ''evm_revert'', JList [i])"

lemma sends_calls:
  "pmap (\<lambda>item. anvil_sendTransaction (traced env) (bi_transaction item)) items s = (r, t) \<Longrightarrow>
   \<exists>k \<le> length items. calls s t (map send_call (take k items)) \<and>
     (\<forall>hs. r = Inr hs \<longrightarrow> k = length items)"
proof (induction items arbitrary: s r)
  case Nil
  then show ?case by simp
next
  case (Cons item items)
  obtain r1 s1 where one: "anvil_sendTransaction (traced env) (bi_transaction item) s = (r1, s1)"
    by fastforce
  have c1: "calls s s1 [send_call item]"
    using one by (auto simp: anvil_sendTransaction_def send_call_def dest: rpc_calls)
  show ?case
  proof (cases r1)
    case (Inl e)
    then have "r = Inl e" "t = s1" using Cons.prems one by (simp_all add: pbind_def)
    then show ?thesis using c1 by (intro exI [of _ 1]) simp
  next
    case (Inr h)
    obtain r2 s2 where two:
      "pmap (\<lambda>item. anvil_sendTransaction (traced env) (bi_transaction item)) items s1 = (r2, s2)"
      by fastforce
    from Cons.IH [of s1 r2] two obtain k where
      k: "k \<le> length items" "calls s1 s2 (map send_call (take k items))"
         "\<forall>hs. r2 = Inr hs \<longrightarrow> k = length items"
      using Cons.prems one Inr by (cases r2) (auto simp: pbind_def)
    have "t = s2" "\<forall>hs. r = Inr hs \<longrightarrow> (\<exists>hs. r2 = Inr hs)"
      using Cons.prems one two Inr by (cases r2; simp add: pbind_def)+
    then show ?thesis
      using k calls_trans [OF c1 k(2)] by (intro exI [of _ "Suc k"]) auto
  qed
qed

lemma wait_calls:
  "anvil_waitForReceipt (traced env) h n d s = (r, t) \<Longrightarrow>
   \<exists>m \<le> n. calls s t (replicate m (receipt_call h)) \<and> (n > 0 \<longrightarrow> m > 0)"
proof (induction n arbitrary: s)
  case 0
  then show ?case by simp
next
  case (Suc n)
  obtain r1 s1 where one: "anvil_getReceipt (traced env) h s = (r1, s1)" by fastforce
  have c1: "calls s s1 [receipt_call h]"
    using one by (auto simp: anvil_getReceipt_def receipt_call_def dest: rpc_calls)
  show ?case
  proof (cases "r1 = Inr JNull")
    case True
    let ?s2 = "s1\<lparr>world := sleep (traced env) d (world s1)\<rparr>"
    have "anvil_waitForReceipt (traced env) h n d ?s2 = (r, t)"
      using Suc.prems one True by (simp add: pbind_def)
    from Suc.IH [OF this] obtain m where m: "m \<le> n" "calls ?s2 t (replicate m (receipt_call h))"
      by blast
    have "calls s1 ?s2 []" by (rule sleep_calls [of env d]) simp
    then have "calls s t ([receipt_call h] @ [] @ replicate m (receipt_call h))"
      using c1 m(2) by (intro calls_trans)
    then show ?thesis using m(1) by (intro exI [of _ "Suc m"]) simp
  next
    case False
    then have "t = s1" using Suc.prems one by (cases r1) (simp_all add: pbind_def)
    then show ?thesis using c1 by (intro exI [of _ 1]) simp
  qed
qed

text \<open>The polls for a list of hashes: each hash so many times, one hash after the other.\<close>

definition polls :: "json list \<Rightarrow> nat list \<Rightarrow> node_call list" where
  "polls hs ns = concat (map (\<lambda>(h, n). replicate n (receipt_call h)) (zip hs ns))"

lemma polls_calls:
  "pmap (\<lambda>h. anvil_waitForReceipt (traced env) h receipt_attempts d) hs s = (r, t) \<Longrightarrow>
   \<exists>ns. length ns \<le> length hs \<and> list_all (\<lambda>n. 1 \<le> n \<and> n \<le> receipt_attempts) ns \<and>
     calls s t (polls hs ns) \<and> (\<forall>x. r = Inr x \<longrightarrow> length ns = length hs)"
proof (induction hs arbitrary: s r)
  case Nil
  then show ?case by (simp add: polls_def)
next
  case (Cons h hs)
  obtain r1 s1 where one: "anvil_waitForReceipt (traced env) h receipt_attempts d s = (r1, s1)"
    by fastforce
  from wait_calls [OF one] obtain m where
    m: "1 \<le> m" "m \<le> receipt_attempts" "calls s s1 (replicate m (receipt_call h))"
    by (auto simp: receipt_attempts_def Suc_le_eq)
  show ?case
  proof (cases r1)
    case (Inl e)
    then have "r = Inl e" "t = s1" using Cons.prems one by (simp_all add: pbind_def)
    then show ?thesis using m by (intro exI [of _ "[m]"]) (simp add: polls_def)
  next
    case (Inr x)
    obtain r2 s2 where two:
      "pmap (\<lambda>h. anvil_waitForReceipt (traced env) h receipt_attempts d) hs s1 = (r2, s2)"
      by fastforce
    have t: "t = s2" and r: "\<forall>x. r = Inr x \<longrightarrow> (\<exists>y. r2 = Inr y)"
      using Cons.prems one two Inr by (cases r2; simp add: pbind_def)+
    from Cons.IH two t obtain ns where
      ns: "length ns \<le> length hs" "list_all (\<lambda>n. 1 \<le> n \<and> n \<le> receipt_attempts) ns"
          "calls s1 s2 (polls hs ns)" "\<forall>x. r2 = Inr x \<longrightarrow> length ns = length hs"
      by blast
    show ?thesis
      using m ns t r calls_trans [OF m(3) ns(3)]
      by (intro exI [of _ "m # ns"]) (auto simp: polls_def)
  qed
qed

section \<open>The order of a bundle's requests\<close>

text \<open>What the node answered to the transactions, or the exception of the first that was not accepted.\<close>

definition sent_hashes ::
  "'w env \<Rightarrow> Bundle \<Rightarrow> ('w, 'z) anvil_state_scheme \<Rightarrow> json list result" where
  "sent_hashes env b s = fst (pmap (\<lambda>item. anvil_sendTransaction env (bi_transaction item)) (bundle_items b) s)"

text \<open>
  What the calls of an execution look like, by the node's answers to the sends.  When one raises:
  some sends, the exception of the last of them, and nothing else.  When all are answered with a
  hash: all the sends in the order of the bundle, one block, and polls for the receipts of these
  hashes in this order, of all of them unless an exception stopped it.
\<close>

definition execution_calls :: "Bundle \<Rightarrow> json list result \<Rightarrow> bool \<Rightarrow> node_call list \<Rightarrow> bool" where
  "execution_calls b sent succeeded cs \<longleftrightarrow>
     (case sent of
        Inl e \<Rightarrow> \<not> succeeded \<and> (\<exists>k \<le> length (bundle_items b). cs = map send_call (take k (bundle_items b)))
      | Inr hs \<Rightarrow> length hs = length (bundle_items b) \<and>
          (\<exists>ns. length ns \<le> length hs \<and> (succeeded \<longrightarrow> length ns = length hs) \<and>
             list_all (\<lambda>n. 1 \<le> n \<and> n \<le> receipt_attempts) ns \<and>
             cs = map send_call (bundle_items b) @ [mine_call] @ polls hs ns))"

lemma execution_callsI:
  assumes "length hs = length (bundle_items b)" and "length ns \<le> length hs"
    and "succeeded \<longrightarrow> length ns = length hs"
    and "list_all (\<lambda>n. 1 \<le> n \<and> n \<le> receipt_attempts) ns"
  shows "execution_calls b (Inr hs) succeeded (map send_call (bundle_items b) @ [mine_call] @ polls hs ns)"
  unfolding execution_calls_def sum.case using assms by (intro exI conjI) (rule refl | assumption)+

lemma execute_calls:
  assumes "BundleBuilder_executeBundle (traced env) b s = (r, t)"
  shows "\<exists>cs. calls s t cs \<and> execution_calls b (sent_hashes (traced env) b s) (\<exists>x. r = Inr x) cs"
proof -
  obtain r1 s1 where sends:
    "pmap (\<lambda>item. anvil_sendTransaction (traced env) (bi_transaction item)) (bundle_items b) s = (r1, s1)"
    by fastforce
  have sent: "sent_hashes (traced env) b s = r1" using sends by (simp add: sent_hashes_def)
  from sends_calls [OF sends] obtain k where
    k: "k \<le> length (bundle_items b)" "calls s s1 (map send_call (take k (bundle_items b)))"
       "\<forall>hs. r1 = Inr hs \<longrightarrow> k = length (bundle_items b)"
    by blast
  show ?thesis
  proof (cases r1)
    case (Inl e)
    then have "r = Inl e" "t = s1"
      using assms sends by (simp_all add: BundleBuilder_executeBundle_def pbind_def)
    then show ?thesis using k Inl unfolding sent by (auto simp: execution_calls_def)
  next
    case (Inr hs)
    have len: "length hs = length (bundle_items b)" using sends Inr by (auto dest: pmap_length)
    have c1: "calls s s1 (map send_call (bundle_items b))" using k Inr by simp
    obtain r2 s2 where mine: "anvil_mineBlock (traced env) s1 = (r2, s2)" by fastforce
    have c2: "calls s1 s2 [mine_call]"
      using mine by (auto simp: anvil_mineBlock_def mine_call_def pbind_def
          split: prod.splits sum.splits dest: rpc_calls)
    have c12: "calls s s2 (map send_call (bundle_items b) @ [mine_call])"
      using c1 c2 by (rule calls_trans)
    show ?thesis
    proof (cases r2)
      case (Inl e)
      then have "r = Inl e" "t = s2"
        using assms sends Inr mine by (simp_all add: BundleBuilder_executeBundle_def pbind_def)
      moreover have "execution_calls b (Inr hs) False (map send_call (bundle_items b) @ [mine_call] @ polls hs [])"
        using len by (intro execution_callsI) simp_all
      ultimately show ?thesis
        using c12 unfolding sent Inr by (intro exI [of _ "map send_call (bundle_items b) @ [mine_call]"])
          (simp add: polls_def)
    next
      case (Inr u)
      obtain r3 s3 where wait:
        "pmap (\<lambda>h. anvil_waitForReceipt (traced env) h receipt_attempts receipt_delay) hs s2 = (r3, s3)"
        by fastforce
      from polls_calls [OF wait] obtain ns where
        ns: "length ns \<le> length hs" "list_all (\<lambda>n. 1 \<le> n \<and> n \<le> receipt_attempts) ns"
            "calls s2 s3 (polls hs ns)" "\<forall>x. r3 = Inr x \<longrightarrow> length ns = length hs"
        by blast
      have t: "t = s3" and r: "(\<exists>x. r = Inr x) \<longrightarrow> (\<exists>y. r3 = Inr y)"
        using assms sends \<open>r1 = Inr hs\<close> mine Inr wait
        by (auto simp: BundleBuilder_executeBundle_def pbind_def split: sum.splits prod.splits)
      have "execution_calls b (Inr hs) (\<exists>x. r = Inr x)
          (map send_call (bundle_items b) @ [mine_call] @ polls hs ns)"
        using len ns r by (intro execution_callsI) auto
      then show ?thesis
        using calls_trans [OF c12 ns(3)] t unfolding sent \<open>r1 = Inr hs\<close> by auto
    qed
  qed
qed


text \<open>
  A simulation brackets the execution: its first request is a snapshot, and once the node
  has given a snapshot its last request is the revert of that very snapshot, whether or not the
  execution between them raised; without a snapshot nothing else is sent.
\<close>

theorem simulation_brackets:
  "(\<exists>e. fst (anvil_snapshot (traced env) s) = Inl e \<and>
      calls s (snd (BundleBuilder_simulateBundle (traced env) b s)) [snapshot_call]) \<or>
   (\<exists>i cs ok. fst (anvil_snapshot (traced env) s) = Inr i \<and>
      calls s (snd (BundleBuilder_simulateBundle (traced env) b s))
        ([snapshot_call] @ cs @ [revert_call i]) \<and>
      execution_calls b (sent_hashes (traced env) b (snd (anvil_snapshot (traced env) s))) ok cs)"
proof -
  obtain r0 s0 where snap: "anvil_snapshot (traced env) s = (r0, s0)" by fastforce
  have c0: "calls s s0 [snapshot_call]"
    using snap by (auto simp: anvil_snapshot_def snapshot_call_def dest: rpc_calls)
  show ?thesis
  proof (cases r0)
    case (Inl e)
    then show ?thesis using snap c0 by (simp add: BundleBuilder_simulateBundle_def pbind_def)
  next
    case (Inr i)
    obtain r1 s1 where ex: "BundleBuilder_executeBundle (traced env) b s0 = (r1, s1)" by fastforce
    obtain r2 s2 where rev: "anvil_revert (traced env) i s1 = (r2, s2)" by fastforce
    have c2: "calls s1 s2 [revert_call i]"
      using rev by (auto simp: anvil_revert_def revert_call_def pbind_def
          split: prod.splits sum.splits if_splits dest: rpc_calls)
    have "snd (BundleBuilder_simulateBundle (traced env) b s) = s2"
      using snap Inr ex rev
      by (cases r1; cases r2) (simp_all add: BundleBuilder_simulateBundle_def pfinally_def pbind_def)
    moreover from execute_calls [OF ex] obtain cs where
      "calls s0 s1 cs" "execution_calls b (sent_hashes (traced env) b s0) (\<exists>x. r1 = Inr x) cs" by blast
    moreover have "calls s s2 ([snapshot_call] @ cs @ [revert_call i])"
      using c0 \<open>calls s0 s1 cs\<close> c2 by (intro calls_trans)
    ultimately show ?thesis using snap Inr by auto
  qed
qed

section \<open>A node that keeps its snapshots\<close>

text \<open>
  The documented behaviour of \<^verbatim>\<open>evm_snapshot\<close> and \<^verbatim>\<open>evm_revert\<close>, as a law about a parameter: the
  node keeps a table of saved chain states by snapshot id; a snapshot saves the current chain
  state under the id it returns; requests of other methods and the passing of time leave the
  saved states alone; a revert that answers true brings the saved state back.
\<close>

definition keeps_snapshots ::
  "'w env \<Rightarrow> ('w \<Rightarrow> 'v) \<Rightarrow> ('w \<Rightarrow> json \<Rightarrow> 'v option) \<Rightarrow> bool" where
  "keeps_snapshots env chain saved \<longleftrightarrow>
     (\<forall>url n w d. fst (node env url (rpc_body n ''evm_snapshot'' (JList [])) w) = Reply (JObj d) \<longrightarrow>
        map_of d ''error'' = None \<longrightarrow>
        saved (snd (node env url (rpc_body n ''evm_snapshot'' (JList [])) w)) (dict_get d ''result'')
          = Some (chain w)) \<and>
     (\<forall>url n m p w. m \<notin> {''evm_snapshot'', ''evm_revert''} \<longrightarrow>
        saved (snd (node env url (rpc_body n m p) w)) = saved w) \<and>
     (\<forall>t w. saved (sleep env t w) = saved w) \<and>
     (\<forall>url n i w d v. fst (node env url (rpc_body n ''evm_revert'' (JList [i])) w) = Reply (JObj d) \<longrightarrow>
        dict_get d ''result'' = JBool True \<longrightarrow> saved w i = Some v \<longrightarrow>
        chain (snd (node env url (rpc_body n ''evm_revert'' (JList [i])) w)) = v)"

definition same_saved ::
  "('w \<Rightarrow> json \<Rightarrow> 'v option) \<Rightarrow> ('w, 'z) anvil_state_scheme \<Rightarrow> ('w, 'z) anvil_state_scheme \<Rightarrow> bool"
  where
  "same_saved saved s t \<longleftrightarrow> saved (world t) = saved (world s)"

interpretation same_saved: step_order "same_saved saved" for saved
  by unfold_locales (simp_all add: same_saved_def)

lemma keeps_saved_rpc:
  assumes "keeps_snapshots env chain saved" and "m \<notin> {''evm_snapshot'', ''evm_revert''}"
  shows "keeps (same_saved saved) (anvil_rpc env m p)"
  using assms by (intro keepsI) (simp add: same_saved_def keeps_snapshots_def anvil_rpc_run Let_def)

lemma keeps_saved_execute:
  assumes "keeps_snapshots env chain saved"
  shows "keeps (same_saved saved) (BundleBuilder_executeBundle env b)"
proof -
  have sl: "keeps (same_saved saved) (py_sleep env d)" for d
    using assms by (intro keepsI) (simp add: same_saved_def keeps_snapshots_def)
  have rpcs: "keeps (same_saved saved) (anvil_sendTransaction env t)"
    "keeps (same_saved saved) (anvil_mineBlock env)"
    "keeps (same_saved saved) (anvil_getReceipt env h)" for t h
    unfolding anvil_ops
    by (intro same_saved.keeps_bind same_saved.keeps_basic keeps_saved_rpc [OF assms]; simp)+
  have "keeps (same_saved saved) (anvil_waitForReceipt env h n d)" for h n d
    by (induction n) (auto intro!: frame_intro rpcs sl)
  with rpcs show ?thesis
    unfolding BundleBuilder_executeBundle_def by (intro frame_intro)
qed

lemma rpc_outcome_InrD:
  "rpc_outcome r = Inr v \<Longrightarrow> \<exists>d. r = Reply (JObj d) \<and> map_of d ''error'' = None \<and> v = dict_get d ''result''"
  by (cases r)
     (auto simp: rpc_outcome_def rbind_Inr_iff json_contains_def json_get_def json_item_def
       split: json.splits if_splits)

lemma snapshot_saves:
  assumes "keeps_snapshots env chain saved"
    and "rpc_outcome (fst (node env url (rpc_body n ''evm_snapshot'' (JList [])) w)) = Inr i"
  shows "saved (snd (node env url (rpc_body n ''evm_snapshot'' (JList [])) w)) i = Some (chain w)"
proof -
  obtain d where "fst (node env url (rpc_body n ''evm_snapshot'' (JList [])) w) = Reply (JObj d)"
    "map_of d ''error'' = None" "i = dict_get d ''result''"
    using rpc_outcome_InrD [OF assms(2)] by blast
  then show ?thesis
    using assms(1) [unfolded keeps_snapshots_def, THEN conjunct1] by simp
qed

lemma revert_restores:
  assumes "keeps_snapshots env chain saved"
    and "rpc_outcome (fst (node env url (rpc_body n ''evm_revert'' (JList [i])) w)) = Inr (JBool True)"
    and "saved w i = Some v"
  shows "chain (snd (node env url (rpc_body n ''evm_revert'' (JList [i])) w)) = v"
proof -
  obtain d where "fst (node env url (rpc_body n ''evm_revert'' (JList [i])) w) = Reply (JObj d)"
    "JBool True = dict_get d ''result''"
    using rpc_outcome_InrD [OF assms(2)] by blast
  then show ?thesis
    using assms(1) [unfolded keeps_snapshots_def, THEN conjunct2, THEN conjunct2, THEN conjunct2]
      assms(3) by simp
qed

lemma simulation_chain:
  assumes k: "keeps_snapshots env chain saved"
    and ok: "fst (BundleBuilder_simulateBundle env b s) = Inr res"
  shows "chain (world (snd (BundleBuilder_simulateBundle env b s))) = chain (world s)"
proof -
  from ok obtain t where run: "BundleBuilder_simulateBundle env b s = (Inr res, t)"
    by (metis prod.collapse)
  from run obtain i s0 where snap: "anvil_snapshot env s = (Inr i, s0)"
    by (auto simp: BundleBuilder_simulateBundle_def pbind_result_iff)
  obtain r1 s1 where ex: "BundleBuilder_executeBundle env b s0 = (r1, s1)" by fastforce
  have rev: "anvil_revert env i s1 = (Inr (), t)"
    using run snap ex
    by (cases r1) (auto simp: BundleBuilder_simulateBundle_def pfinally_def pbind_def
        split: prod.splits sum.splits)
  have "saved (world s0) i = Some (chain (world s))"
    using snap by (auto simp: anvil_snapshot_def anvil_rpc_run Let_def intro: snapshot_saves [OF k])
  then have saved: "saved (world s1) i = Some (chain (world s))"
    using keepsD [OF keeps_saved_execute [OF k] ex] by (simp add: same_saved_def)
  let ?out = "node env (rpcUrl s1) (rpc_body (requestId s1 + 1) ''evm_revert'' (JList [i])) (world s1)"
  have "rpc_outcome (fst ?out) = Inr (JBool True)" "world t = snd ?out"
    using rev by (auto simp: anvil_revert_def anvil_rpc_run Let_def pbind_result_iff
        split: if_splits)
  then have "chain (world t) = chain (world s)"
    using revert_restores [OF k _ saved] by simp
  then show ?thesis by (simp add: run)
qed

text \<open>
  C17. With a node that keeps its snapshots, a simulation that answers has left the chain in
  the state it was in before.
\<close>

theorem simulation_restores_chain:
  assumes "keeps_snapshots env chain saved"
    and "fst (BundleBuilder_simulateBundle env b s) = Inr res"
  shows "chain (world (snd (BundleBuilder_simulateBundle env b s))) = chain (world s)"
  using assms by (rule simulation_chain)

end
