(* ===== verification/Builder_App.thy ===== *)
theory Builder_App
  imports Bundle_Order
begin

text \<open>
  The service: the broadcaster of pending transactions (\<^verbatim>\<open>block_builder/ws.py\<close>) and the request
  handlers of the application (\<^verbatim>\<open>block_builder/app.py\<close>).  A handler ends in an answer: a JSON body
  with code 200, an HTTP error the handler raises on purpose, or an exception it lets through,
  which the framework turns into a server error.
\<close>

section \<open>The broadcaster\<close>

record 'w app_state = "'w mempool_state" +
  subscribers :: "ws set"

definition Broadcaster_connect :: "'w env \<Rightarrow> ws \<Rightarrow> (('w, 'z) app_state_scheme, unit) py" where
  "Broadcaster_connect env websocket =
     pbind (on_world (ws_accept env websocket)) (\<lambda>accepted.
     if accepted then pupdate (\<lambda>s. s\<lparr>subscribers := insert websocket (subscribers s)\<rparr>)
     else praise (OtherError ''websocket accept''))"

definition Broadcaster_disconnect :: "ws \<Rightarrow> (('w, 'z) app_state_scheme, unit) py" where
  "Broadcaster_disconnect websocket =
     pupdate (\<lambda>s. s\<lparr>subscribers := subscribers s - {websocket}\<rparr>)"

text \<open>The loop over the subscribers; a send that raises puts its websocket on the list.\<close>

fun broadcast_loop ::
  "'w env \<Rightarrow> json \<Rightarrow> ws list \<Rightarrow> ws list \<Rightarrow> (('w, 'z) app_state_scheme, ws list) py" where
  "broadcast_loop env message [] disconnected = pret disconnected"
| "broadcast_loop env message (websocket # rest) disconnected =
     pbind (on_world (ws_send env websocket message)) (\<lambda>sent.
     broadcast_loop env message rest (if sent then disconnected else disconnected @ [websocket]))"

definition Broadcaster_broadcast :: "'w env \<Rightarrow> json \<Rightarrow> (('w, 'z) app_state_scheme, unit) py" where
  "Broadcaster_broadcast env message =
     pbind (pread (\<lambda>s. ws_order env (subscribers s))) (\<lambda>order.
     pbind (broadcast_loop env message order []) (\<lambda>disconnected.
     pfor Broadcaster_disconnect disconnected))"

section \<open>Handlers\<close>

datatype response =
    Ok200 json
  | HttpError int message
  | ServerError exc

text \<open>
  The two shapes of a handler's \<^verbatim>\<open>except\<close> clauses: ValueError becomes 400, RuntimeError (with its
  subclass) becomes 502, and each handler catches one or both.
\<close>

definition answer :: "bool \<Rightarrow> bool \<Rightarrow> ('s, json) py \<Rightarrow> 's \<Rightarrow> response \<times> 's" where
  "answer catch_value catch_runtime m s =
     (case m s of (r, t) \<Rightarrow>
       (case r of
          Inr v \<Rightarrow> Ok200 v
        | Inl (ValueError msg) \<Rightarrow> if catch_value then HttpError 400 msg else ServerError (ValueError msg)
        | Inl (RuntimeError msg) \<Rightarrow>
            if catch_runtime then HttpError 502 msg else ServerError (RuntimeError msg)
        | Inl (ScenarioError msg) \<Rightarrow>
            if catch_runtime then HttpError 502 msg else ServerError (ScenarioError msg)
        | Inl e \<Rightarrow> ServerError e, t))"

definition chain_head :: "'w env \<Rightarrow> ('w, 'z) app_state_scheme \<Rightarrow> response \<times> ('w, 'z) app_state_scheme"
  where
  "chain_head env = answer False True (
     pbind (anvil_getLatestBlock env) (\<lambda>block.
     pbind (plift (json_get block ''number'')) (\<lambda>number.
     pbind (plift (json_get block ''hash'')) (\<lambda>h.
     pbind (plift (json_get block ''parentHash'')) (\<lambda>parent.
     pbind (plift (json_get block ''timestamp'')) (\<lambda>time.
     pbind (plift (json_get block ''baseFeePerGas'')) (\<lambda>fee.
     pret (JObj [(''blockNumber'', number), (''blockHash'', h), (''parentHash'', parent),
                 (''timestamp'', time), (''baseFeePerGas'', fee)]))))))))"

definition requiredNonEmptyString :: "dict \<Rightarrow> string \<Rightarrow> string result" where
  "requiredNonEmptyString data field = (case dict_get data field of
       JStr value \<Rightarrow>
         (if value = '''' then Inl (ValueError [Txt (quoted field @ '' must be a non-empty string'')])
          else Inr value)
     | _ \<Rightarrow> Inl (ValueError [Txt (quoted field @ '' must be a non-empty string'')]))"

definition optionalNonEmptyString :: "dict \<Rightarrow> string \<Rightarrow> string \<Rightarrow> string result" where
  "optionalNonEmptyString data field dflt = (case dict_get_or data field (JStr dflt) of
       JStr value \<Rightarrow>
         (if value = '''' then Inl (ValueError [Txt (quoted field @ '' must be a non-empty string'')])
          else Inr value)
     | _ \<Rightarrow> Inl (ValueError [Txt (quoted field @ '' must be a non-empty string'')]))"

text \<open>The loop over the optional call parameters.\<close>

fun copy_fields :: "dict \<Rightarrow> string list \<Rightarrow> dict \<Rightarrow> dict result" where
  "copy_fields data [] callParams = Inr callParams"
| "copy_fields data (field # rest) callParams =
     (let value = dict_get data field in
      if value = JNull then copy_fields data rest callParams
      else case value of
          JStr v \<Rightarrow>
            if v = '''' then Inl (ValueError [Txt (quoted field @ '' must be a non-empty string'')])
            else copy_fields data rest (dict_set callParams field value)
        | _ \<Rightarrow> Inl (ValueError [Txt (quoted field @ '' must be a non-empty string'')]))"

definition chainCallFromJson :: "dict \<Rightarrow> (dict \<times> string) result" where
  "chainCallFromJson data =
     rbind (requiredNonEmptyString data ''to'') (\<lambda>to.
     rbind (requiredNonEmptyString data ''data'') (\<lambda>callData.
     rbind (optionalNonEmptyString data ''block'' ''latest'') (\<lambda>block.
     rbind (copy_fields data [''from'', ''gas'', ''gasPrice'', ''value'']
              [(''to'', JStr to), (''data'', JStr callData)]) (\<lambda>callParams.
     Inr (callParams, block)))))"

definition chain_call ::
  "'w env \<Rightarrow> dict \<Rightarrow> ('w, 'z) app_state_scheme \<Rightarrow> response \<times> ('w, 'z) app_state_scheme" where
  "chain_call env payload = answer True True (
     pbind (plift (chainCallFromJson payload)) (\<lambda>(callParams, block).
     pbind (anvil_call env callParams block) (\<lambda>r.
     pret (JObj [(''block'', JStr block), (''result'', r)]))))"

definition pending_message :: "json \<Rightarrow> json" where
  "pending_message r = JObj [(''type'', JStr ''pending_transaction''), (''record'', r)]"

definition submit_public_tx ::
  "'w env \<Rightarrow> dict \<Rightarrow> ('w, 'z) app_state_scheme \<Rightarrow> response \<times> ('w, 'z) app_state_scheme" where
  "submit_public_tx env payload = answer True False (
     pbind (plift (Transaction_fromJson payload)) (\<lambda>transaction.
     pbind (Mempool_addTransaction env transaction) (\<lambda>ref.
     pbind (pread (\<lambda>s. MempoolRecord_toJson (mp_heap s ! ref))) (\<lambda>r.
     pbind (Broadcaster_broadcast env (pending_message r)) (\<lambda>_.
     pread (\<lambda>s. MempoolRecord_toJson (mp_heap s ! ref)))))))"

definition get_public_tx ::
  "string \<Rightarrow> ('w, 'z) app_state_scheme \<Rightarrow> response \<times> ('w, 'z) app_state_scheme" where
  "get_public_tx mempool_tx_id s =
     (case Mempool_getTransaction mempool_tx_id s of
        (Inl e, t) \<Rightarrow> (ServerError e, t)
      | (Inr None, t) \<Rightarrow> (HttpError 404 [Txt ''transaction not found''], t)
      | (Inr (Some ref), t) \<Rightarrow> (Ok200 (MempoolRecord_toJson (mp_heap t ! ref)), t))"

definition get_pending_transactions ::
  "('w, 'z) app_state_scheme \<Rightarrow> response \<times> ('w, 'z) app_state_scheme" where
  "get_pending_transactions = answer False False Mempool_pendingSnapshot"

definition simulate_private_bundle ::
  "'w env \<Rightarrow> dict \<Rightarrow> ('w, 'z) app_state_scheme \<Rightarrow> response \<times> ('w, 'z) app_state_scheme" where
  "simulate_private_bundle env payload = answer True True (
     pbind (Bundle_fromJson payload) (\<lambda>bundle.
     pbind (BundleBuilder_simulateBundle env bundle) (\<lambda>result. pret (JObj result))))"

definition submit_private_bundle ::
  "'w env \<Rightarrow> dict \<Rightarrow> ('w, 'z) app_state_scheme \<Rightarrow> response \<times> ('w, 'z) app_state_scheme" where
  "submit_private_bundle env payload = answer True True (
     pbind (Bundle_fromJson payload) (\<lambda>bundle.
     pbind (BundleBuilder_mineBundle env bundle) (\<lambda>result. pret (JObj result))))"

section \<open>The application\<close>

text \<open>
  The routes of \<^verbatim>\<open>create_app\<close>, the events of the websocket endpoint (a connection, a text, the
  peer's disconnection) and the state a fresh application starts in.
\<close>

datatype event =
    Get_health
  | Get_ping
  | Get_chain_head
  | Post_chain_call dict
  | Post_public_tx dict
  | Get_public_tx string
  | Get_public_pending
  | Post_bundle_simulate dict
  | Post_bundle dict
  | Ws_connect ws
  | Ws_text ws
  | Ws_disconnect ws

definition create_app :: "'w \<Rightarrow> 'w app_state" where
  "create_app w =
     \<lparr>world = w, rpcUrl = ''http://127.0.0.1:8545'', requestId = 0,
      mp_transactions = [], mp_lastSeqNum = 0, mp_lock = False, mp_heap = [],
      subscribers = {}\<rparr>"

definition socket :: "('s, unit) py \<Rightarrow> 's \<Rightarrow> response \<times> 's" where
  "socket m = answer False False (pbind m (\<lambda>_. pret JNull))"

fun app_handle ::
  "'w env \<Rightarrow> event \<Rightarrow> ('w, 'z) app_state_scheme \<Rightarrow> response \<times> ('w, 'z) app_state_scheme" where
  "app_handle env Get_health s = (Ok200 (JObj [(''status'', JStr ''ok'')]), s)"
| "app_handle env Get_ping s = (Ok200 (JObj [(''message'', JStr ''pong'')]), s)"
| "app_handle env Get_chain_head s = chain_head env s"
| "app_handle env (Post_chain_call payload) s = chain_call env payload s"
| "app_handle env (Post_public_tx payload) s = submit_public_tx env payload s"
| "app_handle env (Get_public_tx i) s = get_public_tx i s"
| "app_handle env Get_public_pending s = get_pending_transactions s"
| "app_handle env (Post_bundle_simulate payload) s = simulate_private_bundle env payload s"
| "app_handle env (Post_bundle payload) s = submit_private_bundle env payload s"
| "app_handle env (Ws_connect c) s = socket (Broadcaster_connect env c) s"
| "app_handle env (Ws_text c) s = (Ok200 JNull, s)"
| "app_handle env (Ws_disconnect c) s = socket (Broadcaster_disconnect c) s"

fun app_run ::
  "'w env \<Rightarrow> event list \<Rightarrow> ('w, 'z) app_state_scheme \<Rightarrow> response list \<times> ('w, 'z) app_state_scheme"
  where
  "app_run env [] s = ([], s)"
| "app_run env (e # es) s =
     (case app_handle env e s of (r, t) \<Rightarrow>
        (case app_run env es t of (rs, u) \<Rightarrow> (r # rs, u)))"

section \<open>What a broadcast does\<close>

text \<open>One send to each websocket of a list, in order: the outcomes and the world after.\<close>

fun send_each :: "'w env \<Rightarrow> json \<Rightarrow> ws list \<Rightarrow> 'w \<Rightarrow> bool list \<times> 'w" where
  "send_each env message [] w = ([], w)"
| "send_each env message (c # cs) w =
     (case ws_send env c message w of (ok, w') \<Rightarrow>
        (case send_each env message cs w' of (oks, w'') \<Rightarrow> (ok # oks, w'')))"

definition failed :: "ws list \<Rightarrow> bool list \<Rightarrow> ws list" where
  "failed cs oks = map fst (filter (\<lambda>(c, ok). \<not> ok) (zip cs oks))"

lemma failed_simps [simp]:
  "failed [] oks = []"
  "failed (c # cs) (ok # oks) = (if ok then failed cs oks else c # failed cs oks)"
  by (simp_all add: failed_def)

lemma broadcast_loop_run:
  "broadcast_loop env m cs ds s =
     (Inr (ds @ failed cs (fst (send_each env m cs (world s)))),
      s\<lparr>world := snd (send_each env m cs (world s))\<rparr>)"
  by (induction cs arbitrary: ds s) (auto split: prod.splits)

lemma disconnect_all_run:
  "pfor Broadcaster_disconnect cs s = (Inr (), s\<lparr>subscribers := subscribers s - set cs\<rparr>)"
  by (induction cs arbitrary: s) (simp_all add: Broadcaster_disconnect_def flip: Diff_insert2)

lemma broadcast_run:
  "Broadcaster_broadcast env m s =
     (let cs = ws_order env (subscribers s); out = send_each env m cs (world s) in
      (Inr (), s\<lparr>world := snd out, subscribers := subscribers s - set (failed cs (fst out))\<rparr>))"
  by (simp add: Broadcaster_broadcast_def pbind_def broadcast_loop_run disconnect_all_run Let_def)

text \<open>
  A broadcast never raises: it sends the message once to each subscriber, one after the
  other, and takes those whose send failed, and no others, out of the subscriber set; nothing
  but the world and the subscriber set changes.
\<close>

theorem broadcast_effect:
  "Broadcaster_broadcast env m s =
     (let cs = ws_order env (subscribers s); out = send_each env m cs (world s) in
      (Inr (), s\<lparr>world := snd out, subscribers := subscribers s - set (failed cs (fst out))\<rparr>))"
  by (rule broadcast_run)

end
