(* ===== verification/Builder_Safety.thy ===== *)
theory Builder_Safety
  imports Builder_App
begin

text \<open>
  The service as a whole: its invariant over any run of requests and websocket events, what a
  run can do to a record, the numbering of the requests to the node, and the absence of a
  deadlock on the pool's lock.
\<close>

section \<open>The answers\<close>

lemma answer_state [simp]: "snd (answer cv cr m s) = snd (m s)"
  by (simp add: answer_def split: prod.split)

lemma answer_Ok: "fst (answer cv cr m s) = Ok200 v \<longleftrightarrow> fst (m s) = Inr v"
  by (auto simp: answer_def split: prod.split sum.split exc.split if_splits)

lemma answer_Inr [simp]: "m s = (Inr v, t) \<Longrightarrow> answer cv cr m s = (Ok200 v, t)"
  by (simp add: answer_def)

section \<open>The subscriber set and the client\<close>

lemma frame_subscribers: "anvil_frame s t \<Longrightarrow> subscribers t = subscribers s"
  by (cases s; cases t) (simp add: anvil_frame_def)

section \<open>One handler\<close>

text \<open>
  The service's invariant, and what a step may do to the records: the pool evolves, and a
  record that is settled is never written again.
\<close>

definition app_inv :: "('w, 'z) app_state_scheme \<Rightarrow> bool" where
  "app_inv s \<longleftrightarrow> mempool_inv s \<and> finite (subscribers s)"

definition settled_fixed ::
  "('w, 'z) mempool_state_scheme \<Rightarrow> ('w, 'z) mempool_state_scheme \<Rightarrow> bool" where
  "settled_fixed s t \<longleftrightarrow>
     (\<forall>i < length (mp_heap s). stage_of (mp_heap s ! i) = Settled \<longrightarrow> mp_heap t ! i = mp_heap s ! i)"

definition app_evolves ::
  "('w, 'z) mempool_state_scheme \<Rightarrow> ('w, 'z) mempool_state_scheme \<Rightarrow> bool" where
  "app_evolves s t \<longleftrightarrow> pool_evolves s t \<and> settled_fixed s t"

interpretation app_evolves: step_order app_evolves
proof unfold_locales
  fix s t u :: "('a, 'b) mempool_state_scheme"
  show "app_evolves s s"
    by (simp add: app_evolves_def settled_fixed_def pool_evolves.step_refl)
  assume st: "app_evolves s t" and tu: "app_evolves t u"
  have len: "length (mp_heap s) \<le> length (mp_heap t)"
    using st by (simp add: app_evolves_def pool_evolves_def list_all2_take_iff)
  have "settled_fixed s u"
    unfolding settled_fixed_def
  proof (intro allI impI)
    fix i assume i: "i < length (mp_heap s)" "stage_of (mp_heap s ! i) = Settled"
    have "mp_heap t ! i = mp_heap s ! i"
      using st i by (simp add: app_evolves_def settled_fixed_def)
    moreover from this have "mp_heap u ! i = mp_heap t ! i"
      using tu i len by (simp add: app_evolves_def settled_fixed_def)
    ultimately show "mp_heap u ! i = mp_heap s ! i" by simp
  qed
  then show "app_evolves s u"
    using st tu pool_evolves.step_trans by (auto simp: app_evolves_def)
qed

lemma same_pool_evolves: "same_pool s t \<Longrightarrow> app_evolves s t"
  by (simp add: same_pool_def app_evolves_def pool_evolves_def settled_fixed_def
      list_all2_conv_all_nth)

lemma add_app_evolves:
  assumes "\<not> mp_lock s"
  shows "app_evolves s (snd (Mempool_addTransaction env t s))"
  using add_evolves [of s env t] assms
  by (simp add: app_evolves_def settled_fixed_def addTransaction_run nth_append)

text \<open>The marking loop at the level of the heap: only the records the ids lead to are written.\<close>

lemma mark_loop_evolves:
  assumes "mempool_inv s" and "list_all (\<lambda>(k, h, st, rc). final_status st) ms"
    and "mark_each env ms s = (r, t)"
  shows "pool_evolves s t \<and> mp_transactions t = mp_transactions s \<and>
    (\<forall>i. (\<forall>k \<in> fst ` set ms. map_of (mp_transactions s) k \<noteq> Some i) \<longrightarrow> mp_heap t ! i = mp_heap s ! i)"
  using assms
proof (induction ms arbitrary: s)
  case Nil
  then show ?case by (simp add: pool_evolves.step_refl)
next
  case (Cons m ms)
  obtain k h st rc where m: "m = (k, h, st, rc)" by (cases m)
  have st: "final_status st" using Cons.prems(2) by (simp add: m)
  have l: "\<not> mp_lock s" by (rule mempool_invD(1) [OF Cons.prems(1)])
  obtain r1 s1 where one: "Mempool_markMined env k h st rc s = (r1, s1)" by fastforce
  have ev: "pool_evolves s s1" using mark_evolves [OF st, of s env k h rc] one by simp
  have inv1: "mempool_inv s1" using mark_inv [OF Cons.prems(1) st, of env k h rc] one by simp
  have tr1: "mp_transactions s1 = mp_transactions s" and
    hp1: "\<forall>i. map_of (mp_transactions s) k \<noteq> Some i \<longrightarrow> mp_heap s1 ! i = mp_heap s ! i"
    using one l by (auto simp: markMined_run split: option.splits)
  show ?case
  proof (cases r1)
    case (Inl e)
    then have "t = s1" using Cons.prems(3) one by (simp add: m pbind_def)
    then show ?thesis using ev tr1 hp1 by (simp add: m)
  next
    case (Inr x)
    then have run: "mark_each env ms s1 = (r, t)"
      using Cons.prems(3) one by (simp add: m pbind_Inr)
    have "list_all (\<lambda>(k, h, st, rc). final_status st) ms" using Cons.prems(2) by simp
    from Cons.IH [OF inv1 this run] show ?thesis
      using ev tr1 hp1 pool_evolves.step_trans [OF ev] by (auto simp: m)
  qed
qed

lemma mark_loop_subscribers:
  "mark_each env ms s = (r, t) \<Longrightarrow>
   subscribers t = subscribers s"
proof (induction ms arbitrary: s)
  case Nil
  then show ?case by simp
next
  case (Cons m ms)
  obtain k h st rc where m: "m = (k, h, st, rc)" by (cases m)
  have "subscribers (snd (Mempool_markMined env k h st rc s)) = subscribers s"
    by (cases "mp_lock s")
       (simp_all add: Mempool_markMined_def [of env k h st rc] with_lock_def [of _ s] markMined_run
          split: option.split prod.split)
  then show ?case
    using Cons by (auto simp: m pbind_def split: prod.splits sum.splits)
qed

lemma mine_evolves:
  assumes inv: "mempool_inv s" and ready: "list_all (item_ready (pool_lookup s)) (bundle_items b)"
    and ex: "BundleBuilder_executeBundle env b s = (Inr res, s1)"
    and mine: "BundleBuilder_mineBundle env b s = (Inr res, t)"
  shows "app_evolves s t"
proof -
  from mine_loop [OF ex] obtain ms where
    ids: "fst ` set ms = bundle_ids b" and fin: "list_all (\<lambda>(k, h, st, rc). final_status st) ms" and
    run: "BundleBuilder_mineBundle env b s = pbind (mark_each env ms) (\<lambda>_. pret res) s1"
    by blast
  have loop: "mark_each env ms s1 = (Inr (), t)"
    using mine unfolding run pbind_result_iff by simp
  have same: "same_pool s s1" using ex by (rule execute_same_pool)
  have inv1: "mempool_inv s1" using inv same by (simp add: same_pool_inv)
  note M = mark_loop_evolves [OF inv1 fin loop, unfolded ids]
  have pend: "is_pending (mp_heap s ! i)"
    if "k \<in> bundle_ids b" "map_of (mp_transactions s) k = Some i" for k i
    using ids_pending [OF ready that(1)] that(2) by (auto simp: pool_lookup_def)
  have "settled_fixed s1 t"
    unfolding settled_fixed_def
  proof (intro allI impI)
    fix i assume "i < length (mp_heap s1)" and "stage_of (mp_heap s1 ! i) = Settled"
    then have "\<not> is_pending (mp_heap s1 ! i)" by (auto simp: stage_of_def split: if_splits)
    then have "\<forall>k \<in> bundle_ids b. map_of (mp_transactions s1) k \<noteq> Some i"
      using pend same by (auto simp: same_pool_def)
    then show "mp_heap t ! i = mp_heap s1 ! i" using M by blast
  qed
  then have "app_evolves s1 t" using M by (simp add: app_evolves_def)
  then show ?thesis
    using same_pool_evolves [OF same] app_evolves.step_trans by blast
qed

lemma mine_subscribers:
  assumes ex: "BundleBuilder_executeBundle env b s = (Inr res, s1)"
    and mine: "BundleBuilder_mineBundle env b s = (Inr res, t)"
  shows "subscribers t = subscribers s"
proof -
  obtain ms where "fst ` set ms = bundle_ids b" "list_all (\<lambda>(k, h, st, rc). final_status st) ms" and
    run: "BundleBuilder_mineBundle env b s = pbind (mark_each env ms) (\<lambda>_. pret res) s1"
    by (rule mine_loop [OF ex])
  have "mark_each env ms s1 = (Inr (), t)"
    using mine unfolding run pbind_result_iff by simp
  then have "subscribers t = subscribers s1"
    by (rule mark_loop_subscribers)
  also have "subscribers s1 = subscribers s"
    using frame_subscribers keepsD [OF keeps_execute ex] by blast
  finally show ?thesis .
qed

section \<open>Each handler\<close>

lemma field_error_ValueError: "\<exists>m. field_error f = ValueError m"
proof (cases f)
  case (Pair key p)
  then show ?thesis by (cases p) simp_all
qed

lemma fromJson_ValueError: "Transaction_fromJson d = Inl e \<Longrightarrow> \<exists>m. e = ValueError m"
  using field_error_ValueError by (auto simp: table_of_fields split: option.splits)

text \<open>The record a valid submission creates.\<close>

definition submitted ::
  "'w env \<Rightarrow> Transaction \<Rightarrow> ('w, 'z) mempool_state_scheme \<Rightarrow> MempoolRecord" where
  "submitted env t s = fresh_record (next_id env s) (mp_lastSeqNum s + 1) t (next_now env s)"

lemma submit_run:
  assumes inv: "mempool_inv s"
  shows "submit_public_tx env payload s =
    (case Transaction_fromJson payload of
       Inl e \<Rightarrow> (HttpError 400 (case e of ValueError m \<Rightarrow> m), s)
     | Inr t \<Rightarrow>
         (Ok200 (MempoolRecord_toJson (submitted env t s)),
          snd (Broadcaster_broadcast env
                 (pending_message (MempoolRecord_toJson (submitted env t s)))
                 (snd (Mempool_addTransaction env t s)))))"
proof (cases "Transaction_fromJson payload")
  case (Inl e)
  then obtain m where "e = ValueError m" using fromJson_ValueError by blast
  then show ?thesis using Inl by (simp add: submit_public_tx_def answer_def)
next
  case (Inr t)
  let ?r = "MempoolRecord_toJson (submitted env t s)"
  note l = mempool_invD(1) [OF inv]
  obtain s1 where add: "Mempool_addTransaction env t s = (Inr (length (mp_heap s)), s1)"
    using l by (simp add: addTransaction_run)
  have heap: "mp_heap s1 ! length (mp_heap s) = submitted env t s"
    using l add by (auto simp: addTransaction_run submitted_def)
  obtain s2 where cast: "Broadcaster_broadcast env (pending_message ?r) s1 = (Inr (), s2)"
    by (simp add: broadcast_run Let_def)
  have heap2: "mp_heap s2 = mp_heap s1"
    using cast by (auto simp: broadcast_run Let_def)
  show ?thesis
    by (simp add: submit_public_tx_def answer_def pbind_def Inr add cast heap heap2)
qed

lemma frame_safe:
  assumes "app_inv s" and f: "anvil_frame s t"
  shows "app_inv t \<and> app_evolves s t"
proof -
  note same = frame_same_pool [OF f]
  show ?thesis
    using assms(1) same_pool_inv [OF same] same_pool_evolves [OF same] frame_subscribers [OF f]
    by (simp add: app_inv_def)
qed

lemma chain_call_frame: "anvil_frame s (snd (chain_call env payload s))"
  unfolding chain_call_def answer_state
  by (rule keeps_snd) (auto intro!: frame_intro split: prod.split)

lemma chain_head_frame: "anvil_frame s (snd (chain_head env s))"
  unfolding chain_head_def answer_state by (rule keeps_snd) (intro frame_intro)

lemma simulate_frame:
  assumes "mempool_inv s"
  shows "anvil_frame s (snd (simulate_private_bundle env payload s))"
proof -
  have run: "Bundle_fromJson payload s = (read_bundle (pool_lookup s) payload, s)"
    using mempool_invD(1) [OF assms] by (rule bundle_reading_run)
  show ?thesis
  proof (cases "read_bundle (pool_lookup s) payload")
    case (Inl e)
    then show ?thesis
      using run by (simp add: simulate_private_bundle_def pbind_def anvil_frame.step_refl)
  next
    case (Inr b)
    have "anvil_frame s (snd (pbind (BundleBuilder_simulateBundle env b) (\<lambda>res. pret (JObj res)) s))"
      by (rule keeps_snd) (intro frame_intro)
    then show ?thesis
      using run Inr by (simp add: simulate_private_bundle_def pbind_def [of "Bundle_fromJson payload"])
  qed
qed

lemma mine_safe:
  assumes "app_inv s"
  shows "app_inv (snd (submit_private_bundle env payload s)) \<and>
    app_evolves s (snd (submit_private_bundle env payload s))"
proof -
  have inv: "mempool_inv s" using assms by (simp add: app_inv_def)
  have run: "Bundle_fromJson payload s = (read_bundle (pool_lookup s) payload, s)"
    using mempool_invD(1) [OF inv] by (rule bundle_reading_run)
  show ?thesis
  proof (cases "read_bundle (pool_lookup s) payload")
    case (Inl e)
    then show ?thesis
      using run assms by (simp add: submit_private_bundle_def pbind_def app_evolves.step_refl)
  next
    case (Inr b)
    have ready: "list_all (item_ready (pool_lookup s)) (bundle_items b)"
      using read_bundle_ready [OF Inr] by simp
    obtain r t where mine: "BundleBuilder_mineBundle env b s = (r, t)" by fastforce
    have st: "snd (submit_private_bundle env payload s) = t"
      using run Inr mine by (cases r) (simp_all add: submit_private_bundle_def pbind_def)
    show ?thesis
    proof (cases r)
      case (Inl e)
      then have "BundleBuilder_executeBundle env b s = (Inl e, t)"
        using mine mine_fails [OF inv ready] by blast
      then have "anvil_frame s t" by (rule keepsD [OF keeps_execute])
      then show ?thesis using frame_safe [OF assms] st by simp
    next
      case (Inr res)
      obtain s1 where ex: "BundleBuilder_executeBundle env b s = (Inr res, s1)"
        using mine Inr by (auto simp: BundleBuilder_mineBundle_def pbind_result_iff)
      have m: "BundleBuilder_mineBundle env b s = (Inr res, t)" using mine Inr by simp
      have "mempool_inv t" using mine_run [OF inv ready ex] m by auto
      then show ?thesis
        using mine_evolves [OF inv ready ex m] mine_subscribers [OF ex m] assms st
        by (simp add: app_inv_def)
    qed
  qed
qed

lemma submit_safe:
  assumes "app_inv s"
  shows "app_inv (snd (submit_public_tx env payload s)) \<and>
    app_evolves s (snd (submit_public_tx env payload s))"
proof -
  have inv: "mempool_inv s" using assms by (simp add: app_inv_def)
  show ?thesis
  proof (cases "Transaction_fromJson payload")
    case (Inl e)
    then show ?thesis using assms by (simp add: submit_run [OF inv] app_evolves.step_refl)
  next
    case (Inr t)
    let ?s1 = "snd (Mempool_addTransaction env t s)"
    let ?s2 = "snd (submit_public_tx env payload s)"
    have same: "same_pool ?s1 ?s2"
      using Inr by (simp add: submit_run [OF inv] broadcast_run Let_def same_pool_def)
    have "app_evolves s ?s2"
      using add_app_evolves [OF mempool_invD(1) [OF inv]] same_pool_evolves [OF same]
        app_evolves.step_trans by blast
    moreover have "mempool_inv ?s2" using add_inv [OF inv] same by (simp add: same_pool_inv)
    moreover have "subscribers ?s2 \<subseteq> subscribers s"
      using Inr mempool_invD(1) [OF inv]
      by (auto simp: submit_run [OF inv] broadcast_run Let_def addTransaction_run)
    ultimately show ?thesis
      using assms finite_subset by (auto simp: app_inv_def)
  qed
qed

lemma handle_safe:
  assumes "app_inv s"
  shows "app_inv (snd (app_handle env e s)) \<and> app_evolves s (snd (app_handle env e s))"
proof -
  have inv: "mempool_inv s" using assms by (simp add: app_inv_def)
  note l = mempool_invD(1) [OF inv]
  have upd: "mempool_inv (s\<lparr>subscribers := S\<rparr>)" "app_evolves s (s\<lparr>subscribers := S\<rparr>)"
    "mempool_inv (s\<lparr>world := w\<rparr>)" "app_evolves s (s\<lparr>world := w\<rparr>)"
    "mempool_inv (s\<lparr>world := w, subscribers := S\<rparr>)" "app_evolves s (s\<lparr>world := w, subscribers := S\<rparr>)"
    for S w
    using inv same_pool_evolves [of s] by (simp_all add: mempool_inv_def same_pool_def)
  show ?thesis
  proof (cases e)
    case Get_chain_head
    then show ?thesis using frame_safe [OF assms chain_head_frame] by simp
  next
    case (Post_chain_call p)
    then show ?thesis using frame_safe [OF assms chain_call_frame] by simp
  next
    case (Post_bundle_simulate p)
    then show ?thesis using frame_safe [OF assms simulate_frame [OF inv]] by simp
  next
    case (Post_public_tx p)
    then show ?thesis using submit_safe [OF assms] by simp
  next
    case (Post_bundle p)
    then show ?thesis using mine_safe [OF assms] by simp
  next
    case (Get_public_tx i)
    then show ?thesis
      using assms l by (simp add: get_public_tx_def getTransaction_run app_evolves.step_refl
          split: option.split)
  next
    case Get_public_pending
    then show ?thesis
      using assms l
      by (simp add: get_pending_transactions_def pendingSnapshot_run app_evolves.step_refl)
  next
    case (Ws_connect c)
    then show ?thesis
      using assms upd
      by (auto simp: socket_def Broadcaster_connect_def app_inv_def pbind_def split: if_splits)
  next
    case (Ws_disconnect c)
    then show ?thesis
      using assms upd by (simp add: socket_def Broadcaster_disconnect_def app_inv_def)
  qed (use assms in \<open>simp_all add: app_evolves.step_refl\<close>)
qed

lemma run_safe:
  "app_inv s \<Longrightarrow> app_inv (snd (app_run env es s)) \<and> app_evolves s (snd (app_run env es s))"
proof (induction es arbitrary: s)
  case Nil
  then show ?case by (simp add: app_evolves.step_refl)
next
  case (Cons e es)
  let ?t = "snd (app_handle env e s)"
  have h: "app_inv ?t" "app_evolves s ?t" using handle_safe [OF Cons.prems] by auto
  have "app_inv (snd (app_run env es ?t)) \<and> app_evolves ?t (snd (app_run env es ?t))"
    using Cons.IH h(1) .
  then show ?case
    using app_evolves.step_trans [OF h(2)] by (simp add: case_prod_beta)
qed

lemma create_app_inv: "app_inv (create_app w)"
  by (simp add: app_inv_def create_app_def mempool_inv_def)

end
