(* ===== verification/Builder_Properties.thy ===== *)
theory Builder_Properties
  imports Builder_Safety
begin

text \<open>
  What the service promises its clients: properties of every run of requests and websocket
  events from a fresh application, and what the handlers answer.
\<close>

section \<open>Invariants of every run\<close>

text \<open>
  C14. In every state a fresh application can get to, by any sequence of requests and websocket
  events and with any node, clock and websockets, the invariant of the mempool holds and the
  subscriber set is finite.
\<close>

theorem service_invariant:
  "app_inv (snd (app_run env es (create_app w)))"
  by (rule conjunct1 [OF run_safe [OF create_app_inv]])

text \<open>
  C15. Once submitted, a record stays: however the service goes on, every record keeps its id,
  sequence number, transaction and submission time, its stage never goes back, a settled record
  is never written again, and no id is ever dropped.
\<close>

theorem records_are_final:
  "app_evolves (snd (app_run env es (create_app w)))
     (snd (app_run env es' (snd (app_run env es (create_app w)))))"
  by (rule conjunct2 [OF run_safe [OF conjunct1 [OF run_safe [OF create_app_inv]]]])

section \<open>No deadlock\<close>

definition no_block :: "('s, 'a) py \<Rightarrow> bool" where
  "no_block m \<longleftrightarrow> (\<forall>s. fst (m s) \<noteq> Inl Blocked)"

lemma no_block_iff: "no_block m \<longleftrightarrow> (\<forall>s t. m s \<noteq> (Inl Blocked, t))"
  unfolding no_block_def by (metis fst_conv prod.collapse)

named_theorems nb \<open>programs that never wait for a lock of their own\<close>

lemma nb_basic [nb]:
  "no_block (Pair (Inr x))" "no_block (pread f)" "no_block (pupdate g)" "no_block (on_world h)"
  "e \<noteq> Blocked \<Longrightarrow> no_block (Pair (Inl e))" "r \<noteq> Inl Blocked \<Longrightarrow> no_block (Pair r)"
  by (simp_all add: no_block_def)

lemma nb_bind [nb]:
  assumes "no_block m" and "\<And>x. no_block (f x)"
  shows "no_block (pbind m f)"
  using assms unfolding no_block_iff by (simp add: pbind_error_iff)

lemma nb_map [nb]: "(\<And>x. no_block (f x)) \<Longrightarrow> no_block (pmap f xs)"
  by (induction xs) (simp_all add: nb)

lemma nb_for [nb]: "(\<And>x. no_block (f x)) \<Longrightarrow> no_block (pfor f xs)"
  by (induction xs) (simp_all add: nb)

lemma nb_finally [nb]:
  assumes "no_block m" and "no_block f"
  shows "no_block (pfinally m f)"
  using assms unfolding no_block_iff by (auto simp: pfinally_def split: prod.splits sum.splits)

lemma pure_not_blocked [simp]:
  "decode_reply r \<noteq> Inl Blocked" "json_get v k \<noteq> Inl Blocked" "json_item v k \<noteq> Inl Blocked"
  "dict_item d k \<noteq> Inl Blocked" "json_contains v k \<noteq> Inl Blocked" "json_iter v \<noteq> Inl Blocked"
  by (cases r; simp)
     (simp_all add: json_get_def json_item_def dict_item_def json_contains_def json_iter_def
       split: json.split option.split)

lemma rbind_not_blocked:
  "r \<noteq> Inl Blocked \<Longrightarrow> (\<And>x. f x \<noteq> Inl Blocked) \<Longrightarrow> rbind r f \<noteq> Inl Blocked"
  by (cases r) auto

lemma bundle_not_blocked [simp]:
  "statusFromReceipt r \<noteq> Inl Blocked" "txResult i h r \<noteq> Inl Blocked"
proof -
  show s: "statusFromReceipt r \<noteq> Inl Blocked"
    by (simp add: statusFromReceipt_def rbind_not_blocked)
  then show "txResult i h r \<noteq> Inl Blocked"
    by (simp add: txResult_def rbind_not_blocked)
qed

lemma all_included_not_blocked [simp]: "all_included rs \<noteq> Inl Blocked"
  by (induction rs) (simp_all add: rbind_not_blocked)

lemma rmap_not_blocked: "(\<And>x. f x \<noteq> Inl Blocked) \<Longrightarrow> rmap f xs \<noteq> Inl Blocked"
  by (induction xs) (simp_all add: rbind_not_blocked)

lemma nb_rpc [nb]: "no_block (anvil_rpc env m p)"
  unfolding anvil_rpc_def by (auto intro!: nb)

lemma nb_anvil [nb]:
  "no_block (anvil_sendTransaction env t)" "no_block (anvil_mineBlock env)"
  "no_block (anvil_snapshot env)" "no_block (anvil_revert env i)"
  "no_block (anvil_getLatestBlock env)" "no_block (anvil_call env c b)"
  "no_block (anvil_getReceipt env h)" "no_block (py_sleep env d)"
  unfolding anvil_ops py_sleep_def by (auto intro!: nb)

lemma nb_wait [nb]: "no_block (anvil_waitForReceipt env h n d)"
  by (induction n) (auto intro!: nb)

lemma nb_execute [nb]: "no_block (BundleBuilder_executeBundle env b)"
  unfolding BundleBuilder_executeBundle_def
  by (auto intro!: nb rmap_not_blocked split: prod.split)

lemma nb_simulate [nb]: "no_block (BundleBuilder_simulateBundle env b)"
  unfolding BundleBuilder_simulateBundle_def by (auto intro!: nb)

lemma answer_not_blocked:
  "fst (m s) \<noteq> Inl Blocked \<Longrightarrow> fst (answer cv cr m s) \<noteq> ServerError Blocked"
  by (auto simp: answer_def split: prod.split sum.split exc.split if_splits)

lemma answer_nb: "no_block m \<Longrightarrow> fst (answer cv cr m s) \<noteq> ServerError Blocked"
  by (simp add: answer_not_blocked no_block_def)

lemma read_item_not_blocked: "read_item look v \<noteq> Inl Blocked"
proof (cases v)
  case (JObj d)
  have "Transaction_fromJson d \<noteq> Inl Blocked"
    using fromJson_ValueError [of d Blocked] by auto
  then show ?thesis
    by (auto simp: JObj rbind_not_blocked bad_mempoolTxId_def unknown_mempool_tx_def not_pending_def
        split: json.split list.split option.split)
qed simp_all

lemma read_bundle_not_blocked: "read_bundle look d \<noteq> Inl Blocked"
  by (auto simp: read_bundle_def rbind_not_blocked read_item_not_blocked rmap_not_blocked
      bad_transactions_def split: json.split list.split)

lemma answer_raise:
  "answer True True (Pair (Inl (ValueError m))) s = (HttpError 400 m, s)"
  "answer True True (Pair (Inl AttributeError)) s = (ServerError AttributeError, s)"
  by (simp_all add: answer_def)

text \<open>Reading a bundle first: what it gives, and the rest of the handler when it gave a bundle.\<close>

lemma bundle_handler:
  assumes inv: "mempool_inv s"
  shows "answer True True (pbind (Bundle_fromJson payload) m) s =
    (case read_bundle (pool_lookup s) payload of
       Inl e \<Rightarrow> answer True True (praise e) s
     | Inr b \<Rightarrow> answer True True (m b) s)"
proof -
  have "Bundle_fromJson payload s = (read_bundle (pool_lookup s) payload, s)"
    using mempool_invD(1) [OF inv] by (rule bundle_reading_run)
  then show ?thesis
    by (cases "read_bundle (pool_lookup s) payload") (simp_all add: answer_def pbind_def)
qed

lemma mine_not_blocked:
  assumes inv: "mempool_inv s" and ready: "list_all (item_ready (pool_lookup s)) (bundle_items b)"
  shows "fst (BundleBuilder_mineBundle env b s) \<noteq> Inl Blocked"
proof
  assume "fst (BundleBuilder_mineBundle env b s) = Inl Blocked"
  then have "BundleBuilder_mineBundle env b s = (Inl Blocked, snd (BundleBuilder_mineBundle env b s))"
    by (metis prod.collapse)
  then have "BundleBuilder_executeBundle env b s = (Inl Blocked, snd (BundleBuilder_mineBundle env b s))"
    by (rule mine_fails [OF inv ready])
  then show False using nb_execute unfolding no_block_iff by blast
qed

lemma handle_not_blocked:
  assumes "app_inv s"
  shows "fst (app_handle env e s) \<noteq> ServerError Blocked"
proof -
  have inv: "mempool_inv s" using assms by (simp add: app_inv_def)
  note l = mempool_invD(1) [OF inv]
  show ?thesis
  proof (cases e)
    case Get_chain_head
    then show ?thesis by (auto simp: chain_head_def intro!: answer_nb nb)
  next
    case (Post_chain_call p)
    have "chainCallFromJson p \<noteq> Inl Blocked"
    proof -
      have "copy_fields d fs c \<noteq> Inl Blocked" for d fs c
        by (induction fs arbitrary: c) (auto simp: Let_def split: json.split)
      then show ?thesis
        by (simp add: chainCallFromJson_def rbind_not_blocked requiredNonEmptyString_def
            optionalNonEmptyString_def del: copy_fields.simps split: json.split)
    qed
    then show ?thesis
      by (auto simp: Post_chain_call chain_call_def intro!: answer_nb nb split: prod.split)
  next
    case (Post_public_tx p)
    then show ?thesis by (simp add: submit_run [OF inv] split: sum.split)
  next
    case (Get_public_tx i)
    then show ?thesis using l by (simp add: get_public_tx_def getTransaction_run split: option.split)
  next
    case Get_public_pending
    then show ?thesis
      using l by (simp add: get_pending_transactions_def pendingSnapshot_run)
  next
    case (Post_bundle_simulate p)
    then show ?thesis
      using read_bundle_not_blocked
      by (auto simp: simulate_private_bundle_def bundle_handler [OF inv] intro!: answer_nb nb
          split: sum.split)
  next
    case (Post_bundle p)
    show ?thesis
    proof (cases "read_bundle (pool_lookup s) p")
      case (Inl e')
      then have "e' \<noteq> Blocked" using read_bundle_not_blocked by metis
      then show ?thesis
        using Inl by (auto simp: Post_bundle submit_private_bundle_def bundle_handler [OF inv]
            intro!: answer_nb nb)
    next
      case (Inr b)
      have "fst (pbind (BundleBuilder_mineBundle env b) (\<lambda>result. pret (JObj result)) s) \<noteq> Inl Blocked"
        using mine_not_blocked [OF inv, of b env] read_bundle_ready [OF Inr]
        by (cases "BundleBuilder_mineBundle env b s"; cases "fst (BundleBuilder_mineBundle env b s)")
           (auto simp: pbind_def)
      then show ?thesis
        using Inr by (simp add: Post_bundle submit_private_bundle_def bundle_handler [OF inv]
            answer_not_blocked)
    qed
  next
    case (Ws_connect c)
    then show ?thesis by (auto simp: socket_def Broadcaster_connect_def intro!: answer_nb nb)
  next
    case (Ws_disconnect c)
    then show ?thesis by (auto simp: socket_def Broadcaster_disconnect_def intro!: answer_nb nb)
  qed simp_all
qed

lemma run_not_blocked:
  "app_inv s \<Longrightarrow> list_all (\<lambda>r. r \<noteq> ServerError Blocked) (fst (app_run env es s))"
proof (induction es arbitrary: s)
  case (Cons e es)
  then show ?case
    using handle_safe [OF Cons.prems] handle_not_blocked [OF Cons.prems]
    by (simp add: case_prod_beta)
qed simp

text \<open>
  No request ever waits for the mempool's lock while it holds it: in every run from a fresh
  application, no answer is the deadlock.
\<close>

theorem service_never_deadlocks:
  "list_all (\<lambda>r. r \<noteq> ServerError Blocked) (fst (app_run env es (create_app w)))"
  by (rule run_not_blocked [OF create_app_inv])

section \<open>Answers to clients\<close>

text \<open>
  A submitted transaction is answered with its record, pending and with the next sequence
  number, after that very record has been broadcast to the subscribers, and asking for its id
  afterwards answers the same; a payload that is no transaction is answered with 400 and changes
  nothing.
\<close>

theorem submission:
  assumes "mempool_inv s"
  shows "app_handle env (Post_public_tx payload) s =
      (case Transaction_fromJson payload of
         Inl e \<Rightarrow> (HttpError 400 (case e of ValueError m \<Rightarrow> m), s)
       | Inr t \<Rightarrow>
           (Ok200 (MempoolRecord_toJson (submitted env t s)),
            snd (Broadcaster_broadcast env
                   (pending_message (MempoolRecord_toJson (submitted env t s)))
                   (snd (Mempool_addTransaction env t s))))) \<and>
    (\<forall>r. fst (app_handle env (Post_public_tx payload) s) = Ok200 r \<longrightarrow>
       fst (app_handle env (Get_public_tx (next_id env s))
              (snd (app_handle env (Post_public_tx payload) s))) = Ok200 r)"
proof (cases "Transaction_fromJson payload")
  case (Inl e)
  then show ?thesis using assms by (simp add: submit_run)
next
  case (Inr t)
  note l = mempool_invD(1) [OF assms]
  show ?thesis
    using Inr l by (simp add: submit_run [OF assms] broadcast_run Let_def addTransaction_run
        get_public_tx_def getTransaction_run update_conv' submitted_def)
qed

text \<open>
  Asking for an id answers the record it leads to, or 404, and changes nothing.
\<close>

theorem get_by_id:
  assumes "mempool_inv s"
  shows "app_handle env (Get_public_tx k) s =
    (case pool_lookup s k of
       None \<Rightarrow> HttpError 404 [Txt ''transaction not found'']
     | Some r \<Rightarrow> Ok200 (MempoolRecord_toJson r), s)"
  using mempool_invD(1) [OF assms]
  by (simp add: get_public_tx_def getTransaction_run pool_lookup_def split: option.split)

text \<open>
  C37. A bundle that cannot be read is turned away before anything is sent to the node: with 400
  when a check of the bundle failed, with a server error when an item is not a JSON object; the
  whole state is unchanged.  A bundle that was read is executed, for mining and for simulation
  alike.
\<close>

theorem bundle_rejection:
  assumes "mempool_inv s"
  shows "app_handle env (Post_bundle payload) s =
      (case read_bundle (pool_lookup s) payload of
         Inl (ValueError m) \<Rightarrow> (HttpError 400 m, s)
       | Inl e \<Rightarrow> (ServerError AttributeError, s)
       | Inr b \<Rightarrow> answer True True (pbind (BundleBuilder_mineBundle env b) (\<lambda>r. pret (JObj r))) s) \<and>
    app_handle env (Post_bundle_simulate payload) s =
      (case read_bundle (pool_lookup s) payload of
         Inl (ValueError m) \<Rightarrow> (HttpError 400 m, s)
       | Inl e \<Rightarrow> (ServerError AttributeError, s)
       | Inr b \<Rightarrow> answer True True (pbind (BundleBuilder_simulateBundle env b) (\<lambda>r. pret (JObj r))) s)"
proof -
  have item: "(\<exists>m. e = ValueError m) \<or> e = AttributeError" if "read_item look v = Inl e" for look v e
    using that fromJson_ValueError
    by (cases v rule: json.exhaust)
       (auto simp: rbind_Inl_iff bad_mempoolTxId_def unknown_mempool_tx_def not_pending_def
         split: json.splits list.splits option.splits if_splits)
  have whole: "(\<exists>m. e = ValueError m) \<or> e = AttributeError"
    if "read_bundle look d = Inl e" for look d e
  proof -
    have "e = bad_transactions \<or> (\<exists>xs. rmap (read_item look) xs = Inl e)"
      using that
      by (auto simp: read_bundle_def rbind_Inl_iff simp del: rmap.simps split: json.splits list.splits)
    then show ?thesis
      using item by (auto simp: bad_transactions_def rmap_Inl_iff)
  qed
  show ?thesis
    using whole [of "pool_lookup s" payload]
    by (cases "read_bundle (pool_lookup s) payload")
       (auto simp: submit_private_bundle_def simulate_private_bundle_def bundle_handler [OF assms]
         answer_raise)
qed

section \<open>Calls to the chain\<close>

definition call_fields :: "string list" where
  "call_fields = [''from'', ''gas'', ''gasPrice'', ''value'']"

lemma copy_fields_Inr:
  "copy_fields data fs c = Inr c' \<Longrightarrow> distinct (map fst c @ fs) \<Longrightarrow>
   c' = c @ map (\<lambda>f. (f, dict_get data f)) (filter (\<lambda>f. dict_get data f \<noteq> JNull) fs)"
proof (induction fs arbitrary: c)
  case Nil
  then show ?case by simp
next
  case (Cons f fs)
  show ?case
  proof (cases "dict_get data f = JNull")
    case True
    then show ?thesis using Cons by (simp add: Let_def)
  next
    case False
    then obtain v where v: "dict_get data f = JStr v" "copy_fields data fs (dict_set c f (JStr v)) = Inr c'"
      using Cons.prems(1) by (auto simp: Let_def split: json.splits if_splits)
    have "dict_set c f (JStr v) = c @ [(f, JStr v)]"
      using Cons.prems(2) by (auto simp: dict_set_def intro!: update_new)
    then show ?thesis
      using Cons.IH [OF v(2)] Cons.prems(2) v(1) by simp
  qed
qed

text \<open>
  A chain call that is accepted goes out with exactly the target, the call data and those
  of the four optional parameters that the request gives, and nothing else of the request; the
  block is the request's, or latest when it has none.
\<close>

theorem chain_call_parameters:
  assumes "chainCallFromJson data = Inr (callParams, block)"
  shows "callParams = [(''to'', dict_get data ''to''), (''data'', dict_get data ''data'')] @
      map (\<lambda>f. (f, dict_get data f)) (filter (\<lambda>f. dict_get data f \<noteq> JNull) call_fields) \<and>
    JStr block = dict_get_or data ''block'' (JStr ''latest'') \<and> block \<noteq> ''''"
proof -
  from assms obtain to callData where
    "dict_get data ''to'' = JStr to" "dict_get data ''data'' = JStr callData" and
    b: "JStr block = dict_get_or data ''block'' (JStr ''latest'')" "block \<noteq> ''''" and
    c: "copy_fields data [''from'', ''gas'', ''gasPrice'', ''value'']
          [(''to'', JStr to), (''data'', JStr callData)] = Inr callParams"
    by (auto simp: chainCallFromJson_def rbind_Inr_iff requiredNonEmptyString_def
        optionalNonEmptyString_def simp del: copy_fields.simps split: json.splits if_splits)
  then show ?thesis
    using copy_fields_Inr [OF c] by (simp add: call_fields_def)
qed

end
