(* ===== verification/Example_Node.thy ===== *)
theory Example_Node
  imports Builder_Properties
begin

text \<open>
  A concrete node, clock and websocket world, small enough to be evaluated, and runs of the
  service in it: the instances at which the hypotheses of the properties hold.
\<close>

section \<open>The world\<close>

text \<open>
  The number of blocks, the block numbers saved by the snapshots taken so far, and the number
  of ids handed out.
\<close>

record toy =
  blocks :: nat
  saves :: "nat list"
  handed_out :: nat

definition toy_result :: "json \<Rightarrow> transport" where
  "toy_result v = Reply (JObj [(''jsonrpc'', JStr ''2.0''), (''result'', v)])"

definition toy_receipt :: "nat \<Rightarrow> json" where
  "toy_receipt n =
     JObj [(''status'', JStr ''0x1''), (''blockNumber'', JInt (int n)),
           (''transactionIndex'', JInt 0)]"

definition toy_call :: "string \<Rightarrow> json \<Rightarrow> toy \<Rightarrow> transport \<times> toy" where
  "toy_call method params w =
     (if method = ''eth_sendTransaction'' then (toy_result (JStr ''0xaa''), w)
      else if method = ''evm_mine'' then (toy_result (JStr ''0x0''), w\<lparr>blocks := blocks w + 1\<rparr>)
      else if method = ''eth_getTransactionReceipt'' then (toy_result (toy_receipt (blocks w)), w)
      else if method = ''evm_snapshot''
      then (toy_result (JInt (int (length (saves w)))), w\<lparr>saves := saves w @ [blocks w]\<rparr>)
      else if method = ''evm_revert'' then
        (case params of
           JList [JInt i] \<Rightarrow>
             if 0 \<le> i \<and> nat i < length (saves w)
             then (toy_result (JBool True), w\<lparr>blocks := saves w ! nat i\<rparr>)
             else (toy_result (JBool False), w)
         | _ \<Rightarrow> (toy_result (JBool False), w))
      else (HttpErr ''method not found'', w))"

definition toy_node :: "string \<Rightarrow> json \<Rightarrow> toy \<Rightarrow> transport \<times> toy" where
  "toy_node url body w =
     (case body of
        JObj d \<Rightarrow>
          (case dict_get d ''method'' of
             JStr method \<Rightarrow> toy_call method (dict_get d ''params'') w
           | _ \<Rightarrow> (HttpErr ''bad request'', w))
      | _ \<Rightarrow> (HttpErr ''bad request'', w))"

definition toy_env :: "toy env" where
  "toy_env =
     \<lparr>node = toy_node,
      sleep = (\<lambda>_ w. w),
      uuid_hex = (\<lambda>w. (replicate (handed_out w) (CHR ''a''), w\<lparr>handed_out := handed_out w + 1\<rparr>)),
      clock = (\<lambda>w. (''2024-01-01T00:00:00+00:00'', w)),
      ws_accept = (\<lambda>c w. (c < 10, w)),
      ws_send = (\<lambda>c m w. (even c, w)),
      ws_order = (\<lambda>S. filter (\<lambda>c. c \<in> S) [0..<10])\<rparr>"

definition toy_world :: toy where
  "toy_world = \<lparr>blocks = 7, saves = [], handed_out = 1\<rparr>"

section \<open>A run of the service\<close>

definition toy_tx :: dict where
  "toy_tx =
     [(''nonce'', JStr ''0x0''), (''from'', JStr ''0xf0''), (''to'', JStr ''0xc0''),
      (''gas'', JStr ''0x5208''), (''input'', JStr ''0x01'')]"

definition toy_pool :: "toy app_state" where
  "toy_pool =
     snd (app_run toy_env [Ws_connect 1, Ws_connect 2, Post_public_tx toy_tx, Post_public_tx toy_tx]
            (create_app toy_world))"

definition toy_bundle_json :: dict where
  "toy_bundle_json = [(''transactions'', JList [JObj [(''mempoolTxId'', JStr ''mp-a'')], JObj toy_tx])]"

definition toy_bundle :: Bundle where
  "toy_bundle = projr (fst (Bundle_fromJson toy_bundle_json toy_pool))"

definition toy_mined :: "dict result \<times> toy app_state" where
  "toy_mined = BundleBuilder_mineBundle toy_env toy_bundle toy_pool"

lemma toy_pool_inv: "app_inv toy_pool"
  unfolding toy_pool_def by (rule conjunct1 [OF run_safe [OF create_app_inv]])

lemma toy_pool_mempool: "mempool_inv toy_pool"
  using toy_pool_inv by (simp add: app_inv_def)

lemma toy_pool_ids:
  "map fst (mp_transactions toy_pool) = [''mp-a'', ''mp-aa'']" and
  "map (is_pending \<circ> snd) (map (\<lambda>(k, i). (k, mp_heap toy_pool ! i)) (mp_transactions toy_pool)) =
     [True, True]" and
  "subscribers toy_pool = {2}"
  by code_simp+

lemma toy_bundle_read: "fst (Bundle_fromJson toy_bundle_json toy_pool) = Inr toy_bundle"
  by code_simp

lemma toy_mined_ok: "toy_mined = (Inr (projr (fst toy_mined)), snd toy_mined)"
proof -
  have "\<not> isl (fst toy_mined)" by code_simp
  then show ?thesis by (cases toy_mined) (auto simp: sum.collapse(2))
qed

end
