(* ===== verification/Builder_Witnesses.thy ===== *)
theory Builder_Witnesses
  imports Example_Node
begin

text \<open>
  The properties of the service that have hypotheses, each applied at a concrete state of the
  evaluated example, where its hypotheses hold.
\<close>

section \<open>The mempool\<close>

lemma toy_uncollided: "uncollided toy_pool"
proof -
  have "mp_transactions toy_pool = zip (map mr_mempoolTxId (mp_heap toy_pool)) [0..<length (mp_heap toy_pool)]"
    by code_simp
  then show ?thesis using toy_pool_mempool by (simp add: uncollided_def)
qed

lemma toy_fresh: "fresh_id toy_env toy_pool"
  by code_simp

lemma reverted_final: "final_status (JStr ''reverted'')"
  by (simp add: final_status_def)

theorem mempool_invariant_witness:
  "mempool_inv (snd (Mempool_markMined toy_env ''mp-a'' (JStr ''0xaa'') (JStr ''reverted'') JNull toy_pool))"
  using mempool_invariant [OF toy_pool_mempool reverted_final, of toy_env] by blast

theorem mempool_refines_log_witness:
  "mp_heap (snd (Mempool_markMined toy_env ''mp-a'' (JStr ''0xaa'') (JStr ''reverted'') JNull toy_pool)) =
     log_settle ''mp-a'' (JStr ''0xaa'') (JStr ''reverted'') JNull ''2024-01-01T00:00:00+00:00''
       (mp_heap toy_pool)"
  using mempool_refines_log [OF toy_uncollided toy_fresh reverted_final, where k = "''mp-a''" and h = "JStr ''0xaa''" and rc = JNull]
  by (simp add: toy_env_def)

theorem pending_snapshot_exact_witness:
  "Mempool_pendingSnapshot toy_pool =
     (Inr (JObj [(''snapshotSeq'', JInt 2),
                 (''transactions'', JList (map MempoolRecord_toJson (mp_heap toy_pool)))]), toy_pool)"
proof -
  have "length (mp_heap toy_pool) = 2" "log_pending (mp_heap toy_pool) = mp_heap toy_pool"
    by code_simp+
  then show ?thesis
    using conjunct1 [OF pending_snapshot_exact [OF toy_uncollided]] by simp
qed

section \<open>Bundles\<close>

theorem bundle_reading_witness:
  "Bundle_fromJson [(''transactions'', JList [JObj [(''mempoolTxId'', JStr ''mp-b'')]])] toy_pool =
     (Inl (unknown_mempool_tx ''mp-b''), toy_pool)"
proof -
  have "read_bundle (pool_lookup toy_pool) [(''transactions'', JList [JObj [(''mempoolTxId'', JStr ''mp-b'')]])]
      = Inl (unknown_mempool_tx ''mp-b'')"
    by code_simp
  then show ?thesis
    using bundle_reading [OF mempool_invD(1) [OF toy_pool_mempool]] by simp
qed

lemma toy_executed:
  "BundleBuilder_executeBundle toy_env toy_bundle toy_pool =
     (Inr (projr (fst (BundleBuilder_executeBundle toy_env toy_bundle toy_pool))),
      snd (BundleBuilder_executeBundle toy_env toy_bundle toy_pool))"
proof -
  have "\<not> isl (fst (BundleBuilder_executeBundle toy_env toy_bundle toy_pool))" by code_simp
  then show ?thesis
    by (cases "BundleBuilder_executeBundle toy_env toy_bundle toy_pool") (auto simp: sum.collapse(2))
qed

theorem bundle_answer_witness:
  "dict_get (projr (fst (BundleBuilder_executeBundle toy_env toy_bundle toy_pool))) ''status'' =
     JStr ''included''"
proof -
  have "list_all (\<lambda>v. json_item v ''status'' = Inr (JStr ''included''))
      (result_txs (projr (fst (BundleBuilder_executeBundle toy_env toy_bundle toy_pool))))"
    by code_simp
  then show ?thesis using bundle_answer [OF toy_executed] by simp
qed

definition broken_env :: "toy env" where
  "broken_env = toy_env\<lparr>node := \<lambda>_ _ w. (UrlErr ''connection refused'', w)\<rparr>"

theorem mining_all_or_nothing_witness:
  "same_pool toy_pool (snd (BundleBuilder_mineBundle broken_env toy_bundle toy_pool))"
proof -
  have "isl (fst (BundleBuilder_mineBundle broken_env toy_bundle toy_pool))" by code_simp
  then obtain e where "fst (BundleBuilder_mineBundle broken_env toy_bundle toy_pool) = Inl e"
    by (auto simp: isl_def)
  then show ?thesis by (rule mining_all_or_nothing [OF toy_pool_mempool toy_bundle_read])
qed

lemma toy_mine:
  "BundleBuilder_mineBundle toy_env toy_bundle toy_pool = (Inr (projr (fst toy_mined)), snd toy_mined)"
  using toy_mined_ok by (simp add: toy_mined_def)

theorem mining_settles_witness:
  "{k. pool_lookup (snd toy_mined) k \<noteq> pool_lookup toy_pool k} = {''mp-a''}"
proof -
  have "map bi_mempoolTxId (bundle_items toy_bundle) = [Some ''mp-a'', None]" by code_simp
  then have "bi_mempoolTxId ` set (bundle_items toy_bundle) = {Some ''mp-a'', None}"
    by (metis list.set(1,2) list.set_map)
  then have "bundle_ids toy_bundle = {''mp-a''}" by (auto simp: bundle_ids_def)
  then show ?thesis
    using mining_settles [OF toy_pool_mempool toy_bundle_read toy_mine] by simp
qed

theorem no_double_mining_witness:
  "bundle_ids toy_bundle \<inter>
     bundle_ids (projr (fst (Bundle_fromJson
       [(''transactions'', JList [JObj [(''mempoolTxId'', JStr ''mp-aa'')]])] (snd toy_mined)))) = {}"
proof -
  have "fst (Bundle_fromJson [(''transactions'', JList [JObj [(''mempoolTxId'', JStr ''mp-aa'')]])]
          (snd toy_mined)) =
        Inr (projr (fst (Bundle_fromJson
          [(''transactions'', JList [JObj [(''mempoolTxId'', JStr ''mp-aa'')]])] (snd toy_mined))))"
    by code_simp
  then show ?thesis
    by (rule no_double_mining [OF toy_pool_mempool toy_bundle_read toy_mine])
qed

section \<open>Snapshots\<close>

lemma toy_keeps_snapshots:
  "keeps_snapshots toy_env blocks
     (\<lambda>w i. case i of JInt n \<Rightarrow> if 0 \<le> n \<and> nat n < length (saves w) then Some (saves w ! nat n) else None
            | _ \<Rightarrow> None)"
  unfolding keeps_snapshots_def
proof (intro conjI allI impI, goal_cases)
  case (1 url n w d)
  then show ?case
    by (auto simp: toy_env_def toy_node_def toy_call_def toy_result_def rpc_body_def nth_append)
next
  case (2 url n m p w)
  then have "saves (snd (node toy_env url (rpc_body n m p) w)) = saves w"
    by (auto simp: toy_env_def toy_node_def toy_call_def rpc_body_def)
  then show ?case by (simp only:)
next
  case (3 t w)
  have "sleep toy_env t w = w" by (simp add: toy_env_def)
  then show ?case by (simp only:)
next
  case (4 url n i w d v)
  then show ?case
    by (auto simp: toy_env_def toy_node_def toy_call_def toy_result_def rpc_body_def
        split: json.splits if_splits)
qed

theorem simulation_restores_chain_witness:
  "blocks (world (snd (BundleBuilder_simulateBundle toy_env toy_bundle toy_pool))) = 7"
proof -
  have "\<not> isl (fst (BundleBuilder_simulateBundle toy_env toy_bundle toy_pool))" by code_simp
  then have "fst (BundleBuilder_simulateBundle toy_env toy_bundle toy_pool) =
      Inr (projr (fst (BundleBuilder_simulateBundle toy_env toy_bundle toy_pool)))"
    by (simp add: sum.collapse(2))
  moreover have "blocks (world toy_pool) = 7" by code_simp
  ultimately show ?thesis
    using simulation_restores_chain [OF toy_keeps_snapshots] by metis
qed

section \<open>Answers of the service\<close>

theorem submission_witness:
  "fst (app_handle toy_env (Post_public_tx toy_tx) toy_pool) =
     Ok200 (MempoolRecord_toJson (submitted toy_env (projr (Transaction_fromJson toy_tx)) toy_pool))"
proof -
  have "\<not> isl (Transaction_fromJson toy_tx)" by code_simp
  then obtain t where t: "Transaction_fromJson toy_tx = Inr t" by (cases "Transaction_fromJson toy_tx") auto
  show ?thesis
    using conjunct1 [OF submission [OF toy_pool_mempool, of toy_env toy_tx]] by (simp add: t)
qed

theorem get_by_id_witness:
  "app_handle toy_env (Get_public_tx ''mp-b'') toy_pool =
     (HttpError 404 [Txt ''transaction not found''], toy_pool)"
proof -
  have "map_of (mp_transactions toy_pool) ''mp-b'' = None" by code_simp
  then have "pool_lookup toy_pool ''mp-b'' = None" by (simp add: pool_lookup_def)
  then show ?thesis using get_by_id [OF toy_pool_mempool] by simp
qed

theorem bundle_rejection_witness:
  "app_handle toy_env (Post_bundle [(''transactions'', JList [JStr ''mp-a''])]) toy_pool =
     (ServerError AttributeError, toy_pool)"
  using conjunct1 [OF bundle_rejection [OF toy_pool_mempool,
      of toy_env "[(''transactions'', JList [JStr ''mp-a''])]"]]
  by (simp add: read_bundle_def)

theorem chain_call_parameters_witness:
  "fst (projr (chainCallFromJson [(''to'', JStr ''0xc0''), (''gas'', JStr ''0x9''), (''data'', JStr ''0x'')])) =
     [(''to'', JStr ''0xc0''), (''data'', JStr ''0x''), (''gas'', JStr ''0x9'')]"
proof -
  let ?d = "[(''to'', JStr ''0xc0''), (''gas'', JStr ''0x9''), (''data'', JStr ''0x'')]"
  have "chainCallFromJson ?d =
      Inr (fst (projr (chainCallFromJson ?d)), snd (projr (chainCallFromJson ?d)))"
    by code_simp
  from conjunct1 [OF chain_call_parameters [OF this]] show ?thesis
    by (simp add: call_fields_def)
qed

end
