(* ===== verification/Builder_Machine.thy ===== *)
theory Builder_Machine
  imports Builder_Safety
begin

text \<open>
  The service on its event loop.  The handlers are coroutines of one thread: they run without
  interruption except where they await, and the one handler that awaits in the middle of its
  work is the submission, once for each subscriber of the broadcast
  (\<^verbatim>\<open>await websocket.send_json(message)\<close> in \<^verbatim>\<open>block_builder/ws.py\<close>, called from
  \<^verbatim>\<open>submit_public_tx\<close> in \<^verbatim>\<open>block_builder/app.py\<close>).  Between two sends any other handler may run.
  The step relation has a step for a handler that runs through, one for a submission up to its
  first await or its end, and one for a suspended submission up to its next await or its end.
\<close>

section \<open>Configurations\<close>

text \<open>
  A suspended submission: its record, the message, the websockets still to be served (the
  first one is being awaited) and the list of those that failed.
\<close>

record submission_task =
  task_ref :: nat
  task_message :: json
  task_rest :: "ws list"
  task_failed :: "ws list"

type_synonym 'w config = "'w app_state \<times> (nat \<Rightarrow> submission_task option)"

text \<open>
  A submission runs on: with no websocket left it takes the failed ones out of the subscribers
  and answers with its record as it is then; otherwise it awaits the next send.
\<close>

definition run_on ::
  "nat \<Rightarrow> submission_task \<Rightarrow> 'w config \<Rightarrow> response option \<times> 'w config" where
  "run_on i task c =
     (case c of (s, ts) \<Rightarrow>
        (case task_rest task of
           [] \<Rightarrow>
             (case pfor Broadcaster_disconnect (task_failed task) s of
                (r, t) \<Rightarrow>
                  (Some (Ok200 (MempoolRecord_toJson (mp_heap t ! task_ref task))), (t, ts(i := None))))
         | _ # _ \<Rightarrow> (None, (s, ts(i \<mapsto> task)))))"

definition begin_submit ::
  "'w env \<Rightarrow> nat \<Rightarrow> dict \<Rightarrow> 'w config \<Rightarrow> response option \<times> 'w config" where
  "begin_submit env i payload c =
     (case c of (s, ts) \<Rightarrow>
        (case pbind (plift (Transaction_fromJson payload)) (Mempool_addTransaction env) s of
           (Inl e, t) \<Rightarrow> (Some (fst (answer True False (praise e) t)), (t, ts))
         | (Inr ref, t) \<Rightarrow>
             run_on i \<lparr>task_ref = ref,
                       task_message = pending_message (MempoolRecord_toJson (mp_heap t ! ref)),
                       task_rest = ws_order env (subscribers t), task_failed = []\<rparr> (t, ts)))"

definition resume_submit ::
  "'w env \<Rightarrow> nat \<Rightarrow> submission_task \<Rightarrow> 'w config \<Rightarrow> response option \<times> 'w config" where
  "resume_submit env i task c =
     (case c of (s, ts) \<Rightarrow>
        (case task_rest task of
           [] \<Rightarrow> (None, c)
         | websocket # rest \<Rightarrow>
             (case ws_send env websocket (task_message task) (world s) of
                (sent, w) \<Rightarrow>
                  run_on i (task\<lparr>task_rest := rest,
                                 task_failed := (if sent then task_failed task
                                                 else task_failed task @ [websocket])\<rparr>)
                    (s\<lparr>world := w\<rparr>, ts))))"

definition is_submission :: "event \<Rightarrow> bool" where
  "is_submission e = (case e of Post_public_tx _ \<Rightarrow> True | _ \<Rightarrow> False)"

text \<open>A step, with the answer it gives to a client, if any, and the submission it belongs to.\<close>

inductive loop_step ::
  "'w env \<Rightarrow> 'w config \<Rightarrow> nat option \<Rightarrow> response option \<Rightarrow> 'w config \<Rightarrow> bool"
  for env :: "'w env" where
  handler: "\<not> is_submission e \<Longrightarrow> app_handle env e s = (r, t) \<Longrightarrow>
      loop_step env (s, ts) None (Some r) (t, ts)"
| submit: "ts i = None \<Longrightarrow> begin_submit env i payload (s, ts) = (r, c) \<Longrightarrow>
      loop_step env (s, ts) (Some i) r c"
| resume: "ts i = Some task \<Longrightarrow> resume_submit env i task (s, ts) = (r, c) \<Longrightarrow>
      loop_step env (s, ts) (Some i) r c"

inductive_cases loop_step_cases: "loop_step env (s, ts) i r c"

inductive_simps loop_step_handler: "loop_step env (s, ts) None r c"

inductive loop_runs :: "'w env \<Rightarrow> 'w config \<Rightarrow> 'w config \<Rightarrow> bool" for env :: "'w env" where
  start: "loop_runs env c c"
| more: "loop_runs env c d \<Longrightarrow> loop_step env d i r e \<Longrightarrow> loop_runs env c e"

lemma loop_runs_trans:
  assumes "loop_runs env c d" and "loop_runs env d e"
  shows "loop_runs env c e"
  using assms(2,1) by (induction rule: loop_runs.induct) (auto intro: loop_runs.more)

lemma loop_runs_step: "loop_step env c i r d \<Longrightarrow> loop_runs env c d"
  by (rule loop_runs.more [OF loop_runs.start])

definition idle :: "'w app_state \<Rightarrow> 'w config" where
  "idle s = (s, \<lambda>_. None)"

section \<open>What every interleaving keeps\<close>

text \<open>
  The invariant of a configuration: that of the service, and every suspended submission still
  has its record, awaits a send, and its message shows the record as it was submitted, which
  has at most been settled since.
\<close>

definition task_ok :: "('w, 'z) mempool_state_scheme \<Rightarrow> submission_task \<Rightarrow> bool" where
  "task_ok s task \<longleftrightarrow> task_ref task < length (mp_heap s) \<and>
     (\<exists>r. task_message task = pending_message (MempoolRecord_toJson r) \<and> is_pending r \<and>
          advances r (mp_heap s ! task_ref task))"

definition config_ok :: "'w config \<Rightarrow> bool" where
  "config_ok c \<longleftrightarrow> app_inv (fst c) \<and>
     (\<forall>i task. snd c i = Some task \<longrightarrow> task_ok (fst c) task \<and> task_rest task \<noteq> [])"

lemma task_ok_evolves:
  assumes "task_ok s task" and "pool_evolves s t"
  shows "task_ok t task"
proof -
  have i: "task_ref task < length (mp_heap s)" using assms(1) by (simp add: task_ok_def)
  then have "advances (mp_heap s ! task_ref task) (mp_heap t ! task_ref task)"
    "task_ref task < length (mp_heap t)"
    using assms(2) unfolding pool_evolves_def list_all2_take_iff by auto
  then show ?thesis
    using assms(1) advances_trans unfolding task_ok_def by blast
qed

lemma config_ok_evolves:
  assumes "config_ok (s, ts)" and "app_inv t" and "app_evolves s t"
  shows "config_ok (t, ts)"
  using assms task_ok_evolves [of s _ t] by (auto simp: config_ok_def app_evolves_def)

lemma disconnect_safe:
  assumes "app_inv s"
  shows "app_inv (s\<lparr>subscribers := subscribers s - C\<rparr>)" "app_evolves s (s\<lparr>subscribers := subscribers s - C\<rparr>)"
  using assms same_pool_evolves [of s "s\<lparr>subscribers := subscribers s - C\<rparr>"]
  by (simp_all add: app_inv_def mempool_inv_def same_pool_def)

lemma run_on_safe:
  assumes ok: "config_ok (s, ts)" and task: "task_ok s task" and run: "run_on i task (s, ts) = (r, c)"
  shows "config_ok c \<and> app_evolves s (fst c) \<and>
    (\<forall>v. r = Some (Ok200 v) \<longrightarrow> (\<exists>q q'. task_message task = pending_message (MempoolRecord_toJson q) \<and>
       v = MempoolRecord_toJson q' \<and> is_pending q \<and> advances q q'))"
proof (cases "task_rest task")
  case Nil
  let ?t = "s\<lparr>subscribers := subscribers s - set (task_failed task)\<rparr>"
  have inv: "app_inv s" using ok by (simp add: config_ok_def)
  have c: "c = (?t, ts(i := None))"
    "r = Some (Ok200 (MempoolRecord_toJson (mp_heap s ! task_ref task)))"
    using run Nil by (auto simp: run_on_def disconnect_all_run)
  have "config_ok (?t, ts)" by (rule config_ok_evolves [OF ok disconnect_safe [OF inv]])
  then show ?thesis
    using task c disconnect_safe(2) [OF inv] by (auto simp: config_ok_def task_ok_def)
next
  case (Cons w ws)
  then show ?thesis
    using ok task run by (auto simp: run_on_def config_ok_def app_evolves.step_refl split: if_splits)
qed

lemma begin_submit_safe:
  assumes ok: "config_ok (s, ts)" and run: "begin_submit env i payload (s, ts) = (r, c)"
  shows "config_ok c \<and> app_evolves s (fst c)"
proof (cases "Transaction_fromJson payload")
  case (Inl e)
  then show ?thesis
    using ok run by (auto simp: begin_submit_def app_evolves.step_refl)
next
  case (Inr t)
  have inv: "app_inv s" "mempool_inv s" using ok by (simp_all add: config_ok_def app_inv_def)
  note l = mempool_invD(1) [OF inv(2)]
  let ?n = "length (mp_heap s)"
  obtain s1 where add: "Mempool_addTransaction env t s = (Inr ?n, s1)"
    using l by (simp add: addTransaction_run)
  have heap: "mp_heap s1 ! ?n = submitted env t s" "?n < length (mp_heap s1)"
    "subscribers s1 = subscribers s"
    using l add by (auto simp: addTransaction_run submitted_def)
  have inv1: "app_inv s1"
    using add_inv [OF inv(2), of env t] add inv(1) heap(3) by (simp add: app_inv_def)
  have ev: "app_evolves s s1" using add_app_evolves [OF l, of env t] add by simp
  have ok1: "config_ok (s1, ts)" by (rule config_ok_evolves [OF ok inv1 ev])
  define task where "task = \<lparr>task_ref = ?n,
      task_message = pending_message (MempoolRecord_toJson (mp_heap s1 ! ?n)),
      task_rest = ws_order env (subscribers s1), task_failed = []\<rparr>"
  have "task_ok s1 task"
    using heap(2) by (auto simp: task_ok_def task_def heap(1) is_pending_def submitted_def fresh_record_def
        intro!: exI [of _ "submitted env t s"])
  moreover have "run_on i task (s1, ts) = (r, c)"
    using run Inr add by (simp add: begin_submit_def task_def)
  ultimately have "config_ok c \<and> app_evolves s1 (fst c)"
    using run_on_safe [OF ok1] by blast
  then show ?thesis using app_evolves.step_trans [OF ev] by blast
qed

lemma resume_safe:
  assumes ok: "config_ok (s, ts)" and i: "ts i = Some task"
    and run: "resume_submit env i task (s, ts) = (r, c)"
  shows "config_ok c \<and> app_evolves s (fst c) \<and>
    (\<forall>v. r = Some (Ok200 v) \<longrightarrow> (\<exists>q q'. task_message task = pending_message (MempoolRecord_toJson q) \<and>
       v = MempoolRecord_toJson q' \<and> is_pending q \<and> advances q q'))"
proof -
  have task: "task_ok s task" "task_rest task \<noteq> []" using ok i by (auto simp: config_ok_def)
  then obtain w ws where w: "task_rest task = w # ws" by (cases "task_rest task") auto
  let ?s = "s\<lparr>world := snd (ws_send env w (task_message task) (world s))\<rparr>"
  let ?task = "task\<lparr>task_rest := ws,
      task_failed := if fst (ws_send env w (task_message task) (world s)) then task_failed task
                     else task_failed task @ [w]\<rparr>"
  have same: "same_pool s ?s" by (simp add: same_pool_def)
  have ev: "app_evolves s ?s" by (rule same_pool_evolves [OF same])
  have inv: "app_inv ?s"
    using ok same_pool_inv [OF same] by (simp add: config_ok_def app_inv_def)
  have ok1: "config_ok (?s, ts)" by (rule config_ok_evolves [OF ok inv ev])
  have task1: "task_ok ?s ?task" using task(1) by (simp add: task_ok_def)
  have "run_on i ?task (?s, ts) = (r, c)"
    using run w by (simp add: resume_submit_def case_prod_beta)
  from run_on_safe [OF ok1 task1 this] show ?thesis
    using app_evolves.step_trans [OF ev] by auto
qed

lemma loop_step_safe:
  assumes "loop_step env c i r d" and "config_ok c"
  shows "config_ok d \<and> app_evolves (fst c) (fst d)"
  using assms
proof (cases rule: loop_step.cases)
  case (handler e s r' t ts)
  have "app_inv s" using assms(2) handler by (simp add: config_ok_def)
  then have "app_inv t \<and> app_evolves s t" using handle_safe [of s env e] handler by simp
  then show ?thesis using handler assms(2) config_ok_evolves by auto
next
  case (submit ts j payload s)
  then show ?thesis using begin_submit_safe [of s ts env j payload r d] assms(2) by auto
next
  case (resume ts j task s)
  then show ?thesis using resume_safe assms(2) by (metis fst_conv)
qed

lemma loop_runs_safe:
  assumes "loop_runs env c d" and "config_ok c"
  shows "config_ok d \<and> app_evolves (fst c) (fst d)"
  using assms
proof (induction rule: loop_runs.induct)
  case (start c)
  then show ?case by (simp add: app_evolves.step_refl)
next
  case (more c d i r e)
  then show ?case
    using loop_step_safe [OF more.hyps(2)] app_evolves.step_trans by blast
qed

lemma idle_ok: "config_ok (idle (create_app w))"
  by (simp add: config_ok_def idle_def create_app_inv)

section \<open>Properties\<close>

text \<open>
  C20. However the event loop interleaves the handlers with suspended submissions, the invariant
  of the mempool and of the suspended submissions holds in every configuration it reaches.
\<close>

theorem event_loop_invariant:
  assumes "loop_runs env (idle (create_app w)) c"
  shows "config_ok c"
  using loop_runs_safe [OF assms idle_ok] by simp

text \<open>
  C21. The answer to a submission and the message broadcast for it show the same submission: the
  message shows the record as it was added, pending, and the answer the same record, with the
  same id, sequence number, transaction and submission time, which another client may have
  settled while the broadcast was waiting.
\<close>

theorem answer_and_broadcast_agree:
  assumes "loop_runs env (idle (create_app w)) (s, ts)" and "ts i = Some task"
    and "resume_submit env i task (s, ts) = (Some (Ok200 v), c)"
  shows "\<exists>r r'. task_message task = pending_message (MempoolRecord_toJson r) \<and> is_pending r \<and>
    v = MempoolRecord_toJson r' \<and> advances r r'"
  using resume_safe [OF _ assms(2,3)] loop_runs_safe [OF assms(1) idle_ok] by auto

section \<open>Submissions that nothing interrupts\<close>

text \<open>Resuming the same submission over and over, with at most \<open>n\<close> resumptions.\<close>

fun resume_all :: "'w env \<Rightarrow> nat \<Rightarrow> nat \<Rightarrow> 'w config \<Rightarrow> response option \<times> 'w config" where
  "resume_all env i 0 c = (None, c)"
| "resume_all env i (Suc n) c =
     (case snd c i of
        None \<Rightarrow> (None, c)
      | Some task \<Rightarrow>
          (case resume_submit env i task c of
             (Some r, d) \<Rightarrow> (Some r, d)
           | (None, d) \<Rightarrow> resume_all env i n d))"

lemma resume_all_runs: "loop_runs env c (snd (resume_all env i n c))"
proof (induction n arbitrary: c)
  case 0
  show ?case by (simp add: loop_runs.start)
next
  case (Suc n)
  obtain s ts where c: "c = (s, ts)" by (cases c)
  show ?case
  proof (cases "ts i")
    case None
    then show ?thesis by (simp add: c loop_runs.start)
  next
    case (Some task)
    obtain r d where res: "resume_submit env i task (s, ts) = (r, d)"
      by (rule prod.exhaust [of "resume_submit env i task (s, ts)"])
    have step: "loop_step env (s, ts) (Some i) r d" by (rule loop_step.resume [OF Some res])
    show ?thesis
      using loop_runs_step [OF step] loop_runs_trans [OF loop_runs_step [OF step] Suc.IH [of d]]
      by (cases r) (simp_all add: c Some res)
  qed
qed

lemma resume_all_result:
  assumes "ts i = Some task" and "task_rest task \<noteq> []"
  shows "resume_all env i (length (task_rest task)) (s, ts) =
    (let out = send_each env (task_message task) (task_rest task) (world s);
         t = s\<lparr>world := snd out,
               subscribers := subscribers s - set (task_failed task @ failed (task_rest task) (fst out))\<rparr>
     in (Some (Ok200 (MempoolRecord_toJson (mp_heap s ! task_ref task))), (t, ts(i := None))))"
  using assms
proof (induction "task_rest task" arbitrary: s ts task)
  case Nil
  then show ?case by simp
next
  case (Cons w ws)
  let ?out = "ws_send env w (task_message task) (world s)"
  let ?task = "task\<lparr>task_rest := ws,
      task_failed := if fst ?out then task_failed task else task_failed task @ [w]\<rparr>"
  let ?s = "s\<lparr>world := snd ?out\<rparr>"
  have rest: "task_rest task = w # ws" using Cons.hyps(2) by simp
  show ?case
  proof (cases ws)
    case Nil
    then show ?thesis
      using rest Cons.prems
      by (simp add: resume_submit_def run_on_def disconnect_all_run case_prod_beta Let_def)
  next
    case (Cons w' ws')
    have "resume_submit env i task (s, ts) = (None, (?s, ts(i \<mapsto> ?task)))"
      using rest Cons by (simp add: resume_submit_def run_on_def case_prod_beta)
    moreover have "resume_all env i (length ws) (?s, ts(i \<mapsto> ?task)) =
      (let out = send_each env (task_message task) ws (world ?s);
           t = ?s\<lparr>world := snd out,
                 subscribers := subscribers s - set (task_failed ?task @ failed ws (fst out))\<rparr>
       in (Some (Ok200 (MempoolRecord_toJson (mp_heap s ! task_ref task))), (t, ts(i := None))))"
      using Cons.hyps(1) [of ?task "ts(i \<mapsto> ?task)" ?s] Cons by simp
    ultimately show ?thesis
      using Cons.prems rest
      by (auto simp: case_prod_beta Let_def)
  qed
qed

text \<open>
  A suspended submission always ends: resumed as often as it has websockets left, and
  whatever the sends do, it answers with its record, having sent its message once to each of
  them in order, and takes exactly the failed ones out of the subscribers.
\<close>

theorem suspended_submission_ends:
  assumes "loop_runs env (idle (create_app w)) (s, ts)" and "ts i = Some task"
  shows "resume_all env i (length (task_rest task)) (s, ts) =
    (let out = send_each env (task_message task) (task_rest task) (world s);
         t = s\<lparr>world := snd out,
               subscribers := subscribers s - set (task_failed task @ failed (task_rest task) (fst out))\<rparr>
     in (Some (Ok200 (MempoolRecord_toJson (mp_heap s ! task_ref task))), (t, ts(i := None))))"
proof -
  have "config_ok (s, ts)" using loop_runs_safe [OF assms(1) idle_ok] by simp
  then show ?thesis using assms(2) by (intro resume_all_result) (auto simp: config_ok_def)
qed

lemma submit_alone:
  assumes inv: "app_inv s" and i: "ts i = None"
  shows "loop_runs env (s, ts) (snd (app_handle env (Post_public_tx payload) s), ts)"
proof -
  have minv: "mempool_inv s" using inv by (simp add: app_inv_def)
  obtain r c where b: "begin_submit env i payload (s, ts) = (r, c)"
    by (rule prod.exhaust [of "begin_submit env i payload (s, ts)"])
  have first: "loop_runs env (s, ts) c"
    by (rule loop_runs_step [OF loop_step.submit]) (rule i, rule b)
  show ?thesis
  proof (cases "Transaction_fromJson payload")
    case (Inl e)
    then show ?thesis using first b by (auto simp: begin_submit_def submit_run [OF minv])
  next
    case (Inr t)
    note l = mempool_invD(1) [OF minv]
    let ?n = "length (mp_heap s)" and ?m = "pending_message (MempoolRecord_toJson (submitted env t s))"
    obtain s1 where add: "Mempool_addTransaction env t s = (Inr ?n, s1)"
      using l by (simp add: addTransaction_run)
    have heap: "mp_heap s1 ! ?n = submitted env t s"
      using l add by (auto simp: addTransaction_run submitted_def)
    let ?task = "\<lparr>task_ref = ?n, task_message = ?m, task_rest = ws_order env (subscribers s1),
                 task_failed = []\<rparr>"
    have run: "run_on i ?task (s1, ts) = (r, c)"
      using b Inr add by (simp add: begin_submit_def heap)
    have final: "snd (app_handle env (Post_public_tx payload) s) =
        snd (Broadcaster_broadcast env ?m s1)"
      using Inr add by (simp add: submit_run [OF minv])
    show ?thesis
    proof (cases "ws_order env (subscribers s1)")
      case Nil
      then show ?thesis
        using first run i final by (auto simp: run_on_def broadcast_run Let_def fun_upd_idem)
    next
      case (Cons w ws)
      then have c: "c = (s1, ts(i \<mapsto> ?task))" using run by (simp add: run_on_def)
      have "resume_all env i (length (task_rest ?task)) c =
          (Some (Ok200 (MempoolRecord_toJson (mp_heap s1 ! ?n))), (snd (Broadcaster_broadcast env ?m s1), ts))"
        unfolding c using Cons i
        by (subst resume_all_result) (auto simp: broadcast_run Let_def fun_upd_idem)
      then have "loop_runs env c (snd (Broadcaster_broadcast env ?m s1), ts)"
        using resume_all_runs [of env c i "length (task_rest ?task)"] by simp
      then show ?thesis using loop_runs_trans [OF first] final by simp
    qed
  qed
qed

lemma sequential_runs:
  "app_inv s \<Longrightarrow> loop_runs env (idle s) (idle (snd (app_run env es s)))"
proof (induction es arbitrary: s)
  case Nil
  then show ?case by (simp add: loop_runs.start)
next
  case (Cons e es)
  let ?t = "snd (app_handle env e s)"
  have "loop_runs env (idle s) (idle ?t)"
  proof (cases "is_submission e")
    case True
    then obtain p where "e = Post_public_tx p" by (cases e) (auto simp: is_submission_def)
    then show ?thesis using submit_alone [OF Cons.prems, of "\<lambda>_. None"] by (simp add: idle_def)
  next
    case False
    have "loop_step env (idle s) None (Some (fst (app_handle env e s))) (idle ?t)"
      unfolding idle_def by (rule loop_step.handler [OF False]) simp
    then show ?thesis by (rule loop_runs_step)
  qed
  moreover have "loop_runs env (idle ?t) (idle (snd (app_run env es ?t)))"
    using Cons.IH handle_safe [OF Cons.prems] by blast
  ultimately show ?case using loop_runs_trans by (simp add: case_prod_beta) blast
qed

text \<open>
  Serving the requests one after the other is one of the interleavings: every state a
  sequential run of the service reaches is a configuration the event loop reaches.
\<close>

theorem sequential_service_refines_loop:
  "loop_runs env (idle (create_app w)) (idle (snd (app_run env es (create_app w))))"
  by (rule sequential_runs [OF create_app_inv])

end
