(* ===== verification/Machine_Witnesses.thy ===== *)
theory Machine_Witnesses
  imports Example_Node Builder_Machine
begin

text \<open>
  An interleaved run of the evaluated example: a submission is suspended in its broadcast, a
  bundle that settles the record it has just added is mined, and the submission resumes.
\<close>

definition toy_listening :: "toy app_state" where
  "toy_listening = snd (app_run toy_env [Ws_connect 2] (create_app toy_world))"

definition toy_suspended :: "toy config" where
  "toy_suspended = snd (begin_submit toy_env 0 toy_tx (idle toy_listening))"

definition toy_overtaken :: "toy config" where
  "toy_overtaken =
     (snd (app_handle toy_env (Post_bundle toy_bundle_json) (fst toy_suspended)), snd toy_suspended)"

definition toy_task :: submission_task where
  "toy_task = the (snd toy_suspended 0)"

lemma toy_suspended_reached: "loop_runs toy_env (idle (create_app toy_world)) toy_suspended"
proof -
  have first: "loop_runs toy_env (idle (create_app toy_world)) (idle toy_listening)"
    unfolding toy_listening_def by (rule sequential_runs [OF create_app_inv])
  have "loop_step toy_env (idle toy_listening) (Some 0)
      (fst (begin_submit toy_env 0 toy_tx (idle toy_listening))) toy_suspended"
    unfolding idle_def toy_suspended_def by (rule loop_step.submit) simp_all
  then show ?thesis by (rule loop_runs.more [OF first])
qed

lemma toy_overtaken_reached: "loop_runs toy_env (idle (create_app toy_world)) toy_overtaken"
proof -
  have "loop_step toy_env (fst toy_suspended, snd toy_suspended) None
      (Some (fst (app_handle toy_env (Post_bundle toy_bundle_json) (fst toy_suspended)))) toy_overtaken"
    unfolding toy_overtaken_def
    by (rule loop_step.handler [of "Post_bundle toy_bundle_json"])
       (simp_all add: is_submission_def del: app_handle.simps)
  then show ?thesis using loop_runs.more [OF toy_suspended_reached] by simp
qed

lemma toy_task_suspended: "snd toy_suspended 0 = Some toy_task"
proof -
  have "snd toy_suspended 0 \<noteq> None" by code_simp
  then show ?thesis by (auto simp: toy_task_def)
qed

lemma toy_task_overtaken: "snd toy_overtaken 0 = Some toy_task"
  using toy_task_suspended by (simp add: toy_overtaken_def)

lemma toy_overtaken_pair:
  "loop_runs toy_env (idle (create_app toy_world)) (fst toy_overtaken, snd toy_overtaken)"
  using toy_overtaken_reached by simp

theorem event_loop_invariant_witness:
  "config_ok toy_overtaken"
  by (rule event_loop_invariant [OF toy_overtaken_reached])

text \<open>The answer shows the record included, the message that was broadcast shows it pending.\<close>

definition toy_answer :: json where
  "toy_answer = (case fst (resume_submit toy_env 0 toy_task toy_overtaken) of
     Some (Ok200 v) \<Rightarrow> v | _ \<Rightarrow> JNull)"

theorem answer_and_broadcast_agree_witness:
  "\<exists>r r'. task_message toy_task = pending_message (MempoolRecord_toJson r) \<and> is_pending r \<and>
     toy_answer = MempoolRecord_toJson r' \<and> advances r r' \<and>
     json_get toy_answer ''status'' = Inr (JStr ''included'')"
proof -
  have "fst (resume_submit toy_env 0 toy_task toy_overtaken) = Some (Ok200 toy_answer)"
    by code_simp
  then have res: "resume_submit toy_env 0 toy_task (fst toy_overtaken, snd toy_overtaken) =
      (Some (Ok200 toy_answer), snd (resume_submit toy_env 0 toy_task toy_overtaken))"
    by (simp add: prod_eq_iff)
  have "json_get toy_answer ''status'' = Inr (JStr ''included'')"
    by code_simp
  then show ?thesis
    using answer_and_broadcast_agree [OF toy_overtaken_pair toy_task_overtaken res] by blast
qed

theorem suspended_submission_ends_witness:
  "fst (resume_all toy_env 0 (length (task_rest toy_task)) toy_overtaken) =
     Some (Ok200 (MempoolRecord_toJson (mp_heap (fst toy_overtaken) ! task_ref toy_task)))"
  using suspended_submission_ends [OF toy_overtaken_pair toy_task_overtaken]
  by (simp add: Let_def)

end
