(* ===== verification/Request_Numbers.thy ===== *)
theory Request_Numbers
  imports Builder_Safety
begin

text \<open>
  The numbers on the requests to the node over a whole run of the service: the handlers share
  one client, so the numbers the node sees go up by one from request to request, whichever
  handlers the requests come from and whether they fail or not.
\<close>

section \<open>Steps that send nothing\<close>

definition silent ::
  "('w \<times> json list, 'z) anvil_state_scheme \<Rightarrow> ('w \<times> json list, 'z) anvil_state_scheme \<Rightarrow> bool"
  where
  "silent s t \<longleftrightarrow> requestId t = requestId s \<and> trace t = trace s"

lemma silent_numbered: "silent s t \<Longrightarrow> numbered s t"
  by (simp add: silent_def numbered_def)

lemma numbered_with_lock [frame_intro]:
  assumes "keeps numbered m"
  shows "keeps numbered (with_lock m)"
proof (rule keepsI)
  fix s :: "('a \<times> json list, 'b) mempool_state_scheme"
  have "numbered (s\<lparr>mp_lock := True\<rparr>) (snd (m (s\<lparr>mp_lock := True\<rparr>)))"
    using assms by (rule keeps_snd)
  then show "numbered s (snd (with_lock m s))"
    by (auto simp: with_lock_def numbered_def trace_def split: prod.split)
qed

lemma numbered_silent [frame_intro]:
  "(\<And>s. silent s (f s)) \<Longrightarrow> keeps numbered (pupdate f)"
  "(\<And>w. snd (snd (h w)) = snd w) \<Longrightarrow> keeps numbered (on_world h)"
  by (rule keepsI, rule silent_numbered, simp add: silent_def trace_def del: split_paired_All)+

lemma silent_updates [simp]:
  "silent s (s\<lparr>mp_lastSeqNum := q\<rparr>)" "silent s (s\<lparr>mp_transactions := ts\<rparr>)"
  "silent s (s\<lparr>mp_heap := hp\<rparr>)" "silent s' (s'\<lparr>subscribers := S\<rparr>)"
  by (simp_all add: silent_def trace_def)

lemma numbered_alloc [frame_intro]: "keeps numbered (alloc_record r)"
  by (auto intro!: keepsI silent_numbered simp: alloc_record_def)

lemma numbered_update [frame_intro]: "keeps numbered (update_record ref f)"
  unfolding update_record_def by (intro frame_intro) simp

lemma numbered_pool [frame_intro]:
  "keeps numbered (Mempool_addTransaction (traced env) t)"
  "keeps numbered (Mempool_getTransaction k)"
  "keeps numbered (Mempool_markMined (traced env) k h st rc)"
  "keeps numbered Mempool_pendingSnapshot"
  unfolding Mempool_addTransaction_def Mempool_getTransaction_def Mempool_markMined_def
    Mempool_pendingSnapshot_def
  by (auto intro!: frame_intro split: option.split)

lemma numbered_connect [frame_intro]:
  "keeps numbered (Broadcaster_connect (traced env) c)" "keeps numbered (Broadcaster_disconnect c)"
  unfolding Broadcaster_connect_def Broadcaster_disconnect_def by (auto intro!: frame_intro)

lemma numbered_broadcast_loop [frame_intro]:
  "keeps numbered (broadcast_loop (traced env) m cs ds)"
  by (induction cs arbitrary: ds) (auto intro!: frame_intro)

lemma numbered_broadcast [frame_intro]: "keeps numbered (Broadcaster_broadcast (traced env) m)"
  unfolding Broadcaster_broadcast_def by (intro frame_intro)

lemma numbered_bundle [frame_intro]: "keeps numbered (Bundle_fromJson data)"
proof -
  have "keeps numbered (BundleItem_fromJson v)" for v
    unfolding BundleItem_fromJson_def
    by (auto intro!: frame_intro split: json.split option.split)
  then show ?thesis
    unfolding Bundle_fromJson_def by (auto intro!: frame_intro split: json.split)
qed

lemma numbered_mine [frame_intro]: "keeps numbered (BundleBuilder_mineBundle (traced env) b)"
proof -
  have "keeps numbered (mark_result_of (traced env) item tx)" for item tx
    unfolding mark_result_of_def by (auto intro!: frame_intro split: option.split)
  then show ?thesis
    unfolding BundleBuilder_mineBundle_def by (auto intro!: frame_intro split: prod.split)
qed

section \<open>The service\<close>

lemma numbered_answer: "keeps numbered m \<Longrightarrow> numbered s (snd (answer cv cr m s))"
  by (simp add: keeps_snd)

lemma numbered_handle: "numbered s (snd (app_handle (traced env) e s))"
proof (cases e)
  case (Get_public_tx k)
  obtain r t where g: "Mempool_getTransaction k s = (r, t)" by fastforce
  have "numbered s t" using numbered_pool(2) g by (rule keepsD)
  then show ?thesis
    by (simp add: Get_public_tx get_public_tx_def g split: sum.split option.split)
next
  case Get_chain_head
  then show ?thesis
    by (simp only: app_handle.simps chain_head_def) (rule numbered_answer, intro frame_intro)
next
  case (Post_chain_call p)
  then show ?thesis
    by (simp only: app_handle.simps chain_call_def)
       (rule numbered_answer, auto intro!: frame_intro split: prod.split)
next
  case (Post_public_tx p)
  then show ?thesis
    by (simp only: app_handle.simps submit_public_tx_def) (rule numbered_answer, intro frame_intro)
next
  case (Post_bundle_simulate p)
  then show ?thesis
    by (simp only: app_handle.simps simulate_private_bundle_def)
       (rule numbered_answer, intro frame_intro)
next
  case (Post_bundle p)
  then show ?thesis
    by (simp only: app_handle.simps submit_private_bundle_def)
       (rule numbered_answer, intro frame_intro)
next
  case Get_public_pending
  then show ?thesis
    by (simp only: app_handle.simps get_pending_transactions_def)
       (rule numbered_answer, intro frame_intro)
next
  case (Ws_connect c)
  then show ?thesis
    by (simp only: app_handle.simps socket_def) (rule numbered_answer, intro frame_intro)
next
  case (Ws_disconnect c)
  then show ?thesis
    by (simp only: app_handle.simps socket_def) (rule numbered_answer, intro frame_intro)
qed (simp_all add: numbered.step_refl)

lemma numbered_run: "numbered s (snd (app_run (traced env) es s))"
proof (induction es arbitrary: s)
  case (Cons e es)
  show ?case
    using numbered.step_trans [OF numbered_handle Cons.IH] by (simp add: case_prod_beta)
qed (simp add: numbered.step_refl)

text \<open>
  The requests that the node has received since the application was created carry the
  numbers 1, 2, 3 and so on without a gap or a repetition, in the order they were sent, whatever
  the clients did and whatever the node answered; the client's counter is the last of them.
\<close>

theorem requests_numbered:
  "map body_id (trace (snd (app_run (traced env) es (create_app (w, []))))) =
     map JInt [1..requestId (snd (app_run (traced env) es (create_app (w, []))))]"
proof -
  have "numbered (create_app (w, [])) (snd (app_run (traced env) es (create_app (w, []))))"
    by (rule numbered_run)
  then show ?thesis by (auto simp: numbered_def create_app_def trace_def)
qed

end
