(* ===== verification/Py_Text.thy ===== *)
theory Py_Text
  imports Py_Prelude
begin

text \<open>
  The text operations of Python the scenarios use: \<^verbatim>\<open>str(n)\<close>, \<^verbatim>\<open>hex(n)\<close>, \<^verbatim>\<open>int(s, base)\<close>,
  \<^verbatim>\<open>strip\<close>, \<^verbatim>\<open>rjust\<close>, \<^verbatim>\<open>upper\<close> and the splitting of words and of a line at its first equals
  sign.  Characters are those of one byte, which Python reads as the code points below 256; on
  them the operations are written out.
\<close>

section \<open>White space\<close>

definition is_space :: "char \<Rightarrow> bool" where
  "is_space c \<longleftrightarrow>
     (let n = (of_char c :: nat) in (9 \<le> n \<and> n \<le> 13) \<or> (28 \<le> n \<and> n \<le> 32) \<or> n = 133 \<or> n = 160)"

definition rstrip_if :: "(char \<Rightarrow> bool) \<Rightarrow> string \<Rightarrow> string" where
  "rstrip_if P s = rev (dropWhile P (rev s))"

definition strip_if :: "(char \<Rightarrow> bool) \<Rightarrow> string \<Rightarrow> string" where
  "strip_if P s = rstrip_if P (dropWhile P s)"

definition py_strip :: "string \<Rightarrow> string" where
  "py_strip s = strip_if is_space s"

definition rjust :: "nat \<Rightarrow> char \<Rightarrow> string \<Rightarrow> string" where
  "rjust w c s = replicate (w - length s) c @ s"

text \<open>\<^verbatim>\<open>s.split()[0]\<close>\<close>

definition first_word :: "string \<Rightarrow> string result" where
  "first_word s = (case takeWhile (\<lambda>c. \<not> is_space c) (dropWhile is_space s) of
       [] \<Rightarrow> Inl IndexError
     | w \<Rightarrow> Inr w)"

text \<open>\<^verbatim>\<open>upper\<close> on ASCII letters.\<close>

definition upper_char :: "char \<Rightarrow> char" where
  "upper_char c =
     (let n = (of_char c :: nat) in if 97 \<le> n \<and> n \<le> 122 then char_of (n - 32) else c)"

definition py_upper :: "string \<Rightarrow> string" where
  "py_upper s = map upper_char s"

section \<open>Numerals\<close>

definition digit_char :: "nat \<Rightarrow> char" where
  "digit_char d = (if d < 10 then char_of (48 + d) else char_of (87 + d))"

definition digit_val :: "char \<Rightarrow> nat option" where
  "digit_val c =
     (let n = (of_char c :: nat) in
      if 48 \<le> n \<and> n \<le> 57 then Some (n - 48)
      else if 97 \<le> n \<and> n \<le> 122 then Some (n - 87)
      else if 65 \<le> n \<and> n \<le> 90 then Some (n - 55)
      else None)"

fun numeral_digits :: "nat \<Rightarrow> nat \<Rightarrow> string" where
  "numeral_digits b n =
     (if n < b \<or> b < 2 then [digit_char n]
      else numeral_digits b (n div b) @ [digit_char (n mod b)])"

declare numeral_digits.simps [simp del]

definition dec :: "int \<Rightarrow> string" where
  "dec n = (if n < 0 then CHR 0x2D # numeral_digits 10 (nat (- n)) else numeral_digits 10 (nat n))"

definition py_hex :: "int \<Rightarrow> string" where
  "py_hex n = (if n < 0 then ''-0x'' @ numeral_digits 16 (nat (- n))
               else ''0x'' @ numeral_digits 16 (nat n))"

text \<open>
  The digits of \<^verbatim>\<open>int(s, base)\<close>: single underscores are allowed between digits.
\<close>

fun parse_digits :: "nat \<Rightarrow> nat \<Rightarrow> bool \<Rightarrow> string \<Rightarrow> nat option" where
  "parse_digits b acc need [] = (if need then None else Some acc)"
| "parse_digits b acc need (c # cs) =
     (if c = CHR ''_'' then (if need then None else parse_digits b acc True cs)
      else case digit_val c of
          None \<Rightarrow> None
        | Some d \<Rightarrow> if d < b then parse_digits b (acc * b + d) False cs else None)"

definition parse_prefixed :: "nat \<Rightarrow> string \<Rightarrow> nat option" where
  "parse_prefixed b s = (case s of
       c # cs \<Rightarrow> if c = CHR ''_'' then parse_digits b 0 True cs else parse_digits b 0 True s
     | [] \<Rightarrow> None)"

text \<open>
  The number without its sign.  Base 0 takes the base from the prefix, and a decimal numeral
  that starts with 0 must then be a zero.
\<close>

definition parse_unsigned :: "nat \<Rightarrow> string \<Rightarrow> nat option" where
  "parse_unsigned b s =
     (let p = map upper_char (take 2 s) in
      if b = 16 \<and> p = ''0X'' then parse_prefixed 16 (drop 2 s)
      else if b \<noteq> 0 then parse_digits b 0 True s
      else if p = ''0X'' then parse_prefixed 16 (drop 2 s)
      else if p = ''0O'' then parse_prefixed 8 (drop 2 s)
      else if p = ''0B'' then parse_prefixed 2 (drop 2 s)
      else if take 1 s = ''0''
      then (case parse_digits 10 0 True s of Some 0 \<Rightarrow> Some 0 | _ \<Rightarrow> None)
      else parse_digits 10 0 True s)"

definition bad_int :: "nat \<Rightarrow> string \<Rightarrow> exc" where
  "bad_int b s =
     ValueError [Txt ''invalid literal for int() with base '', Val (JInt (int b)), Txt '': '', Val (JStr s)]"

definition py_int :: "nat \<Rightarrow> string \<Rightarrow> int result" where
  "py_int b s =
     (case py_strip s of
        [] \<Rightarrow> Inl (bad_int b s)
      | c # cs \<Rightarrow>
          (case parse_unsigned b (if c = CHR ''+'' \<or> c = CHR 0x2D then cs else c # cs) of
             None \<Rightarrow> Inl (bad_int b s)
           | Some n \<Rightarrow> Inr (if c = CHR 0x2D then - int n else int n)))"

section \<open>Digits and their values\<close>

lemma of_digit_char [simp]:
  "d < 10 \<Longrightarrow> (of_char (digit_char d) :: nat) = 48 + d"
  "10 \<le> d \<Longrightarrow> d < 36 \<Longrightarrow> (of_char (digit_char d) :: nat) = 87 + d"
  by (simp_all add: digit_char_def)

lemma digit_val_char [simp]: "d < 36 \<Longrightarrow> digit_val (digit_char d) = Some d"
  by (cases "d < 10") (simp_all add: digit_val_def)

lemma digit_char_cases:
  assumes "d < 36"
  shows "(of_char (digit_char d) :: nat) \<in> {48..57} \<union> {97..122}"
  using assms by (cases "d < 10") auto

lemma digit_char_not [simp]:
  assumes "d < 36"
  shows "digit_char d \<noteq> CHR ''_''" "digit_char d \<noteq> CHR ''+''" "digit_char d \<noteq> CHR 0x2D"
    "\<not> is_space (digit_char d)" "digit_char d \<noteq> CHR ''.''"
  using digit_char_cases [OF assms] by (auto simp: is_space_def)

lemma digit_char_inj: "d < 36 \<Longrightarrow> e < 36 \<Longrightarrow> digit_char d = digit_char e \<longleftrightarrow> d = e"
  by (metis digit_val_char option.inject)

lemma digit_char_0: "digit_char 0 = CHR ''0''"
  by code_simp

lemma digit_char_zero [simp]: "d < 36 \<Longrightarrow> digit_char d = CHR ''0'' \<longleftrightarrow> d = 0"
  using digit_char_inj [of d 0] by (simp add: digit_char_0)

lemma upper_char_zero: "upper_char c = CHR ''0'' \<Longrightarrow> c = CHR ''0''"
proof (rule ccontr)
  assume up: "upper_char c = CHR ''0''" and ne: "c \<noteq> CHR ''0''"
  then have r: "97 \<le> (of_char c :: nat)" "(of_char c :: nat) \<le> 122"
    by (auto simp: upper_char_def Let_def split: if_splits)
  then have "(of_char (upper_char c) :: nat) = of_char c - 32"
    by (simp add: upper_char_def)
  then show False using r by (simp add: up)
qed

lemma numeral_digits_rec:
  "n < b \<Longrightarrow> numeral_digits b n = [digit_char n]"
  "b \<le> n \<Longrightarrow> 2 \<le> b \<Longrightarrow> numeral_digits b n = numeral_digits b (n div b) @ [digit_char (n mod b)]"
  by (subst numeral_digits.simps, simp)+

text \<open>The digits of a numeral, most significant first, as numbers.\<close>

definition numeral_of :: "nat \<Rightarrow> nat list \<Rightarrow> nat" where
  "numeral_of b ds = foldl (\<lambda>acc d. acc * b + d) 0 ds"

lemma numeral_of_snoc [simp]: "numeral_of b (ds @ [d]) = numeral_of b ds * b + d"
  by (simp add: numeral_of_def)

definition digits_of :: "nat \<Rightarrow> nat \<Rightarrow> nat list \<Rightarrow> bool" where
  "digits_of b n ds \<longleftrightarrow> numeral_digits b n = map digit_char ds \<and> ds \<noteq> [] \<and> list_all (\<lambda>d. d < b) ds \<and>
    numeral_of b ds = n \<and> (hd ds = 0 \<longrightarrow> ds = [0])"

lemma numeral_digits_ex:
  assumes "2 \<le> b" "b \<le> 36"
  shows "\<exists>ds. digits_of b n ds"
proof (induction n rule: less_induct)
  case (less n)
  show ?case
  proof (cases "n < b")
    case True
    then show ?thesis
      using assms by (intro exI [of _ "[n]"]) (simp add: digits_of_def numeral_digits_rec(1) numeral_of_def)
  next
    case False
    then have "n div b < n" "0 < n div b" using assms by (simp_all add: div_greater_zero_iff)
    from less.IH [OF this(1)] obtain ds where "digits_of b (n div b) ds" by blast
    then have
      ds: "numeral_digits b (n div b) = map digit_char ds" "ds \<noteq> []" "list_all (\<lambda>d. d < b) ds"
        "numeral_of b ds = n div b" "hd ds = 0 \<longrightarrow> ds = [0]"
      by (simp_all add: digits_of_def)
    have "hd ds \<noteq> 0"
      using ds(4,5) \<open>0 < n div b\<close> by (auto simp: numeral_of_def)
    then show ?thesis
      using False assms ds
      by (intro exI [of _ "ds @ [n mod b]"]) (simp add: digits_of_def numeral_digits_rec(2))
  qed
qed

lemma parse_digits_map:
  assumes "list_all (\<lambda>d. d < b) ds" "b \<le> 36" "ds \<noteq> [] \<or> \<not> need"
  shows "parse_digits b acc need (map digit_char ds) = Some (foldl (\<lambda>acc d. acc * b + d) acc ds)"
  using assms
proof (induction ds arbitrary: acc need)
  case Nil
  then show ?case by simp
next
  case (Cons d ds)
  then have "d < 36" by simp
  then show ?case using Cons by simp
qed

lemma parse_numeral:
  assumes "2 \<le> b" "b \<le> 36"
  shows "parse_digits b 0 True (numeral_digits b n) = Some n"
  using numeral_digits_ex [OF assms, of n] assms
  by (auto simp: digits_of_def parse_digits_map numeral_of_def)

lemma numeral_digits_Nil [simp]: "numeral_digits b n \<noteq> []"
  by (subst numeral_digits.simps) simp

section \<open>Round trips\<close>

lemma strip_id:
  assumes "s \<noteq> []" "\<not> P (hd s)" "\<not> P (last s)"
  shows "strip_if P s = s"
proof -
  have "dropWhile P s = s" using assms(1,2) by (cases s) auto
  moreover have "dropWhile P (rev s) = rev s"
    using assms(1,3) by (cases s rule: rev_cases) auto
  ultimately show ?thesis by (simp add: strip_if_def rstrip_if_def)
qed

lemma numeral_digits_ends:
  assumes "2 \<le> b" "b \<le> 36"
  shows "\<not> is_space (hd (numeral_digits b n))" "\<not> is_space (last (numeral_digits b n))"
    "hd (numeral_digits b n) \<noteq> CHR ''+''" "hd (numeral_digits b n) \<noteq> CHR 0x2D"
    "hd (numeral_digits b n) \<noteq> CHR ''_''"
    "hd (numeral_digits b n) = CHR ''0'' \<Longrightarrow> numeral_digits b n = ''0''"
proof -
  from numeral_digits_ex [OF assms, of n] obtain ds where "digits_of b n ds" by blast
  then have
    ds: "numeral_digits b n = map digit_char ds" "ds \<noteq> []" "list_all (\<lambda>d. d < b) ds"
      "hd ds = 0 \<longrightarrow> ds = [0]"
    by (simp_all add: digits_of_def)
  have "hd ds \<in> set ds" "last ds \<in> set ds" using ds(2) by simp_all
  then have "hd ds < b" "last ds < b" using ds(3) by (simp_all add: list_all_iff)
  then have less: "hd ds < 36" "last ds < 36" using assms(2) by linarith+
  then show "\<not> is_space (hd (numeral_digits b n))" "\<not> is_space (last (numeral_digits b n))"
    "hd (numeral_digits b n) \<noteq> CHR ''+''" "hd (numeral_digits b n) \<noteq> CHR 0x2D"
    "hd (numeral_digits b n) \<noteq> CHR ''_''"
    using ds(1,2) by (simp_all add: hd_map last_map)
  show "numeral_digits b n = ''0''" if "hd (numeral_digits b n) = CHR ''0''"
  proof -
    have "hd ds = 0" using that ds(1,2) less(1) by (simp add: hd_map)
    then have "ds = [0]" using ds(4) by simp
    then show ?thesis using ds(1) by (simp add: digit_char_0)
  qed
qed

lemma py_int_numeral:
  assumes u: "parse_unsigned b u = Some n" and ends: "u \<noteq> []" "\<not> is_space (hd u)" "\<not> is_space (last u)"
    and sign: "hd u \<noteq> CHR ''+''" "hd u \<noteq> CHR 0x2D"
  shows "py_int b u = Inr (int n)" "py_int b (CHR 0x2D # u) = Inr (- int n)"
proof -
  have "py_strip u = u" using ends by (simp add: py_strip_def strip_id)
  then show "py_int b u = Inr (int n)"
    using u ends(1) sign by (cases u) (simp_all add: py_int_def)
  have "\<not> is_space (CHR 0x2D)" by code_simp
  then have "py_strip (CHR 0x2D # u) = CHR 0x2D # u"
    using ends by (simp add: py_strip_def strip_id)
  then show "py_int b (CHR 0x2D # u) = Inr (- int n)"
    using u by (simp add: py_int_def)
qed

lemma take2_numeral:
  assumes "2 \<le> b" "b \<le> 36" "p \<in> {''0X'', ''0O'', ''0B''}"
  shows "map upper_char (take 2 (numeral_digits b n)) \<noteq> p"
proof
  assume eq: "map upper_char (take 2 (numeral_digits b n)) = p"
  obtain c cs where c: "numeral_digits b n = c # cs"
    by (cases "numeral_digits b n") auto
  then have "cs \<noteq> []" "upper_char c = CHR ''0''" using eq assms(3) by auto
  then have "c = CHR ''0''" using upper_char_zero by blast
  then have "numeral_digits b n = ''0''"
    using numeral_digits_ends(6) [OF assms(1,2), of n] c by simp
  then show False using c \<open>cs \<noteq> []\<close> by simp
qed

lemma parse_unsigned_hex: "parse_unsigned b (''0x'' @ numeral_digits 16 n) = Some n"
  if "b = 0 \<or> b = 16"
proof -
  obtain c cs where c: "numeral_digits 16 n = c # cs" by (cases "numeral_digits 16 n") auto
  have "upper_char (CHR ''0'') = CHR ''0''" "upper_char (CHR ''x'') = CHR ''X''" by code_simp+
  moreover have "c \<noteq> CHR ''_''" using numeral_digits_ends(5) [of 16 n] c by simp
  moreover have "parse_digits 16 0 True (c # cs) = Some n" using parse_numeral [of 16 n] c by simp
  ultimately show ?thesis using that
    by (auto simp: parse_unsigned_def parse_prefixed_def c Let_def simp del: parse_digits.simps)
qed

lemma parse_unsigned_dec:
  assumes "b = 0 \<or> b = 10"
  shows "parse_unsigned b (numeral_digits 10 n) = Some n"
proof -
  have np: "map upper_char (take 2 (numeral_digits 10 n)) \<noteq> ''0X''"
    "map upper_char (take 2 (numeral_digits 10 n)) \<noteq> ''0O''"
    "map upper_char (take 2 (numeral_digits 10 n)) \<noteq> ''0B''"
    by (rule take2_numeral; simp)+
  have zero: "n = 0" if "take 1 (numeral_digits 10 n) = ''0''"
  proof -
    have "hd (numeral_digits 10 n) = CHR ''0''"
      using that by (cases "numeral_digits 10 n") auto
    then have "numeral_digits 10 n = numeral_digits 10 0"
      using numeral_digits_ends(6) [of 10 n] by (simp add: numeral_digits_rec(1) digit_char_0)
    then show ?thesis using parse_numeral [of 10 n] parse_numeral [of 10 0] by simp
  qed
  show ?thesis
    using assms np zero parse_numeral [of 10 n] by (auto simp: parse_unsigned_def Let_def)
qed

text \<open>\<open>int\<close> reads back what \<open>str\<close> and \<open>hex\<close> write, whichever sign the number has.\<close>

lemma int_of_dec:
  assumes "b = 0 \<or> b = 10"
  shows "py_int b (dec n) = Inr n"
  using py_int_numeral [OF parse_unsigned_dec [OF assms], of "nat n"]
    py_int_numeral [OF parse_unsigned_dec [OF assms], of "nat (- n)"]
  by (simp add: dec_def numeral_digits_ends(1-5))

lemma int_of_hex:
  assumes "b = 0 \<or> b = 16"
  shows "py_int b (py_hex n) = Inr n"
proof -
  have s: "\<not> is_space (CHR ''0'')" by code_simp
  have last: "\<not> is_space (last (''0x'' @ numeral_digits 16 m))" for m
    using numeral_digits_ends(2) [of 16 m] by simp
  show ?thesis
    using py_int_numeral [OF parse_unsigned_hex [OF assms], of "nat n"] s last [of "nat n"]
      py_int_numeral [OF parse_unsigned_hex [OF assms], of "nat (- n)"] last [of "nat (- n)"]
    by (simp add: py_hex_def)
qed

interpretation dec_text: codec dec "py_int 10" "\<lambda>_. True"
  by unfold_locales (simp_all add: int_of_dec)

interpretation hex_text: codec py_hex "py_int 16" "\<lambda>_. True"
  by unfold_locales (simp_all add: int_of_hex)

text \<open>
  \<open>int(s, 16)\<close> inverts \<open>hex\<close>, \<open>int(s, 10)\<close> inverts \<open>str\<close>, and \<open>int(s, 0)\<close>, which takes the
  base from the text, inverts both; numbers with different texts are different.
\<close>

theorem int_text_roundtrip:
  "py_int 16 (py_hex n) = Inr n \<and> py_int 10 (dec n) = Inr n \<and>
   py_int 0 (py_hex n) = Inr n \<and> py_int 0 (dec n) = Inr n \<and> inj dec \<and> inj py_hex"
  using dec_text.enc_inj hex_text.enc_inj by (simp add: int_of_dec int_of_hex)

end
