(* ===== verification/Amounts.thy ===== *)
theory Amounts
  imports Py_Text "HOL-Library.Word"
begin

text \<open>
  Token amounts (\<^verbatim>\<open>scenarios/scenario_support.py\<close>): the exact-input quote with the 0.3% fee,
  against the quote of the contract it predicts (\<^verbatim>\<open>blockchain/src/dexes/SandboxDex.sol\<close>, 256-bit
  words with checked arithmetic), and the formatting of amounts.
\<close>

section \<open>The quote\<close>

definition DEFAULT_TOKEN_DECIMALS :: nat where "DEFAULT_TOKEN_DECIMALS = 18"
definition TOKEN_DECIMALS :: int where "TOKEN_DECIMALS = 10 ^ DEFAULT_TOKEN_DECIMALS"

definition sandbox_amount_out :: "int \<Rightarrow> int \<Rightarrow> int \<Rightarrow> int result" where
  "sandbox_amount_out amount_in reserve_in reserve_out =
     (if amount_in \<le> 0 then Inl (ScenarioError [Txt ''amount_in must be positive''])
      else if reserve_in \<le> 0 \<or> reserve_out \<le> 0
      then Inl (ScenarioError [Txt ''reserves must be positive''])
      else
        (let amount_in_with_fee = amount_in * 997 in
         Inr ((amount_in_with_fee * reserve_out) div (reserve_in * 1000 + amount_in_with_fee))))"

text \<open>The contract: an operation that overflows, and a \<^verbatim>\<open>require\<close> that fails, reverts.\<close>

type_synonym uint256 = "256 word"

definition checked_mul :: "uint256 \<Rightarrow> uint256 \<Rightarrow> uint256 option" where
  "checked_mul a b = (if uint a * uint b < 2 ^ 256 then Some (a * b) else None)"

definition checked_add :: "uint256 \<Rightarrow> uint256 \<Rightarrow> uint256 option" where
  "checked_add a b = (if uint a + uint b < 2 ^ 256 then Some (a + b) else None)"

definition FEE_NUMERATOR :: uint256 where "FEE_NUMERATOR = 997"
definition FEE_DENOMINATOR :: uint256 where "FEE_DENOMINATOR = 1000"

definition SandboxDex_getAmountOut :: "uint256 \<Rightarrow> uint256 \<Rightarrow> uint256 \<Rightarrow> uint256 option" where
  "SandboxDex_getAmountOut amountIn reserveIn reserveOut =
     (if \<not> amountIn > 0 then None
      else if \<not> reserveIn > 0 then None
      else if \<not> reserveOut > 0 then None
      else Option.bind (checked_mul amountIn FEE_NUMERATOR) (\<lambda>amountInWithFee.
           Option.bind (checked_mul amountInWithFee reserveOut) (\<lambda>numerator.
           Option.bind (checked_mul reserveIn FEE_DENOMINATOR) (\<lambda>scaled.
           Option.bind (checked_add scaled amountInWithFee) (\<lambda>denominator.
           Some (numerator div denominator))))))"

section \<open>Constant product\<close>

text \<open>
  A sequence of swaps in one pool, in either direction, at a given quote: the reserves after it,
  or the error of the first swap that is not quoted.
\<close>

fun pool_swaps ::
  "(int \<Rightarrow> int \<Rightarrow> int \<Rightarrow> int result) \<Rightarrow> (bool \<times> int) list \<Rightarrow> int \<times> int \<Rightarrow> (int \<times> int) result"
  where
  "pool_swaps quote [] p = Inr p"
| "pool_swaps quote ((forward, a) # rest) (x, y) =
     (if forward then rbind (quote a x y) (\<lambda>b. pool_swaps quote rest (x + a, y - b))
      else rbind (quote a y x) (\<lambda>b. pool_swaps quote rest (x - b, y + a)))"

text \<open>
  The contract of an exact-input quote: whatever it returns is less than the reserve it is paid
  from, and the product of the reserves does not go down.
\<close>

locale amm_quote =
  fixes quote :: "int \<Rightarrow> int \<Rightarrow> int \<Rightarrow> int result"
  assumes quote_bounds: "quote a x y = Inr b \<Longrightarrow> 0 < a \<and> 0 < x \<and> 0 \<le> b \<and> b < y"
    and quote_product: "quote a x y = Inr b \<Longrightarrow> x * y \<le> (x + a) * (y - b)"
begin

text \<open>Swapping there and back never pays, and a pool never loses product and never runs dry.\<close>

lemma round_trip:
  assumes "quote a x y = Inr b" and "quote b (y - b) (x + a) = Inr c"
  shows "c \<le> a"
proof -
  have y: "0 < y" using quote_bounds [OF assms(1)] by simp
  have "x * y \<le> (x + a) * (y - b)" by (rule quote_product [OF assms(1)])
  also have "\<dots> \<le> (y - b + b) * (x + a - c)"
    using quote_product [OF assms(2)] by (simp add: mult.commute)
  finally have "x * y \<le> (x + a - c) * y" by (simp add: mult.commute)
  then have "x \<le> x + a - c" using y by simp
  then show ?thesis by simp
qed

lemma swaps_product:
  "pool_swaps quote ss (x, y) = Inr (x', y') \<Longrightarrow> 0 < x \<Longrightarrow> 0 < y \<Longrightarrow> x * y \<le> x' * y' \<and> 0 < x' \<and> 0 < y'"
proof (induction ss arbitrary: x y)
  case (Cons s ss)
  obtain forward a where s: "s = (forward, a)" by (cases s)
  show ?case
  proof (cases forward)
    case True
    then obtain b where b: "quote a x y = Inr b" "pool_swaps quote ss (x + a, y - b) = Inr (x', y')"
      using Cons.prems(1) by (auto simp: s rbind_Inr_iff)
    then show ?thesis
      using Cons.IH [OF b(2)] quote_bounds [OF b(1)] quote_product [OF b(1)] by linarith
  next
    case False
    then obtain b where b: "quote a y x = Inr b" "pool_swaps quote ss (x - b, y + a) = Inr (x', y')"
      using Cons.prems(1) by (auto simp: s rbind_Inr_iff)
    then show ?thesis
      using Cons.IH [OF b(2)] quote_bounds [OF b(1)] quote_product [OF b(1)]
      by (simp add: mult.commute)
  qed
qed simp

end

section \<open>The quote of the scenarios\<close>

lemma amount_out_Inr:
  "sandbox_amount_out a x y = Inr b \<longleftrightarrow>
     0 < a \<and> 0 < x \<and> 0 < y \<and> b = (a * 997 * y) div (x * 1000 + a * 997)"
  by (auto simp: sandbox_amount_out_def Let_def)

text \<open>What is paid out, exactly: the largest amount that leaves the product with the fee intact.\<close>

lemma amount_out_exact:
  assumes "sandbox_amount_out a x y = Inr b"
  shows "b * (x * 1000 + a * 997) \<le> a * 997 * y" "a * 997 * y < (b + 1) * (x * 1000 + a * 997)"
proof -
  from assms have p: "0 < x * 1000 + a * 997" and b: "b = (a * 997 * y) div (x * 1000 + a * 997)"
    by (simp_all add: amount_out_Inr)
  show "b * (x * 1000 + a * 997) \<le> a * 997 * y"
    using pos_mod_sign [OF p, of "a * 997 * y"] div_mult_mod_eq [of "a * 997 * y" "x * 1000 + a * 997"]
    unfolding b by linarith
  show "a * 997 * y < (b + 1) * (x * 1000 + a * 997)"
    using pos_mod_bound [OF p, of "a * 997 * y"] div_mult_mod_eq [of "a * 997 * y" "x * 1000 + a * 997"]
    unfolding b by (simp add: distrib_right)
qed

interpretation sandbox: amm_quote sandbox_amount_out
proof
  fix a x y b :: int
  assume q: "sandbox_amount_out a x y = Inr b"
  then have pos: "0 < a" "0 < x" "0 < y" by (simp_all add: amount_out_Inr)
  have le: "b * (x * 1000 + a * 997) \<le> a * 997 * y" by (rule amount_out_exact(1) [OF q])
  have b0: "0 \<le> b" using q pos by (auto simp: amount_out_Inr intro!: pos_imp_zdiv_nonneg_iff [THEN iffD2])
  have "b < y"
  proof (rule ccontr)
    assume "\<not> b < y"
    then have "y * (x * 1000 + a * 997) \<le> b * (x * 1000 + a * 997)"
      using pos by (intro mult_right_mono) auto
    with le have "y * (x * 1000) \<le> 0" by (simp add: algebra_simps)
    then show False using pos by (simp add: mult_le_0_iff)
  qed
  then show "0 < a \<and> 0 < x \<and> 0 \<le> b \<and> b < y" using pos b0 by simp
  have "b * (x * 1000 + a * 1000) \<le> a * 1000 * y"
  proof -
    have "3 * (a * b) \<le> 3 * (a * y)" using \<open>b < y\<close> pos by (intro mult_left_mono) auto
    then show ?thesis using le by (simp add: algebra_simps)
  qed
  then show "x * y \<le> (x + a) * (y - b)" by (simp add: algebra_simps)
qed

text \<open>
  The quote raises exactly when an argument is not positive; otherwise it is at least 0 and
  less than the reserve it is paid from, and the product of the reserves after the swap is not
  below the one before.
\<close>

theorem amount_out_sound:
  "(case sandbox_amount_out a x y of
      Inl e \<Rightarrow> a \<le> 0 \<or> x \<le> 0 \<or> y \<le> 0
    | Inr b \<Rightarrow> 0 < a \<and> 0 < x \<and> 0 \<le> b \<and> b < y \<and> x * y \<le> (x + a) * (y - b))"
  using sandbox.quote_bounds [of a x y] sandbox.quote_product [of a x y]
  by (cases "sandbox_amount_out a x y")
     (auto simp: sandbox_amount_out_def Let_def split: if_splits)

text \<open>
  C34. A larger input is never quoted less, and swapping what was received back in the same pool
  never returns more than was put in.
\<close>

theorem amount_out_monotone_no_round_trip:
  assumes "sandbox_amount_out a x y = Inr b"
  shows "(a \<le> a' \<longrightarrow> (\<exists>b'. sandbox_amount_out a' x y = Inr b' \<and> b \<le> b')) \<and>
    (sandbox_amount_out b (y - b) (x + a) = Inr c \<longrightarrow> c \<le> a)"
proof (intro conjI impI)
  from assms have pos: "0 < a" "0 < x" "0 < y" by (simp_all add: amount_out_Inr)
  have b: "b < y" using sandbox.quote_bounds [OF assms] by simp
  assume le: "a \<le> a'"
  have "b * (x * 1000) \<le> a * 997 * (y - b)"
    using amount_out_exact(1) [OF assms] by (simp add: algebra_simps)
  also have "\<dots> \<le> a' * 997 * (y - b)" using le b by (intro mult_right_mono) auto
  finally have "b * (x * 1000 + a' * 997) \<le> a' * 997 * y" by (simp add: algebra_simps)
  moreover have "0 < x * 1000 + a' * 997" using pos le by simp
  ultimately have "b \<le> (a' * 997 * y) div (x * 1000 + a' * 997)"
    by (metis nonzero_mult_div_cancel_right order_less_irrefl zdiv_mono1)
  then show "\<exists>b'. sandbox_amount_out a' x y = Inr b' \<and> b \<le> b'"
    using pos le by (simp add: amount_out_Inr)
next
  assume "sandbox_amount_out b (y - b) (x + a) = Inr c"
  then show "c \<le> a" by (rule sandbox.round_trip [OF assms])
qed

section \<open>The quote of the contract\<close>

lemma checked_mul_Some: "checked_mul a b = Some c \<longleftrightarrow> uint a * uint b < 2 ^ 256 \<and> uint c = uint a * uint b"
proof (cases "uint a * uint b < 2 ^ 256")
  case True
  have "uint (a * b) = uint a * uint b"
    using True uint_mult_lem [of a b] by simp
  then show ?thesis using True by (auto simp: checked_mul_def word_uint_eq_iff)
next
  case False
  then show ?thesis by (simp add: checked_mul_def)
qed

lemma checked_add_Some: "checked_add a b = Some c \<longleftrightarrow> uint a + uint b < 2 ^ 256 \<and> uint c = uint a + uint b"
proof (cases "uint a + uint b < 2 ^ 256")
  case True
  have "uint (a + b) = uint a + uint b"
    using True uint_add_lem [of a b] by simp
  then show ?thesis using True by (auto simp: checked_add_def word_uint_eq_iff)
next
  case False
  then show ?thesis by (simp add: checked_add_def)
qed

lemma getAmountOut_Some:
  "SandboxDex_getAmountOut a x y = Some w \<longleftrightarrow>
     sandbox_amount_out (uint a) (uint x) (uint y) = Inr (uint w) \<and>
     uint a * 997 * uint y < 2 ^ 256 \<and> uint x * 1000 + uint a * 997 < 2 ^ 256"
proof -
  have c: "uint FEE_NUMERATOR = 997" "uint FEE_DENOMINATOR = 1000"
    by (simp_all add: FEE_NUMERATOR_def FEE_DENOMINATOR_def)
  have "SandboxDex_getAmountOut a x y = Some w \<longleftrightarrow>
      0 < a \<and> 0 < x \<and> 0 < y \<and>
      (\<exists>f n s d. checked_mul a FEE_NUMERATOR = Some f \<and> checked_mul f y = Some n \<and>
         checked_mul x FEE_DENOMINATOR = Some s \<and> checked_add s f = Some d \<and> w = n div d)"
    by (auto simp: SandboxDex_getAmountOut_def bind_eq_Some_conv)
  also have "\<dots> \<longleftrightarrow> 0 < uint a \<and> 0 < uint x \<and> 0 < uint y \<and>
      uint a * 997 * uint y < 2 ^ 256 \<and> uint x * 1000 + uint a * 997 < 2 ^ 256 \<and>
      uint w = (uint a * 997 * uint y) div (uint x * 1000 + uint a * 997)"
    (is "?l \<longleftrightarrow> ?r")
  proof
    assume ?l
    then show ?r by (auto simp: checked_mul_Some checked_add_Some c word_less_def uint_div)
  next
    assume r: ?r
    have "uint a * 997 * 1 \<le> uint a * 997 * uint y" using r by (intro mult_left_mono) auto
    then have f: "uint a * 997 < 2 ^ 256" using r by linarith
    then have f': "checked_mul a FEE_NUMERATOR = Some (a * FEE_NUMERATOR)"
      "uint (a * FEE_NUMERATOR) = uint a * 997"
      using checked_mul_Some [of a FEE_NUMERATOR] by (auto simp: checked_mul_def c)
    then have n: "checked_mul (a * FEE_NUMERATOR) y = Some (a * FEE_NUMERATOR * y)"
      "uint (a * FEE_NUMERATOR * y) = uint a * 997 * uint y"
      using r checked_mul_Some [of "a * FEE_NUMERATOR" y] by (auto simp: checked_mul_def)
    have s: "checked_mul x FEE_DENOMINATOR = Some (x * FEE_DENOMINATOR)"
      "uint (x * FEE_DENOMINATOR) = uint x * 1000"
      using r checked_mul_Some [of x FEE_DENOMINATOR] by (auto simp: checked_mul_def c)
    have d: "checked_add (x * FEE_DENOMINATOR) (a * FEE_NUMERATOR) =
        Some (x * FEE_DENOMINATOR + a * FEE_NUMERATOR)"
      "uint (x * FEE_DENOMINATOR + a * FEE_NUMERATOR) = uint x * 1000 + uint a * 997"
      using r f' s checked_add_Some [of "x * FEE_DENOMINATOR" "a * FEE_NUMERATOR"]
      by (auto simp: checked_add_def)
    have "w = (a * FEE_NUMERATOR * y) div (x * FEE_DENOMINATOR + a * FEE_NUMERATOR)"
      using r n d by (simp add: word_uint_eq_iff uint_div)
    then show ?l using r f' n s d by (auto simp: word_less_def)
  qed
  also have "\<dots> \<longleftrightarrow> sandbox_amount_out (uint a) (uint x) (uint y) = Inr (uint w) \<and>
     uint a * 997 * uint y < 2 ^ 256 \<and> uint x * 1000 + uint a * 997 < 2 ^ 256"
    by (auto simp: amount_out_Inr)
  finally show ?thesis .
qed

text \<open>
  C33. The scenarios' quote predicts the contract's: on 256-bit words the contract returns a value
  exactly when the quote does not raise and neither the numerator nor the denominator overflows,
  and the values are the same.
\<close>

theorem quote_matches_contract:
  "SandboxDex_getAmountOut a x y =
     (case sandbox_amount_out (uint a) (uint x) (uint y) of
        Inl e \<Rightarrow> None
      | Inr b \<Rightarrow>
          if uint a * 997 * uint y < 2 ^ 256 \<and> uint x * 1000 + uint a * 997 < 2 ^ 256
          then Some (word_of_int b) else None)"
proof (cases "SandboxDex_getAmountOut a x y")
  case (Some w)
  then show ?thesis by (simp add: getAmountOut_Some)
next
  case None
  show ?thesis
  proof (rule ccontr)
    assume ne: "\<not> ?thesis"
    then obtain b where b: "sandbox_amount_out (uint a) (uint x) (uint y) = Inr b"
      "uint a * 997 * uint y < 2 ^ 256" "uint x * 1000 + uint a * 997 < 2 ^ 256"
      using None by (auto split: sum.splits if_splits)
    have "0 \<le> b" "b < uint y" using sandbox.quote_bounds [OF b(1)] by simp_all
    then have "uint (word_of_int b :: uint256) = b"
      using uint_bounded [of y] by (simp add: uint_word_of_int_eq take_bit_int_eq_self_iff)
    then have "SandboxDex_getAmountOut a x y = Some (word_of_int b)"
      using b by (simp add: getAmountOut_Some)
    then show False using None by simp
  qed
qed

text \<open>The contract's quote read over the integers keeps the same contract.\<close>

definition dex_quote :: "int \<Rightarrow> int \<Rightarrow> int \<Rightarrow> int result" where
  "dex_quote a x y =
     (if {a, x, y} \<subseteq> {0..<2 ^ 256}
      then (case SandboxDex_getAmountOut (word_of_int a) (word_of_int x) (word_of_int y) of
              None \<Rightarrow> Inl (OtherError ''revert'') | Some w \<Rightarrow> Inr (uint w))
      else Inl (OtherError ''not a uint256''))"

lemma dex_quote_sandbox: "dex_quote a x y = Inr b \<Longrightarrow> sandbox_amount_out a x y = Inr b"
  by (auto simp: dex_quote_def getAmountOut_Some uint_word_of_int_eq take_bit_int_eq_self
      split: if_splits option.splits)

interpretation dex: amm_quote dex_quote
  by unfold_locales
     (use sandbox.quote_bounds sandbox.quote_product dex_quote_sandbox in blast)+

text \<open>
  Any sequence of swaps in either direction at the contract's quote leaves a pool with
  positive reserves whose product has not gone down.
\<close>

theorem pool_never_drained:
  assumes "pool_swaps dex_quote ss (x, y) = Inr (x', y')" and "0 < x" and "0 < y"
  shows "x * y \<le> x' * y' \<and> 0 < x' \<and> 0 < y'"
  using assms by (rule dex.swaps_product)

section \<open>Formatting\<close>

definition format_token_amount :: "int \<Rightarrow> nat \<Rightarrow> string" where
  "format_token_amount amount decimals =
     (let scale = 10 ^ decimals;
          whole = amount div scale;
          fraction = amount mod scale
      in if fraction = 0 then dec whole
         else
           (let fraction_text =
                  rstrip_if (\<lambda>c. c = CHR ''0'') (rjust decimals (CHR ''0'') (dec fraction))
            in dec whole @ ''.'' @ fraction_text))"

text \<open>
  The reference reader: the digits before the point are tokens, those after it, filled up with
  zeros to the number of decimals, are units.
\<close>

definition digits_value :: "string \<Rightarrow> nat" where
  "digits_value s = numeral_of 10 (map (\<lambda>c. the (digit_val c)) s)"

definition amount_value :: "nat \<Rightarrow> string \<Rightarrow> nat" where
  "amount_value d s =
     (let w = takeWhile (\<lambda>c. c \<noteq> CHR ''.'') s;
          f = drop 1 (dropWhile (\<lambda>c. c \<noteq> CHR ''.'') s)
      in digits_value w * 10 ^ d + digits_value (f @ replicate (d - length f) (CHR ''0'')))"

lemma numeral_digits_value: "digits_value (numeral_digits 10 n) = n"
proof -
  obtain ds where "digits_of 10 n ds" using numeral_digits_ex [of 10 n] by auto
  then have ds: "numeral_digits 10 n = map digit_char ds" "list_all (\<lambda>d. d < 10) ds"
    "numeral_of 10 ds = n"
    by (simp_all add: digits_of_def)
  have "map (\<lambda>c. the (digit_val c)) (map digit_char ds) = ds"
    using ds(2) by (induction ds) simp_all
  then show ?thesis using ds by (simp add: digits_value_def)
qed

lemma numeral_digits_no_point:
  assumes "c \<in> set (numeral_digits 10 n)"
  shows "c \<noteq> CHR ''.''"
proof -
  obtain ds where "digits_of 10 n ds" using numeral_digits_ex [of 10 n] by auto
  then obtain e where "c = digit_char e" "e < 10"
    using assms by (auto simp: digits_of_def list_all_iff)
  then show ?thesis using digit_char_not(5) [of e] by simp
qed

lemma length_numeral_digits: "n < 10 ^ d \<Longrightarrow> 0 < d \<Longrightarrow> length (numeral_digits 10 n) \<le> d"
proof (induction d arbitrary: n)
  case (Suc d)
  show ?case
  proof (cases "n < 10")
    case True
    then show ?thesis by (simp add: numeral_digits_rec(1))
  next
    case False
    then have "d \<noteq> 0" using Suc.prems by (intro notI) simp
    moreover have "n div 10 < 10 ^ d" using Suc.prems by (simp add: less_mult_imp_div_less)
    ultimately show ?thesis
      using Suc.IH [of "n div 10"] False by (simp add: numeral_digits_rec(2))
  qed
qed simp

lemma rstrip_refill:
  "rstrip_if (\<lambda>c. c = z) s @ replicate (length s - length (rstrip_if (\<lambda>c. c = z) s)) z = s"
proof -
  have "dropWhile (\<lambda>c. c = z) u = drop (length u - length (dropWhile (\<lambda>c. c = z) u)) u \<and>
      takeWhile (\<lambda>c. c = z) u = replicate (length u - length (dropWhile (\<lambda>c. c = z) u)) z" for u
    by (induction u) (auto simp: Suc_diff_le length_dropWhile_le)
  then have "rev s = replicate (length s - length (dropWhile (\<lambda>c. c = z) (rev s))) z @
      dropWhile (\<lambda>c. c = z) (rev s)"
    by (metis length_rev takeWhile_dropWhile_id)
  then have "rev (rev s) = rev (replicate (length s - length (dropWhile (\<lambda>c. c = z) (rev s))) z @
      dropWhile (\<lambda>c. c = z) (rev s))"
    by simp
  then show ?thesis by (simp add: rstrip_if_def)
qed

lemma digits_value_zeros: "digits_value (replicate k (CHR ''0'') @ s) = digits_value s"
proof -
  have "digit_val (CHR ''0'') = Some 0" by code_simp
  then have "foldl (\<lambda>acc d. acc * 10 + d) 0 (map (\<lambda>c. the (digit_val c)) (replicate k (CHR ''0''))) = (0::nat)"
    by (induction k) simp_all
  then show ?thesis by (simp add: digits_value_def numeral_of_def)
qed

text \<open>What follows the point, filled up, is the fraction.\<close>

lemma fraction_refill:
  assumes "n < 10 ^ d" "0 < d"
  defines "f \<equiv> rstrip_if (\<lambda>c. c = CHR ''0'') (rjust d (CHR ''0'') (numeral_digits 10 n))"
  shows "digits_value (f @ replicate (d - length f) (CHR ''0'')) = n"
proof -
  have "length (rjust d (CHR ''0'') (numeral_digits 10 n)) = d"
    using length_numeral_digits [OF assms(1,2)] by (simp add: rjust_def)
  then have "f @ replicate (d - length f) (CHR ''0'') = rjust d (CHR ''0'') (numeral_digits 10 n)"
    using rstrip_refill [of "CHR ''0''" "rjust d (CHR ''0'') (numeral_digits 10 n)"]
    by (simp add: f_def)
  then show ?thesis by (simp add: rjust_def digits_value_zeros numeral_digits_value)
qed

lemma format_nat:
  "format_token_amount (int a) d =
     (if a mod 10 ^ d = 0 then numeral_digits 10 (a div 10 ^ d)
      else numeral_digits 10 (a div 10 ^ d) @ ''.'' @
             rstrip_if (\<lambda>c. c = CHR ''0'') (rjust d (CHR ''0'') (numeral_digits 10 (a mod 10 ^ d))))"
proof -
  have "int a div 10 ^ d = int (a div 10 ^ d)" "int a mod 10 ^ d = int (a mod 10 ^ d)"
    by (simp_all add: zdiv_int zmod_int)
  then show ?thesis by (simp add: format_token_amount_def Let_def dec_def)
qed

lemma format_value: "amount_value d (format_token_amount (int a) d) = a"
proof (cases "a mod 10 ^ d = 0")
  case True
  have z: "digits_value (replicate d (CHR ''0'')) = 0"
    using digits_value_zeros [of d "[]"] by (simp add: digits_value_def numeral_of_def)
  have p: "takeWhile (\<lambda>c. c \<noteq> CHR ''.'') (numeral_digits 10 (a div 10 ^ d)) = numeral_digits 10 (a div 10 ^ d)"
    "dropWhile (\<lambda>c. c \<noteq> CHR ''.'') (numeral_digits 10 (a div 10 ^ d)) = []"
    using numeral_digits_no_point by auto
  show ?thesis
    using True z by (simp add: format_nat amount_value_def Let_def p numeral_digits_value)
      (metis div_mult_mod_eq add_0_right)
next
  case False
  let ?w = "numeral_digits 10 (a div 10 ^ d)"
  let ?f = "rstrip_if (\<lambda>c. c = CHR ''0'') (rjust d (CHR ''0'') (numeral_digits 10 (a mod 10 ^ d)))"
  have d: "0 < d" using False by (cases d) simp_all
  have p: "takeWhile (\<lambda>c. c \<noteq> CHR ''.'') (?w @ ''.'' @ ?f) = ?w"
    "dropWhile (\<lambda>c. c \<noteq> CHR ''.'') (?w @ ''.'' @ ?f) = ''.'' @ ?f"
    using numeral_digits_no_point by (simp_all add: takeWhile_append2 dropWhile_append2)
  have "digits_value (?f @ replicate (d - length ?f) (CHR ''0'')) = a mod 10 ^ d"
    by (rule fraction_refill) (simp_all add: d)
  then show ?thesis
    using False p div_mult_mod_eq [of a "10 ^ d"]
    by (simp add: format_nat amount_value_def Let_def numeral_digits_value)
qed

lemma mirrored: "r < s \<Longrightarrow> 2 * p + 2 * s - (p + r) = p + s + (s - r)" for p r s :: nat
  by arith

lemma below: "r < s \<Longrightarrow> (s \<le> r) = False" "r < s \<Longrightarrow> (s < r) = False" "r < s \<Longrightarrow> (s = r) = False"
  for r s :: nat
  by simp_all

lemma div_mod_parts:
  "k < s \<Longrightarrow> (p * s + k) div s = p" "k < s \<Longrightarrow> (p * s + k) mod s = k"
  "0 \<le> l \<Longrightarrow> l < t \<Longrightarrow> (q * t + l) div t = q" "0 \<le> l \<Longrightarrow> l < t \<Longrightarrow> (q * t + l) mod t = l"
  for k s p :: nat and l t q :: int
  by simp_all

text \<open>Negative amounts.\<close>

lemma format_negative:
  "format_token_amount (- int a) d =
     (if 10 ^ d dvd a then (if a = 0 then '''' else ''-'') @ format_token_amount (int a) d
      else ''-'' @ format_token_amount (int (2 * 10 ^ d * (a div 10 ^ d + 1) - a)) d)"
proof (cases "10 ^ d dvd a")
  case True
  then obtain q where q: "a = 10 ^ d * q" by blast
  have "- int a div 10 ^ d = - int q" "- int a mod 10 ^ d = 0" "int a div 10 ^ d = int q"
    "int a mod 10 ^ d = 0"
    by (simp_all add: q flip: mult_minus_right)
  then show ?thesis using q by (auto simp: format_token_amount_def Let_def dec_def)
next
  case False
  let ?s = "10 ^ d :: nat" and ?q = "a div 10 ^ d" and ?r = "a mod 10 ^ d"
  have r: "0 < ?r" "?r < ?s" using False by (simp_all add: dvd_eq_mod_eq_0)
  have a: "a = ?q * ?s + ?r" by (rule div_mult_mod_eq [symmetric])
  have m: "2 * ?s * (?q + 1) - a = (?q + 1) * ?s + (?s - ?r)"
  proof -
    have "2 * ?s * (?q + 1) = 2 * (?q * ?s) + 2 * ?s" by (simp add: algebra_simps)
    then have "2 * ?s * (?q + 1) - (?q * ?s + ?r) = ?q * ?s + ?s + (?s - ?r)"
      using mirrored [OF r(2), of "?q * ?s"] by (simp only:)
    moreover have "(?q + 1) * ?s = ?q * ?s + ?s" by (simp add: add_mult_distrib)
    ultimately show ?thesis by (simp only: a [symmetric])
  qed
  have dm: "(2 * ?s * (?q + 1) - a) div ?s = ?q + 1" "(2 * ?s * (?q + 1) - a) mod ?s = ?s - ?r"
    unfolding m using r by (intro div_mod_parts; simp)+
  have n: "- int a = (- int ?q - 1) * 10 ^ d + (10 ^ d - int ?r)"
  proof -
    have "int a = int ?q * 10 ^ d + int ?r"
      by (metis a of_nat_add of_nat_mult of_nat_numeral of_nat_power)
    moreover have "(- int ?q - 1) * 10 ^ d = - (int ?q * 10 ^ d) - 10 ^ d"
      by (simp add: left_diff_distrib)
    ultimately show ?thesis by linarith
  qed
  have ri: "0 < int ?r" "int ?r < 10 ^ d"
    using r by (metis of_nat_0_less_iff, metis of_nat_less_iff of_nat_numeral of_nat_power)
  have nd: "- int a div 10 ^ d = - int ?q - 1" "- int a mod 10 ^ d = 10 ^ d - int ?r"
    unfolding n using ri by (intro div_mod_parts; simp)+
  note nr = below [OF r(2)]
  have "nat (10 ^ d - int ?r) = ?s - ?r" by (simp add: nat_diff_distrib nat_power_eq)
  then show ?thesis
    using False r dm nd
    by (simp add: format_nat nr) (simp add: format_token_amount_def Let_def dec_def nat_add_distrib nr)
qed

text \<open>
  C39. An amount that is not negative is printed so that it can be read back exactly, whatever the
  number of decimals; so different amounts are printed differently.  A negative amount that is a
  whole number of tokens is printed with a minus sign in front; any other negative amount is
  printed wrong: as minus the amount mirrored at the next whole number of tokens, minus one and a
  half tokens as -2.5.
\<close>

theorem format_roundtrip:
  "amount_value d (format_token_amount (int a) d) = a \<and>
   format_token_amount (- int a) d =
     (if 10 ^ d dvd a then (if a = 0 then '''' else ''-'') @ format_token_amount (int a) d
      else ''-'' @ format_token_amount (int (2 * 10 ^ d * (a div 10 ^ d + 1) - a)) d)"
  by (intro conjI format_value format_negative)

end
