(* ===== verification/Script_World.thy ===== *)
theory Script_World
  imports Amounts World
begin

text \<open>
  What the scenario scripts talk to, as parameters of the model: commands, HTTP servers, files,
  and \<^verbatim>\<open>time.sleep\<close>.  As for the service, the outside world has a state of its own and nothing is
  assumed about it.  What a script prints is part of its state.
\<close>

section \<open>The parameters\<close>

text \<open>
  How a command ends: with code 0 and its standard output, not found, with another code and both
  outputs, or in any other exception.  How an HTTP request ends: with a JSON document, in an
  \<^verbatim>\<open>HTTPError\<close> with its text and its body, in a \<^verbatim>\<open>URLError\<close> with its text, or in any other
  exception (a bad URL, a body that is no JSON, a timeout).  A URL is a message: the text that
  Python renders of it.
\<close>

datatype process_end =
    Completed string
  | NotFound
  | Failed string string
  | ProcessRaises exc

datatype http_end =
    HttpReply json
  | HttpStatus string string
  | HttpUnreachable string
  | HttpRaises exc

record 'w host =
  run_process :: "json list \<Rightarrow> string \<Rightarrow> 'w \<Rightarrow> process_end \<times> 'w"
  http :: "string \<Rightarrow> message \<Rightarrow> json option \<Rightarrow> 'w \<Rightarrow> http_end \<times> 'w"
  file_exists :: "string \<Rightarrow> 'w \<Rightarrow> bool"
  file_json :: "string \<Rightarrow> 'w \<Rightarrow> json result"
  file_lines :: "string \<Rightarrow> 'w \<Rightarrow> string list result"
  pause :: "rat \<Rightarrow> 'w \<Rightarrow> 'w"
  builder_url :: string
  repo_root :: string

record 'w script_state = "'w world_state" +
  printed :: "message list"

type_synonym ('w, 'a) script = "('w script_state, 'a) py"

section \<open>Python on the script's state\<close>

definition py_print :: "message \<Rightarrow> ('w, unit) script" where
  "py_print m = pupdate (\<lambda>s. s\<lparr>printed := printed s @ [m]\<rparr>)"

text \<open>\<^verbatim>\<open>try: m except ScenarioError: handler\<close>\<close>

definition pcatch_scenario :: "('s, 'a) py \<Rightarrow> ('s, 'a) py \<Rightarrow> ('s, 'a) py" where
  "pcatch_scenario m handler s =
     (case m s of (Inl (ScenarioError _), t) \<Rightarrow> handler t | (r, t) \<Rightarrow> (r, t))"

definition pwhen :: "bool \<Rightarrow> ('s, unit) py \<Rightarrow> ('s, unit) py" where
  "pwhen b m = (if b then m else pret ())"

definition scenario_error :: "message \<Rightarrow> ('s, 'a) py" where
  "scenario_error m = praise (ScenarioError m)"

text \<open>\<^verbatim>\<open>str.join\<close> of the words of a command: TypeError when one of them is no string.\<close>

fun as_text :: "json \<Rightarrow> string result" where
  "as_text (JStr s) = Inr s"
| "as_text _ = Inl TypeError"

fun join_words :: "string list \<Rightarrow> string" where
  "join_words [] = ''''"
| "join_words [w] = w"
| "join_words (w # ws) = w @ '' '' @ join_words ws"

text \<open>\<^verbatim>\<open>v[0]\<close> and \<^verbatim>\<open>v[1]\<close> of a JSON value, and \<^verbatim>\<open>len(v)\<close>.\<close>

definition json_nth :: "json \<Rightarrow> nat \<Rightarrow> json result" where
  "json_nth v i = (case v of
       JList xs \<Rightarrow> if i < length xs then Inr (xs ! i) else Inl IndexError
     | JStr s \<Rightarrow> if i < length s then Inr (JStr [s ! i]) else Inl IndexError
     | JObj d \<Rightarrow> Inl (KeyError (dec (int i)))
     | _ \<Rightarrow> Inl TypeError)"

definition json_len :: "json \<Rightarrow> nat result" where
  "json_len v = (case v of
       JList xs \<Rightarrow> Inr (length xs) | JStr s \<Rightarrow> Inr (length s) | JObj d \<Rightarrow> Inr (length d)
     | _ \<Rightarrow> Inl TypeError)"

text \<open>\<^verbatim>\<open>int(v)\<close> and \<^verbatim>\<open>int(v, 16)\<close> of a JSON value.\<close>

definition json_int :: "json \<Rightarrow> int result" where
  "json_int v = (case v of
       JInt n \<Rightarrow> Inr n
     | JBool b \<Rightarrow> Inr (of_bool b)
     | JFloat q \<Rightarrow> Inr (if q < 0 then - \<lfloor>- q\<rfloor> else \<lfloor>q\<rfloor>)
     | JStr s \<Rightarrow> py_int 10 s
     | _ \<Rightarrow> Inl TypeError)"

definition json_int16 :: "json \<Rightarrow> int result" where
  "json_int16 v = (case v of JStr s \<Rightarrow> py_int 16 s | _ \<Rightarrow> Inl TypeError)"

lemma py_print_basic [simp]:
  "py_print m s = (Inr (), s\<lparr>printed := printed s @ [m]\<rparr>)"
  "pbind (py_print m) k s = k () (s\<lparr>printed := printed s @ [m]\<rparr>)"
  by (simp_all add: py_print_def pbind_def)

lemma pwhen_simps [simp]: "pwhen True m = m" "pwhen False m = pret ()"
  by (simp_all add: pwhen_def)

lemma scenario_error_Pair [simp]: "scenario_error m = Pair (Inl (ScenarioError m))"
  by (simp add: scenario_error_def)

text \<open>
  A script that goes through: from one state of the outside to another, with its value and
  whatever it prints.
\<close>

definition passes :: "('w, 'a) script \<Rightarrow> 'w \<Rightarrow> 'a \<Rightarrow> 'w \<Rightarrow> bool" where
  "passes m w v w' \<longleftrightarrow>
     (\<forall>p. \<exists>q. m \<lparr>world = w, printed = p\<rparr> = (Inr v, \<lparr>world = w', printed = q\<rparr>))"

lemma passesI:
  assumes "\<And>p. m \<lparr>world = w, printed = p\<rparr> = (Inr v, \<lparr>world = w', printed = f p\<rparr>)"
  shows "passes m w v w'"
  unfolding passes_def using assms by blast

lemma passes_bind:
  assumes "passes m w u w1" and "passes (k u) w1 v w2"
  shows "passes (pbind m k) w v w2"
  unfolding passes_def
proof
  fix p
  obtain q where m: "m \<lparr>world = w, printed = p\<rparr> = (Inr u, \<lparr>world = w1, printed = q\<rparr>)"
    using assms(1) by (auto simp: passes_def)
  obtain r where "k u \<lparr>world = w1, printed = q\<rparr> = (Inr v, \<lparr>world = w2, printed = r\<rparr>)"
    using assms(2) by (auto simp: passes_def)
  then show "\<exists>q. pbind m k \<lparr>world = w, printed = p\<rparr> = (Inr v, \<lparr>world = w2, printed = q\<rparr>)"
    using m by (auto simp: pbind_def)
qed

lemma passes_pret: "passes (pret v) w v w"
  by (rule passesI [where f = id]) simp

lemma passes_lift: "r = Inr v \<Longrightarrow> passes (plift r) w v w"
  by (rule passesI [where f = id]) simp

lemma passes_print: "passes (py_print m) w () w"
  by (rule passesI [where f = "\<lambda>p. p @ [m]"]) simp

lemma passes_result:
  assumes "passes m w v w'" and "world st = w"
  shows "fst (m st) = Inr v"
proof -
  have "st = \<lparr>world = w, printed = printed st\<rparr>" using assms(2) by simp
  then show ?thesis using assms(1) unfolding passes_def by (metis fst_conv)
qed

text \<open>The frame rule of the handler, for any relation that composes.\<close>

context step_order
begin

lemma keeps_catch [frame_intro]:
  assumes "keeps R m" and "keeps R handler"
  shows "keeps R (pcatch_scenario m handler)"
proof (rule keepsI)
  fix s
  obtain r t where m: "m s = (r, t)" by fastforce
  have st: "R s t" using assms(1) m by (rule keepsD)
  have "R t (snd (handler t))" using assms(2) by (rule keeps_snd)
  then have "R s (snd (handler t))" by (rule step_trans [OF st])
  then show "R s (snd (pcatch_scenario m handler s))"
    using m st by (simp add: pcatch_scenario_def split: sum.split exc.split)
qed

lemma keeps_update [frame_intro]:
  assumes "\<And>s. R s (g s)"
  shows "keeps R (pupdate g)"
  using assms by (intro keepsI) simp

end

section \<open>Comparing JSON values\<close>

text \<open>
  \<^verbatim>\<open>v == w\<close> on JSON values: numbers by value, lists element by element, dicts by their keys and
  values whatever the order.
\<close>

fun json_num :: "json \<Rightarrow> rat option" where
  "json_num (JInt n) = Some (of_int n)"
| "json_num (JBool b) = Some (of_bool b)"
| "json_num (JFloat q) = Some q"
| "json_num _ = None"

function (sequential) json_eq :: "json \<Rightarrow> json \<Rightarrow> bool" where
  "json_eq (JObj d) w =
     (case w of
        JObj e \<Rightarrow> length d = length e \<and>
          list_all (\<lambda>p. case map_of e (fst p) of None \<Rightarrow> False | Some u \<Rightarrow> json_eq (snd p) u) d
      | _ \<Rightarrow> False)"
| "json_eq (JList vs) w =
     (case w of JList ws \<Rightarrow> length vs = length ws \<and> list_all (\<lambda>p. json_eq (fst p) (snd p)) (zip vs ws)
      | _ \<Rightarrow> False)"
| "json_eq (JStr s) w = (w = JStr s)"
| "json_eq JNull w = (w = JNull)"
| "json_eq v w = (json_num w = json_num v)"
  by pat_completeness auto

lemma pair_size:
  assumes "(a, b) \<in> set d"
  shows "size b < Suc (size_list (size_prod (\<lambda>x. 0) size) d)"
proof -
  have "size_prod (\<lambda>x. 0) size (a, b) \<le> size_list (size_prod (\<lambda>x. 0) size) d"
    using assms by (rule size_list_estimation') simp
  then show ?thesis by simp
qed

lemma zip_size: "(a, b) \<in> set (zip vs ws) \<Longrightarrow> size a < Suc (size_list size vs)"
  by (rule le_imp_less_Suc, rule size_list_estimation', erule set_zip_leftD) simp

termination json_eq
  by (relation "measure (size \<circ> fst)") (auto simp: zip_size pair_size)

section \<open>Recording the requests and the commands\<close>

text \<open>What a script did to the outside: the requests it sent and the commands it ran.\<close>

datatype action =
    Request string message "json option"
  | Command "json list"

definition recorded :: "'w host \<Rightarrow> ('w \<times> action list) host" where
  "recorded h =
     \<lparr>run_process = (\<lambda>c d (w, tr). case run_process h c d w of (r, w') \<Rightarrow> (r, (w', tr @ [Command c]))),
      http = (\<lambda>m u b (w, tr). case http h m u b w of (r, w') \<Rightarrow> (r, (w', tr @ [Request m u b]))),
      file_exists = (\<lambda>p (w, tr). file_exists h p w),
      file_json = (\<lambda>p (w, tr). file_json h p w),
      file_lines = (\<lambda>p (w, tr). file_lines h p w),
      pause = (\<lambda>d (w, tr). (pause h d w, tr)),
      builder_url = builder_url h, repo_root = repo_root h\<rparr>"

lemma recorded_simps [simp]:
  "snd (snd (run_process (recorded h) c d w)) = snd w @ [Command c]"
  "snd (snd (http (recorded h) m u b w)) = snd w @ [Request m u b]"
  "snd (pause (recorded h) q w) = snd w"
  by (simp_all add: recorded_def split: prod.splits)

end
