(* ===== verification/Scenario_Support.thy ===== *)
theory Scenario_Support
  imports Script_World
begin

text \<open>
  The functions the scenarios share (\<^verbatim>\<open>scenarios/scenario_support.py\<close>): commands and requests,
  the deployment and its roles, tokens, pools, transaction payloads, and the client of the block
  builder.
\<close>

section \<open>Commands, requests and files\<close>

definition run :: "'w host \<Rightarrow> json list \<Rightarrow> string \<Rightarrow> ('w, string) script" where
  "run h command cwd =
     pbind (on_world (run_process h command cwd)) (\<lambda>ended.
     case ended of
       Completed out \<Rightarrow> pret out
     | NotFound \<Rightarrow>
         scenario_error [Txt ''required command not found: '', Val (hd command)]
     | Failed out err \<Rightarrow>
         (let message = (if py_strip err \<noteq> '''' then py_strip err else py_strip out) in
          pbind (plift (rmap as_text command)) (\<lambda>words.
          scenario_error [Txt ''command failed: '', Txt (join_words words),
                          Txt ([CHR 0x0A] @ message)]))
     | ProcessRaises e \<Rightarrow> praise e)"

definition rpc_request :: "string \<Rightarrow> json list \<Rightarrow> json" where
  "rpc_request method params =
     JObj [(''jsonrpc'', JStr ''2.0''), (''id'', JInt 1), (''method'', JStr method),
           (''params'', JList params)]"

definition rpc :: "'w host \<Rightarrow> json \<Rightarrow> string \<Rightarrow> json list \<Rightarrow> ('w, json) script" where
  "rpc h rpc_url method params =
     pbind (on_world (http h ''POST'' [Val rpc_url] (Some (rpc_request method params)))) (\<lambda>ended.
     case ended of
       HttpReply v \<Rightarrow>
         pbind (plift (json_contains v ''error'')) (\<lambda>failed.
         if failed
         then pbind (plift (json_item v ''error'')) (\<lambda>e.
              scenario_error [Txt ''RPC error from '', Txt method, Txt '': '', Val e])
         else plift (json_get v ''result''))
     | HttpStatus m _ \<Rightarrow> scenario_error [Txt ''RPC request failed: '', Txt m]
     | HttpUnreachable m \<Rightarrow> scenario_error [Txt ''RPC request failed: '', Txt m]
     | HttpRaises e \<Rightarrow> praise e)"

definition rpc_is_ready :: "'w host \<Rightarrow> json \<Rightarrow> ('w, bool) script" where
  "rpc_is_ready h rpc_url =
     pcatch_scenario (pbind (rpc h rpc_url ''eth_blockNumber'' []) (\<lambda>_. pret True)) (pret False)"

definition builder_request ::
  "'w host \<Rightarrow> string \<Rightarrow> message \<Rightarrow> json option \<Rightarrow> ('w, json) script" where
  "builder_request h method path body =
     pbind (on_world (http h method (Txt (builder_url h) # path) body)) (\<lambda>ended.
     case ended of
       HttpReply v \<Rightarrow> pret v
     | HttpStatus _ detail \<Rightarrow>
         scenario_error ([Txt ''builder '', Txt method, Txt '' ''] @ path @ [Txt '' failed: '', Txt detail])
     | HttpUnreachable m \<Rightarrow>
         scenario_error ([Txt ''builder '', Txt method, Txt '' ''] @ path @ [Txt '' failed: '', Txt m])
     | HttpRaises e \<Rightarrow> praise e)"

definition cast_int :: "'w host \<Rightarrow> json list \<Rightarrow> string \<Rightarrow> ('w, int) script" where
  "cast_int h command cwd =
     pbind (run h command cwd) (\<lambda>out.
     pbind (plift (first_word (py_strip out))) (\<lambda>value.
     plift (py_int 0 value)))"

definition read_json :: "'w host \<Rightarrow> string \<Rightarrow> ('w, json) script" where
  "read_json h path = (\<lambda>s. (file_json h path (world s), s))"

text \<open>The lines of an env file that assign, and the dict they make.\<close>

definition env_assignment :: "string \<Rightarrow> (string \<times> string) option" where
  "env_assignment raw_line =
     (let line = py_strip raw_line in
      if line = '''' \<or> hd line = CHR ''#'' \<or> CHR ''='' \<notin> set line then None
      else Some (takeWhile (\<lambda>c. c \<noteq> CHR ''='') line,
                 strip_if (\<lambda>c. c = CHR 0x22)
                   (py_strip (tl (dropWhile (\<lambda>c. c \<noteq> CHR ''='') line)))))"

fun env_values :: "string list \<Rightarrow> (string \<times> string) list \<Rightarrow> (string \<times> string) list" where
  "env_values [] acc = acc"
| "env_values (l # ls) acc =
     (case env_assignment l of
        None \<Rightarrow> env_values ls acc
      | Some (k, v) \<Rightarrow> env_values ls (AList.update k v acc))"

definition read_env_file :: "'w host \<Rightarrow> string \<Rightarrow> ('w, (string \<times> string) list) script" where
  "read_env_file h path =
     pbind (\<lambda>s. (file_lines h path (world s), s)) (\<lambda>raw_lines. pret (env_values raw_lines []))"

definition print_step :: "string \<Rightarrow> ('w, unit) script" where
  "print_step message = py_print [Txt ([CHR 0x0A] @ ''==> '' @ message)]"

section \<open>The deployment\<close>

definition SERVICE_DIR :: "'w host \<Rightarrow> string" where
  "SERVICE_DIR h = repo_root h @ ''/services/block-builder''"

definition BLOCKCHAIN_DIR :: "'w host \<Rightarrow> string" where
  "BLOCKCHAIN_DIR h = repo_root h @ ''/blockchain''"

definition DEPLOYMENT_FILE :: "'w host \<Rightarrow> string" where
  "DEPLOYMENT_FILE h = BLOCKCHAIN_DIR h @ ''/deployments/local.json''"

definition ENV_FILE :: "'w host \<Rightarrow> string" where
  "ENV_FILE h = BLOCKCHAIN_DIR h @ ''/config/local.anvil.env''"

definition deploy_local :: "'w host \<Rightarrow> ('w, json) script" where
  "deploy_local h =
     pbind (run h [JStr (BLOCKCHAIN_DIR h @ ''/bin/deploy-local.zsh'')] (repo_root h)) (\<lambda>_.
     pbind (read_json h (DEPLOYMENT_FILE h)) (\<lambda>deployment.
     pbind (py_print [Txt ''Using deployment: '', Txt (DEPLOYMENT_FILE h)]) (\<lambda>_.
     pret deployment)))"

definition ensure_deployment :: "'w host \<Rightarrow> ('w, json) script" where
  "ensure_deployment h =
     pbind (pread (\<lambda>s. file_exists h (DEPLOYMENT_FILE h) (world s))) (\<lambda>exists.
     if exists then
       pbind (read_json h (DEPLOYMENT_FILE h)) (\<lambda>deployment.
       pbind (plift (json_item deployment ''rpcUrl'')) (\<lambda>url.
       pbind (rpc_is_ready h url) (\<lambda>ready.
       if ready then
         pbind (py_print [Txt ''Using deployment: '', Txt (DEPLOYMENT_FILE h)]) (\<lambda>_. pret deployment)
       else
         pbind (py_print [Txt ''Saved deployment exists, but the local chain is not running.''])
           (\<lambda>_. deploy_local h))))
     else deploy_local h)"

definition is_str :: "json \<Rightarrow> bool" where
  "is_str v = (case v of JStr _ \<Rightarrow> True | _ \<Rightarrow> False)"

definition env_get :: "(string \<times> string) list \<Rightarrow> string \<Rightarrow> string" where
  "env_get e k = (case map_of e k of None \<Rightarrow> '''' | Some v \<Rightarrow> v)"

definition role_from_env :: "'w host \<Rightarrow> string \<Rightarrow> ('w, json) script" where
  "role_from_env h name =
     pbind (read_env_file h (ENV_FILE h)) (\<lambda>e.
     let prefix = py_upper name;
         address = env_get e (prefix @ ''_ADDRESS'');
         privateKey = env_get e (prefix @ ''_PRIVATE_KEY'') in
     if address \<noteq> '''' \<or> privateKey \<noteq> ''''
     then pret (JObj [(''address'', JStr address), (''privateKey'', JStr privateKey)])
     else scenario_error [Txt (''deployment role '' @ [CHR 0x27] @ name @ [CHR 0x27] @ '' not found'')])"

definition deployment_role :: "'w host \<Rightarrow> json \<Rightarrow> string \<Rightarrow> ('w, json) script" where
  "deployment_role h deployment name =
     pbind (plift (json_get deployment ''roles'')) (\<lambda>roles.
     case roles of
       JObj rs \<Rightarrow>
         (case dict_get rs name of
            JObj role \<Rightarrow> pret (JObj (filter (\<lambda>(k, v). is_str v) role))
          | _ \<Rightarrow> role_from_env h name)
     | _ \<Rightarrow> role_from_env h name)"

section \<open>The block builder\<close>

text \<open>The polling loop; the attempts left are its fuel.\<close>

fun wait_for_builder :: "'w host \<Rightarrow> nat \<Rightarrow> ('w, unit) script" where
  "wait_for_builder h 0 =
     scenario_error [Txt ''block builder did not become healthy at '', Txt (builder_url h),
                     Txt ''/health'']"
| "wait_for_builder h (Suc n) =
     pbind (pcatch_scenario
              (pbind (builder_request h ''GET'' [Txt ''/health''] None) (\<lambda>_. pret True))
              (pbind (pupdate (\<lambda>s. s\<lparr>world := pause h (2 / 10) (world s)\<rparr>)) (\<lambda>_. pret False)))
       (\<lambda>healthy. if healthy then pret () else wait_for_builder h n)"

definition health_attempts :: nat where "health_attempts = 30"

definition start_block_builder :: "'w host \<Rightarrow> ('w, unit) script" where
  "start_block_builder h =
     pbind (run h [JStr (SERVICE_DIR h @ ''/bin/start-local.zsh'')] (repo_root h)) (\<lambda>_.
     wait_for_builder h health_attempts)"

definition cleanup_block_builder :: "'w host \<Rightarrow> ('w, unit) script" where
  "cleanup_block_builder h =
     pbind (run h [JStr (SERVICE_DIR h @ ''/bin/cleanup-local.zsh'')] (repo_root h)) (\<lambda>_. pret ())"

definition restart_block_builder :: "'w host \<Rightarrow> ('w, unit) script" where
  "restart_block_builder h = pbind (cleanup_block_builder h) (\<lambda>_. start_block_builder h)"

definition chain_head_request :: "'w host \<Rightarrow> ('w, json) script" where
  "chain_head_request h = builder_request h ''GET'' [Txt ''/chain/head''] None"

definition submit_public_transaction :: "'w host \<Rightarrow> json \<Rightarrow> ('w, json) script" where
  "submit_public_transaction h tx_payload = builder_request h ''POST'' [Txt ''/public/tx''] (Some tx_payload)"

definition public_transaction :: "'w host \<Rightarrow> json \<Rightarrow> ('w, json) script" where
  "public_transaction h mempool_tx_id = builder_request h ''GET'' [Txt ''/public/tx/'', Val mempool_tx_id] None"

definition pending_public_transactions :: "'w host \<Rightarrow> ('w, json) script" where
  "pending_public_transactions h = builder_request h ''GET'' [Txt ''/public/pending''] None"

definition mine_bundle :: "'w host \<Rightarrow> json list \<Rightarrow> ('w, json) script" where
  "mine_bundle h transactions =
     builder_request h ''POST'' [Txt ''/private/bundle''] (Some (JObj [(''transactions'', JList transactions)]))"

definition simulate_bundle :: "'w host \<Rightarrow> json list \<Rightarrow> ('w, json) script" where
  "simulate_bundle h transactions =
     builder_request h ''POST'' [Txt ''/private/bundle/simulate'']
       (Some (JObj [(''transactions'', JList transactions)]))"

definition block_number :: "json \<Rightarrow> int result" where
  "block_number head =
     rbind (json_get head ''blockNumber'') (\<lambda>block_number_hex.
     case block_number_hex of
       JStr s \<Rightarrow> py_int 16 s
     | _ \<Rightarrow> Inl (ScenarioError [Txt ''chain head response does not contain blockNumber'']))"

definition chain_head_label :: "json \<Rightarrow> message result" where
  "chain_head_label head =
     rbind (json_get head ''blockHash'') (\<lambda>block_hash.
     let shown = (case block_hash of JStr s \<Rightarrow> s | _ \<Rightarrow> ''<missing>'') in
     rbind (block_number head) (\<lambda>n.
     Inr [Txt (dec n), Txt '' ('', Txt shown, Txt '')'']))"

section \<open>Calls of contracts\<close>

definition strs :: "string list \<Rightarrow> json list" where
  "strs = map JStr"

definition token_balance :: "'w host \<Rightarrow> json \<Rightarrow> json \<Rightarrow> json \<Rightarrow> ('w, int) script" where
  "token_balance h rpc_url token account =
     cast_int h (strs [''cast'', ''call''] @ [token, JStr ''balanceOf(address)(uint256)'', account,
                 JStr ''--rpc-url'', rpc_url]) (BLOCKCHAIN_DIR h)"

definition pool_reserves :: "'w host \<Rightarrow> json \<Rightarrow> json \<Rightarrow> ('w, int \<times> int) script" where
  "pool_reserves h rpc_url pool =
     pbind (cast_int h (strs [''cast'', ''call''] @ [pool, JStr ''reserveA()(uint256)'',
              JStr ''--rpc-url'', rpc_url]) (BLOCKCHAIN_DIR h)) (\<lambda>reserve_a.
     pbind (cast_int h (strs [''cast'', ''call''] @ [pool, JStr ''reserveB()(uint256)'',
              JStr ''--rpc-url'', rpc_url]) (BLOCKCHAIN_DIR h)) (\<lambda>reserve_b.
     pret (reserve_a, reserve_b)))"

definition account_nonce :: "'w host \<Rightarrow> json \<Rightarrow> json \<Rightarrow> ('w, int) script" where
  "account_nonce h rpc_url account =
     cast_int h (strs [''cast'', ''nonce''] @ [account, JStr ''--rpc-url'', rpc_url]) (BLOCKCHAIN_DIR h)"

definition contract_calldata :: "'w host \<Rightarrow> string \<Rightarrow> json list \<Rightarrow> ('w, string) script" where
  "contract_calldata h signature args =
     pbind (run h (strs [''cast'', ''calldata'', signature] @ args) (BLOCKCHAIN_DIR h)) (\<lambda>out.
     pret (py_strip out))"

definition quote_amount_out_a_for_b :: "'w host \<Rightarrow> json \<Rightarrow> json \<Rightarrow> int \<Rightarrow> ('w, int) script" where
  "quote_amount_out_a_for_b h rpc_url pool amount_in =
     cast_int h (strs [''cast'', ''call''] @ [pool, JStr ''getAmountOutAForB(uint256)(uint256)'',
       JStr (dec amount_in), JStr ''--rpc-url'', rpc_url]) (BLOCKCHAIN_DIR h)"

definition quote_amount_out_b_for_a :: "'w host \<Rightarrow> json \<Rightarrow> json \<Rightarrow> int \<Rightarrow> ('w, int) script" where
  "quote_amount_out_b_for_a h rpc_url pool amount_in =
     cast_int h (strs [''cast'', ''call''] @ [pool, JStr ''getAmountOutBForA(uint256)(uint256)'',
       JStr (dec amount_in), JStr ''--rpc-url'', rpc_url]) (BLOCKCHAIN_DIR h)"

definition send_contract_transaction ::
  "'w host \<Rightarrow> json \<Rightarrow> json \<Rightarrow> json \<Rightarrow> string \<Rightarrow> json list \<Rightarrow> ('w, unit) script" where
  "send_contract_transaction h rpc_url private_key contract signature args =
     pbind (run h (strs [''cast'', ''send''] @ [contract, JStr signature] @ args @
              [JStr ''--private-key'', private_key, JStr ''--rpc-url'', rpc_url]) (BLOCKCHAIN_DIR h))
       (\<lambda>_. pret ())"

section \<open>Tokens and pools\<close>

definition set_automine :: "'w host \<Rightarrow> json \<Rightarrow> bool \<Rightarrow> ('w, unit) script" where
  "set_automine h rpc_url b =
     pbind (rpc h rpc_url ''evm_setAutomine'' [JBool b]) (\<lambda>_. pret ())"

text \<open>
  \<^verbatim>\<open>if manage_automine: rpc(... [True])\<close>, then the body, then in its \<^verbatim>\<open>finally\<close> clause
  \<^verbatim>\<open>if manage_automine: rpc(... [False])\<close>.
\<close>

definition with_automine :: "'w host \<Rightarrow> json \<Rightarrow> bool \<Rightarrow> ('w, unit) script \<Rightarrow> ('w, unit) script" where
  "with_automine h rpc_url manage_automine m =
     pbind (pwhen manage_automine (set_automine h rpc_url True)) (\<lambda>_.
     pfinally m (pwhen manage_automine (set_automine h rpc_url False)))"

definition mint_token ::
  "'w host \<Rightarrow> json \<Rightarrow> json \<Rightarrow> json \<Rightarrow> json \<Rightarrow> int \<Rightarrow> bool \<Rightarrow> ('w, unit) script" where
  "mint_token h rpc_url minter_key token recipient amount manage_automine =
     with_automine h rpc_url manage_automine
       (send_contract_transaction h rpc_url minter_key token ''mint(address,uint256)''
          [recipient, JStr (dec amount)])"

definition mint_and_approve ::
  "'w host \<Rightarrow> json \<Rightarrow> json \<Rightarrow> json \<Rightarrow> json \<Rightarrow> json \<Rightarrow> json \<Rightarrow> int \<Rightarrow> bool \<Rightarrow> ('w, unit) script"
  where
  "mint_and_approve h rpc_url minter_key owner_key owner token spender amount manage_automine =
     with_automine h rpc_url manage_automine
       (pbind (send_contract_transaction h rpc_url minter_key token ''mint(address,uint256)''
                 [owner, JStr (dec amount)]) (\<lambda>_.
        send_contract_transaction h rpc_url owner_key token ''approve(address,uint256)''
          [spender, JStr (dec amount)]))"

definition add_pool_liquidity ::
  "'w host \<Rightarrow> json \<Rightarrow> json \<Rightarrow> json \<Rightarrow> json \<Rightarrow> json \<Rightarrow> json \<Rightarrow> int \<Rightarrow> bool \<Rightarrow> ('w, unit) script"
  where
  "add_pool_liquidity h rpc_url deployer_key deployer token_a token_b pool amount manage_automine =
     with_automine h rpc_url manage_automine
       (pbind (mint_and_approve h rpc_url deployer_key deployer_key deployer token_a pool amount False)
          (\<lambda>_.
        pbind (mint_and_approve h rpc_url deployer_key deployer_key deployer token_b pool amount False)
          (\<lambda>_.
        send_contract_transaction h rpc_url deployer_key pool ''seedLiquidity(uint256,uint256)''
          [JStr (dec amount), JStr (dec amount)])))"

definition ensure_pool_liquidity ::
  "'w host \<Rightarrow> json \<Rightarrow> json \<Rightarrow> json \<Rightarrow> json \<Rightarrow> json \<Rightarrow> json \<Rightarrow> int \<Rightarrow> ('w, unit) script" where
  "ensure_pool_liquidity h rpc_url deployer_key deployer token_a token_b pool amount =
     pbind (pool_reserves h rpc_url pool) (\<lambda>(reserve_a, reserve_b).
     if reserve_a > 0 \<and> reserve_b > 0
     then py_print [Txt ''Pool already seeded: reserveA='', Txt (dec reserve_a), Txt '', reserveB='',
                    Txt (dec reserve_b)]
     else
       pbind (print_step ''Seeding pool liquidity'') (\<lambda>_.
       add_pool_liquidity h rpc_url deployer_key deployer token_a token_b pool amount True))"

definition ensure_exact_pool_liquidity ::
  "'w host \<Rightarrow> json \<Rightarrow> json \<Rightarrow> json \<Rightarrow> json \<Rightarrow> json \<Rightarrow> json \<Rightarrow> int \<Rightarrow> string \<Rightarrow> ('w, int \<times> int) script"
  where
  "ensure_exact_pool_liquidity h rpc_url deployer_key deployer token_a token_b pool amount label =
     pbind (pool_reserves h rpc_url pool) (\<lambda>found.
     pbind (if found = (0, 0)
            then pbind (ensure_pool_liquidity h rpc_url deployer_key deployer token_a token_b pool amount)
                   (\<lambda>_. pool_reserves h rpc_url pool)
            else pret found) (\<lambda>reserves.
     if reserves \<noteq> (amount, amount)
     then scenario_error [Txt label, Txt '' reserves must be exactly '', Txt (dec amount), Txt ''/'',
            Txt (dec amount),
            Txt ''; clean and redeploy the local chain before rerunning this scenario'']
     else pret reserves))"

section \<open>Transaction payloads\<close>

definition public_transaction_payload ::
  "int \<Rightarrow> int \<Rightarrow> json \<Rightarrow> json \<Rightarrow> string \<Rightarrow> int \<Rightarrow> dict" where
  "public_transaction_payload chain_id nonce sender to calldata gas =
     [(''type'', JStr ''0x2''),
      (''chainId'', JStr (py_hex chain_id)),
      (''nonce'', JStr (py_hex nonce)),
      (''from'', sender),
      (''to'', to),
      (''value'', JStr ''0x0''),
      (''gas'', JStr (py_hex gas)),
      (''maxFeePerGas'', JStr (py_hex 2000000000)),
      (''maxPriorityFeePerGas'', JStr (py_hex 1)),
      (''input'', JStr calldata)]"

definition contract_transaction_payload ::
  "'w host \<Rightarrow> json \<Rightarrow> int \<Rightarrow> json \<Rightarrow> json \<Rightarrow> string \<Rightarrow> json list \<Rightarrow> int \<Rightarrow> ('w, dict) script" where
  "contract_transaction_payload h rpc_url chain_id sender to signature args gas =
     pbind (account_nonce h rpc_url sender) (\<lambda>nonce.
     pbind (contract_calldata h signature args) (\<lambda>calldata.
     pret (public_transaction_payload chain_id nonce sender to calldata gas)))"

definition token_transfer_payload ::
  "'w host \<Rightarrow> json \<Rightarrow> int \<Rightarrow> json \<Rightarrow> json \<Rightarrow> json \<Rightarrow> int \<Rightarrow> int \<Rightarrow> ('w, dict) script" where
  "token_transfer_payload h rpc_url chain_id sender token recipient amount gas =
     contract_transaction_payload h rpc_url chain_id sender token ''transfer(address,uint256)''
       [recipient, JStr (dec amount)] gas"

definition default_gas :: int where "default_gas = 300000"
definition transfer_gas :: int where "transfer_gas = 200000"

end
