(* ===== verification/Scenario_Transfers.thy ===== *)
theory Scenario_Transfers
  imports Scenario_Support
begin

text \<open>
  The scenarios of token transfers (\<^verbatim>\<open>scenarios/token-transfer/run.py\<close> and
  \<^verbatim>\<open>scenarios/bundle-simulation/run.py\<close>).  The checks at the end of a scenario, and the ones in
  its middle, are definitions of their own.
\<close>

section \<open>Shorthands\<close>

abbreviation item :: "json \<Rightarrow> string \<Rightarrow> ('s, json) py" where
  "item v k \<equiv> plift (json_item v k)"

text \<open>\<^verbatim>\<open>if b: raise ScenarioError(m)\<close>\<close>

definition fail_if :: "bool \<Rightarrow> message \<Rightarrow> ('s, unit) py" where
  "fail_if b m = (if b then scenario_error m else pret ())"

definition amount_text :: "int \<Rightarrow> frag" where
  "amount_text n = Txt (format_token_amount n DEFAULT_TOKEN_DECIMALS)"

section \<open>Token transfer\<close>

definition TRANSFER_AMOUNT :: int where "TRANSFER_AMOUNT = TOKEN_DECIMALS"
definition MINT_AMOUNT :: int where "MINT_AMOUNT = 100 * TRANSFER_AMOUNT"

definition token_transfer_checks :: "json \<Rightarrow> json \<Rightarrow> int \<Rightarrow> int \<Rightarrow> ('w, unit) script" where
  "token_transfer_checks bundle_result final_record recipient_before recipient_after =
     (let expected_recipient = recipient_before + TRANSFER_AMOUNT in
      pbind (item bundle_result ''status'') (\<lambda>bundle_status.
      pbind (fail_if (bundle_status \<noteq> JStr ''included'')
               [Txt ''expected included bundle, got '', Val bundle_status]) (\<lambda>_.
      pbind (item final_record ''status'') (\<lambda>record_status.
      pbind (fail_if (record_status \<noteq> JStr ''included'')
               [Txt ''expected included mempool record, got '', Val record_status]) (\<lambda>_.
      fail_if (recipient_after \<noteq> expected_recipient)
        [Txt ''expected recipient balance '', Txt (dec expected_recipient), Txt '', got '',
         Txt (dec recipient_after)])))))"

definition token_transfer_main :: "'w host \<Rightarrow> ('w, int) script" where
  "token_transfer_main h =
     pbind (print_step ''Preparing local chain'') (\<lambda>_.
     pbind (ensure_deployment h) (\<lambda>deployment.
     pbind (item deployment ''rpcUrl'') (\<lambda>rpc_url.
     pbind (plift (rbind (json_item deployment ''chainId'') json_int)) (\<lambda>chain_id.
     pbind (plift (rbind (json_item deployment ''contracts'') (\<lambda>c. json_item c ''tokenA''))) (\<lambda>token_a.
     pbind (deployment_role h deployment ''deployer'') (\<lambda>deployer_role.
     pbind (deployment_role h deployment ''victim'') (\<lambda>victim_role.
     pbind (item deployer_role ''address'') (\<lambda>deployer.
     pbind (item victim_role ''address'') (\<lambda>recipient.
     pbind (item deployer_role ''privateKey'') (\<lambda>deployer_key.
     pbind (py_print [Txt ''Deployer address: '', Val deployer]) (\<lambda>_.
     pbind (py_print [Txt ''Victim address:   '', Val recipient]) (\<lambda>_.
     pbind (print_step ''Preparing local block builder'') (\<lambda>_.
     pbind (start_block_builder h) (\<lambda>_.
     pbind (print_step ''Minting TokenA for the sender'') (\<lambda>_.
     pbind (mint_token h rpc_url deployer_key token_a deployer MINT_AMOUNT True) (\<lambda>_.
     pbind (token_balance h rpc_url token_a deployer) (\<lambda>sender_before.
     pbind (token_balance h rpc_url token_a recipient) (\<lambda>recipient_before.
     pbind (py_print [Txt ''Sender TokenA before:    '', amount_text sender_before]) (\<lambda>_.
     pbind (py_print [Txt ''Recipient TokenA before: '', amount_text recipient_before]) (\<lambda>_.
     pbind (print_step ''Submitting transfer to the public mempool'') (\<lambda>_.
     pbind (token_transfer_payload h rpc_url chain_id deployer token_a recipient TRANSFER_AMOUNT
              transfer_gas) (\<lambda>tx_payload.
     pbind (submit_public_transaction h (JObj tx_payload)) (\<lambda>mempool_record.
     pbind (item mempool_record ''mempoolTxId'') (\<lambda>mempool_tx_id.
     pbind (py_print [Txt ''Mempool transaction: '', Val mempool_tx_id]) (\<lambda>_.
     pbind (item mempool_record ''status'') (\<lambda>initial_status.
     pbind (py_print [Txt ''Initial status:      '', Val initial_status]) (\<lambda>_.
     pbind (pending_public_transactions h) (\<lambda>pending.
     pbind (plift (rbind (json_item pending ''transactions'') json_len)) (\<lambda>n.
     pbind (py_print [Txt ''Pending transactions: '', Txt (dec (int n))]) (\<lambda>_.
     pbind (print_step ''Mining the transfer through the private bundle endpoint'') (\<lambda>_.
     pbind (mine_bundle h [JObj [(''mempoolTxId'', mempool_tx_id)]]) (\<lambda>bundle_result.
     pbind (plift (rbind (json_item bundle_result ''transactions'') (\<lambda>ts. json_nth ts 0))) (\<lambda>tx_result.
     pbind (item bundle_result ''status'') (\<lambda>st.
     pbind (py_print [Txt ''Bundle status:       '', Val st]) (\<lambda>_.
     pbind (item tx_result ''chainTxHash'') (\<lambda>hsh.
     pbind (py_print [Txt ''Chain transaction:   '', Val hsh]) (\<lambda>_.
     pbind (plift (rbind (json_item tx_result ''blockNumber'') json_int16)) (\<lambda>bn.
     pbind (py_print [Txt ''Block number:        '', Txt (dec bn)]) (\<lambda>_.
     pbind (public_transaction h mempool_tx_id) (\<lambda>final_record.
     pbind (token_balance h rpc_url token_a deployer) (\<lambda>sender_after.
     pbind (token_balance h rpc_url token_a recipient) (\<lambda>recipient_after.
     pbind (print_step ''Checking final state'') (\<lambda>_.
     pbind (item final_record ''status'') (\<lambda>final_status.
     pbind (py_print [Txt ''Final mempool status: '', Val final_status]) (\<lambda>_.
     pbind (py_print [Txt ''Sender TokenA after:  '', amount_text sender_after]) (\<lambda>_.
     pbind (py_print [Txt ''Recipient after:      '', amount_text recipient_after]) (\<lambda>_.
     pbind (token_transfer_checks bundle_result final_record recipient_before recipient_after) (\<lambda>_.
     pbind (print_step ''Scenario complete'') (\<lambda>_.
     pbind (py_print [Txt ''Local chain and block builder are still running for inspection.'']) (\<lambda>_.
     pret 0))))))))))))))))))))))))))))))))))))))))))))))))))"

section \<open>Bundle simulation\<close>

definition SIM_MINT_AMOUNT :: int where "SIM_MINT_AMOUNT = 3 * TOKEN_DECIMALS"
definition REAL_TRANSFER_AMOUNT :: int where "REAL_TRANSFER_AMOUNT = 1 * TOKEN_DECIMALS"
definition SIMULATED_TRANSFER_AMOUNT :: int where "SIMULATED_TRANSFER_AMOUNT = 1 * TOKEN_DECIMALS"

definition real_bundle_checks :: "json \<Rightarrow> json \<Rightarrow> json \<Rightarrow> json \<Rightarrow> ('w, unit) script" where
  "real_bundle_checks real_result real_tx_result head_before_real head_after_real =
     pbind (item real_result ''status'') (\<lambda>st.
     pbind (fail_if (st \<noteq> JStr ''included'') [Txt ''expected included real bundle, got '', Val st]) (\<lambda>_.
     pbind (item real_tx_result ''status'') (\<lambda>tx_st.
     pbind (fail_if (tx_st \<noteq> JStr ''included'') [Txt ''expected included real tx, got '', Val tx_st]) (\<lambda>_.
     pbind (plift (block_number head_after_real)) (\<lambda>after.
     pbind (plift (block_number head_before_real)) (\<lambda>before.
     fail_if (after \<le> before) [Txt ''expected real bundle to advance the chain head'']))))))"

definition simulation_checks ::
  "json \<Rightarrow> json \<Rightarrow> json \<Rightarrow> json \<Rightarrow> int \<Rightarrow> int \<Rightarrow> int \<Rightarrow> int \<Rightarrow> ('w, unit) script" where
  "simulation_checks simulation_result simulation_tx_result head_before_sim head_after_sim
       deployer_before_sim deployer_after_sim victim_before_sim victim_after_sim =
     pbind (item simulation_result ''status'') (\<lambda>st.
     pbind (fail_if (st \<noteq> JStr ''included'') [Txt ''expected included simulation, got '', Val st]) (\<lambda>_.
     pbind (plift (json_get simulation_result ''simulated'')) (\<lambda>sim.
     pbind (fail_if (sim \<noteq> JBool True)
              [Txt ''expected simulation response to include simulated=true'']) (\<lambda>_.
     pbind (item simulation_tx_result ''status'') (\<lambda>tx_st.
     pbind (fail_if (tx_st \<noteq> JStr ''included'')
              [Txt ''expected included simulated tx, got '', Val tx_st]) (\<lambda>_.
     pbind (fail_if (\<not> json_eq head_after_sim head_before_sim)
              [Txt ''chain head changed after bundle simulation'']) (\<lambda>_.
     pbind (fail_if (deployer_after_sim \<noteq> deployer_before_sim)
              [Txt ''deployer TokenA balance changed after bundle simulation'']) (\<lambda>_.
     fail_if (victim_after_sim \<noteq> victim_before_sim)
       [Txt ''victim TokenA balance changed after bundle simulation'']))))))))"

definition bundle_simulation_main :: "'w host \<Rightarrow> ('w, int) script" where
  "bundle_simulation_main h =
     pbind (print_step ''Preparing local chain'') (\<lambda>_.
     pbind (ensure_deployment h) (\<lambda>deployment.
     pbind (item deployment ''rpcUrl'') (\<lambda>rpc_url.
     pbind (plift (rbind (json_item deployment ''chainId'') json_int)) (\<lambda>chain_id.
     pbind (plift (rbind (json_item deployment ''contracts'') (\<lambda>c. json_item c ''tokenA''))) (\<lambda>token_a.
     pbind (deployment_role h deployment ''deployer'') (\<lambda>deployer_role.
     pbind (deployment_role h deployment ''victim'') (\<lambda>victim_role.
     pbind (item deployer_role ''address'') (\<lambda>deployer.
     pbind (item victim_role ''address'') (\<lambda>victim.
     pbind (item deployer_role ''privateKey'') (\<lambda>deployer_key.
     pbind (py_print [Txt ''Deployer address: '', Val deployer]) (\<lambda>_.
     pbind (py_print [Txt ''Victim address:   '', Val victim]) (\<lambda>_.
     pbind (print_step ''Preparing local block builder'') (\<lambda>_.
     pbind (start_block_builder h) (\<lambda>_.
     pbind (print_step ''Minting TokenA for transfer checks'') (\<lambda>_.
     pbind (mint_token h rpc_url deployer_key token_a deployer SIM_MINT_AMOUNT True) (\<lambda>_.
     pbind (print_step ''Mining a real transfer bundle'') (\<lambda>_.
     pbind (chain_head_request h) (\<lambda>head_before_real.
     pbind (token_transfer_payload h rpc_url chain_id deployer token_a victim REAL_TRANSFER_AMOUNT
              transfer_gas) (\<lambda>real_payload.
     pbind (mine_bundle h [JObj real_payload]) (\<lambda>real_result.
     pbind (plift (rbind (json_item real_result ''transactions'') (\<lambda>ts. json_nth ts 0))) (\<lambda>real_tx_result.
     pbind (chain_head_request h) (\<lambda>head_after_real.
     pbind (plift (chain_head_label head_before_real)) (\<lambda>label.
     pbind (py_print (Txt ''Head before real tx: '' # label)) (\<lambda>_.
     pbind (plift (chain_head_label head_after_real)) (\<lambda>label.
     pbind (py_print (Txt ''Head after real tx:  '' # label)) (\<lambda>_.
     pbind (item real_result ''status'') (\<lambda>st.
     pbind (py_print [Txt ''Real bundle status:  '', Val st]) (\<lambda>_.
     pbind (item real_tx_result ''status'') (\<lambda>st.
     pbind (py_print [Txt ''Real tx status:      '', Val st]) (\<lambda>_.
     pbind (real_bundle_checks real_result real_tx_result head_before_real head_after_real) (\<lambda>_.
     pbind (print_step ''Simulating another transfer bundle'') (\<lambda>_.
     pbind (token_balance h rpc_url token_a deployer) (\<lambda>deployer_before_sim.
     pbind (token_balance h rpc_url token_a victim) (\<lambda>victim_before_sim.
     pbind (chain_head_request h) (\<lambda>head_before_sim.
     pbind (token_transfer_payload h rpc_url chain_id deployer token_a victim
              SIMULATED_TRANSFER_AMOUNT transfer_gas) (\<lambda>simulation_payload.
     pbind (simulate_bundle h [JObj simulation_payload]) (\<lambda>simulation_result.
     pbind (plift (rbind (json_item simulation_result ''transactions'') (\<lambda>ts. json_nth ts 0)))
       (\<lambda>simulation_tx_result.
     pbind (chain_head_request h) (\<lambda>head_after_sim.
     pbind (token_balance h rpc_url token_a deployer) (\<lambda>deployer_after_sim.
     pbind (token_balance h rpc_url token_a victim) (\<lambda>victim_after_sim.
     pbind (plift (chain_head_label head_before_sim)) (\<lambda>label.
     pbind (py_print (Txt ''Head before simulation: '' # label)) (\<lambda>_.
     pbind (plift (chain_head_label head_after_sim)) (\<lambda>label.
     pbind (py_print (Txt ''Head after simulation:  '' # label)) (\<lambda>_.
     pbind (item simulation_result ''status'') (\<lambda>st.
     pbind (py_print [Txt ''Simulation status:      '', Val st]) (\<lambda>_.
     pbind (item simulation_tx_result ''status'') (\<lambda>st.
     pbind (py_print [Txt ''Simulation tx status:   '', Val st]) (\<lambda>_.
     pbind (py_print [Txt ''Deployer TokenA before sim:    '', amount_text deployer_before_sim]) (\<lambda>_.
     pbind (py_print [Txt ''Deployer TokenA after sim:     '', amount_text deployer_after_sim]) (\<lambda>_.
     pbind (py_print [Txt ''Victim TokenA before sim:      '', amount_text victim_before_sim]) (\<lambda>_.
     pbind (py_print [Txt ''Victim TokenA after sim:       '', amount_text victim_after_sim]) (\<lambda>_.
     pbind (simulation_checks simulation_result simulation_tx_result head_before_sim head_after_sim
              deployer_before_sim deployer_after_sim victim_before_sim victim_after_sim) (\<lambda>_.
     pbind (print_step ''Scenario complete'') (\<lambda>_.
     pbind (py_print
       [Txt ''Bundle simulation returned receipts without changing block head or balances.'']) (\<lambda>_.
     pret 0))))))))))))))))))))))))))))))))))))))))))))))))))))))))"

end
