(* ===== verification/Scenario_Swaps.thy ===== *)
theory Scenario_Swaps
  imports Scenario_Transfers
begin

text \<open>
  The scenarios of a victim's swap (\<^verbatim>\<open>scenarios/victim-swap/run.py\<close>, which must be mined within
  its minimum output, and \<^verbatim>\<open>scenarios/victim-swap-revert/run.py\<close>, which asks for more than the
  quote and must revert).
\<close>

section \<open>The common part\<close>

definition SWAP_POOL_SEED_AMOUNT :: int where "SWAP_POOL_SEED_AMOUNT = 100000 * TOKEN_DECIMALS"
definition SWAP_AMOUNT_A :: int where "SWAP_AMOUNT_A = 100 * TOKEN_DECIMALS"

text \<open>
  What both scripts have between their start and their first print of the quote: the same code in
  both, up to the text of the prints.
\<close>

record swap_setup =
  sw_rpc_url :: json
  sw_chain_id :: int
  sw_token_a :: json
  sw_token_b :: json
  sw_pool :: json
  sw_victim :: json

definition swap_prepare :: "'w host \<Rightarrow> ('w, swap_setup) script" where
  "swap_prepare h =
     pbind (print_step ''Preparing local chain'') (\<lambda>_.
     pbind (ensure_deployment h) (\<lambda>deployment.
     pbind (item deployment ''rpcUrl'') (\<lambda>rpc_url.
     pbind (plift (rbind (json_item deployment ''chainId'') json_int)) (\<lambda>chain_id.
     pbind (item deployment ''contracts'') (\<lambda>contracts.
     pbind (item contracts ''tokenA'') (\<lambda>token_a.
     pbind (item contracts ''tokenB'') (\<lambda>token_b.
     pbind (item contracts ''pool1'') (\<lambda>pool.
     pbind (deployment_role h deployment ''deployer'') (\<lambda>deployer_role.
     pbind (deployment_role h deployment ''victim'') (\<lambda>victim_role.
     pbind (item deployer_role ''address'') (\<lambda>deployer.
     pbind (item victim_role ''address'') (\<lambda>victim.
     pbind (py_print [Txt ''Deployer address: '', Val deployer]) (\<lambda>_.
     pbind (py_print [Txt ''Victim address:   '', Val victim]) (\<lambda>_.
     pbind (py_print [Txt ''Pool address:     '', Val pool]) (\<lambda>_.
     pbind (print_step ''Preparing local block builder'') (\<lambda>_.
     pbind (start_block_builder h) (\<lambda>_.
     pbind (item deployer_role ''privateKey'') (\<lambda>deployer_key.
     pbind (ensure_pool_liquidity h rpc_url deployer_key deployer token_a token_b pool
              SWAP_POOL_SEED_AMOUNT) (\<lambda>_.
     pbind (print_step ''Preparing victim TokenA and approval'') (\<lambda>_.
     pbind (item deployer_role ''privateKey'') (\<lambda>minter_key.
     pbind (item victim_role ''privateKey'') (\<lambda>victim_key.
     pbind (mint_and_approve h rpc_url minter_key victim_key victim token_a pool SWAP_AMOUNT_A True) (\<lambda>_.
     pret \<lparr>sw_rpc_url = rpc_url, sw_chain_id = chain_id, sw_token_a = token_a, sw_token_b = token_b,
           sw_pool = pool, sw_victim = victim\<rparr>)))))))))))))))))))))))"

text \<open>The submission of the swap and the mining of its bundle, again the same in both scripts.\<close>

record swap_outcome =
  so_bundle :: json
  so_tx :: json
  so_record :: json
  so_a_before :: int
  so_a_after :: int
  so_b_before :: int
  so_b_after :: int

definition swap_execute :: "'w host \<Rightarrow> swap_setup \<Rightarrow> int \<Rightarrow> string \<Rightarrow> string \<Rightarrow> ('w, swap_outcome) script" where
  "swap_execute h sw min_out submitting mining =
     pbind (token_balance h (sw_rpc_url sw) (sw_token_a sw) (sw_victim sw)) (\<lambda>victim_a_before.
     pbind (token_balance h (sw_rpc_url sw) (sw_token_b sw) (sw_victim sw)) (\<lambda>victim_b_before.
     pbind (print_step submitting) (\<lambda>_.
     pbind (contract_transaction_payload h (sw_rpc_url sw) (sw_chain_id sw) (sw_victim sw) (sw_pool sw)
              ''swapExactAForB(uint256,uint256)'' [JStr (dec SWAP_AMOUNT_A), JStr (dec min_out)]
              default_gas) (\<lambda>payload.
     pbind (submit_public_transaction h (JObj payload)) (\<lambda>mempool_record.
     pbind (item mempool_record ''mempoolTxId'') (\<lambda>mempool_tx_id.
     pbind (py_print [Txt ''Mempool transaction: '', Val mempool_tx_id]) (\<lambda>_.
     pbind (print_step mining) (\<lambda>_.
     pbind (mine_bundle h [JObj [(''mempoolTxId'', mempool_tx_id)]]) (\<lambda>bundle_result.
     pbind (plift (rbind (json_item bundle_result ''transactions'') (\<lambda>ts. json_nth ts 0))) (\<lambda>tx_result.
     pbind (item bundle_result ''status'') (\<lambda>st.
     pbind (py_print [Txt ''Bundle status:     '', Val st]) (\<lambda>_.
     pbind (item tx_result ''status'') (\<lambda>st.
     pbind (py_print [Txt ''Swap tx status:    '', Val st]) (\<lambda>_.
     pbind (item tx_result ''chainTxHash'') (\<lambda>hsh.
     pbind (py_print [Txt ''Chain transaction: '', Val hsh]) (\<lambda>_.
     pbind (public_transaction h mempool_tx_id) (\<lambda>final_record.
     pbind (token_balance h (sw_rpc_url sw) (sw_token_a sw) (sw_victim sw)) (\<lambda>victim_a_after.
     pbind (token_balance h (sw_rpc_url sw) (sw_token_b sw) (sw_victim sw)) (\<lambda>victim_b_after.
     pret \<lparr>so_bundle = bundle_result, so_tx = tx_result, so_record = final_record,
           so_a_before = victim_a_before, so_a_after = victim_a_after,
           so_b_before = victim_b_before, so_b_after = victim_b_after\<rparr>)))))))))))))))))))"

section \<open>A swap that is mined\<close>

definition victim_swap_checks :: "swap_outcome \<Rightarrow> int \<Rightarrow> ('w, unit) script" where
  "victim_swap_checks o' min_amount_out =
     (let spent_a = so_a_before o' - so_a_after o';
          received_b = so_b_after o' - so_b_before o' in
      pbind (item (so_bundle o') ''status'') (\<lambda>st.
      pbind (fail_if (st \<noteq> JStr ''included'') [Txt ''expected included bundle, got '', Val st]) (\<lambda>_.
      pbind (item (so_tx o') ''status'') (\<lambda>st.
      pbind (fail_if (st \<noteq> JStr ''included'') [Txt ''expected included swap, got '', Val st]) (\<lambda>_.
      pbind (item (so_record o') ''status'') (\<lambda>st.
      pbind (fail_if (st \<noteq> JStr ''included'')
               [Txt ''expected included mempool record, got '', Val st]) (\<lambda>_.
      pbind (fail_if (spent_a \<noteq> SWAP_AMOUNT_A)
               [Txt ''expected victim to spend '', Txt (dec SWAP_AMOUNT_A), Txt '' TokenA, got '',
                Txt (dec spent_a)]) (\<lambda>_.
      fail_if (received_b < min_amount_out)
        [Txt ''expected at least '', Txt (dec min_amount_out), Txt '' TokenB, got '',
         Txt (dec received_b)]))))))))"

definition victim_swap_main :: "'w host \<Rightarrow> ('w, int) script" where
  "victim_swap_main h =
     pbind (swap_prepare h) (\<lambda>sw.
     pbind (quote_amount_out_a_for_b h (sw_rpc_url sw) (sw_pool sw) SWAP_AMOUNT_A) (\<lambda>quoted_amount_out.
     let min_amount_out = quoted_amount_out * 99 div 100 in
     pbind (py_print [Txt ''Quoted TokenB out:  '', amount_text quoted_amount_out]) (\<lambda>_.
     pbind (py_print [Txt ''Minimum TokenB out: '', amount_text min_amount_out]) (\<lambda>_.
     pbind (swap_execute h sw min_amount_out ''Submitting victim swap to the public mempool''
              ''Mining the victim swap through the private bundle endpoint'') (\<lambda>o'.
     pbind (print_step ''Checking victim balances'') (\<lambda>_.
     pbind (py_print [Txt ''Victim TokenA before: '', amount_text (so_a_before o')]) (\<lambda>_.
     pbind (py_print [Txt ''Victim TokenA after:  '', amount_text (so_a_after o')]) (\<lambda>_.
     pbind (py_print [Txt ''Victim TokenB before: '', amount_text (so_b_before o')]) (\<lambda>_.
     pbind (py_print [Txt ''Victim TokenB after:  '', amount_text (so_b_after o')]) (\<lambda>_.
     pbind (py_print [Txt ''Victim spent TokenA:  '', amount_text (so_a_before o' - so_a_after o')]) (\<lambda>_.
     pbind (py_print [Txt ''Victim got TokenB:    '', amount_text (so_b_after o' - so_b_before o')]) (\<lambda>_.
     pbind (victim_swap_checks o' min_amount_out) (\<lambda>_.
     pbind (print_step ''Scenario complete'') (\<lambda>_.
     pbind (py_print [Txt ''Victim swap was mined and satisfied the minimum output.'']) (\<lambda>_.
     pret 0)))))))))))))))"

section \<open>A swap that reverts\<close>

definition victim_swap_revert_checks :: "swap_outcome \<Rightarrow> ('w, unit) script" where
  "victim_swap_revert_checks o' =
     pbind (item (so_bundle o') ''status'') (\<lambda>st.
     pbind (fail_if (st \<noteq> JStr ''failed'') [Txt ''expected failed bundle, got '', Val st]) (\<lambda>_.
     pbind (item (so_tx o') ''status'') (\<lambda>st.
     pbind (fail_if (st \<noteq> JStr ''reverted'') [Txt ''expected reverted swap, got '', Val st]) (\<lambda>_.
     pbind (item (so_record o') ''status'') (\<lambda>st.
     pbind (fail_if (st \<noteq> JStr ''reverted'')
              [Txt ''expected reverted mempool record, got '', Val st]) (\<lambda>_.
     pbind (fail_if (so_a_after o' \<noteq> so_a_before o')
              [Txt ''victim TokenA balance changed after reverted swap'']) (\<lambda>_.
     fail_if (so_b_after o' \<noteq> so_b_before o')
       [Txt ''victim TokenB balance changed after reverted swap''])))))))"

definition victim_swap_revert_main :: "'w host \<Rightarrow> ('w, int) script" where
  "victim_swap_revert_main h =
     pbind (swap_prepare h) (\<lambda>sw.
     pbind (quote_amount_out_a_for_b h (sw_rpc_url sw) (sw_pool sw) SWAP_AMOUNT_A) (\<lambda>quoted_amount_out.
     let impossible_min_amount_out = quoted_amount_out + 1 in
     pbind (py_print [Txt ''Quoted TokenB out:      '', amount_text quoted_amount_out]) (\<lambda>_.
     pbind (py_print [Txt ''Impossible minimum out: '', amount_text impossible_min_amount_out]) (\<lambda>_.
     pbind (swap_execute h sw impossible_min_amount_out
              ''Submitting impossible victim swap to the public mempool''
              ''Mining the impossible swap through the private bundle endpoint'') (\<lambda>o'.
     pbind (print_step ''Checking reverted swap state'') (\<lambda>_.
     pbind (item (so_record o') ''status'') (\<lambda>st.
     pbind (py_print [Txt ''Final mempool status: '', Val st]) (\<lambda>_.
     pbind (py_print [Txt ''Victim TokenA before: '', amount_text (so_a_before o')]) (\<lambda>_.
     pbind (py_print [Txt ''Victim TokenA after:  '', amount_text (so_a_after o')]) (\<lambda>_.
     pbind (py_print [Txt ''Victim TokenB before: '', amount_text (so_b_before o')]) (\<lambda>_.
     pbind (py_print [Txt ''Victim TokenB after:  '', amount_text (so_b_after o')]) (\<lambda>_.
     pbind (victim_swap_revert_checks o') (\<lambda>_.
     pbind (print_step ''Scenario complete'') (\<lambda>_.
     pbind (py_print
       [Txt ''Impossible victim swap reverted and token balances stayed unchanged.'']) (\<lambda>_.
     pret 0)))))))))))))))"

end
