(* ===== verification/Scenario_Pools.thy ===== *)
theory Scenario_Pools
  imports Scenario_Transfers
begin

text \<open>
  The scenarios that seed the pools (\<^verbatim>\<open>scenarios/seed-pools/run.py\<close>) and that backrun a victim's
  swap (\<^verbatim>\<open>scenarios/backrun/run.py\<close>), with the route the backrun computes from the reserves.
\<close>

section \<open>Seeding the pools\<close>

definition POOL_TOKEN_AMOUNT :: int where "POOL_TOKEN_AMOUNT = 100000 * TOKEN_DECIMALS"

fun read_reserves :: "'w host \<Rightarrow> json \<Rightarrow> (string \<times> json) list \<Rightarrow> ('w, (string \<times> int \<times> int) list) script"
  where
  "read_reserves h rpc_url [] = pret []"
| "read_reserves h rpc_url ((label, pool) # pools) =
     pbind (pool_reserves h rpc_url pool) (\<lambda>reserves.
     pbind (read_reserves h rpc_url pools) (\<lambda>rest.
     pret ((label, reserves) # rest)))"

definition seed_pool ::
  "'w host \<Rightarrow> json \<Rightarrow> json \<Rightarrow> json \<Rightarrow> json \<Rightarrow> json \<Rightarrow> string \<times> json \<Rightarrow> ('w, unit) script" where
  "seed_pool h rpc_url deployer_key deployer token_a token_b p =
     (case p of (label, pool) \<Rightarrow>
        pbind (add_pool_liquidity h rpc_url deployer_key deployer token_a token_b pool
                 POOL_TOKEN_AMOUNT False) (\<lambda>_.
        py_print [Txt label, Txt '' seeded with '', amount_text POOL_TOKEN_AMOUNT,
                  Txt '' TokenA and TokenB'']))"

definition check_reserves ::
  "'w host \<Rightarrow> json \<Rightarrow> (string \<times> int \<times> int) list \<Rightarrow> string \<times> json \<Rightarrow> ('w, unit) script" where
  "check_reserves h rpc_url reserves_before p =
     (case p of (label, pool) \<Rightarrow>
        pbind (plift (case map_of reserves_before label of
                        None \<Rightarrow> Inl (KeyError label) | Some r \<Rightarrow> Inr r)) (\<lambda>(before_a, before_b).
        pbind (pool_reserves h rpc_url pool) (\<lambda>(after_a, after_b).
        let expected_a = before_a + POOL_TOKEN_AMOUNT;
            expected_b = before_b + POOL_TOKEN_AMOUNT in
        pbind (py_print [Txt label, Txt '' reserveA before: '', amount_text before_a]) (\<lambda>_.
        pbind (py_print [Txt label, Txt '' reserveB before: '', amount_text before_b]) (\<lambda>_.
        pbind (py_print [Txt label, Txt '' reserveA after:  '', amount_text after_a]) (\<lambda>_.
        pbind (py_print [Txt label, Txt '' reserveB after:  '', amount_text after_b]) (\<lambda>_.
        pbind (fail_if (after_a \<noteq> expected_a)
                 [Txt label, Txt '' reserveA expected '', Txt (dec expected_a), Txt '', got '',
                  Txt (dec after_a)]) (\<lambda>_.
        fail_if (after_b \<noteq> expected_b)
          [Txt label, Txt '' reserveB expected '', Txt (dec expected_b), Txt '', got '',
           Txt (dec after_b)]))))))))"

definition seed_pools_main :: "'w host \<Rightarrow> ('w, int) script" where
  "seed_pools_main h =
     pbind (print_step ''Preparing local chain'') (\<lambda>_.
     pbind (ensure_deployment h) (\<lambda>deployment.
     pbind (item deployment ''rpcUrl'') (\<lambda>rpc_url.
     pbind (item deployment ''contracts'') (\<lambda>contracts.
     pbind (item contracts ''tokenA'') (\<lambda>token_a.
     pbind (item contracts ''tokenB'') (\<lambda>token_b.
     pbind (item contracts ''pool1'') (\<lambda>pool1.
     pbind (item contracts ''pool2'') (\<lambda>pool2.
     pbind (deployment_role h deployment ''deployer'') (\<lambda>deployer_role.
     pbind (item deployer_role ''address'') (\<lambda>deployer.
     pbind (item deployer_role ''privateKey'') (\<lambda>deployer_key.
     pbind (py_print [Txt ''Deployer address: '', Val deployer]) (\<lambda>_.
     let pools = [(''Pool1'', pool1), (''Pool2'', pool2)] in
     pbind (read_reserves h rpc_url pools) (\<lambda>reserves_before.
     pbind (print_step ''Adding pool seed liquidity'') (\<lambda>_.
     pbind (with_automine h rpc_url True
              (pfor (seed_pool h rpc_url deployer_key deployer token_a token_b) pools)) (\<lambda>_.
     pbind (print_step ''Checking reserves'') (\<lambda>_.
     pbind (pfor (check_reserves h rpc_url reserves_before) pools) (\<lambda>_.
     pbind (print_step ''Scenario complete'') (\<lambda>_.
     pbind (py_print [Txt ''Both pools received 100,000 TokenA and 100,000 TokenB.'']) (\<lambda>_.
     pret 0)))))))))))))))))))"

section \<open>The backrun's route\<close>

definition POOL_SEED_AMOUNT :: int where "POOL_SEED_AMOUNT = 1000 * TOKEN_DECIMALS"
definition VICTIM_SWAP_AMOUNT_A :: int where "VICTIM_SWAP_AMOUNT_A = 100 * TOKEN_DECIMALS"
definition BACKRUN_AMOUNT_B :: int where "BACKRUN_AMOUNT_B = 42 * TOKEN_DECIMALS"
definition MIN_PROFIT_B :: int where "MIN_PROFIT_B = 4 * TOKEN_DECIMALS"
definition MIN_OUTPUT_BPS :: int where "MIN_OUTPUT_BPS = 9900"

record backrun_route =
  br_victim_out :: int
  br_victim_min :: int
  br_out_a :: int
  br_out_b :: int
  br_profit :: int
  br_min_a :: int
  br_min_b :: int

text \<open>From the reserves of the two pools: the victim's swap, then the backrun through both pools.\<close>

definition calculate_route :: "int \<times> int \<Rightarrow> int \<times> int \<Rightarrow> backrun_route result" where
  "calculate_route pool1_reserves_before pool2_reserves_before =
     rbind (sandbox_amount_out VICTIM_SWAP_AMOUNT_A (fst pool1_reserves_before)
              (snd pool1_reserves_before)) (\<lambda>victim_amount_out_b.
     let victim_min_amount_out_b = victim_amount_out_b * MIN_OUTPUT_BPS div 10000;
         pool1_after_victim = (fst pool1_reserves_before + VICTIM_SWAP_AMOUNT_A,
                               snd pool1_reserves_before - victim_amount_out_b) in
     rbind (sandbox_amount_out BACKRUN_AMOUNT_B (snd pool1_after_victim) (fst pool1_after_victim))
       (\<lambda>backrun_amount_out_a.
     rbind (sandbox_amount_out backrun_amount_out_a (fst pool2_reserves_before)
              (snd pool2_reserves_before)) (\<lambda>backrun_amount_out_b.
     let expected_profit_b = backrun_amount_out_b - BACKRUN_AMOUNT_B in
     if expected_profit_b < MIN_PROFIT_B
     then Inl (ScenarioError [Txt ''expected profit '', Txt (dec expected_profit_b),
                              Txt '' is below the scenario minimum '', Txt (dec MIN_PROFIT_B)])
     else Inr \<lparr>br_victim_out = victim_amount_out_b, br_victim_min = victim_min_amount_out_b,
               br_out_a = backrun_amount_out_a, br_out_b = backrun_amount_out_b,
               br_profit = expected_profit_b,
               br_min_a = backrun_amount_out_a * MIN_OUTPUT_BPS div 10000,
               br_min_b = backrun_amount_out_b * MIN_OUTPUT_BPS div 10000\<rparr>)))"

section \<open>The backrun\<close>

definition backrun_checks ::
  "json \<Rightarrow> json \<Rightarrow> json \<Rightarrow> json \<Rightarrow> int \<Rightarrow> int \<Rightarrow> int \<Rightarrow> int \<Rightarrow> int \<Rightarrow> ('w, unit) script" where
  "backrun_checks bundle_result victim_tx_result backrun_tx_result final_victim_record
       spent_a received_b victim_min_amount_out_b backrun_a_after realized_profit_b =
     pbind (item bundle_result ''status'') (\<lambda>st.
     pbind (fail_if (st \<noteq> JStr ''included'') [Txt ''expected included bundle, got '', Val st]) (\<lambda>_.
     pbind (item victim_tx_result ''status'') (\<lambda>st.
     pbind (fail_if (st \<noteq> JStr ''included'') [Txt ''expected included victim swap, got '', Val st]) (\<lambda>_.
     pbind (item backrun_tx_result ''status'') (\<lambda>st.
     pbind (fail_if (st \<noteq> JStr ''included'') [Txt ''expected included backrun tx, got '', Val st]) (\<lambda>_.
     pbind (item final_victim_record ''status'') (\<lambda>st.
     pbind (fail_if (st \<noteq> JStr ''included'')
              [Txt ''expected included victim mempool record, got '', Val st]) (\<lambda>_.
     pbind (fail_if (spent_a \<noteq> VICTIM_SWAP_AMOUNT_A)
              [Txt ''victim did not spend the expected TokenA amount'']) (\<lambda>_.
     pbind (fail_if (received_b < victim_min_amount_out_b)
              [Txt ''victim received less TokenB than requested'']) (\<lambda>_.
     pbind (fail_if (backrun_a_after \<noteq> 0)
              [Txt ''expected backrun contract TokenA balance to be zero, got '', Txt (dec backrun_a_after)])
       (\<lambda>_.
     fail_if (realized_profit_b < MIN_PROFIT_B)
       [Txt ''expected backrun profit at least '', Txt (dec MIN_PROFIT_B), Txt '', got '',
        Txt (dec realized_profit_b)])))))))))))"

definition route_prints :: "backrun_route \<Rightarrow> ('w, unit) script" where
  "route_prints r =
     pbind (py_print [Txt ''Victim expected TokenB out:      '', amount_text (br_victim_out r)]) (\<lambda>_.
     pbind (py_print [Txt ''Backrun TokenB input:            '', amount_text BACKRUN_AMOUNT_B]) (\<lambda>_.
     pbind (py_print [Txt ''Backrun expected TokenA out:     '', amount_text (br_out_a r)]) (\<lambda>_.
     pbind (py_print [Txt ''Backrun expected TokenB out:     '', amount_text (br_out_b r)]) (\<lambda>_.
     pbind (py_print [Txt ''Backrun expected TokenB profit:  '', amount_text (br_profit r)]) (\<lambda>_.
     py_print [Txt ''Backrun min TokenB profit:       '', amount_text MIN_PROFIT_B])))))"

definition missing_backrun :: exc where
  "missing_backrun =
     ScenarioError [Txt ''deployment does not contain SandboxBackrun; redeploy the blockchain module'']"

definition backrun_contract :: "json \<Rightarrow> json result" where
  "backrun_contract contracts =
     rbind (json_get contracts ''backrun'') (\<lambda>backrun.
     case backrun of
       JStr s \<Rightarrow> if s = '''' then Inl missing_backrun else Inr backrun
     | _ \<Rightarrow> Inl missing_backrun)"

text \<open>The deployment and the roles, up to the start of the builder.\<close>

record backrun_parties =
  bp_rpc_url :: json
  bp_chain_id :: int
  bp_token_a :: json
  bp_token_b :: json
  bp_pool1 :: json
  bp_pool2 :: json
  bp_backrun :: json
  bp_deployer_role :: json
  bp_victim_role :: json
  bp_deployer :: json
  bp_victim :: json
  bp_bot :: json

definition backrun_prepare :: "'w host \<Rightarrow> ('w, backrun_parties) script" where
  "backrun_prepare h =
     pbind (print_step ''Preparing local chain'') (\<lambda>_.
     pbind (ensure_deployment h) (\<lambda>deployment.
     pbind (item deployment ''rpcUrl'') (\<lambda>rpc_url.
     pbind (plift (rbind (json_item deployment ''chainId'') json_int)) (\<lambda>chain_id.
     pbind (item deployment ''contracts'') (\<lambda>contracts.
     pbind (item contracts ''tokenA'') (\<lambda>token_a.
     pbind (item contracts ''tokenB'') (\<lambda>token_b.
     pbind (item contracts ''pool1'') (\<lambda>pool1.
     pbind (item contracts ''pool2'') (\<lambda>pool2.
     pbind (plift (backrun_contract contracts)) (\<lambda>backrun.
     pbind (deployment_role h deployment ''deployer'') (\<lambda>deployer_role.
     pbind (deployment_role h deployment ''victim'') (\<lambda>victim_role.
     pbind (deployment_role h deployment ''bot'') (\<lambda>bot_role.
     pbind (item deployer_role ''address'') (\<lambda>deployer.
     pbind (item victim_role ''address'') (\<lambda>victim.
     pbind (item bot_role ''address'') (\<lambda>bot.
     pbind (py_print [Txt ''Deployer address: '', Val deployer]) (\<lambda>_.
     pbind (py_print [Txt ''Victim address:   '', Val victim]) (\<lambda>_.
     pbind (py_print [Txt ''Bot address:      '', Val bot]) (\<lambda>_.
     pbind (py_print [Txt ''Pool1 address:    '', Val pool1]) (\<lambda>_.
     pbind (py_print [Txt ''Pool2 address:    '', Val pool2]) (\<lambda>_.
     pbind (py_print [Txt ''Backrun address:  '', Val backrun]) (\<lambda>_.
     pbind (print_step ''Preparing local block builder'') (\<lambda>_.
     pbind (start_block_builder h) (\<lambda>_.
     pret \<lparr>bp_rpc_url = rpc_url, bp_chain_id = chain_id, bp_token_a = token_a, bp_token_b = token_b,
           bp_pool1 = pool1, bp_pool2 = pool2, bp_backrun = backrun,
           bp_deployer_role = deployer_role, bp_victim_role = victim_role, bp_deployer = deployer,
           bp_victim = victim, bp_bot = bot\<rparr>))))))))))))))))))))))))"

text \<open>
  The pools, the victim's tokens and the backrun's: the reserves of the two pools, the victim's
  balances and the backrun's balance before the swap.
\<close>

record backrun_before =
  bb_pool1 :: "int \<times> int"
  bb_pool2 :: "int \<times> int"
  bb_victim_a :: int
  bb_victim_b :: int
  bb_backrun_b :: int

definition backrun_fund :: "'w host \<Rightarrow> backrun_parties \<Rightarrow> ('w, backrun_before) script" where
  "backrun_fund h p =
     pbind (print_step ''Checking deterministic pool state'') (\<lambda>_.
     pbind (item (bp_deployer_role p) ''privateKey'') (\<lambda>deployer_key.
     pbind (ensure_exact_pool_liquidity h (bp_rpc_url p) deployer_key (bp_deployer p)
              (bp_token_a p) (bp_token_b p) (bp_pool1 p) POOL_SEED_AMOUNT ''Pool1'') (\<lambda>pool1_reserves_before.
     pbind (ensure_exact_pool_liquidity h (bp_rpc_url p) deployer_key (bp_deployer p)
              (bp_token_a p) (bp_token_b p) (bp_pool2 p) POOL_SEED_AMOUNT ''Pool2'') (\<lambda>pool2_reserves_before.
     pbind (token_balance h (bp_rpc_url p) (bp_token_a p) (bp_backrun p)) (\<lambda>backrun_a_before.
     pbind (token_balance h (bp_rpc_url p) (bp_token_b p) (bp_backrun p)) (\<lambda>backrun_b_before.
     pbind (fail_if (backrun_a_before \<noteq> 0 \<or> backrun_b_before \<noteq> 0)
              [Txt ''backrun contract already holds tokens; clean and redeploy the local chain before rerunning''])
       (\<lambda>_.
     pbind (print_step ''Preparing victim TokenA and backrun TokenB'') (\<lambda>_.
     pbind (item (bp_victim_role p) ''privateKey'') (\<lambda>victim_key.
     pbind (mint_and_approve h (bp_rpc_url p) deployer_key victim_key (bp_victim p)
              (bp_token_a p) (bp_pool1 p) VICTIM_SWAP_AMOUNT_A True) (\<lambda>_.
     pbind (mint_token h (bp_rpc_url p) deployer_key (bp_token_b p) (bp_backrun p) BACKRUN_AMOUNT_B
              True) (\<lambda>_.
     pbind (token_balance h (bp_rpc_url p) (bp_token_a p) (bp_victim p)) (\<lambda>victim_a_before.
     pbind (token_balance h (bp_rpc_url p) (bp_token_b p) (bp_victim p)) (\<lambda>victim_b_before.
     pbind (token_balance h (bp_rpc_url p) (bp_token_b p) (bp_backrun p)) (\<lambda>backrun_b_after_mint.
     pbind (fail_if (backrun_b_after_mint \<noteq> BACKRUN_AMOUNT_B)
              [Txt ''expected backrun contract to hold '', Txt (dec BACKRUN_AMOUNT_B), Txt '' TokenB, got '',
               Txt (dec backrun_b_after_mint)]) (\<lambda>_.
     pret \<lparr>bb_pool1 = pool1_reserves_before, bb_pool2 = pool2_reserves_before,
           bb_victim_a = victim_a_before, bb_victim_b = victim_b_before,
           bb_backrun_b = backrun_b_after_mint\<rparr>)))))))))))))))"

text \<open>The victim's submission and the bundle of it and the backrun.\<close>

record backrun_bundle =
  bu_id :: json
  bu_result :: json
  bu_victim_tx :: json
  bu_backrun_tx :: json

definition backrun_submit :: "'w host \<Rightarrow> backrun_parties \<Rightarrow> backrun_route \<Rightarrow> ('w, backrun_bundle) script"
  where
  "backrun_submit h p route =
     pbind (print_step ''Submitting victim swap to the public mempool'') (\<lambda>_.
     pbind (contract_transaction_payload h (bp_rpc_url p) (bp_chain_id p) (bp_victim p) (bp_pool1 p)
              ''swapExactAForB(uint256,uint256)''
              [JStr (dec VICTIM_SWAP_AMOUNT_A), JStr (dec (br_victim_min route))] default_gas) (\<lambda>victim_payload.
     pbind (submit_public_transaction h (JObj victim_payload)) (\<lambda>victim_record.
     pbind (item victim_record ''mempoolTxId'') (\<lambda>victim_mempool_tx_id.
     pbind (py_print [Txt ''Victim mempool transaction: '', Val victim_mempool_tx_id]) (\<lambda>_.
     pbind (print_step ''Submitting victim swap plus backrun bundle'') (\<lambda>_.
     pbind (contract_transaction_payload h (bp_rpc_url p) (bp_chain_id p) (bp_bot p) (bp_backrun p)
              ''executeBackrun(address,address,uint256,uint256,uint256,uint256)''
              [bp_pool1 p, bp_pool2 p, JStr (dec BACKRUN_AMOUNT_B), JStr (dec (br_min_a route)),
               JStr (dec (br_min_b route)), JStr (dec MIN_PROFIT_B)] 700000) (\<lambda>backrun_payload.
     pbind (mine_bundle h [JObj [(''mempoolTxId'', victim_mempool_tx_id)], JObj backrun_payload])
       (\<lambda>bundle_result.
     pbind (plift (rbind (json_item bundle_result ''transactions'') (\<lambda>ts. json_nth ts 0))) (\<lambda>victim_tx_result.
     pbind (plift (rbind (json_item bundle_result ''transactions'') (\<lambda>ts. json_nth ts 1))) (\<lambda>backrun_tx_result.
     pbind (item bundle_result ''status'') (\<lambda>st.
     pbind (py_print [Txt ''Bundle status:         '', Val st]) (\<lambda>_.
     pbind (item victim_tx_result ''status'') (\<lambda>st.
     pbind (py_print [Txt ''Victim tx status:      '', Val st]) (\<lambda>_.
     pbind (item backrun_tx_result ''status'') (\<lambda>st.
     pbind (py_print [Txt ''Backrun tx status:     '', Val st]) (\<lambda>_.
     pbind (item victim_tx_result ''chainTxHash'') (\<lambda>hsh.
     pbind (py_print [Txt ''Victim chain tx hash:  '', Val hsh]) (\<lambda>_.
     pbind (item backrun_tx_result ''chainTxHash'') (\<lambda>hsh.
     pbind (py_print [Txt ''Backrun chain tx hash: '', Val hsh]) (\<lambda>_.
     pret \<lparr>bu_id = victim_mempool_tx_id, bu_result = bundle_result, bu_victim_tx = victim_tx_result,
           bu_backrun_tx = backrun_tx_result\<rparr>))))))))))))))))))))"

definition backrun_main :: "'w host \<Rightarrow> ('w, int) script" where
  "backrun_main h =
     pbind (backrun_prepare h) (\<lambda>p.
     pbind (backrun_fund h p) (\<lambda>before.
     pbind (print_step ''Calculating victim and backrun route'') (\<lambda>_.
     pbind (plift (calculate_route (bb_pool1 before) (bb_pool2 before))) (\<lambda>route.
     pbind (route_prints route) (\<lambda>_.
     pbind (backrun_submit h p route) (\<lambda>u.
     pbind (public_transaction h (bu_id u)) (\<lambda>final_victim_record.
     pbind (token_balance h (bp_rpc_url p) (bp_token_a p) (bp_victim p)) (\<lambda>victim_a_after.
     pbind (token_balance h (bp_rpc_url p) (bp_token_b p) (bp_victim p)) (\<lambda>victim_b_after.
     pbind (token_balance h (bp_rpc_url p) (bp_token_a p) (bp_backrun p)) (\<lambda>backrun_a_after.
     pbind (token_balance h (bp_rpc_url p) (bp_token_b p) (bp_backrun p)) (\<lambda>backrun_b_after.
     let realized_profit_b = backrun_b_after - bb_backrun_b before in
     pbind (print_step ''Checking final balances'') (\<lambda>_.
     pbind (py_print [Txt ''Victim spent TokenA:             '', amount_text (bb_victim_a before - victim_a_after)]) (\<lambda>_.
     pbind (py_print [Txt ''Victim received TokenB:          '', amount_text (victim_b_after - bb_victim_b before)]) (\<lambda>_.
     pbind (py_print [Txt ''Backrun TokenA final balance:    '', amount_text backrun_a_after]) (\<lambda>_.
     pbind (py_print [Txt ''Backrun TokenB before backrun:   '', amount_text (bb_backrun_b before)]) (\<lambda>_.
     pbind (py_print [Txt ''Backrun TokenB after backrun:    '', amount_text backrun_b_after]) (\<lambda>_.
     pbind (py_print [Txt ''Backrun realized TokenB profit:  '', amount_text realized_profit_b]) (\<lambda>_.
     pbind (backrun_checks (bu_result u) (bu_victim_tx u) (bu_backrun_tx u) final_victim_record
              (bb_victim_a before - victim_a_after) (victim_b_after - bb_victim_b before) (br_victim_min route)
              backrun_a_after realized_profit_b) (\<lambda>_.
     pbind (print_step ''Scenario complete'') (\<lambda>_.
     pbind (py_print [Txt ''Victim swap and backrun bundle were mined with positive TokenB profit.'']) (\<lambda>_.
     pret 0)))))))))))))))))))))"

end
