(* ===== verification/Scenario_Mempool.thy ===== *)
theory Scenario_Mempool
  imports Scenario_Support
begin

text \<open>
  The scenario of the mempool's sequence numbers (\<^verbatim>\<open>scenarios/mempool-sequence/run.py\<close>): its
  checks of records and snapshots, and its main program.
\<close>

section \<open>Comparisons\<close>

text \<open>
  \<^verbatim>\<open>v == n\<close> for an int \<open>n\<close>: Python's numbers compare by value, booleans included.  \<open>sorted\<close> of a
  list of JSON values: numbers by value, strings by their characters; a list of other values, or
  of values of both kinds, with at least two elements raises TypeError.  (Lists of lists, which
  Python would compare element by element, are not told apart from the other values here.)
\<close>

definition json_eq_int :: "json \<Rightarrow> int \<Rightarrow> bool" where
  "json_eq_int v n \<longleftrightarrow> json_num v = Some (of_int n)"

fun str_key :: "json \<Rightarrow> nat list" where
  "str_key (JStr s) = map of_char s"
| "str_key _ = []"

fun lex_le :: "nat list \<Rightarrow> nat list \<Rightarrow> bool" where
  "lex_le [] ys = True"
| "lex_le (x # xs) [] = False"
| "lex_le (x # xs) (y # ys) = (x < y \<or> x = y \<and> lex_le xs ys)"

fun insert_by :: "('a \<Rightarrow> 'a \<Rightarrow> bool) \<Rightarrow> 'a \<Rightarrow> 'a list \<Rightarrow> 'a list" where
  "insert_by le x [] = [x]"
| "insert_by le x (y # ys) = (if le x y then x # y # ys else y # insert_by le x ys)"

definition py_sorted :: "json list \<Rightarrow> json list result" where
  "py_sorted vs =
     (if length vs \<le> 1 then Inr vs
      else if list_all (\<lambda>v. json_num v \<noteq> None) vs
      then Inr (foldr (insert_by (\<lambda>u v. the (json_num u) \<le> the (json_num v))) vs [])
      else if list_all is_str vs
      then Inr (foldr (insert_by (\<lambda>u v. lex_le (str_key u) (str_key v))) vs [])
      else Inl TypeError)"

section \<open>The scenario\<close>

definition ZERO_ADDRESS :: string where
  "ZERO_ADDRESS = ''0x0000000000000000000000000000000000000000''"

definition synthetic_transaction_payload :: dict where
  "synthetic_transaction_payload =
     [(''type'', JStr ''0x0''),
      (''chainId'', JStr ''0x0''),
      (''nonce'', JStr ''0x0''),
      (''from'', JStr ZERO_ADDRESS),
      (''to'', JStr ZERO_ADDRESS),
      (''value'', JStr ''0x0''),
      (''gas'', JStr ''0x0''),
      (''gasPrice'', JStr ''0x0''),
      (''input'', JStr ''0x'')]"

definition assert_record :: "json \<Rightarrow> int \<Rightarrow> unit result" where
  "assert_record rec expected_seq_num =
     rbind (json_get rec ''seqNum'') (\<lambda>seq_num.
     if \<not> json_eq_int seq_num expected_seq_num
     then Inl (ScenarioError [Txt ''expected record seqNum '', Txt (dec expected_seq_num),
                              Txt '', got '', Val seq_num])
     else
       rbind (json_get rec ''status'') (\<lambda>status.
       if status \<noteq> JStr ''pending''
       then Inl (ScenarioError [Txt ''expected pending record status, got '', Val status])
       else Inr ()))"

definition assert_snapshot :: "json \<Rightarrow> int \<Rightarrow> int list \<Rightarrow> unit result" where
  "assert_snapshot snapshot expected_snapshot_seq expected_seq_nums =
     rbind (json_get snapshot ''snapshotSeq'') (\<lambda>snapshot_seq.
     if \<not> json_eq_int snapshot_seq expected_snapshot_seq
     then Inl (ScenarioError [Txt ''expected snapshotSeq '', Txt (dec expected_snapshot_seq),
                              Txt '', got '', Val snapshot_seq])
     else
       rbind (json_get snapshot ''transactions'') (\<lambda>transactions.
       case transactions of
         JList ts \<Rightarrow>
           if length ts \<noteq> length expected_seq_nums
           then Inl (ScenarioError [Txt ''expected '', Txt (dec (int (length expected_seq_nums))),
                                    Txt '' pending records, got '', Txt (dec (int (length ts)))])
           else
             rbind (rmap (\<lambda>r. json_get r ''seqNum'') ts) (\<lambda>keys.
             rbind (py_sorted keys) (\<lambda>seq_nums.
             if \<not> list_all2 json_eq_int seq_nums expected_seq_nums
             then Inl (ScenarioError [Txt ''expected pending seq nums '',
                         Val (JList (map JInt expected_seq_nums)), Txt '', got '', Val (JList seq_nums)])
             else Inr ()))
       | _ \<Rightarrow> Inl (ScenarioError [Txt ''expected snapshot transactions to be a list''])))"

definition submit_and_check_synthetic_transaction :: "'w host \<Rightarrow> int \<Rightarrow> ('w, json \<times> json) script" where
  "submit_and_check_synthetic_transaction h expected_seq_num =
     pbind (submit_public_transaction h (JObj synthetic_transaction_payload)) (\<lambda>rec.
     pbind (plift (assert_record rec expected_seq_num)) (\<lambda>_.
     pbind (pending_public_transactions h) (\<lambda>snapshot.
     pbind (plift (assert_snapshot snapshot expected_seq_num [1..expected_seq_num])) (\<lambda>_.
     pret (rec, snapshot)))))"

definition put_record :: "string \<Rightarrow> json \<Rightarrow> ('w, unit) script" where
  "put_record label rec =
     pbind (plift (json_item rec ''mempoolTxId'')) (\<lambda>k.
     pbind (py_print [Txt label, Txt '' id:      '', Val k]) (\<lambda>_.
     pbind (plift (json_item rec ''seqNum'')) (\<lambda>n.
     pbind (py_print [Txt label, Txt '' seqNum:  '', Val n]) (\<lambda>_.
     pbind (plift (json_item rec ''status'')) (\<lambda>st.
     py_print [Txt label, Txt '' status:  '', Val st])))))"

definition put_snapshot :: "string \<Rightarrow> json \<Rightarrow> ('w, unit) script" where
  "put_snapshot label snapshot =
     pbind (plift (json_item snapshot ''snapshotSeq'')) (\<lambda>n.
     pbind (py_print [Txt label, Txt '' snapshotSeq: '', Val n]) (\<lambda>_.
     pbind (plift (rbind (json_item snapshot ''transactions'') json_len)) (\<lambda>k.
     py_print [Txt label, Txt '' tx count:    '', Txt (dec (int k))])))"

definition mempool_sequence_main :: "'w host \<Rightarrow> ('w, int) script" where
  "mempool_sequence_main h =
     pbind (print_step ''Restarting local block builder'') (\<lambda>_.
     pbind (restart_block_builder h) (\<lambda>_.
     pbind (print_step ''Checking empty public mempool snapshot'') (\<lambda>_.
     pbind (pending_public_transactions h) (\<lambda>initial_snapshot.
     pbind (plift (assert_snapshot initial_snapshot 0 [])) (\<lambda>_.
     pbind (put_snapshot ''Initial snapshot'' initial_snapshot) (\<lambda>_.
     pbind (print_step ''Submitting first public transaction'') (\<lambda>_.
     pbind (submit_and_check_synthetic_transaction h 1) (\<lambda>(first_record, first_snapshot).
     pbind (put_record ''First transaction'' first_record) (\<lambda>_.
     pbind (put_snapshot ''Snapshot after first tx'' first_snapshot) (\<lambda>_.
     pbind (print_step ''Submitting second public transaction'') (\<lambda>_.
     pbind (submit_and_check_synthetic_transaction h 2) (\<lambda>(second_record, second_snapshot).
     pbind (put_record ''Second transaction'' second_record) (\<lambda>_.
     pbind (put_snapshot ''Snapshot after second tx'' second_snapshot) (\<lambda>_.
     pbind (print_step ''Scenario complete'') (\<lambda>_.
     pbind (py_print [Txt ''Public mempool seqNum and snapshotSeq advance monotonically.'']) (\<lambda>_.
     pret 0))))))))))))))))"

text \<open>
  What a script's process ends with: the value of \<^verbatim>\<open>main\<close> as the exit code; 1 after a
  ScenarioError, with its text on the standard error output; and 1 after any other exception, with
  the interpreter's traceback instead.
\<close>

definition script_end :: "int result \<Rightarrow> int \<times> message option" where
  "script_end r =
     (case r of
        Inr n \<Rightarrow> (n, None)
      | Inl (ScenarioError m) \<Rightarrow> (1, Some (Txt ([CHR 0x0A] @ ''Scenario failed: '') # m))
      | Inl e \<Rightarrow> (1, None))"

end
