(* ===== verification/Scenario_Automine.thy ===== *)
theory Scenario_Automine
  imports Scenario_Swaps Scenario_Pools Scenario_Mempool
begin

text \<open>
  The scenarios turn the chain's automatic mining on while they prepare balances and pools, and
  must turn it off again, or the builder's bundles would no longer decide what is mined.  First
  the brackets, read off the record of requests and commands; then whole scenarios, about the
  chain's actual setting.
\<close>

section \<open>Brackets\<close>

definition automine_request :: "json \<Rightarrow> bool \<Rightarrow> action" where
  "automine_request rpc_url b =
     Request ''POST'' [Val rpc_url] (Some (rpc_request ''evm_setAutomine'' [JBool b]))"

definition is_command :: "action \<Rightarrow> bool" where
  "is_command a = (case a of Command _ \<Rightarrow> True | _ \<Rightarrow> False)"

text \<open>Between two states nothing but commands was run.\<close>

definition commands_only :: "('w \<times> action list) script_state \<Rightarrow> ('w \<times> action list) script_state \<Rightarrow> bool"
  where
  "commands_only s t \<longleftrightarrow> (\<exists>cs. trace t = trace s @ cs \<and> list_all is_command cs)"

interpretation commands_only: step_order commands_only
proof unfold_locales
  fix s t u :: "('w \<times> action list) script_state"
  show "commands_only s s" by (auto simp: commands_only_def)
  assume "commands_only s t" "commands_only t u"
  then obtain b c where "trace t = trace s @ b" "trace u = trace t @ c" "list_all is_command b"
    "list_all is_command c"
    by (auto simp: commands_only_def)
  then show "commands_only s u"
    unfolding commands_only_def by (intro exI [of _ "b @ c"]) simp
qed

lemma run_commands: "keeps commands_only (run (recorded h) c d)"
proof (rule keepsI)
  fix s :: "('a \<times> action list) script_state"
  have "trace (snd (run (recorded h) c d s)) = trace s @ [Command c]"
    by (simp add: run_def pbind_def trace_def Let_def scenario_error_def praise_def split: process_end.split sum.split)
  then show "commands_only s (snd (run (recorded h) c d s))"
    by (simp add: commands_only_def is_command_def)
qed

lemma send_commands [frame_intro]:
  "keeps commands_only (send_contract_transaction (recorded h) u k c sig args)"
  unfolding send_contract_transaction_def by (intro frame_intro run_commands)

lemma rpc_trace:
  "trace (snd (rpc (recorded h) u m p s)) = trace s @ [Request ''POST'' [Val u] (Some (rpc_request m p))]"
  by (simp add: rpc_def pbind_def trace_def scenario_error_def praise_def split: http_end.split sum.split)

lemma set_automine_trace:
  "trace (snd (set_automine (recorded h) u b s)) = trace s @ [automine_request u b]"
proof -
  obtain r t where g: "rpc (recorded h) u ''evm_setAutomine'' [JBool b] s = (r, t)" by fastforce
  then have "trace t = trace s @ [automine_request u b]"
    using rpc_trace [of h u "''evm_setAutomine''" "[JBool b]" s] by (simp add: automine_request_def)
  then show ?thesis using g by (cases r) (simp_all add: set_automine_def pbind_def)
qed

text \<open>A bracket around commands: on and at once an error, or on, the commands, off.\<close>

definition bracketed ::
  "json \<Rightarrow> ('w \<times> action list) script_state \<Rightarrow> 'a result \<times> ('w \<times> action list) script_state \<Rightarrow> bool" where
  "bracketed u s out \<longleftrightarrow>
     (isl (fst out) \<and> trace (snd out) = trace s @ [automine_request u True]) \<or>
     (\<exists>cs. list_all is_command cs \<and>
        trace (snd out) = trace s @ automine_request u True # cs @ [automine_request u False])"

lemma with_automine_bracket:
  assumes "keeps commands_only m"
  shows "bracketed u s (with_automine (recorded h) u True m s)"
proof -
  obtain r1 s1 where on: "set_automine (recorded h) u True s = (r1, s1)" by fastforce
  have t1: "trace s1 = trace s @ [automine_request u True]"
    using set_automine_trace [of h u True s] on by simp
  show ?thesis
  proof (cases r1)
    case (Inl e)
    then show ?thesis using on t1 by (simp add: with_automine_def pbind_def bracketed_def)
  next
    case (Inr x)
    obtain r2 s2 where body: "m s1 = (r2, s2)" by fastforce
    obtain r3 s3 where off: "set_automine (recorded h) u False s2 = (r3, s3)" by fastforce
    obtain cs where cs: "trace s2 = trace s1 @ cs" "list_all is_command cs"
      using keepsD [OF assms body] by (auto simp: commands_only_def)
    have t3: "trace s3 = trace s2 @ [automine_request u False]"
      using set_automine_trace [of h u False s2] off by simp
    have "snd (with_automine (recorded h) u True m s) = s3"
      using on Inr body off by (cases r3) (simp_all add: with_automine_def pbind_def pfinally_def)
    then show ?thesis
      using t1 cs t3 by (auto simp: bracketed_def)
  qed
qed

lemma with_automine_off [frame_intro]:
  assumes "keeps commands_only m"
  shows "keeps commands_only (with_automine h u False m)"
  unfolding with_automine_def by (simp del: pure_Pair) (intro frame_intro assms)

text \<open>
  Minting, minting with approval, and adding liquidity turn automatic mining on, run nothing
  but commands, and turn it off again, also when one of the commands fails; if the request that
  turns it on raises, nothing else is done.
\<close>

theorem automine_bracketed:
  "bracketed u s (mint_token (recorded h) u mk tok rcp n True s) \<and>
   bracketed u s (mint_and_approve (recorded h) u mk ok own tok sp n True s) \<and>
   bracketed u s (add_pool_liquidity (recorded h) u dk d ta tb pool n True s)"
  unfolding mint_token_def mint_and_approve_def add_pool_liquidity_def
  by (intro conjI with_automine_bracket frame_intro)

section \<open>Whole scenarios\<close>

text \<open>
  Whether the chain mines by itself is a parameter about the host's world.  What the scripts rely
  on: a request to set it that is answered without an error takes effect; no other request turns it
  on, nor does a command, with one exception: the deployment script turns it on for its transactions
  and off as its last request to the chain, so only when it has completed is the setting not on.
\<close>

definition deploy_command :: "'w host \<Rightarrow> json list" where
  "deploy_command h = [JStr (BLOCKCHAIN_DIR h @ ''/bin/deploy-local.zsh'')]"

definition is_completed :: "process_end \<Rightarrow> bool" where
  "is_completed e \<longleftrightarrow> (\<exists>out. e = Completed out)"

definition sets_automine :: "message \<Rightarrow> json option \<Rightarrow> bool" where
  "sets_automine url body \<longleftrightarrow>
     (case (url, body) of
        ([Val u], Some (JObj d)) \<Rightarrow> dict_get d ''method'' = JStr ''evm_setAutomine''
      | _ \<Rightarrow> False)"

definition keeps_setting :: "'w host \<Rightarrow> ('w \<Rightarrow> bool) \<Rightarrow> bool" where
  "keeps_setting h on \<longleftrightarrow>
     (\<forall>u b w d. fst (http h ''POST'' [Val u] (Some (rpc_request ''evm_setAutomine'' [JBool b])) w) = HttpReply (JObj d) \<longrightarrow>
        map_of d ''error'' = None \<longrightarrow>
        on (snd (http h ''POST'' [Val u] (Some (rpc_request ''evm_setAutomine'' [JBool b])) w)) = b) \<and>
     (\<forall>m url body w. \<not> sets_automine url body \<longrightarrow> on (snd (http h m url body w)) \<longrightarrow> on w) \<and>
     (\<forall>c d w. c \<noteq> deploy_command h \<or> is_completed (fst (run_process h c d w)) \<longrightarrow>
        on (snd (run_process h c d w)) \<longrightarrow> on w) \<and>
     (\<forall>d w. on (pause h d w) \<longrightarrow> on w)"

lemma keeps_settingD:
  assumes "keeps_setting h on"
  shows "fst (http h ''POST'' [Val u] (Some (rpc_request ''evm_setAutomine'' [JBool b])) w) = HttpReply (JObj d) \<Longrightarrow>
      map_of d ''error'' = None \<Longrightarrow>
      on (snd (http h ''POST'' [Val u] (Some (rpc_request ''evm_setAutomine'' [JBool b])) w)) = b"
    and "\<not> sets_automine url body \<Longrightarrow> on (snd (http h m url body w)) \<Longrightarrow> on w"
    and "c \<noteq> deploy_command h \<or> is_completed (fst (run_process h c d' w)) \<Longrightarrow> on (snd (run_process h c d' w)) \<Longrightarrow> on w"
    and "on (pause h q w) \<Longrightarrow> on w"
  using assms unfolding keeps_setting_def by blast+

lemma sets_automine_simps [simp]:
  "\<not> sets_automine (Txt x # p) body"
  "me \<noteq> ''evm_setAutomine'' \<Longrightarrow> \<not> sets_automine [Val u] (Some (rpc_request me ps))"
  by (simp_all add: sets_automine_def rpc_request_def split: option.split json.split)

text \<open>Programs that do not turn it on.\<close>

definition quiet :: "('w \<Rightarrow> bool) \<Rightarrow> 'w script_state \<Rightarrow> 'w script_state \<Rightarrow> bool" where
  "quiet on s t \<longleftrightarrow> (on (world t) \<longrightarrow> on (world s))"

interpretation quiet: step_order "quiet on" for on
  by unfold_locales (simp_all add: quiet_def)

text \<open>
  Where a script may break off with mining on: right after a request to set it that raised, or
  after the deployment script that failed, with the very exception of that step.
\<close>

definition broken_off :: "'w host \<Rightarrow> exc \<Rightarrow> 'w script_state \<Rightarrow> bool" where
  "broken_off h e t \<longleftrightarrow>
     (\<exists>u b s. set_automine h u b s = (Inl e, t)) \<or> (\<exists>s. run h (deploy_command h) (repo_root h) s = (Inl e, t))"

definition left_tidy :: "'w host \<Rightarrow> ('w \<Rightarrow> bool) \<Rightarrow> 'a result \<times> 'w script_state \<Rightarrow> bool" where
  "left_tidy h on out \<longleftrightarrow> \<not> on (world (snd out)) \<or> (\<exists>e. fst out = Inl e \<and> broken_off h e (snd out))"

text \<open>A program is tidy when, started with automatic mining off, it leaves it off or breaks off there.\<close>

definition tidy :: "'w host \<Rightarrow> ('w \<Rightarrow> bool) \<Rightarrow> ('w script_state, 'a) py \<Rightarrow> bool" where
  "tidy h on m \<longleftrightarrow> (\<forall>s. \<not> on (world s) \<longrightarrow> left_tidy h on (m s))"

named_theorems tidy_intro \<open>tidy programs\<close>

lemma tidyI: "keeps (quiet on) m \<Longrightarrow> tidy h on m"
  by (auto simp: tidy_def left_tidy_def keeps_def quiet_def)

lemma tidy_bind [tidy_intro]:
  assumes "tidy h on m" and "\<And>x. tidy h on (f x)"
  shows "tidy h on (pbind m f)"
  unfolding tidy_def
proof (intro allI impI)
  fix s :: "'a script_state"
  assume off: "\<not> on (world s)"
  obtain r t where m: "m s = (r, t)" by fastforce
  have first: "left_tidy h on (r, t)" using assms(1) off m by (auto simp: tidy_def dest!: spec [of _ s])
  show "left_tidy h on (pbind m f s)"
  proof (cases r)
    case (Inl e)
    then show ?thesis using first m by (simp add: left_tidy_def pbind_def)
  next
    case (Inr x)
    then have "\<not> on (world t)" using first by (simp add: left_tidy_def)
    then show ?thesis using assms(2) [of x] m Inr by (simp add: tidy_def pbind_def)
  qed
qed

lemma tidy_basic [tidy_intro]:
  "tidy h on (pret x)" "tidy h on (plift r)" "tidy h on (py_print m)" "tidy h on (print_step t)"
  "tidy h on (fail_if b msg)" "tidy h on (pread f)" "tidy h on (scenario_error msg)" "tidy h on (praise e)"
  by (simp_all add: tidy_def left_tidy_def print_step_def fail_if_def)

lemma tidy_for [tidy_intro]: "(\<And>x. tidy h on (f x)) \<Longrightarrow> tidy h on (pfor f xs)"
  by (induction xs) (simp_all add: tidy_bind tidy_basic del: pure_Pair)

lemma tidy_cases [tidy_intro]:
  "(\<And>a b. tidy h on (g a b)) \<Longrightarrow> tidy h on (case p of (a, b) \<Rightarrow> g a b)"
  "tidy h on m \<Longrightarrow> tidy h on m' \<Longrightarrow> tidy h on (if b then m else m')"
  by (simp_all add: case_prod_beta)

section \<open>The parts of the scenarios\<close>

lemma run_world: "world (snd (run h c d s)) = snd (run_process h c d (world s))"
  by (simp add: run_def pbind_def Let_def scenario_error_def praise_def split: process_end.split sum.split prod.split)

lemma run_completed: "run h c d s = (Inr out, t) \<Longrightarrow> is_completed (fst (run_process h c d (world s)))"
  by (auto simp: run_def pbind_def Let_def scenario_error_def praise_def is_completed_def
      split: process_end.splits sum.splits prod.splits)

lemma quiet_run [frame_intro]:
  assumes "keeps_setting h on" and "c \<noteq> deploy_command h"
  shows "keeps (quiet on) (run h c d)"
  by (rule keepsI) (use keeps_settingD(3) [OF assms(1)] assms(2) in \<open>auto simp: quiet_def run_world\<close>)

lemma rpc_world:
  "world (snd (rpc h u m p s)) = snd (http h ''POST'' [Val u] (Some (rpc_request m p)) (world s))"
  by (simp add: rpc_def pbind_def scenario_error_def praise_def split: http_end.split sum.split prod.split)

lemma quiet_rpc [frame_intro]:
  assumes "keeps_setting h on" and "m \<noteq> ''evm_setAutomine''"
  shows "keeps (quiet on) (rpc h u m p)"
  by (rule keepsI)
    (use keeps_settingD(2) [OF assms(1), of "[Val u]" "Some (rpc_request m p)"] assms(2) in \<open>auto simp: quiet_def rpc_world\<close>)

lemma quiet_builder [frame_intro]:
  assumes "keeps_setting h on"
  shows "keeps (quiet on) (builder_request h m p b)"
proof (rule keepsI)
  fix s :: "'a script_state"
  have "world (snd (builder_request h m p b s)) = snd (http h m (Txt (builder_url h) # p) b (world s))"
    by (simp add: builder_request_def pbind_def scenario_error_def praise_def split: http_end.split prod.split)
  then show "quiet on s (snd (builder_request h m p b s))"
    using keeps_settingD(2) [OF assms, of "Txt (builder_url h) # p"] by (auto simp: quiet_def)
qed

lemma quiet_pause [frame_intro]:
  "keeps_setting h on \<Longrightarrow> keeps (quiet on) (pupdate (\<lambda>s. s\<lparr>world := pause h d (world s)\<rparr>))"
  by (rule keepsI) (auto simp: quiet_def dest: keeps_settingD(4))

lemma quiet_updates [frame_intro]:
  "keeps (quiet on) (py_print m)" "keeps (quiet on) (\<lambda>s. (g s, s))" "keeps (quiet on) (scenario_error m)"
  by (auto intro!: keepsI simp: quiet_def scenario_error_def praise_def)

lemma quiet_wait [frame_intro]:
  assumes "keeps_setting h on"
  shows "keeps (quiet on) (wait_for_builder h n)"
proof (induction n)
  case 0
  then show ?case by (simp add: frame_intro)
next
  case (Suc n)
  then show ?case
    unfolding wait_for_builder.simps by (intro frame_intro assms) (auto simp: frame_intro)
qed

lemma other_commands [simp]:
  "c # d # cs \<noteq> deploy_command h"
  "[JStr (SERVICE_DIR h @ x)] \<noteq> deploy_command h"
  by (simp_all add: deploy_command_def SERVICE_DIR_def BLOCKCHAIN_DIR_def)

lemma quiet_support [frame_intro]:
  assumes "keeps_setting h on"
  shows "c \<noteq> deploy_command h \<Longrightarrow> keeps (quiet on) (cast_int h c d)"
    and "keeps (quiet on) (read_json h p)"
    and "keeps (quiet on) (read_env_file h p)"
    and "keeps (quiet on) (rpc_is_ready h u)"
    and "keeps (quiet on) (send_contract_transaction h u k c' sig args)"
  unfolding cast_int_def read_json_def read_env_file_def rpc_is_ready_def send_contract_transaction_def
  by (intro frame_intro assms; simp add: strs_def)+

lemma quiet_role [frame_intro]:
  assumes "keeps_setting h on"
  shows "keeps (quiet on) (role_from_env h name)"
  unfolding role_from_env_def Let_def by (auto intro!: frame_intro assms simp del: pure_Pair)

section \<open>Where the setting changes\<close>

lemma tidy_deploy:
  assumes "keeps_setting h on"
  shows "tidy h on (run h (deploy_command h) (repo_root h))"
  unfolding tidy_def
proof (intro allI impI)
  fix s :: "'a script_state"
  assume off: "\<not> on (world s)"
  obtain r t where run: "run h (deploy_command h) (repo_root h) s = (r, t)" by fastforce
  show "left_tidy h on (run h (deploy_command h) (repo_root h) s)"
  proof (cases r)
    case (Inl e)
    then show ?thesis using run by (auto simp: left_tidy_def broken_off_def)
  next
    case (Inr out)
    then show ?thesis
      using run off run_world [of h "deploy_command h" "repo_root h" s] run_completed [of h "deploy_command h" "repo_root h" s]
        keeps_settingD(3) [OF assms, of "deploy_command h" "repo_root h" "world s"]
      by (auto simp: left_tidy_def)
  qed
qed

lemma set_automine_sets:
  assumes "keeps_setting h on" and "set_automine h u b s = (Inr x, t)"
  shows "on (world t) = b"
proof -
  let ?c = "http h ''POST'' [Val u] (Some (rpc_request ''evm_setAutomine'' [JBool b])) (world s)"
  obtain v where rpc: "rpc h u ''evm_setAutomine'' [JBool b] s = (Inr v, t)"
    using assms(2) by (auto simp: set_automine_def pbind_def split: prod.splits sum.splits)
  have t: "world t = snd ?c" using rpc_world [of h u "''evm_setAutomine''" "[JBool b]" s] rpc by simp
  obtain d where "fst ?c = HttpReply (JObj d)" "map_of d ''error'' = None"
    using rpc
    by (auto simp: rpc_def pbind_def scenario_error_def praise_def json_get_def
        split: http_end.splits sum.splits prod.splits json.splits if_splits)
  then show ?thesis using keeps_settingD(1) [OF assms(1)] t by simp
qed

lemma tidy_with_automine:
  assumes "keeps_setting h on" and "keeps (quiet on) m"
  shows "tidy h on (with_automine h u True m)"
  unfolding tidy_def
proof (intro allI impI)
  fix s :: "'a script_state"
  assume off: "\<not> on (world s)"
  obtain r1 s1 where on: "set_automine h u True s = (r1, s1)" by fastforce
  show "left_tidy h on (with_automine h u True m s)"
  proof (cases r1)
    case (Inl e)
    then show ?thesis using on by (auto simp: with_automine_def pbind_def left_tidy_def broken_off_def)
  next
    case (Inr x)
    obtain r2 s2 where body: "m s1 = (r2, s2)" by fastforce
    obtain r3 s3 where f: "set_automine h u False s2 = (r3, s3)" by fastforce
    have run: "with_automine h u True m s = (case r3 of Inl e \<Rightarrow> (Inl e, s3) | Inr _ \<Rightarrow> (r2, s3))"
      using on Inr body f by (cases r3) (simp_all add: with_automine_def pbind_def pfinally_def)
    show ?thesis
    proof (cases r3)
      case (Inl e)
      then show ?thesis using run f by (auto simp: left_tidy_def broken_off_def)
    next
      case (Inr y)
      then have "\<not> on (world s3)" using set_automine_sets [OF assms(1), of u False s2] f by auto
      then show ?thesis using run Inr by (simp add: left_tidy_def)
    qed
  qed
qed

lemma quiet_with_automine [frame_intro]:
  assumes "keeps (quiet on) m"
  shows "keeps (quiet on) (with_automine h u False m)"
  unfolding with_automine_def by (simp del: pure_Pair) (intro frame_intro assms)

lemma tidy_requests [tidy_intro]:
  assumes "keeps_setting h on"
  shows "tidy h on (submit_public_transaction h p)" "tidy h on (public_transaction h k)"
    "tidy h on (pending_public_transactions h)" "tidy h on (mine_bundle h ts)"
    "tidy h on (simulate_bundle h ts)" "tidy h on (chain_head_request h)"
  unfolding submit_public_transaction_def public_transaction_def pending_public_transactions_def
    mine_bundle_def simulate_bundle_def chain_head_request_def
  by (rule tidyI, rule quiet_builder, rule assms)+

lemma tidy_preparation [tidy_intro]:
  assumes law: "keeps_setting h on"
  shows "tidy h on (ensure_deployment h)" "tidy h on (deployment_role h dep name)"
    "tidy h on (start_block_builder h)" "tidy h on (restart_block_builder h)"
proof -
  have deploy: "tidy h on (deploy_local h)"
    unfolding deploy_local_def deploy_command_def [symmetric]
    by (intro tidy_intro tidy_deploy law) (rule tidyI, rule frame_intro, rule law)
  have "tidy h on (read_json h p)" "tidy h on (rpc_is_ready h u)" for p u
    by (rule tidyI, rule frame_intro, rule law)+
  then show "tidy h on (ensure_deployment h)"
    unfolding ensure_deployment_def by (intro tidy_intro deploy)
  show "tidy h on (deployment_role h dep name)"
    unfolding deployment_role_def
    by (intro tidy_intro) (auto intro!: tidyI frame_intro law split: json.split simp del: pure_Pair)
  show start: "tidy h on (start_block_builder h)"
    unfolding start_block_builder_def by (intro tidyI frame_intro law) simp
  show "tidy h on (restart_block_builder h)"
    unfolding restart_block_builder_def cleanup_block_builder_def
    by (intro tidy_bind start tidy_basic) (rule tidyI, rule quiet_run, rule law, simp)
qed

lemma tidy_reads [tidy_intro]:
  assumes law: "keeps_setting h on"
  shows "tidy h on (token_balance h u tok a)" "tidy h on (pool_reserves h u p)"
    "tidy h on (quote_amount_out_a_for_b h u p n)"
    "tidy h on (contract_transaction_payload h u c snd' to sig args gas)"
    "tidy h on (token_transfer_payload h u c snd' tok rcp n gas)"
  unfolding token_balance_def pool_reserves_def quote_amount_out_a_for_b_def
    token_transfer_payload_def contract_transaction_payload_def account_nonce_def contract_calldata_def
  by (intro tidyI frame_intro law; simp add: strs_def)+

lemma quiet_preparations [frame_intro]:
  assumes law: "keeps_setting h on"
  shows "keeps (quiet on) (mint_and_approve h u mk ok own tok sp n False)"
    and "keeps (quiet on) (add_pool_liquidity h u dk d ta tb pool n False)"
  unfolding add_pool_liquidity_def mint_and_approve_def by (intro frame_intro law)+

lemma tidy_tokens [tidy_intro]:
  assumes law: "keeps_setting h on"
  shows "tidy h on (mint_token h u mk tok rcp n True)"
    "tidy h on (mint_and_approve h u mk ok own tok sp n True)"
    "tidy h on (add_pool_liquidity h u dk d ta tb pool n True)"
  unfolding mint_token_def mint_and_approve_def add_pool_liquidity_def
  by (intro tidy_with_automine frame_intro law)+

lemma tidy_pools [tidy_intro]:
  assumes law: "keeps_setting h on"
  shows "tidy h on (ensure_pool_liquidity h u dk d ta tb pool n)"
    "tidy h on (ensure_exact_pool_liquidity h u dk d ta tb pool n label)"
  unfolding ensure_exact_pool_liquidity_def ensure_pool_liquidity_def by (intro tidy_intro law)+

lemma tidy_read_reserves [tidy_intro]:
  assumes law: "keeps_setting h on"
  shows "tidy h on (read_reserves h u ps)"
proof (induction ps)
  case Nil
  show ?case by (simp add: tidy_basic del: pure_Pair)
next
  case (Cons p ps)
  then show ?case by (cases p) (auto intro!: tidy_intro law simp del: pure_Pair)
qed

lemma tidy_seed [tidy_intro]:
  assumes law: "keeps_setting h on"
  shows "tidy h on (with_automine h u True (pfor (seed_pool h u dk d ta tb) ps))"
proof (rule tidy_with_automine [OF law])
  have "keeps (quiet on) (seed_pool h u dk d ta tb p)" for p
    unfolding seed_pool_def by (cases p) (auto intro!: frame_intro law)
  then show "keeps (quiet on) (pfor (seed_pool h u dk d ta tb) ps)"
    by (intro frame_intro)
qed

lemma tidy_checks [tidy_intro]:
  "tidy h on (token_transfer_checks br fr b a)" "tidy h on (real_bundle_checks r1 r2 h1 h2)"
  "tidy h on (simulation_checks sr st h1 h2 d1 d2 v1 v2)"
  "tidy h on (victim_swap_checks o' n)" "tidy h on (victim_swap_revert_checks o')"
  "tidy h on (backrun_checks x1 x2 x3 x4 n1 n2 n3 n4 n5)" "tidy h on (route_prints route)"
  "tidy h on (put_record l r)" "tidy h on (put_snapshot l r)"
  unfolding token_transfer_checks_def real_bundle_checks_def simulation_checks_def
    victim_swap_checks_def victim_swap_revert_checks_def backrun_checks_def route_prints_def Let_def
    put_record_def put_snapshot_def
  by (intro tidy_intro)+

lemma tidy_check_reserves [tidy_intro]:
  assumes law: "keeps_setting h on"
  shows "tidy h on (check_reserves h u rs p)"
  unfolding check_reserves_def Let_def by (cases p) (simp only: prod.case, intro tidy_intro law)

lemma tidy_synthetic [tidy_intro]:
  assumes law: "keeps_setting h on"
  shows "tidy h on (submit_and_check_synthetic_transaction h n)"
  unfolding submit_and_check_synthetic_transaction_def Let_def by (intro tidy_intro law)

lemma tidy_swaps [tidy_intro]:
  assumes law: "keeps_setting h on"
  shows "tidy h on (swap_prepare h)" "tidy h on (swap_execute h sw n a b)"
  unfolding swap_prepare_def swap_execute_def by (intro tidy_intro law)+

lemma tidy_backrun [tidy_intro]:
  assumes law: "keeps_setting h on"
  shows "tidy h on (backrun_prepare h)" "tidy h on (backrun_fund h p)" "tidy h on (backrun_submit h p route)"
  unfolding backrun_prepare_def backrun_fund_def backrun_submit_def by (intro tidy_intro law)+

lemma tidy_mains:
  assumes law: "keeps_setting h on"
  shows "tidy h on (token_transfer_main h)" "tidy h on (bundle_simulation_main h)"
    "tidy h on (victim_swap_main h)" "tidy h on (victim_swap_revert_main h)"
    "tidy h on (seed_pools_main h)" "tidy h on (backrun_main h)" "tidy h on (mempool_sequence_main h)"
  unfolding token_transfer_main_def bundle_simulation_main_def victim_swap_main_def
    victim_swap_revert_main_def seed_pools_main_def backrun_main_def mempool_sequence_main_def Let_def
  by (intro tidy_intro law)+

text \<open>
  C35. Started with automatic mining off, each of the seven scenarios leaves it off, however it
  ends, with two exceptions: a request to set it raised, be it the one that turns it on or the one
  that turns it off, and the scenario has ended right after it with that exception; or the
  deployment script failed, and it has ended right after it with that failure.  The chain's setting
  is that of the node, not what was last asked for.
\<close>

theorem scenarios_leave_automine_off:
  assumes "keeps_setting h on" and "\<not> on (world s)"
  shows "left_tidy h on (token_transfer_main h s) \<and> left_tidy h on (bundle_simulation_main h s) \<and>
    left_tidy h on (victim_swap_main h s) \<and> left_tidy h on (victim_swap_revert_main h s) \<and>
    left_tidy h on (seed_pools_main h s) \<and> left_tidy h on (backrun_main h s) \<and> left_tidy h on (mempool_sequence_main h s)"
  using tidy_mains [OF assms(1)] assms(2) by (simp add: tidy_def)

end
