(* ===== verification/Scenario_Polling.thy ===== *)
theory Scenario_Polling
  imports Scenario_Automine
begin

text \<open>
  Waiting for the builder ends: how many requests the polling loop of
  \<^verbatim>\<open>scenarios/scenario_support.py\<close> sends, and how it can end.
\<close>

definition health_request :: "'w host \<Rightarrow> action" where
  "health_request h = Request ''GET'' [Txt (builder_url h), Txt ''/health''] None"

definition unhealthy :: "'w host \<Rightarrow> message" where
  "unhealthy h = [Txt ''block builder did not become healthy at '', Txt (builder_url h), Txt ''/health'']"

text \<open>One attempt: a single request, which ends in one of three ways.\<close>

lemma health_attempt:
  "\<exists>r t. builder_request (recorded h) ''GET'' [Txt ''/health''] None s = (r, t) \<and>
     trace t = trace s @ [health_request h]"
proof -
  obtain r t where g: "builder_request (recorded h) ''GET'' [Txt ''/health''] None s = (r, t)"
    by fastforce
  have "trace (snd (builder_request (recorded h) ''GET'' [Txt ''/health''] None s)) =
      trace s @ [health_request h]"
    by (simp add: builder_request_def pbind_def trace_def scenario_error_def praise_def
        health_request_def split: http_end.split) (simp add: recorded_def)
  then show ?thesis using g by simp
qed

lemma wait_step:
  assumes "builder_request (recorded h) ''GET'' [Txt ''/health''] None s = (r, t)"
  shows "wait_for_builder (recorded h) (Suc n) s =
    (case r of
       Inr v \<Rightarrow> (Inr (), t)
     | Inl e \<Rightarrow>
         (case e of
            ScenarioError m \<Rightarrow> wait_for_builder (recorded h) n
              (t\<lparr>world := pause (recorded h) (2 / 10) (world t)\<rparr>)
          | _ \<Rightarrow> (Inl e, t)))"
  using assms
  by (simp add: pbind_def pcatch_scenario_def split: sum.split exc.split)

text \<open>
  The reference: the health checks one after the other, each on the state the one before left after
  its pause.
\<close>

definition health_check :: "'w host \<Rightarrow> 'w script_state \<Rightarrow> json result \<times> 'w script_state" where
  "health_check h = builder_request h ''GET'' [Txt ''/health''] None"

definition paused_check :: "'w host \<Rightarrow> 'w script_state \<Rightarrow> 'w script_state" where
  "paused_check h s = (let t = snd (health_check h s) in t\<lparr>world := pause h (2 / 10) (world t)\<rparr>)"

definition check_no :: "'w host \<Rightarrow> 'w script_state \<Rightarrow> nat \<Rightarrow> json result \<times> 'w script_state" where
  "check_no h s k = health_check h ((paused_check h ^^ k) s)"

definition not_healthy :: "json result \<Rightarrow> bool" where
  "not_healthy r \<longleftrightarrow> (\<exists>m. r = Inl (ScenarioError m))"

lemma check_no_simps:
  "check_no h s 0 = health_check h s" "check_no h s (Suc k) = check_no h (paused_check h s) k"
  by (simp_all add: check_no_def funpow_swap1)

text \<open>
  C36. Waiting for the builder is decided by the answers to its health checks.  With at most so
  many attempts, 30 in the scripts, it sends health checks and nothing else, until the first one
  that does not fail in a ScenarioError.  If there is one, no check is sent after it: when it is
  answered the function returns at once, when it raised another exception that exception is
  raised.  If there is none, and only then, all attempts have been made and its own error is raised.
\<close>

theorem builder_polling_ends:
  "\<exists>k \<le> n. (\<forall>j < k. not_healthy (fst (check_no (recorded h) s j))) \<and>
    (if k = n
     then wait_for_builder (recorded h) n s = (Inl (ScenarioError (unhealthy h)), (paused_check (recorded h) ^^ n) s) \<and>
       trace (snd (wait_for_builder (recorded h) n s)) = trace s @ replicate n (health_request h)
     else \<not> not_healthy (fst (check_no (recorded h) s k)) \<and>
       wait_for_builder (recorded h) n s =
         (case check_no (recorded h) s k of (Inr v, t) \<Rightarrow> (Inr (), t) | (Inl e, t) \<Rightarrow> (Inl e, t)) \<and>
       trace (snd (wait_for_builder (recorded h) n s)) = trace s @ replicate (Suc k) (health_request h))"
proof (induction n arbitrary: s)
  case 0
  then show ?case by (simp add: unhealthy_def recorded_def)
next
  case (Suc n)
  obtain r t where g: "builder_request (recorded h) ''GET'' [Txt ''/health''] None s = (r, t)"
    and t: "trace t = trace s @ [health_request h]"
    using health_attempt [of h s] by blast
  have first: "check_no (recorded h) s 0 = (r, t)" using g by (simp add: check_no_simps health_check_def)
  show ?case
  proof (cases "not_healthy r")
    case True
    let ?t = "paused_check (recorded h) s"
    have run: "wait_for_builder (recorded h) (Suc n) s = wait_for_builder (recorded h) n ?t"
      using True wait_step [OF g] g by (auto simp: not_healthy_def paused_check_def health_check_def Let_def)
    have t': "trace ?t = trace s @ [health_request h]"
      using t g by (simp add: trace_def paused_check_def health_check_def Let_def)
    have pow: "(paused_check (recorded h) ^^ Suc n) s = (paused_check (recorded h) ^^ n) ?t" by (simp add: funpow_swap1)
    from Suc.IH [of ?t] obtain k where
      k: "k \<le> n" "\<forall>j < k. not_healthy (fst (check_no (recorded h) ?t j))" and
      ends: "if k = n
       then wait_for_builder (recorded h) n ?t = (Inl (ScenarioError (unhealthy h)), (paused_check (recorded h) ^^ n) ?t) \<and>
         trace (snd (wait_for_builder (recorded h) n ?t)) = trace ?t @ replicate n (health_request h)
       else \<not> not_healthy (fst (check_no (recorded h) ?t k)) \<and>
         wait_for_builder (recorded h) n ?t =
           (case check_no (recorded h) ?t k of (Inr v, t) \<Rightarrow> (Inr (), t) | (Inl e, t) \<Rightarrow> (Inl e, t)) \<and>
         trace (snd (wait_for_builder (recorded h) n ?t)) = trace ?t @ replicate (Suc k) (health_request h)"
      by blast
    have "\<forall>j < Suc k. not_healthy (fst (check_no (recorded h) s j))"
      using k(2) True first by (auto simp: less_Suc_eq_0_disj check_no_simps(2))
    then show ?thesis
      using k(1) ends unfolding run pow t' check_no_simps(2) [symmetric]
      by (intro exI [of _ "Suc k"]) (auto simp: check_no_simps(2) split: if_splits)
  next
    case False
    then have "wait_for_builder (recorded h) (Suc n) s = (case r of Inr _ \<Rightarrow> (Inr (), t) | Inl e \<Rightarrow> (Inl e, t))"
      using wait_step [OF g] by (auto simp: not_healthy_def split: sum.splits exc.splits)
    then show ?thesis
      using False first t by (intro exI [of _ 0]) (auto split: sum.splits)
  qed
qed

end
