(* ===== verification/Scenario_Outcomes.thy ===== *)
theory Scenario_Outcomes
  imports Scenario_Swaps Scenario_Pools Transactions
begin

text \<open>
  What the shared functions give the scenarios, and what a scenario that ends with 0 has checked.
\<close>

section \<open>Payloads and the builder\<close>

text \<open>
  The block builder parses the payloads the scenarios build: with a sender and call data that
  are not empty it reads the sender, the target, the call data and the fixed fees, and the nonce,
  the gas and the chain id as hexadecimal numerals that mean the numbers they were built from.
\<close>

theorem payload_accepted:
  assumes "sender \<noteq> ''''" and "calldata \<noteq> ''''"
  shows "\<exists>t. Transaction_fromJson (public_transaction_payload chain_id nonce (JStr sender) (JStr to) calldata gas)
        = Inr t \<and>
      tx_fromAddress t = sender \<and> tx_toAddress t = Some to \<and> tx_input t = calldata \<and>
      py_int 16 (tx_nonce t) = Inr nonce \<and> py_int 16 (tx_gas t) = Inr gas \<and>
      map_option (py_int 16) (tx_chainId t) = Some (Inr chain_id) \<and>
      map_option (py_int 16) (tx_maxFeePerGas t) = Some (Inr 2000000000) \<and>
      map_option (py_int 16) (tx_maxPriorityFeePerGas t) = Some (Inr 1) \<and>
      tx_value t = ''0x0'' \<and> tx_gasPrice t = None"
proof -
  have "py_hex n \<noteq> ''''" for n by (simp add: py_hex_def)
  then show ?thesis
    using assms
    by (simp add: Transaction_fromJson_def public_transaction_payload_def optional_str_def
        required_str_def str_or_def int_of_hex)
qed

section \<open>Roles\<close>

text \<open>A role is an object whose values are all strings.\<close>

definition is_role :: "json \<Rightarrow> bool" where
  "is_role v = (case v of JObj d \<Rightarrow> list_all (\<lambda>p. is_str (snd p)) d | _ \<Rightarrow> False)"

lemma role_from_env_typed:
  "case fst (role_from_env h name s) of Inr v \<Rightarrow> is_role v | Inl _ \<Rightarrow> True"
  by (auto simp: role_from_env_def pbind_def Let_def is_role_def is_str_def
      split: prod.splits sum.splits)

text \<open>
  C38. Whatever the deployment file holds, a role that is found is an object whose values are all
  strings, so an address and a key read from it can be put on a command line: entries of other
  types are dropped, and a role that is no object is looked up in the env file.
\<close>

theorem deployment_role_typed:
  "case fst (deployment_role h deployment name s) of Inr v \<Rightarrow> is_role v | Inl _ \<Rightarrow> True"
proof (cases "json_get deployment ''roles''")
  case (Inl e)
  then show ?thesis by (simp add: deployment_role_def)
next
  case (Inr roles)
  have "list_all (\<lambda>p. is_str (snd p)) (filter (\<lambda>(k, v). is_str v) d)" for d :: dict
    by (auto simp: list_all_iff)
  then show ?thesis
    using Inr role_from_env_typed [of h name s]
    by (auto simp: deployment_role_def is_role_def split: json.split)
qed

section \<open>The env file\<close>

text \<open>
  The legacy env file is read as the list of its assignments, later ones overriding earlier
  ones: comments, blank lines and lines without an equals sign contribute nothing, and a key has
  the value of the last line that assigns it.
\<close>

theorem env_file_last_assignment:
  "map_of (env_values ls []) k = map_of (rev (List.map_filter env_assignment ls)) k"
proof -
  have "map_of (env_values ls acc) = map_of acc ++ map_of (rev (List.map_filter env_assignment ls))"
    for acc
  proof (induction ls arbitrary: acc)
    case Nil
    then show ?case by (simp add: map_filter_simps)
  next
    case (Cons l ls)
    then show ?case
      by (cases "env_assignment l")
         (auto simp: map_filter_simps update_conv' map_add_def fun_eq_iff split: option.splits)
  qed
  then show ?thesis by simp
qed

section \<open>Pools\<close>

text \<open>
  A pool that already holds something is never touched: the scenario goes on with exactly the
  expected reserves, or fails, right after reading them.  An empty one is seeded, and then again
  only the exact reserves are accepted.
\<close>

theorem exact_pool_liquidity:
  assumes "pool_reserves h u pool s = (Inr r, s1)"
  shows "(r \<noteq> (0, 0) \<longrightarrow>
      snd (ensure_exact_pool_liquidity h u dk d ta tb pool n label s) = s1 \<and>
      (isl (fst (ensure_exact_pool_liquidity h u dk d ta tb pool n label s)) \<longleftrightarrow> r \<noteq> (n, n))) \<and>
    (\<forall>r'. fst (ensure_exact_pool_liquidity h u dk d ta tb pool n label s) = Inr r' \<longrightarrow> r' = (n, n))"
proof (cases "r = (0, 0)")
  case True
  then show ?thesis
    using assms
    by (auto simp: ensure_exact_pool_liquidity_def pbind_def split: prod.splits sum.splits if_splits)
next
  case False
  then show ?thesis
    using assms by (auto simp: ensure_exact_pool_liquidity_def pbind_def split: if_splits)
qed

section \<open>The backrun's route\<close>

text \<open>
  A route that is accepted promises at least the minimum profit, asks for no more than the
  quotes, and the victim's minimum is one that the quoted swap meets; and what the backrun buys
  from the first pool it could not have sold back there without a loss.
\<close>

theorem route_sound:
  assumes "calculate_route (a1, b1) (a2, b2) = Inr r"
  shows "MIN_PROFIT_B \<le> br_profit r \<and> br_profit r = br_out_b r - BACKRUN_AMOUNT_B \<and>
    0 \<le> br_victim_min r \<and> br_victim_min r \<le> br_victim_out r \<and> br_victim_out r < b1 \<and>
    0 \<le> br_min_a r \<and> br_min_a r \<le> br_out_a r \<and> br_out_a r < a1 + VICTIM_SWAP_AMOUNT_A \<and>
    0 \<le> br_min_b r \<and> br_min_b r \<le> br_out_b r \<and> br_out_b r < b2 \<and>
    (\<forall>c. sandbox_amount_out (br_out_a r) (a1 + VICTIM_SWAP_AMOUNT_A - br_out_a r)
            (b1 - br_victim_out r + BACKRUN_AMOUNT_B) = Inr c \<longrightarrow> c \<le> BACKRUN_AMOUNT_B)"
proof -
  from assms obtain v a b where
    v: "sandbox_amount_out VICTIM_SWAP_AMOUNT_A a1 b1 = Inr v" and
    a: "sandbox_amount_out BACKRUN_AMOUNT_B (b1 - v) (a1 + VICTIM_SWAP_AMOUNT_A) = Inr a" and
    b: "sandbox_amount_out a a2 b2 = Inr b" and
    r: "MIN_PROFIT_B \<le> b - BACKRUN_AMOUNT_B" "br_victim_out r = v" "br_victim_min r = v * MIN_OUTPUT_BPS div 10000"
      "br_out_a r = a" "br_out_b r = b" "br_profit r = b - BACKRUN_AMOUNT_B"
      "br_min_a r = a * MIN_OUTPUT_BPS div 10000" "br_min_b r = b * MIN_OUTPUT_BPS div 10000"
    by (auto simp: calculate_route_def Let_def rbind_Inr_iff split: if_splits)
  have slip: "0 \<le> m * MIN_OUTPUT_BPS div 10000 \<and> m * MIN_OUTPUT_BPS div 10000 \<le> m" if "0 \<le> m" for m
  proof -
    have "m * 9900 div 10000 \<le> m * 10000 div 10000" using that by (intro zdiv_mono1) auto
    then show ?thesis using that by (simp add: MIN_OUTPUT_BPS_def)
  qed
  note bounds = sandbox.quote_bounds [OF v] sandbox.quote_bounds [OF a] sandbox.quote_bounds [OF b]
  have "c \<le> BACKRUN_AMOUNT_B"
    if "sandbox_amount_out a (a1 + VICTIM_SWAP_AMOUNT_A - a) (b1 - v + BACKRUN_AMOUNT_B) = Inr c" for c
    using sandbox.round_trip [OF a] that by simp
  then show ?thesis
    using r bounds slip by auto
qed

text \<open>
  On the reserves the scenario insists on, the route is always found: its numbers are these,
  and its profit is above the minimum, so the profit check never fails there.
\<close>

theorem route_on_seeded_pools:
  "calculate_route (POOL_SEED_AMOUNT, POOL_SEED_AMOUNT) (POOL_SEED_AMOUNT, POOL_SEED_AMOUNT) =
     Inr \<lparr>br_victim_out = 90661089388014913158, br_victim_min = 89754478494134764026,
          br_out_a = 48423859144600256062, br_out_b = 46055111818329587586,
          br_profit = 4055111818329587586,
          br_min_a = 47939620553154253501, br_min_b = 45594560700146291710\<rparr>"
  by code_simp

section \<open>Reading the output of a command\<close>

lemma numeral_no_space:
  assumes "2 \<le> b" "b \<le> 36"
  shows "list_all (\<lambda>c. \<not> is_space c) (numeral_digits b n)"
proof -
  obtain ds where "digits_of b n ds" using numeral_digits_ex [OF assms] by blast
  then show ?thesis
    using assms by (auto simp: digits_of_def list_all_iff)
qed

lemma number_no_space:
  "list_all (\<lambda>c. \<not> is_space c) (dec n)" "list_all (\<lambda>c. \<not> is_space c) (py_hex n)"
  "dec n \<noteq> []" "py_hex n \<noteq> []"
proof -
  have s: "\<not> is_space (CHR ''-'')" "\<not> is_space (CHR ''0'')" "\<not> is_space (CHR ''x'')"
    by code_simp+
  show "list_all (\<lambda>c. \<not> is_space c) (dec n)" "list_all (\<lambda>c. \<not> is_space c) (py_hex n)"
    using s numeral_no_space [of 10] numeral_no_space [of 16] by (simp_all add: dec_def py_hex_def)
  show "dec n \<noteq> []" "py_hex n \<noteq> []" by (simp_all add: dec_def py_hex_def)
qed

lemma rstrip_append:
  assumes "s \<noteq> []" "\<not> P (last s)"
  shows "rstrip_if P (s @ post) = s @ rstrip_if P post"
proof -
  have "dropWhile P (rev s) = rev s" using assms by (cases s rule: rev_cases) simp_all
  then show ?thesis by (simp add: rstrip_if_def dropWhile_append dropWhile_eq_Nil_conv)
qed

lemma rstrip_hd: "rstrip_if P s \<noteq> [] \<Longrightarrow> hd (rstrip_if P s) = hd s"
proof -
  assume ne: "rstrip_if P s \<noteq> []"
  have "s = rstrip_if P s @ rev (takeWhile P (rev s))"
    unfolding rstrip_if_def by (metis rev_append rev_rev_ident takeWhile_dropWhile_id)
  then show ?thesis using ne by (metis hd_append2)
qed

lemma first_word_number:
  assumes "list_all is_space pre" "list_all (\<lambda>c. \<not> is_space c) num" "num \<noteq> []"
    and "post = [] \<or> is_space (hd post)"
  shows "first_word (py_strip (pre @ num @ post)) = Inr num"
proof -
  let ?post = "rstrip_if is_space post"
  have ends: "\<not> is_space (hd num)" "\<not> is_space (last num)"
    using assms(2,3) by (simp_all add: list_all_iff)
  have d: "dropWhile is_space (num @ u) = num @ u" for u
    using ends(1) assms(3) by (cases num) simp_all
  have "dropWhile is_space (pre @ num @ post) = num @ post"
    using assms(1) d by (induction pre) simp_all
  then have strip: "py_strip (pre @ num @ post) = num @ ?post"
    by (simp add: py_strip_def strip_if_def rstrip_append [of num is_space, OF assms(3) ends(2)])
  have "?post = [] \<or> is_space (hd ?post)"
    using assms(4) rstrip_hd [of is_space post] by (cases "?post = []") (auto simp: rstrip_if_def)
  then have "takeWhile (\<lambda>c. \<not> is_space c) (num @ ?post) = num"
    using assms(2) by (cases ?post) (auto simp: list_all_iff takeWhile_append)
  then show ?thesis
    using assms(3) by (simp add: first_word_def strip d split: list.split)
qed

text \<open>
  The first word of a command's output is the number, in decimal or hexadecimal, whatever
  white space surrounds it and whatever follows it, such as the rounded amount in brackets that
  \<^verbatim>\<open>cast\<close> prints after a large number.
\<close>

theorem cast_int_reads_first_word:
  assumes "run_process h command cwd (world s) = (Completed (pre @ num @ post), w)"
    and "list_all is_space pre" and "num = dec n \<or> num = py_hex n"
    and "post = [] \<or> is_space (hd post)"
  shows "cast_int h command cwd s = (Inr n, s\<lparr>world := w\<rparr>)"
proof -
  have first: "first_word (py_strip (pre @ num @ post)) = Inr num"
    using assms(2-4) number_no_space(1,2) [of n] number_no_space(3,4) [of n]
    by (intro first_word_number) (auto simp del: list_all_iff)
  have "py_int 0 num = Inr n" using assms(3) by (auto simp: int_of_dec int_of_hex)
  then show ?thesis
    using first by (simp add: cast_int_def run_def pbind_def assms(1))
qed

section \<open>Passing\<close>

lemma fail_if_Inr [simp]: "pbind (fail_if b m) k s = (Inr x, t) \<longleftrightarrow> \<not> b \<and> k () s = (Inr x, t)"
  by (simp add: fail_if_def)

lemma fail_if_unit [simp]: "fail_if b m s = (Inr x, t) \<longleftrightarrow> \<not> b \<and> t = s"
  by (auto simp: fail_if_def)

lemma plift_Inr [simp]: "pbind (Pair r) k s = (Inr x, t) \<longleftrightarrow> (\<exists>y. r = Inr y \<and> k y s = (Inr x, t))"
  by (cases r) auto

lemma swap_checks_pass:
  "victim_swap_checks o' n s = (Inr x, t) \<longleftrightarrow> t = s \<and>
     json_item (so_bundle o') ''status'' = Inr (JStr ''included'') \<and>
     json_item (so_tx o') ''status'' = Inr (JStr ''included'') \<and>
     json_item (so_record o') ''status'' = Inr (JStr ''included'') \<and>
     so_a_before o' - so_a_after o' = SWAP_AMOUNT_A \<and> n \<le> so_b_after o' - so_b_before o'"
  by (auto simp: victim_swap_checks_def Let_def)

lemma revert_checks_pass:
  "victim_swap_revert_checks o' s = (Inr x, t) \<longleftrightarrow> t = s \<and>
     json_item (so_bundle o') ''status'' = Inr (JStr ''failed'') \<and>
     json_item (so_tx o') ''status'' = Inr (JStr ''reverted'') \<and>
     json_item (so_record o') ''status'' = Inr (JStr ''reverted'') \<and>
     so_a_after o' = so_a_before o' \<and> so_b_after o' = so_b_before o'"
  by (auto simp: victim_swap_revert_checks_def)

text \<open>
  When the victim-swap scenario ends with an exit code it is 0, and then the bundle, the
  transaction and the mempool record were reported included, the victim's TokenA balance fell by
  exactly the swapped amount and its TokenB balance rose by at least 99% of the quote.
\<close>

theorem victim_swap_passes:
  fixes h :: "'w host"
  assumes "victim_swap_main h s = (Inr n, t)"
  shows "n = 0 \<and>
    (\<exists>sw s1 q s2 p out s4. swap_prepare h s = (Inr sw, s1) \<and>
       quote_amount_out_a_for_b h (sw_rpc_url sw) (sw_pool sw) SWAP_AMOUNT_A s1 = (Inr q, s2) \<and>
       swap_execute h sw (q * 99 div 100) ''Submitting victim swap to the public mempool''
         ''Mining the victim swap through the private bundle endpoint'' (s2\<lparr>printed := p\<rparr>) = (Inr out, s4) \<and>
       json_item (so_bundle out) ''status'' = Inr (JStr ''included'') \<and>
       json_item (so_tx out) ''status'' = Inr (JStr ''included'') \<and>
       json_item (so_record out) ''status'' = Inr (JStr ''included'') \<and>
       so_a_before out - so_a_after out = SWAP_AMOUNT_A \<and>
       q * 99 div 100 \<le> so_b_after out - so_b_before out)"
proof -
  have "\<exists>sw s1 q s2 p out s4 (s5 :: 'w script_state) (s6 :: 'w script_state). swap_prepare h s = (Inr sw, s1) \<and>
      quote_amount_out_a_for_b h (sw_rpc_url sw) (sw_pool sw) SWAP_AMOUNT_A s1 = (Inr q, s2) \<and>
      swap_execute h sw (q * 99 div 100) ''Submitting victim swap to the public mempool''  ''Mining the victim swap through the private bundle endpoint'' (s2\<lparr>printed := p\<rparr>) = (Inr out, s4) \<and>
      victim_swap_checks out (q * 99 div 100) s5 = (Inr (), s6) \<and>
      n = 0"
    using assms unfolding victim_swap_main_def Let_def
    by (auto simp: pbind_result_iff [of "swap_prepare h"]
        pbind_result_iff [of "quote_amount_out_a_for_b h _ _ _"]
        pbind_result_iff [of "swap_execute h _ _ _ _"] pbind_result_iff [of "victim_swap_checks _ _"]
        print_step_def) (intro exI conjI, assumption+)
  then show ?thesis unfolding swap_checks_pass by blast
qed

text \<open>
  When the reverting scenario ends with an exit code it is 0, and then the bundle was reported
  failed, the transaction and the mempool record reverted, and neither balance of the victim has
  changed.
\<close>

theorem victim_swap_revert_passes:
  fixes h :: "'w host"
  assumes "victim_swap_revert_main h s = (Inr n, t)"
  shows "n = 0 \<and>
    (\<exists>sw s1 q s2 p out s4. swap_prepare h s = (Inr sw, s1) \<and>
       quote_amount_out_a_for_b h (sw_rpc_url sw) (sw_pool sw) SWAP_AMOUNT_A s1 = (Inr q, s2) \<and>
       swap_execute h sw (q + 1) ''Submitting impossible victim swap to the public mempool''
         ''Mining the impossible swap through the private bundle endpoint'' (s2\<lparr>printed := p\<rparr>) = (Inr out, s4) \<and>
       json_item (so_bundle out) ''status'' = Inr (JStr ''failed'') \<and>
       json_item (so_tx out) ''status'' = Inr (JStr ''reverted'') \<and>
       json_item (so_record out) ''status'' = Inr (JStr ''reverted'') \<and>
       so_a_after out = so_a_before out \<and> so_b_after out = so_b_before out)"
proof -
  have "\<exists>sw s1 q s2 p out s4 (s5 :: 'w script_state) (s6 :: 'w script_state). swap_prepare h s = (Inr sw, s1) \<and>
      quote_amount_out_a_for_b h (sw_rpc_url sw) (sw_pool sw) SWAP_AMOUNT_A s1 = (Inr q, s2) \<and>
      swap_execute h sw (q + 1) ''Submitting impossible victim swap to the public mempool''  ''Mining the impossible swap through the private bundle endpoint'' (s2\<lparr>printed := p\<rparr>) = (Inr out, s4) \<and>
      victim_swap_revert_checks out s5 = (Inr (), s6) \<and>
      n = 0"
    using assms unfolding victim_swap_revert_main_def Let_def
    by (auto simp: pbind_result_iff [of "swap_prepare h"]
        pbind_result_iff [of "quote_amount_out_a_for_b h _ _ _"]
        pbind_result_iff [of "swap_execute h _ _ _ _"]
        pbind_result_iff [of "victim_swap_revert_checks _"] print_step_def) (intro exI conjI, assumption+)
  then show ?thesis unfolding revert_checks_pass by blast
qed

end
