(* ===== verification/Local_Builder.thy ===== *)
theory Local_Builder
  imports Builder_Safety Scenario_Mempool
begin

text \<open>
  The scenarios' client against the model of the service: the routes of the application
  (\<^verbatim>\<open>block_builder/app.py\<close>), a machine on which the builder is started and stopped by its
  scripts, and the mempool-sequence scenario run against it.
\<close>

section \<open>Routes\<close>

text \<open>
  The paths the application registers, and the request bodies it accepts: an object for the
  routes that take a payload.  Any other request is the framework's to refuse.  The id in a path
  is taken as it stands, as it is when it needs no quoting in a URL.
\<close>

definition route :: "string \<Rightarrow> message \<Rightarrow> json option \<Rightarrow> event option" where
  "route method path body =
     (if method = ''GET'' then
        (case path of
           [Txt p] \<Rightarrow>
             if p = ''/health'' then Some Get_health
             else if p = ''/ping'' then Some Get_ping
             else if p = ''/chain/head'' then Some Get_chain_head
             else if p = ''/public/pending'' then Some Get_public_pending
             else None
         | [Txt p, Val (JStr k)] \<Rightarrow> if p = ''/public/tx/'' then Some (Get_public_tx k) else None
         | _ \<Rightarrow> None)
      else if method = ''POST'' then
        (case (path, body) of
           ([Txt p], Some (JObj d)) \<Rightarrow>
             if p = ''/chain/call'' then Some (Post_chain_call d)
             else if p = ''/public/tx'' then Some (Post_public_tx d)
             else if p = ''/private/bundle/simulate'' then Some (Post_bundle_simulate d)
             else if p = ''/private/bundle'' then Some (Post_bundle d)
             else None
         | _ \<Rightarrow> None)
      else None)"

section \<open>A machine with a builder\<close>

text \<open>
  The builder runs with its state, or is stopped; what is outside it stays in either case.  Its
  main program serves a fresh application; the start script leaves a running builder alone and
  otherwise runs that program, the cleanup script stops it (with the file of process ids telling
  the truth, and an installed Python environment).  The texts of the framework's error pages are
  a parameter.
\<close>

datatype 'w machine = Stopped 'w | Running "'w app_state"

definition service_main :: "'w \<Rightarrow> 'w machine" where
  "service_main w = Running (create_app w)"

fun started :: "'w machine \<Rightarrow> 'w machine" where
  "started (Stopped w) = service_main w"
| "started (Running s) = Running s"

fun stopped :: "'w machine \<Rightarrow> 'w machine" where
  "stopped (Stopped w) = Stopped w"
| "stopped (Running s) = Stopped (world s)"

definition respond :: "(response \<Rightarrow> string \<times> string) \<Rightarrow> response \<Rightarrow> http_end" where
  "respond page r = (case r of Ok200 v \<Rightarrow> HttpReply v | _ \<Rightarrow> HttpStatus (fst (page r)) (snd (page r)))"

definition serve ::
  "'w env \<Rightarrow> (response \<Rightarrow> string \<times> string) \<Rightarrow> string \<Rightarrow> message \<Rightarrow> json option \<Rightarrow> 'w machine \<Rightarrow>
   http_end \<times> 'w machine" where
  "serve env page method path body l =
     (case l of
        Stopped w \<Rightarrow> (HttpUnreachable ''connection refused'', l)
      | Running s \<Rightarrow>
          (case route method path body of
             None \<Rightarrow> (HttpStatus ''client error'' '''', l)
           | Some e \<Rightarrow> (case app_handle env e s of (r, t) \<Rightarrow> (respond page r, Running t))))"

definition local_host ::
  "'w env \<Rightarrow> (response \<Rightarrow> string \<times> string) \<Rightarrow> string \<Rightarrow> string \<Rightarrow> 'w machine host" where
  "local_host env page base rdir =
     \<lparr>run_process = (\<lambda>command cwd l.
        if command = [JStr (rdir @ ''/services/block-builder/bin/start-local.zsh'')]
        then (Completed '''', started l)
        else if command = [JStr (rdir @ ''/services/block-builder/bin/cleanup-local.zsh'')]
        then (Completed '''', stopped l)
        else (NotFound, l)),
      http = (\<lambda>method url body l.
        case url of
          Txt b # path \<Rightarrow> if b = base then serve env page method path body l
                           else (HttpUnreachable ''connection refused'', l)
        | _ \<Rightarrow> (HttpUnreachable ''connection refused'', l)),
      file_exists = (\<lambda>p l. False),
      file_json = (\<lambda>p l. Inl (OtherError ''no such file'')),
      file_lines = (\<lambda>p l. Inl (OtherError ''no such file'')),
      pause = (\<lambda>d l. l),
      builder_url = base, repo_root = rdir\<rparr>"

lemma local_host_simps [simp]:
  "builder_url (local_host env page base rdir) = base"
  "repo_root (local_host env page base rdir) = rdir"
  "http (local_host env page base rdir) m (Txt base # p) b l = serve env page m p b l"
  by (simp_all add: local_host_def)

lemma builder_request_running:
  assumes "world st = Running s" and "route m p b = Some e" and "app_handle env e s = (Ok200 v, t)"
  shows "builder_request (local_host env page base rdir) m p b st = (Inr v, st\<lparr>world := Running t\<rparr>)"
  using assms by (simp add: builder_request_def serve_def respond_def)

lemma routes [simp]:
  "route ''GET'' [Txt ''/health''] b = Some Get_health"
  "route ''GET'' [Txt ''/public/pending''] b = Some Get_public_pending"
  "route ''POST'' [Txt ''/public/tx''] (Some (JObj d)) = Some (Post_public_tx d)"
  by (simp_all add: route_def)

lemma restart_running:
  "\<exists>w. restart_block_builder (local_host env page base rdir) st =
     (Inr (), st\<lparr>world := Running (create_app w)\<rparr>) \<and>
     w = (case world st of Stopped w \<Rightarrow> w | Running s \<Rightarrow> world s)"
proof -
  define w where "w = (case world st of Stopped w \<Rightarrow> w | Running s \<Rightarrow> world s)"
  let ?h = "local_host env page base rdir"
  let ?t = "st\<lparr>world := Running (create_app w)\<rparr>"
  have c: "run ?h [JStr (SERVICE_DIR ?h @ ''/bin/cleanup-local.zsh'')] rdir st =
      (Inr '''', st\<lparr>world := Stopped w\<rparr>)"
    by (cases "world st") (simp_all add: run_def SERVICE_DIR_def local_host_def w_def)
  have s: "run ?h [JStr (SERVICE_DIR ?h @ ''/bin/start-local.zsh'')] rdir (st\<lparr>world := Stopped w\<rparr>) =
      (Inr '''', ?t)"
    by (simp add: run_def SERVICE_DIR_def local_host_def service_main_def)
  have "builder_request ?h ''GET'' [Txt ''/health''] None ?t =
      (Inr (JObj [(''status'', JStr ''ok'')]), ?t\<lparr>world := Running (create_app w)\<rparr>)"
    by (rule builder_request_running [where e = Get_health and s = "create_app w"]) simp_all
  then have "wait_for_builder ?h health_attempts ?t = (Inr (), ?t)"
    by (simp add: health_attempts_def eval_nat_numeral pcatch_scenario_def pbind_def)
  then have "restart_block_builder ?h st = (Inr (), ?t)"
    by (simp add: restart_block_builder_def cleanup_block_builder_def start_block_builder_def
        pbind_def c s)
  then show ?thesis by (auto simp: w_def)
qed

section \<open>Submitting to a running builder\<close>

text \<open>The state of a builder that only ever took submissions, with ids that did not repeat.\<close>

definition only_pending :: "'w env \<Rightarrow> nat \<Rightarrow> 'w app_state \<Rightarrow> bool" where
  "only_pending env n s \<longleftrightarrow> uncollided s \<and> length (mp_heap s) = n \<and>
     list_all is_pending (mp_heap s) \<and> ws_order env (subscribers s) = []"

lemma sorted_ints:
  "sorted ns \<Longrightarrow> py_sorted (map JInt ns) = Inr (map JInt ns)"
proof -
  assume s: "sorted ns"
  have "foldr (insert_by (\<lambda>u v. the (json_num u) \<le> the (json_num v))) (map JInt ns) [] = map JInt ns"
    using s
  proof (induction ns)
    case (Cons n ns)
    then show ?case by (cases ns) auto
  qed simp
  moreover have "list_all (\<lambda>v. json_num v \<noteq> None) (map JInt ns)"
    by (simp add: list_all_iff)
  ultimately show ?thesis by (simp add: py_sorted_def)
qed

lemma snapshot_all_pending:
  assumes "only_pending env n s"
  shows "app_handle env' Get_public_pending s =
    (Ok200 (JObj [(''snapshotSeq'', JInt (int n)),
                  (''transactions'', JList (map MempoolRecord_toJson (mp_heap s)))]), s)"
proof -
  have u: "uncollided s" and inv: "mempool_inv s"
    using assms by (simp_all add: only_pending_def uncollided_def)
  have "filter is_pending (mp_heap s) = mp_heap s"
    using assms by (simp add: only_pending_def list_all_iff)
  then show ?thesis
    using mempool_invD(1,2) [OF inv] records_in_order [OF u] assms
    by (simp add: get_pending_transactions_def pendingSnapshot_run answer_def only_pending_def)
qed

lemma snapshot_checked:
  assumes "only_pending env n s"
  shows "assert_snapshot (JObj [(''snapshotSeq'', JInt (int n)),
      (''transactions'', JList (map MempoolRecord_toJson (mp_heap s)))]) (int n) [1..int n] = Inr ()"
proof -
  have inv: "mempool_inv s" and n: "length (mp_heap s) = n"
    using assms by (simp_all add: only_pending_def uncollided_def)
  then have seq: "map mr_seqNum (mp_heap s) = [1..int n]"
    by (simp add: mempool_inv_def)
  have rm: "rmap (\<lambda>r. json_get r ''seqNum'') (map MempoolRecord_toJson rs) = Inr (map JInt (map mr_seqNum rs))"
    for rs
    by (induction rs) (simp_all add: MempoolRecord_toJson_def)
  have keys: "rmap (\<lambda>r. json_get r ''seqNum'') (map MempoolRecord_toJson (mp_heap s)) =
      Inr (map JInt [1..int n])"
    by (simp only: rm seq)
  have "list_all2 json_eq_int (map JInt ns) ns" for ns
    by (induction ns) (simp_all add: json_eq_int_def)
  then show ?thesis
    using n by (simp add: assert_snapshot_def json_eq_int_def keys sorted_ints)
qed

lemma submit_running:
  assumes ok: "only_pending env n s" and fresh: "fresh_id env s"
    and t: "Transaction_fromJson d = Inr t"
  shows "\<exists>s'. app_handle env (Post_public_tx d) s = (Ok200 (MempoolRecord_toJson (submitted env t s)), s') \<and>
    only_pending env (Suc n) s' \<and> mr_seqNum (submitted env t s) = int (Suc n) \<and>
    is_pending (submitted env t s) \<and>
    world s' = snd (clock env (snd (uuid_hex env (world s)))) \<and>
    map fst (mp_transactions s') = map fst (mp_transactions s) @ [next_id env s]"
proof -
  have u: "uncollided s" and inv: "mempool_inv s" and w: "ws_order env (subscribers s) = []"
    using ok by (simp_all add: only_pending_def uncollided_def)
  let ?s' = "snd (Mempool_addTransaction env t s)"
  have run: "Mempool_addTransaction env t s = (Inr (length (mp_heap s)), ?s')"
    using mempool_invD(1) [OF inv] by (simp add: addTransaction_run)
  have subs: "subscribers ?s' = subscribers s" "world ?s' = snd (clock env (snd (uuid_hex env (world s))))"
    "mp_transactions ?s' = mp_transactions s @ [(next_id env s, length (mp_heap s))]"
    using mempool_invD(1) [OF inv] fresh by (simp_all add: addTransaction_run fresh_id_def update_new)
  have "snd (Broadcaster_broadcast env m ?s') = ?s'" for m
    using w subs(1) by (simp add: broadcast_run Let_def failed_def)
  then have h: "app_handle env (Post_public_tx d) s = (Ok200 (MempoolRecord_toJson (submitted env t s)), ?s')"
    by (simp add: submit_run [OF inv] t)
  have heap: "mp_heap ?s' = mp_heap s @ [submitted env t s]"
    using mempool_invD(1) [OF inv] by (simp add: addTransaction_run submitted_def)
  have rec: "mr_seqNum (submitted env t s) = int (Suc n)" "is_pending (submitted env t s)"
    using ok mempool_invD(2) [OF inv]
    by (simp_all add: submitted_def fresh_record_def only_pending_def is_pending_def)
  have "only_pending env (Suc n) ?s'"
    using add_uncollided [OF u fresh] heap rec ok subs(1) by (simp add: only_pending_def)
  then show ?thesis using h rec subs by auto
qed

lemma synthetic_parses: "\<exists>t. Transaction_fromJson synthetic_transaction_payload = Inr t"
proof -
  have "\<not> isl (Transaction_fromJson synthetic_transaction_payload)" by code_simp
  then show ?thesis by (cases "Transaction_fromJson synthetic_transaction_payload") auto
qed

text \<open>One round of the scenario against a running builder.\<close>

definition synthetic_record :: "'w env \<Rightarrow> 'w app_state \<Rightarrow> json" where
  "synthetic_record env s =
     MempoolRecord_toJson (submitted env (projr (Transaction_fromJson synthetic_transaction_payload)) s)"

definition after_synthetic :: "'w env \<Rightarrow> 'w app_state \<Rightarrow> 'w app_state" where
  "after_synthetic env s = snd (app_handle env (Post_public_tx synthetic_transaction_payload) s)"

definition snapshot_of :: "nat \<Rightarrow> 'w app_state \<Rightarrow> json" where
  "snapshot_of n s = JObj [(''snapshotSeq'', JInt (int n)),
     (''transactions'', JList (map MempoolRecord_toJson (mp_heap s)))]"

lemma submit_and_check_running:
  assumes ok: "only_pending env n s" and fresh: "fresh_id env s"
  shows "submit_and_check_synthetic_transaction (local_host env page base rdir) (int (Suc n))
        \<lparr>world = Running s, printed = p\<rparr> =
      (Inr (synthetic_record env s, snapshot_of (Suc n) (after_synthetic env s)),
       \<lparr>world = Running (after_synthetic env s), printed = p\<rparr>)"
    and "only_pending env (Suc n) (after_synthetic env s)"
    and "world (after_synthetic env s) = snd (clock env (snd (uuid_hex env (world s))))"
    and "map fst (mp_transactions (after_synthetic env s)) = map fst (mp_transactions s) @ [next_id env s]"
proof -
  define t where "t = projr (Transaction_fromJson synthetic_transaction_payload)"
  have t: "Transaction_fromJson synthetic_transaction_payload = Inr t"
    using synthetic_parses by (auto simp: t_def)
  from submit_running [OF ok fresh t] obtain s' where
    h: "app_handle env (Post_public_tx synthetic_transaction_payload) s =
      (Ok200 (MempoolRecord_toJson (submitted env t s)), s')" and
    s': "only_pending env (Suc n) s'" "mr_seqNum (submitted env t s) = int (Suc n)"
      "is_pending (submitted env t s)" and
    rest: "world s' = snd (clock env (snd (uuid_hex env (world s))))"
      "map fst (mp_transactions s') = map fst (mp_transactions s) @ [next_id env s]"
    by blast
  have after: "after_synthetic env s = s'" using h by (simp add: after_synthetic_def)
  have synth: "synthetic_record env s = MempoolRecord_toJson (submitted env t s)"
    by (simp add: synthetic_record_def t_def)
  let ?h = "local_host env page base rdir"
  let ?st = "\<lparr>world = Running s, printed = p\<rparr>" and ?st' = "\<lparr>world = Running s', printed = p\<rparr>"
  have sub: "submit_public_transaction ?h (JObj synthetic_transaction_payload) ?st =
      (Inr (MempoolRecord_toJson (submitted env t s)), ?st')"
    unfolding submit_public_transaction_def
    using builder_request_running [OF _ _ h, of ?st] by simp
  have rec: "assert_record (MempoolRecord_toJson (submitted env t s)) (int (Suc n)) = Inr ()"
    using s'(2,3) by (simp add: assert_record_def MempoolRecord_toJson_def json_eq_int_def is_pending_def)
  have pend: "pending_public_transactions ?h ?st' = (Inr (snapshot_of (Suc n) s'), ?st')"
    unfolding pending_public_transactions_def snapshot_of_def
    using builder_request_running [OF _ _ snapshot_all_pending [OF s'(1)], of ?st'] by simp
  show "submit_and_check_synthetic_transaction ?h (int (Suc n)) ?st =
      (Inr (synthetic_record env s, snapshot_of (Suc n) (after_synthetic env s)),
       \<lparr>world = Running (after_synthetic env s), printed = p\<rparr>)"
    unfolding submit_and_check_synthetic_transaction_def synth after
    by (simp only: pbind_def sub pend rec plift_def pret_def snapshot_of_def
        snapshot_checked [OF s'(1)] prod.case sum.case)
  show "only_pending env (Suc n) (after_synthetic env s)"
    "world (after_synthetic env s) = snd (clock env (snd (uuid_hex env (world s))))"
    "map fst (mp_transactions (after_synthetic env s)) = map fst (mp_transactions s) @ [next_id env s]"
    unfolding after using s'(1) rest by simp_all
qed


lemma put_record_synthetic: "passes (put_record l (synthetic_record env s)) w () w"
  unfolding synthetic_record_def put_record_def
  by (rule passes_bind passes_print passes_lift, (simp add: MempoolRecord_toJson_def; fail)?)+

lemma put_snapshot_of: "passes (put_snapshot l (snapshot_of n s)) w () w"
  unfolding snapshot_of_def put_snapshot_def
  by (rule passes_bind passes_print passes_lift, (simp add: json_len_def; fail)?)+

lemma fresh_builder: "ws_order env {} = [] \<Longrightarrow> only_pending env 0 (create_app w)"
  by (simp add: only_pending_def create_app_def empty_pool_def empty_pool_uncollided)

text \<open>What the machine was before the restart does not matter, only the world it leaves.\<close>

definition machine_world :: "'w machine \<Rightarrow> 'w" where
  "machine_world m = (case m of Stopped w \<Rightarrow> w | Running s \<Rightarrow> world s)"

definition second_world :: "'w env \<Rightarrow> 'w \<Rightarrow> 'w" where
  "second_world env w = snd (clock env (snd (uuid_hex env w)))"

text \<open>
  C6. The mempool-sequence scenario succeeds on the service: run against the model of the
  builder, whether it was stopped or already running, the scenario's program ends with exit code 0, every one
  of its checks having passed (an empty snapshot with number 0, then records numbered 1 and 2,
  pending, each followed by a snapshot that lists exactly the numbers so far), when nobody is
  connected to the restarted builder's websocket and the two ids it draws differ.
\<close>

theorem mempool_sequence_passes:
  assumes quiet: "ws_order env {} = []"
    and ids: "fst (uuid_hex env (machine_world (world st))) \<noteq>
      fst (uuid_hex env (second_world env (machine_world (world st))))"
  shows "script_end (fst (mempool_sequence_main (local_host env page base rdir) st)) = (0, None)"
proof -
  define w where "w = machine_world (world st)"
  let ?h = "local_host env page base rdir"
  let ?A = "create_app w" and ?B = "after_synthetic env (create_app w)"
  let ?C = "after_synthetic env ?B"
  have A: "only_pending env 0 ?A" by (rule fresh_builder [OF quiet])
  have "fresh_id env ?A" by (simp add: fresh_id_def create_app_def)
  note first = submit_and_check_running [OF A this]
  have ids': "map fst (mp_transactions ?B) = [next_id env ?A]"
    using first(4) by (simp add: create_app_def)
  have B: "world ?B = second_world env w"
    using first(3) by (simp add: second_world_def create_app_def)
  have "next_id env ?A \<noteq> next_id env ?B"
    using ids unfolding next_id_def B by (simp add: w_def create_app_def)
  then have "fresh_id env ?B"
    unfolding fresh_id_def ids' by simp
  note second = submit_and_check_running [OF first(2) this]
  have restart: "passes (restart_block_builder ?h) (world st) () (Running ?A)"
    by (rule passesI [where f = id])
      (use restart_running [of env page base rdir "\<lparr>world = world st, printed = p\<rparr>" for p] in
        \<open>auto simp: w_def machine_world_def\<close>)
  have pending: "passes (pending_public_transactions ?h) (Running ?A) (snapshot_of 0 ?A) (Running ?A)"
    by (rule passesI [where f = id])
      (simp add: pending_public_transactions_def snapshot_of_def
        builder_request_running [OF _ _ snapshot_all_pending [OF A]])
  have empty: "assert_snapshot (snapshot_of 0 ?A) 0 [] = Inr ()"
    using snapshot_checked [OF A] by (simp add: snapshot_of_def)
  have one: "passes (submit_and_check_synthetic_transaction ?h 1) (Running ?A)
      (synthetic_record env ?A, snapshot_of 1 ?B) (Running ?B)"
    by (rule passesI [where f = id]) (use first(1) in simp)
  have two: "passes (submit_and_check_synthetic_transaction ?h 2) (Running ?B)
      (synthetic_record env ?B, snapshot_of 2 ?C) (Running ?C)"
    by (rule passesI [where f = id]) (use second(1) in \<open>simp add: numeral_2_eq_2\<close>)
  have "passes (mempool_sequence_main ?h) (world st) 0 (Running ?C)"
    unfolding mempool_sequence_main_def print_step_def
    by (rule passes_bind passes_print restart pending passes_lift [OF empty] put_snapshot_of
        one two put_record_synthetic passes_pret | simp only: prod.case)+
  then have "fst (mempool_sequence_main ?h st) = Inr 0" by (rule passes_result) simp
  then show ?thesis by (simp add: script_end_def)
qed

end
