(* ===== verification/Scenario_Witnesses.thy ===== *)
theory Scenario_Witnesses
  imports Scenario_Outcomes Scenario_Polling Local_Builder Builder_Witnesses
begin

text \<open>
  The properties of the scenarios that have hypotheses, each applied at a concrete input.
\<close>

section \<open>Amounts\<close>

theorem amount_out_monotone_no_round_trip_witness:
  "sandbox_amount_out 1000 50000 50000 = Inr 977 \<and>
   (\<exists>b. sandbox_amount_out 2000 50000 50000 = Inr b \<and> 977 \<le> b) \<and>
   sandbox_amount_out 977 49023 51000 = Inr 993 \<and> (993::int) \<le> 1000"
proof -
  have a: "sandbox_amount_out 1000 50000 50000 = Inr 977" by code_simp
  have c: "sandbox_amount_out 977 (50000 - 977) (50000 + 1000) = Inr 993" by code_simp
  show ?thesis
    using amount_out_monotone_no_round_trip [OF a, of 2000 993] a c by simp
qed

theorem pool_never_drained_witness:
  "\<exists>x' y'. pool_swaps dex_quote [(True, 1000), (False, 500)] (50000, 50000) = Inr (x', y') \<and>
     50000 * 50000 \<le> x' * y'"
proof -
  have one: "dex_quote 1000 50000 50000 = Inr 977" and two: "dex_quote 500 49023 51000 = Inr 513"
    by (simp_all add: dex_quote_def SandboxDex_getAmountOut_def checked_mul_def checked_add_def
        FEE_NUMERATOR_def FEE_DENOMINATOR_def)
  have s: "pool_swaps dex_quote [(True, 1000), (False, 500)] (50000, 50000) = Inr (50487, 49523)"
    by (simp add: one two)
  show ?thesis using pool_never_drained [OF s] s by auto
qed

theorem route_sound_witness:
  "\<exists>r. calculate_route (POOL_SEED_AMOUNT, POOL_SEED_AMOUNT) (POOL_SEED_AMOUNT, POOL_SEED_AMOUNT) = Inr r \<and>
     MIN_PROFIT_B \<le> br_profit r"
  using route_sound [OF route_on_seeded_pools] route_on_seeded_pools by auto

section \<open>Payloads\<close>

theorem payload_accepted_witness:
  "\<exists>t. Transaction_fromJson
        (public_transaction_payload 31337 7 (JStr ''0xf0'') (JStr ''0xc0'') ''0xa9059cbb'' default_gas) = Inr t \<and>
     py_int 16 (tx_nonce t) = Inr 7 \<and> py_int 16 (tx_gas t) = Inr 300000"
proof -
  have "''0xf0'' \<noteq> ''''" "''0xa9059cbb'' \<noteq> ''''" by simp_all
  from payload_accepted [OF this, of 31337 7 "''0xc0''" default_gas]
  show ?thesis by (auto simp: default_gas_def)
qed

section \<open>Against the builder\<close>

theorem answer_matches_records_witness:
  "\<exists>r. pool_lookup (snd toy_mined) ''mp-a'' = Some r \<and> mr_status r = JStr ''included'' \<and>
     (\<exists>v \<in> set (result_txs (projr (fst toy_mined))). json_item v ''status'' = Inr (mr_status r))"
proof -
  have m: "BundleBuilder_mineBundle toy_env toy_bundle toy_pool = (Inr (projr (fst toy_mined)), snd toy_mined)"
    using toy_mined_ok by (simp add: toy_mined_def)
  have k: "''mp-a'' \<in> bundle_ids toy_bundle"
  proof -
    have "map bi_mempoolTxId (bundle_items toy_bundle) = [Some ''mp-a'', None]" by code_simp
    then have "Some ''mp-a'' \<in> bi_mempoolTxId ` set (bundle_items toy_bundle)"
      by (metis image_set list.set_intros(1))
    then show ?thesis by (simp add: bundle_ids_def)
  qed
  have "map_option mr_status (pool_lookup (snd toy_mined) ''mp-a'') = Some (JStr ''included'')"
    by code_simp
  then show ?thesis
    using answer_matches_records [OF toy_pool_mempool toy_bundle_read m k]
    by (auto simp: reported_def)
qed

theorem mempool_sequence_passes_witness:
  "script_end (fst (mempool_sequence_main
          (local_host toy_env (\<lambda>r. ('''', '''')) ''http://127.0.0.1:9001'' ''/repo'')
          \<lparr>world = Stopped toy_world, printed = []\<rparr>)) = (0, None)"
proof -
  have "ws_order toy_env {} = []" by (simp add: toy_env_def)
  moreover have "fst (uuid_hex toy_env (machine_world (Stopped toy_world))) \<noteq>
      fst (uuid_hex toy_env (second_world toy_env (machine_world (Stopped toy_world))))"
    by (simp add: machine_world_def second_world_def toy_env_def toy_world_def)
  ultimately show ?thesis
    by (intro mempool_sequence_passes) simp_all
qed

section \<open>A chain that is only its setting\<close>

text \<open>
  The world is whether the chain mines by itself; every command prints a number, and every request
  is answered.
\<close>

definition switch_host :: "bool host" where
  "switch_host =
     \<lparr>run_process = (\<lambda>c d on. (Completed ''7'', on)),
      http = (\<lambda>m url body on. (HttpReply (JObj [(''result'', JStr ''0x1'')]),
        case (url, body) of
          ([Val u], Some (JObj d)) \<Rightarrow>
            (if dict_get d ''method'' = JStr ''evm_setAutomine'' then dict_get d ''params'' = JList [JBool True] else on)
        | _ \<Rightarrow> on)),
      file_exists = (\<lambda>p on. True),
      file_json = (\<lambda>p on. Inl TypeError),
      file_lines = (\<lambda>p on. Inr []),
      pause = (\<lambda>d on. on), builder_url = ''http://127.0.0.1:9001'', repo_root = ''/repo''\<rparr>"

lemma switch_setting: "keeps_setting switch_host (\<lambda>on. on)"
  by (auto simp: keeps_setting_def switch_host_def sets_automine_def rpc_request_def
      split: list.splits frag.splits option.splits json.splits if_splits)

lemma switch_never_breaks: "\<not> broken_off switch_host e t"
proof -
  have "fst (set_automine switch_host u b s) = Inr ()" for u b s
    by (simp add: set_automine_def rpc_def switch_host_def pbind_def)
  moreover have "fst (run switch_host c d s) = Inr ''7''" for c d s
    by (simp add: run_def switch_host_def pbind_def)
  ultimately show ?thesis unfolding broken_off_def by (metis fst_conv sum.distinct(1))
qed

theorem scenarios_leave_automine_off_witness:
  "\<not> world (snd (token_transfer_main switch_host \<lparr>world = False, printed = []\<rparr>)) \<and>
   \<not> world (snd (backrun_main switch_host \<lparr>world = False, printed = []\<rparr>)) \<and>
   \<not> world (snd (seed_pools_main switch_host \<lparr>world = False, printed = []\<rparr>))"
  using scenarios_leave_automine_off [OF switch_setting, of "\<lparr>world = False, printed = []\<rparr>"] switch_never_breaks
  by (simp add: left_tidy_def)

section \<open>A builder that answers the second check\<close>

definition slow_host :: "nat host" where
  "slow_host =
     \<lparr>run_process = (\<lambda>c d n. (Completed '''', n)),
      http = (\<lambda>m url body n. (if n = 0 then HttpUnreachable ''refused'' else HttpReply (JObj []), n)),
      file_exists = (\<lambda>p n. True), file_json = (\<lambda>p n. Inl TypeError), file_lines = (\<lambda>p n. Inr []),
      pause = (\<lambda>d n. n + 1), builder_url = ''http://127.0.0.1:9001'', repo_root = ''/repo''\<rparr>"

definition slow_start :: "(nat \<times> action list) script_state" where
  "slow_start = \<lparr>world = (0, []), printed = []\<rparr>"

lemma slow_checks:
  "not_healthy (fst (check_no (recorded slow_host) slow_start 0))"
  "\<not> not_healthy (fst (check_no (recorded slow_host) slow_start 1))"
  "isl (fst (check_no (recorded slow_host) slow_start 1)) = False"
  by (simp_all add: check_no_def health_check_def paused_check_def not_healthy_def builder_request_def slow_host_def
      slow_start_def recorded_def pbind_def scenario_error_def praise_def)

theorem builder_polling_ends_witness:
  "fst (wait_for_builder (recorded slow_host) 3 slow_start) = Inr () \<and>
   trace (snd (wait_for_builder (recorded slow_host) 3 slow_start)) = [health_request slow_host, health_request slow_host]"
proof -
  let ?c = "check_no (recorded slow_host) slow_start" and ?w = "wait_for_builder (recorded slow_host) 3 slow_start"
  obtain k where k: "k \<le> 3" "\<forall>j < k. not_healthy (fst (?c j))" and
    ends: "if k = 3
     then ?w = (Inl (ScenarioError (unhealthy slow_host)), (paused_check (recorded slow_host) ^^ 3) slow_start) \<and>
       trace (snd ?w) = trace slow_start @ replicate 3 (health_request slow_host)
     else \<not> not_healthy (fst (?c k)) \<and>
       ?w = (case ?c k of (Inr v, t) \<Rightarrow> (Inr (), t) | (Inl e, t) \<Rightarrow> (Inl e, t)) \<and>
       trace (snd ?w) = trace slow_start @ replicate (Suc k) (health_request slow_host)"
    using builder_polling_ends [of 3 slow_host slow_start] by blast
  have "\<not> 1 < k" using k(2) slow_checks(2) by blast
  moreover have "k \<noteq> 0"
  proof
    assume "k = 0"
    then show False using ends slow_checks(1) by simp
  qed
  ultimately have "k = 1" by simp
  then show ?thesis
    using ends slow_checks(3) by (auto simp: slow_start_def trace_def numeral_2_eq_2 split: prod.splits sum.splits)
qed

end
