(* ===== verification/Contract_Tokens.thy ===== *)
theory Contract_Tokens
  imports Amounts
begin

text \<open>
  The sandbox tokens (\<^verbatim>\<open>blockchain/src/tokens/SandboxERC20.sol\<close>): their state, their functions on
  256-bit words, and the conservation of the supply.  A call that reverts is \<open>None\<close>; events and
  the texts of reverts are not modelled.
\<close>

section \<open>State and functions\<close>

type_synonym address = "160 word"

record token =
  totalSupply :: uint256
  minter :: address
  balanceOf :: "address \<Rightarrow> uint256"
  allowance :: "address \<Rightarrow> address \<Rightarrow> uint256"

definition checked_sub :: "uint256 \<Rightarrow> uint256 \<Rightarrow> uint256 option" where
  "checked_sub a b = (if b \<le> a then Some (a - b) else None)"

definition SandboxERC20_new :: "address \<Rightarrow> token option" where
  "SandboxERC20_new m =
     (if m = 0 then None
      else Some \<lparr>totalSupply = 0, minter = m, balanceOf = (\<lambda>_. 0), allowance = (\<lambda>_ _. 0)\<rparr>)"

definition SandboxERC20_mint :: "address \<Rightarrow> address \<Rightarrow> uint256 \<Rightarrow> token \<Rightarrow> token option" where
  "SandboxERC20_mint sender to amount t =
     (if sender \<noteq> minter t then None
      else if to = 0 then None
      else Option.bind (checked_add (totalSupply t) amount) (\<lambda>supply.
           Option.bind (checked_add (balanceOf t to) amount) (\<lambda>bal.
           Some (t\<lparr>totalSupply := supply, balanceOf := (balanceOf t)(to := bal)\<rparr>))))"

definition SandboxERC20_approve :: "address \<Rightarrow> address \<Rightarrow> uint256 \<Rightarrow> token \<Rightarrow> token option" where
  "SandboxERC20_approve sender spender amount t =
     Some (t\<lparr>allowance := (allowance t)(sender := (allowance t sender)(spender := amount))\<rparr>)"

text \<open>The internal \<^verbatim>\<open>_transfer\<close>, and the two functions that use it.\<close>

definition SandboxERC20_move :: "address \<Rightarrow> address \<Rightarrow> uint256 \<Rightarrow> token \<Rightarrow> token option" where
  "SandboxERC20_move sender to amount t =
     (if to = 0 then None
      else if \<not> amount \<le> balanceOf t sender then None
      else Option.bind (checked_sub (balanceOf t sender) amount) (\<lambda>rest.
           let t' = t\<lparr>balanceOf := (balanceOf t)(sender := rest)\<rparr> in
           Option.bind (checked_add (balanceOf t' to) amount) (\<lambda>bal.
           Some (t'\<lparr>balanceOf := (balanceOf t')(to := bal)\<rparr>))))"

definition SandboxERC20_transfer :: "address \<Rightarrow> address \<Rightarrow> uint256 \<Rightarrow> token \<Rightarrow> token option" where
  "SandboxERC20_transfer sender to amount t = SandboxERC20_move sender to amount t"

definition SandboxERC20_transferFrom ::
  "address \<Rightarrow> address \<Rightarrow> address \<Rightarrow> uint256 \<Rightarrow> token \<Rightarrow> token option" where
  "SandboxERC20_transferFrom sender owner to amount t =
     (let allowed = allowance t owner sender in
      if \<not> amount \<le> allowed then None
      else Option.bind
             (if allowed \<noteq> - 1
              then Option.bind (checked_sub allowed amount) (\<lambda>rest.
                   Some (t\<lparr>allowance := (allowance t)(owner := (allowance t owner)(sender := rest))\<rparr>))
              else Some t)
             (SandboxERC20_move owner to amount))"

section \<open>Conservation\<close>

text \<open>The balances of all addresses add up to the supply.\<close>

definition supply_ok :: "token \<Rightarrow> bool" where
  "supply_ok t \<longleftrightarrow> (\<Sum>a\<in>UNIV. uint (balanceOf t a)) = uint (totalSupply t)"

lemma sum_split_one:
  fixes f :: "address \<Rightarrow> int"
  shows "(\<Sum>a\<in>UNIV. f a) = f k + (\<Sum>a\<in>UNIV - {k}. f a)"
  by (simp add: sum.remove)

lemma sum_update:
  fixes b :: "address \<Rightarrow> uint256"
  shows "(\<Sum>a\<in>UNIV. uint ((b(k := v)) a)) = (\<Sum>a\<in>UNIV. uint (b a)) - uint (b k) + uint v"
  by (simp add: sum_split_one [of _ k])

lemma balance_le_supply: "supply_ok t \<Longrightarrow> uint (balanceOf t a) \<le> uint (totalSupply t)"
  unfolding supply_ok_def
  by (metis (no_types, lifting) UNIV_I finite member_le_sum uint_0_iff unsigned_greater_eq)

lemma two_balances_le_supply:
  assumes "supply_ok t" and "a \<noteq> b"
  shows "uint (balanceOf t a) + uint (balanceOf t b) \<le> uint (totalSupply t)"
proof -
  have "(\<Sum>x\<in>{a, b}. uint (balanceOf t x)) \<le> (\<Sum>x\<in>UNIV. uint (balanceOf t x))"
    by (rule sum_mono2) auto
  then show ?thesis using assms by (simp add: supply_ok_def)
qed

lemma checked_sub_Some: "checked_sub a b = Some c \<longleftrightarrow> uint b \<le> uint a \<and> uint c = uint a - uint b"
proof (cases "b \<le> a")
  case True
  then have "uint (a - b) = uint a - uint b" using uint_sub_lem [of b a] by (simp add: word_le_def)
  then show ?thesis using True by (auto simp: checked_sub_def word_le_def word_uint_eq_iff)
next
  case False
  then show ?thesis by (simp add: checked_sub_def word_le_def)
qed

text \<open>What a transfer does to the balances.\<close>

definition moved :: "address \<Rightarrow> address \<Rightarrow> int \<Rightarrow> token \<Rightarrow> token \<Rightarrow> bool" where
  "moved sender to n t t' \<longleftrightarrow>
     totalSupply t' = totalSupply t \<and> minter t' = minter t \<and>
     (\<forall>a. uint (balanceOf t' a) = uint (balanceOf t a) -
            (if a = sender then n else 0) + (if a = to then n else 0))"

lemma uint_max: "uint (a :: uint256) < 2 ^ 256"
  using uint_lt2p [of a] by simp

lemma move_Some:
  assumes ok: "supply_ok t" and "to \<noteq> 0" and n: "uint n \<le> uint (balanceOf t sender)"
  shows "\<exists>t'. SandboxERC20_move sender to n t = Some t' \<and> moved sender to (uint n) t t' \<and>
    allowance t' = allowance t"
proof -
  obtain r where r: "checked_sub (balanceOf t sender) n = Some r" "uint r = uint (balanceOf t sender) - uint n"
    using n checked_sub_Some [of "balanceOf t sender" n] by (auto simp: checked_sub_def word_le_def)
  let ?t = "t\<lparr>balanceOf := (balanceOf t)(sender := r)\<rparr>"
  have "uint (balanceOf ?t to) + uint n < 2 ^ 256"
  proof (cases "to = sender")
    case True
    then show ?thesis using r(2) uint_max [of "balanceOf t sender"] by simp
  next
    case False
    then have "uint (balanceOf t sender) + uint (balanceOf t to) \<le> uint (totalSupply t)"
      using two_balances_le_supply [OF ok, of sender to] by simp
    then show ?thesis using False n uint_max [of "totalSupply t"] by simp
  qed
  then obtain b where b: "checked_add (balanceOf ?t to) n = Some b" "uint b = uint (balanceOf ?t to) + uint n"
    using checked_add_Some [of "balanceOf ?t to" n] by (auto simp: checked_add_def)
  have "SandboxERC20_move sender to n t = Some (?t\<lparr>balanceOf := (balanceOf ?t)(to := b)\<rparr>)"
    using assms r(1) b(1) by (simp add: SandboxERC20_move_def Let_def word_le_def)
  moreover have "moved sender to (uint n) t (?t\<lparr>balanceOf := (balanceOf ?t)(to := b)\<rparr>)"
    using r(2) b(2) by (auto simp: moved_def)
  ultimately show ?thesis by simp
qed

lemma move_SomeD:
  assumes ok: "supply_ok t" and m: "SandboxERC20_move sender to n t = Some t'"
  shows "to \<noteq> 0 \<and> uint n \<le> uint (balanceOf t sender) \<and> moved sender to (uint n) t t' \<and>
    allowance t' = allowance t"
proof -
  have c: "to \<noteq> 0" "uint n \<le> uint (balanceOf t sender)"
    using m by (auto simp: SandboxERC20_move_def word_le_def split: if_splits)
  from move_Some [OF ok c] m c show ?thesis by auto
qed

lemma moved_supply:
  assumes ok: "supply_ok t" and m: "moved sender to n t t'"
  shows "supply_ok t'"
proof -
  have "(\<Sum>a\<in>UNIV. uint (balanceOf t' a)) =
      (\<Sum>a\<in>UNIV. uint (balanceOf t a) - (if a = sender then n else 0) + (if a = to then n else 0))"
    using m by (simp add: moved_def)
  also have "\<dots> = (\<Sum>a\<in>UNIV. uint (balanceOf t a))"
    by (simp add: sum.distrib sum_subtractf)
  finally show ?thesis using ok m by (simp add: supply_ok_def moved_def)
qed

text \<open>Spending an allowance: all of it is conserved when it is unlimited.\<close>

definition spent :: "address \<Rightarrow> address \<Rightarrow> int \<Rightarrow> token \<Rightarrow> token \<Rightarrow> bool" where
  "spent owner spender n t t' \<longleftrightarrow>
     (\<forall>a b. uint (allowance t' a b) =
        uint (allowance t a b) - (if a = owner \<and> b = spender \<and> allowance t a b \<noteq> - 1 then n else 0))"

lemma transferFrom_Some:
  assumes ok: "supply_ok t" and "to \<noteq> 0" and n: "uint n \<le> uint (balanceOf t owner)"
    and a: "uint n \<le> uint (allowance t owner sender)"
  shows "\<exists>t'. SandboxERC20_transferFrom sender owner to n t = Some t' \<and> moved owner to (uint n) t t' \<and>
    spent owner sender (uint n) t t'"
proof (cases "allowance t owner sender = - 1")
  case True
  then show ?thesis
    using move_Some [OF ok assms(2) n] a
    by (auto simp: SandboxERC20_transferFrom_def spent_def word_le_def)
next
  case False
  obtain r where r: "checked_sub (allowance t owner sender) n = Some r"
    "uint r = uint (allowance t owner sender) - uint n"
    using a checked_sub_Some [of "allowance t owner sender" n] by (auto simp: checked_sub_def word_le_def)
  let ?t = "t\<lparr>allowance := (allowance t)(owner := (allowance t owner)(sender := r))\<rparr>"
  have "supply_ok ?t" using ok by (simp add: supply_ok_def)
  from move_Some [OF this assms(2), of n owner] n obtain t' where
    t': "SandboxERC20_move owner to n ?t = Some t'" "moved owner to (uint n) ?t t'" "allowance t' = allowance ?t"
    by auto
  have "SandboxERC20_transferFrom sender owner to n t = Some t'"
    using False a r(1) t'(1) by (simp add: SandboxERC20_transferFrom_def word_le_def)
  moreover have "moved owner to (uint n) t t'" using t'(2) by (simp add: moved_def)
  moreover have "spent owner sender (uint n) t t'" using t'(3) r(2) False by (auto simp: spent_def)
  ultimately show ?thesis by blast
qed

lemma transferFrom_SomeD:
  assumes ok: "supply_ok t" and m: "SandboxERC20_transferFrom sender owner to n t = Some t'"
  shows "to \<noteq> 0 \<and> uint n \<le> uint (balanceOf t owner) \<and> uint n \<le> uint (allowance t owner sender) \<and>
    moved owner to (uint n) t t' \<and> spent owner sender (uint n) t t'"
proof -
  have a: "uint n \<le> uint (allowance t owner sender)"
    using m by (auto simp: SandboxERC20_transferFrom_def word_le_def Let_def split: if_splits)
  have c: "to \<noteq> 0" "uint n \<le> uint (balanceOf t owner)"
    using m by (auto simp: SandboxERC20_transferFrom_def SandboxERC20_move_def word_le_def Let_def
        bind_eq_Some_conv split: if_splits)
  from transferFrom_Some [OF ok c a] m a c show ?thesis by auto
qed

lemma mint_SomeD:
  assumes ok: "supply_ok t" and m: "SandboxERC20_mint sender to n t = Some t'"
  shows "sender = minter t \<and> minter t' = minter t \<and> allowance t' = allowance t \<and> supply_ok t' \<and>
    (\<forall>a. uint (balanceOf t' a) = uint (balanceOf t a) + (if a = to then uint n else 0))"
proof -
  from m obtain u b where
    u: "checked_add (totalSupply t) n = Some u" and b: "checked_add (balanceOf t to) n = Some b" and
    t': "t' = t\<lparr>totalSupply := u, balanceOf := (balanceOf t)(to := b)\<rparr>" "sender = minter t"
    by (auto simp: SandboxERC20_mint_def bind_eq_Some_conv split: if_splits)
  have "uint u = uint (totalSupply t) + uint n" "uint b = uint (balanceOf t to) + uint n"
    using u b by (simp_all add: checked_add_Some)
  moreover have "(\<Sum>a\<in>UNIV. uint (((balanceOf t)(to := b)) a)) =
      (\<Sum>a\<in>UNIV. uint (balanceOf t a)) - uint (balanceOf t to) + uint b"
    by (rule sum_update)
  ultimately show ?thesis using ok t' by (auto simp: supply_ok_def)
qed

lemma approve_simps [simp]:
  "supply_ok (t\<lparr>allowance := f\<rparr>) = supply_ok t"
  by (simp add: supply_ok_def)

lemma new_supply: "SandboxERC20_new m = Some t \<Longrightarrow> supply_ok t"
  by (auto simp: SandboxERC20_new_def supply_ok_def split: if_splits)

end
