(* ===== verification/Contract_Dex.thy ===== *)
theory Contract_Dex
  imports Contract_Tokens
begin

text \<open>
  The pools (\<^verbatim>\<open>blockchain/src/dexes/SandboxDex.sol\<close>) on a chain of tokens, pools and backrun
  contracts: what a swap does, and when it reverts.
\<close>

section \<open>The chain\<close>

record dex =
  dex_tokenA :: address
  dex_tokenB :: address
  reserveA :: uint256
  reserveB :: uint256

text \<open>The contracts by their address; a backrun contract is its operator.\<close>

record chain =
  tokens :: "address \<Rightarrow> token option"
  pools :: "address \<Rightarrow> dex option"
  operators :: "address \<Rightarrow> address option"

text \<open>A call of a token; a call of an address without one reverts.\<close>

definition on_token :: "address \<Rightarrow> (token \<Rightarrow> token option) \<Rightarrow> chain \<Rightarrow> chain option" where
  "on_token a f c =
     Option.bind (tokens c a) (\<lambda>t. Option.bind (f t) (\<lambda>t'. Some (c\<lparr>tokens := (tokens c)(a := Some t')\<rparr>)))"

section \<open>The functions of a pool\<close>

definition SandboxDex_new :: "address \<Rightarrow> address \<Rightarrow> dex option" where
  "SandboxDex_new tokenA tokenB =
     (if tokenA = 0 then None else if tokenB = 0 then None else if tokenA = tokenB then None
      else Some \<lparr>dex_tokenA = tokenA, dex_tokenB = tokenB, reserveA = 0, reserveB = 0\<rparr>)"

definition SandboxDex_seedLiquidity ::
  "address \<Rightarrow> address \<Rightarrow> uint256 \<Rightarrow> uint256 \<Rightarrow> chain \<Rightarrow> chain option" where
  "SandboxDex_seedLiquidity self sender amountA amountB c =
     Option.bind (pools c self) (\<lambda>d.
     if \<not> amountA > 0 then None
     else if \<not> amountB > 0 then None
     else
       Option.bind (on_token (dex_tokenA d) (SandboxERC20_transferFrom self sender self amountA) c) (\<lambda>c1.
       Option.bind (on_token (dex_tokenB d) (SandboxERC20_transferFrom self sender self amountB) c1) (\<lambda>c2.
       Option.bind (pools c2 self) (\<lambda>d'.
       Option.bind (checked_add (reserveA d') amountA) (\<lambda>a.
       Option.bind (checked_add (reserveB d') amountB) (\<lambda>b.
       Some (c2\<lparr>pools := (pools c2)(self := Some (d'\<lparr>reserveA := a, reserveB := b\<rparr>))\<rparr>)))))))"

text \<open>The private \<^verbatim>\<open>_swapExactIn\<close>.\<close>

definition SandboxDex_swapExactIn ::
  "address \<Rightarrow> address \<Rightarrow> address \<Rightarrow> address \<Rightarrow> uint256 \<Rightarrow> uint256 \<Rightarrow> uint256 \<Rightarrow> uint256 \<Rightarrow> chain \<Rightarrow>
   (uint256 \<times> chain) option" where
  "SandboxDex_swapExactIn self sender tokenIn tokenOut amountIn minAmountOut reserveIn reserveOut c =
     Option.bind (SandboxDex_getAmountOut amountIn reserveIn reserveOut) (\<lambda>amountOut.
     if \<not> amountOut > 0 then None
     else if \<not> minAmountOut \<le> amountOut then None
     else
       Option.bind (on_token tokenIn (SandboxERC20_transferFrom self sender self amountIn) c) (\<lambda>c1.
       Option.bind (on_token tokenOut (SandboxERC20_transfer self sender amountOut) c1) (\<lambda>c2.
       Some (amountOut, c2))))"

definition SandboxDex_swapExactAForB ::
  "address \<Rightarrow> address \<Rightarrow> uint256 \<Rightarrow> uint256 \<Rightarrow> chain \<Rightarrow> (uint256 \<times> chain) option" where
  "SandboxDex_swapExactAForB self sender amountIn minAmountOut c =
     Option.bind (pools c self) (\<lambda>d.
     Option.bind (SandboxDex_swapExactIn self sender (dex_tokenA d) (dex_tokenB d) amountIn minAmountOut
                    (reserveA d) (reserveB d) c) (\<lambda>(amountOut, c1).
     Option.bind (pools c1 self) (\<lambda>d'.
     Option.bind (checked_add (reserveA d') amountIn) (\<lambda>a.
     Option.bind (checked_sub (reserveB d') amountOut) (\<lambda>b.
     Some (amountOut, c1\<lparr>pools := (pools c1)(self := Some (d'\<lparr>reserveA := a, reserveB := b\<rparr>))\<rparr>))))))"

definition SandboxDex_swapExactBForA ::
  "address \<Rightarrow> address \<Rightarrow> uint256 \<Rightarrow> uint256 \<Rightarrow> chain \<Rightarrow> (uint256 \<times> chain) option" where
  "SandboxDex_swapExactBForA self sender amountIn minAmountOut c =
     Option.bind (pools c self) (\<lambda>d.
     Option.bind (SandboxDex_swapExactIn self sender (dex_tokenB d) (dex_tokenA d) amountIn minAmountOut
                    (reserveB d) (reserveA d) c) (\<lambda>(amountOut, c1).
     Option.bind (pools c1 self) (\<lambda>d'.
     Option.bind (checked_add (reserveB d') amountIn) (\<lambda>b.
     Option.bind (checked_sub (reserveA d') amountOut) (\<lambda>a.
     Some (amountOut, c1\<lparr>pools := (pools c1)(self := Some (d'\<lparr>reserveA := a, reserveB := b\<rparr>))\<rparr>))))))"

section \<open>Effects on balances\<close>

text \<open>The balance of an account in a token of the chain; 0 where there is no token.\<close>

definition bal :: "chain \<Rightarrow> address \<Rightarrow> address \<Rightarrow> int" where
  "bal c tok a = (case tokens c tok of None \<Rightarrow> 0 | Some t \<Rightarrow> uint (balanceOf t a))"

definition allowed :: "chain \<Rightarrow> address \<Rightarrow> address \<Rightarrow> address \<Rightarrow> int" where
  "allowed c tok a b = (case tokens c tok of None \<Rightarrow> 0 | Some t \<Rightarrow> uint (allowance t a b))"

definition supplies_ok :: "chain \<Rightarrow> bool" where
  "supplies_ok c \<longleftrightarrow> (\<forall>a t. tokens c a = Some t \<longrightarrow> supply_ok t)"

text \<open>
  A call that moves an amount of one token: the other tokens, the pools and the operators stay, and
  allowances are only ever spent by the given spender, if any.
\<close>

definition moves ::
  "address \<Rightarrow> address \<Rightarrow> address \<Rightarrow> int \<Rightarrow> chain \<Rightarrow> chain \<Rightarrow> bool" where
  "moves tok sender to n c c' \<longleftrightarrow>
     pools c' = pools c \<and> operators c' = operators c \<and> dom (tokens c') = dom (tokens c) \<and>
     supplies_ok c' \<and>
     (\<forall>k a. bal c' k a = bal c k a - (if k = tok \<and> a = sender then n else 0) +
                         (if k = tok \<and> a = to then n else 0)) \<and>
     (\<forall>k a b. allowed c' k a b \<le> allowed c k a b) \<and>
     (\<forall>k a b. k \<noteq> tok \<or> a \<noteq> sender \<longrightarrow> allowed c' k a b = allowed c k a b)"

lemma on_token_moved:
  assumes ok: "supplies_ok c" and t: "tokens c tok = Some t" and f: "f t = Some t'"
    and m: "moved sender to n t t'" and n: "0 \<le> n"
    and a: "\<And>x b. uint (allowance t' x b) \<le> uint (allowance t x b)"
      "\<And>x b. x \<noteq> sender \<Longrightarrow> uint (allowance t' x b) = uint (allowance t x b)"
  shows "on_token tok f c = Some (c\<lparr>tokens := (tokens c)(tok := Some t')\<rparr>)"
    and "moves tok sender to n c (c\<lparr>tokens := (tokens c)(tok := Some t')\<rparr>)"
proof -
  show "on_token tok f c = Some (c\<lparr>tokens := (tokens c)(tok := Some t')\<rparr>)"
    using t f by (simp add: on_token_def)
  have "supply_ok t'" using moved_supply [OF _ m] ok t by (auto simp: supplies_ok_def)
  then show "moves tok sender to n c (c\<lparr>tokens := (tokens c)(tok := Some t')\<rparr>)"
    using ok t m a
    by (auto simp: moves_def supplies_ok_def bal_def allowed_def moved_def split: option.splits)
qed

text \<open>
  The contract the pools rely on: a call of a token that moves an amount from an owner, when the
  owner has it and the call may; it succeeds exactly then, and spends nothing but the owner's
  allowances.  Some calls spend no allowance at all.
\<close>

locale token_call =
  fixes call :: "address \<Rightarrow> address \<Rightarrow> uint256 \<Rightarrow> token \<Rightarrow> token option"
    and may :: "address \<Rightarrow> uint256 \<Rightarrow> token \<Rightarrow> bool"
  assumes call_only: "supply_ok t \<Longrightarrow> call owner to n t = Some t' \<Longrightarrow>
      to \<noteq> 0 \<and> uint n \<le> uint (balanceOf t owner) \<and> may owner n t"
    and call_runs: "supply_ok t \<Longrightarrow> to \<noteq> 0 \<Longrightarrow> uint n \<le> uint (balanceOf t owner) \<Longrightarrow> may owner n t \<Longrightarrow>
      \<exists>t'. call owner to n t = Some t' \<and> moved owner to (uint n) t t' \<and>
        (\<forall>a b. uint (allowance t' a b) \<le> uint (allowance t a b)) \<and>
        (\<forall>a b. a \<noteq> owner \<longrightarrow> uint (allowance t' a b) = uint (allowance t a b))"
begin

definition permits :: "chain \<Rightarrow> address \<Rightarrow> address \<Rightarrow> uint256 \<Rightarrow> bool" where
  "permits c tok owner n \<longleftrightarrow> (\<exists>t. tokens c tok = Some t \<and> may owner n t)"

lemma on_chain:
  assumes ok: "supplies_ok c" and p: "permits c tok owner n" and "to \<noteq> 0"
    and n: "uint n \<le> bal c tok owner"
  shows "\<exists>c'. on_token tok (call owner to n) c = Some c' \<and> moves tok owner to (uint n) c c'"
proof -
  obtain t where t: "tokens c tok = Some t" and m: "may owner n t" using p by (auto simp: permits_def)
  have s: "supply_ok t" using ok t by (simp add: supplies_ok_def)
  from call_runs [OF s assms(3) _ m] n t obtain t' where
    t': "call owner to n t = Some t'" "moved owner to (uint n) t t'"
      "\<forall>a b. uint (allowance t' a b) \<le> uint (allowance t a b)"
      "\<forall>a b. a \<noteq> owner \<longrightarrow> uint (allowance t' a b) = uint (allowance t a b)"
    by (auto simp: bal_def)
  show ?thesis
    using on_token_moved [where f = "call owner to n", OF ok t t'(1,2)] t'(3,4) by auto
qed

lemma on_chainD:
  assumes ok: "supplies_ok c" and r: "on_token tok (call owner to n) c = Some c'"
  shows "tok \<in> dom (tokens c) \<and> to \<noteq> 0 \<and> uint n \<le> bal c tok owner \<and> permits c tok owner n \<and>
    moves tok owner to (uint n) c c'"
proof -
  obtain t t' where t: "tokens c tok = Some t" and t': "call owner to n t = Some t'"
    using r by (auto simp: on_token_def bind_eq_Some_conv)
  have "supply_ok t" using ok t by (simp add: supplies_ok_def)
  then have "to \<noteq> 0" "uint n \<le> bal c tok owner" "permits c tok owner n"
    using call_only [OF _ t'] t by (simp_all add: bal_def permits_def)
  then show ?thesis using on_chain [OF ok, of tok owner n to] r t by auto
qed

end

locale quiet_token_call = token_call +
  assumes call_quiet: "call owner to n t = Some t' \<Longrightarrow> allowance t' = allowance t"
begin

lemma on_chain_quiet: "on_token tok (call owner to n) c = Some c' \<Longrightarrow> allowed c' = allowed c"
  by (auto simp: on_token_def bind_eq_Some_conv allowed_def fun_eq_iff dest: call_quiet)

end

interpretation transfer: quiet_token_call SandboxERC20_transfer "\<lambda>_ _ _. True"
proof
  fix t t' :: token and owner to :: address and n :: uint256
  assume ok: "supply_ok t"
  show "to \<noteq> 0 \<and> uint n \<le> uint (balanceOf t owner) \<and> True"
    if "SandboxERC20_transfer owner to n t = Some t'"
    using move_SomeD [OF ok] that by (simp add: SandboxERC20_transfer_def)
  show "\<exists>t'. SandboxERC20_transfer owner to n t = Some t' \<and> moved owner to (uint n) t t' \<and>
      (\<forall>a b. uint (allowance t' a b) \<le> uint (allowance t a b)) \<and>
      (\<forall>a b. a \<noteq> owner \<longrightarrow> uint (allowance t' a b) = uint (allowance t a b))"
    if "to \<noteq> 0" "uint n \<le> uint (balanceOf t owner)"
    using move_Some [OF ok that] by (auto simp: SandboxERC20_transfer_def)
next
  fix t t' :: token and owner to :: address and n :: uint256
  assume "SandboxERC20_transfer owner to n t = Some t'"
  then show "allowance t' = allowance t"
    by (auto simp: SandboxERC20_transfer_def SandboxERC20_move_def Let_def bind_eq_Some_conv
        split: if_splits)
qed

interpretation spend: token_call "SandboxERC20_transferFrom spender"
    "\<lambda>owner n t. uint n \<le> uint (allowance t owner spender)" for spender
proof
  fix t t' :: token and owner to :: address and n :: uint256
  assume ok: "supply_ok t"
  show "to \<noteq> 0 \<and> uint n \<le> uint (balanceOf t owner) \<and> uint n \<le> uint (allowance t owner spender)"
    if "SandboxERC20_transferFrom spender owner to n t = Some t'"
    using transferFrom_SomeD [OF ok that] by simp
  show "\<exists>t'. SandboxERC20_transferFrom spender owner to n t = Some t' \<and> moved owner to (uint n) t t' \<and>
      (\<forall>a b. uint (allowance t' a b) \<le> uint (allowance t a b)) \<and>
      (\<forall>a b. a \<noteq> owner \<longrightarrow> uint (allowance t' a b) = uint (allowance t a b))"
    if "to \<noteq> 0" "uint n \<le> uint (balanceOf t owner)" "uint n \<le> uint (allowance t owner spender)"
    using transferFrom_Some [OF ok that] by (auto simp: spent_def)
qed

lemma transfer_run:
  assumes "supplies_ok c" and "tok \<in> dom (tokens c)" and "to \<noteq> 0" and "uint n \<le> bal c tok sender"
  shows "\<exists>c'. on_token tok (SandboxERC20_transfer sender to n) c = Some c' \<and>
    moves tok sender to (uint n) c c' \<and> allowed c' = allowed c"
  using transfer.on_chain [OF assms(1) _ assms(3,4)] assms(2) transfer.on_chain_quiet
  by (fastforce simp: transfer.permits_def)

lemma transfer_runD:
  assumes "supplies_ok c" and r: "on_token tok (SandboxERC20_transfer sender to n) c = Some c'"
  shows "tok \<in> dom (tokens c) \<and> to \<noteq> 0 \<and> uint n \<le> bal c tok sender \<and> moves tok sender to (uint n) c c' \<and>
    allowed c' = allowed c"
  using transfer.on_chainD [OF assms] transfer.on_chain_quiet [OF r] by simp

lemma spend_permits:
  "spend.permits s c tok owner n \<longleftrightarrow> tok \<in> dom (tokens c) \<and> uint n \<le> allowed c tok owner s"
  by (auto simp: spend.permits_def allowed_def)

lemma transferFrom_run:
  assumes "supplies_ok c" and "tok \<in> dom (tokens c)" and "to \<noteq> 0"
    and "uint n \<le> bal c tok owner" and "uint n \<le> allowed c tok owner sender"
  shows "\<exists>c'. on_token tok (SandboxERC20_transferFrom sender owner to n) c = Some c' \<and>
    moves tok owner to (uint n) c c'"
  using assms by (intro spend.on_chain) (simp_all add: spend_permits)

lemma transferFrom_runD:
  assumes "supplies_ok c" and "on_token tok (SandboxERC20_transferFrom sender owner to n) c = Some c'"
  shows "tok \<in> dom (tokens c) \<and> to \<noteq> 0 \<and> uint n \<le> bal c tok owner \<and>
    uint n \<le> allowed c tok owner sender \<and> moves tok owner to (uint n) c c'"
  using spend.on_chainD [OF assms] by (simp add: spend_permits)

section \<open>Swaps\<close>

text \<open>
  A swap's transfers: the input from the trader to the pool, the output back.  It goes through
  when the quote is positive and not below the minimum and the trader has and allows the input,
  and it reverts otherwise.
\<close>

definition traded ::
  "address \<Rightarrow> address \<Rightarrow> address \<Rightarrow> address \<Rightarrow> int \<Rightarrow> int \<Rightarrow> chain \<Rightarrow> chain \<Rightarrow> bool" where
  "traded tokenIn tokenOut self sender n q c c' \<longleftrightarrow>
     (\<exists>c1. moves tokenIn sender self n c c1 \<and> moves tokenOut self sender q c1 c' \<and> allowed c' = allowed c1)"

lemma swapExactIn_run:
  assumes ok: "supplies_ok c" and q: "SandboxDex_getAmountOut n x y = Some w" "0 < w" "m \<le> w"
    and toks: "tokenIn \<in> dom (tokens c)" "tokenOut \<in> dom (tokens c)" "tokenIn \<noteq> tokenOut"
    and who: "self \<noteq> 0" "sender \<noteq> 0"
    and n: "uint n \<le> bal c tokenIn sender" "uint n \<le> allowed c tokenIn sender self"
    and out: "uint w \<le> bal c tokenOut self"
  shows "\<exists>c'. SandboxDex_swapExactIn self sender tokenIn tokenOut n m x y c = Some (w, c') \<and>
    traded tokenIn tokenOut self sender (uint n) (uint w) c c'"
proof -
  from transferFrom_run [OF ok toks(1) who(1) n] obtain c1 where
    c1: "on_token tokenIn (SandboxERC20_transferFrom self sender self n) c = Some c1"
      "moves tokenIn sender self (uint n) c c1" by blast
  have "supplies_ok c1" "tokenOut \<in> dom (tokens c1)" "uint w \<le> bal c1 tokenOut self"
    using c1(2) toks out by (auto simp: moves_def)
  from transfer_run [OF this(1,2) who(2) this(3)] obtain c2 where
    "on_token tokenOut (SandboxERC20_transfer self sender w) c1 = Some c2"
    "moves tokenOut self sender (uint w) c1 c2" "allowed c2 = allowed c1" by blast
  then show ?thesis
    using q c1 by (auto simp: SandboxDex_swapExactIn_def traded_def)
qed

lemma swapExactIn_runD:
  assumes ok: "supplies_ok c"
    and r: "SandboxDex_swapExactIn self sender tokenIn tokenOut n m x y c = Some (w, c')"
  shows "SandboxDex_getAmountOut n x y = Some w \<and> 0 < w \<and> m \<le> w \<and>
    traded tokenIn tokenOut self sender (uint n) (uint w) c c' \<and>
    uint n \<le> bal c tokenIn sender \<and> uint n \<le> allowed c tokenIn sender self"
proof -
  from r obtain c1 where
    q: "SandboxDex_getAmountOut n x y = Some w" "0 < w" "m \<le> w" and
    c1: "on_token tokenIn (SandboxERC20_transferFrom self sender self n) c = Some c1" and
    c2: "on_token tokenOut (SandboxERC20_transfer self sender w) c1 = Some c'"
    by (auto simp: SandboxDex_swapExactIn_def bind_eq_Some_conv split: if_splits)
  note D1 = transferFrom_runD [OF ok c1]
  then have "supplies_ok c1" by (simp add: moves_def)
  note D2 = transfer_runD [OF this c2]
  show ?thesis using q D1 D2 by (auto simp: traded_def)
qed

lemma traded_pools:
  "traded ti to' p s n q c c' \<Longrightarrow> pools c' = pools c \<and> operators c' = operators c \<and>
     dom (tokens c') = dom (tokens c) \<and> supplies_ok c'"
  unfolding traded_def moves_def by (elim exE conjE) simp

lemma traded_bal:
  "traded ti to' p s n q c c' \<Longrightarrow>
   bal c' k a = bal c k a
     - (if k = ti \<and> a = s then n else 0) + (if k = ti \<and> a = p then n else 0)
     - (if k = to' \<and> a = p then q else 0) + (if k = to' \<and> a = s then q else 0)"
  by (auto simp: traded_def moves_def)

lemma traded_allowed:
  "traded ti to' p s n q c c' \<Longrightarrow> allowed c' k a b \<le> allowed c k a b"
  "traded ti to' p s n q c c' \<Longrightarrow> k \<noteq> ti \<or> a \<noteq> s \<Longrightarrow> allowed c' k a b = allowed c k a b"
  by (auto simp: traded_def moves_def)

text \<open>Updating a pool touches nothing else.\<close>

lemma pools_update_simps [simp]:
  "bal (c\<lparr>pools := P\<rparr>) = bal c" "allowed (c\<lparr>pools := P\<rparr>) = allowed c"
  "supplies_ok (c\<lparr>pools := P\<rparr>) = supplies_ok c"
  by (auto simp: bal_def allowed_def supplies_ok_def fun_eq_iff)

lemma swapAForB_runD:
  assumes ok: "supplies_ok c" and r: "SandboxDex_swapExactAForB p s n m c = Some (w, c')"
  shows "\<exists>d c1 a b. pools c p = Some d \<and>
    SandboxDex_getAmountOut n (reserveA d) (reserveB d) = Some w \<and> 0 < w \<and> m \<le> w \<and>
    traded (dex_tokenA d) (dex_tokenB d) p s (uint n) (uint w) c c1 \<and>
    uint a = uint (reserveA d) + uint n \<and> uint b = uint (reserveB d) - uint w \<and>
    c' = c1\<lparr>pools := (pools c)(p := Some (d\<lparr>reserveA := a, reserveB := b\<rparr>))\<rparr>"
proof -
  from r obtain d c1 d' a b where
    d: "pools c p = Some d" and
    s: "SandboxDex_swapExactIn p s (dex_tokenA d) (dex_tokenB d) n m (reserveA d) (reserveB d) c = Some (w, c1)" and
    d': "pools c1 p = Some d'" "checked_add (reserveA d') n = Some a" "checked_sub (reserveB d') w = Some b" and
    c': "c' = c1\<lparr>pools := (pools c1)(p := Some (d'\<lparr>reserveA := a, reserveB := b\<rparr>))\<rparr>"
    by (auto simp: SandboxDex_swapExactAForB_def bind_eq_Some_conv)
  note D = swapExactIn_runD [OF ok s]
  then have "pools c1 = pools c" using traded_pools by blast
  then show ?thesis
    using D d d' c' by (auto simp: checked_add_Some checked_sub_Some)
qed

lemma swapBForA_runD:
  assumes ok: "supplies_ok c" and r: "SandboxDex_swapExactBForA p s n m c = Some (w, c')"
  shows "\<exists>d c1 a b. pools c p = Some d \<and>
    SandboxDex_getAmountOut n (reserveB d) (reserveA d) = Some w \<and> 0 < w \<and> m \<le> w \<and>
    traded (dex_tokenB d) (dex_tokenA d) p s (uint n) (uint w) c c1 \<and>
    uint a = uint (reserveA d) - uint w \<and> uint b = uint (reserveB d) + uint n \<and>
    c' = c1\<lparr>pools := (pools c)(p := Some (d\<lparr>reserveA := a, reserveB := b\<rparr>))\<rparr>"
proof -
  from r obtain d c1 d' a b where
    d: "pools c p = Some d" and
    s: "SandboxDex_swapExactIn p s (dex_tokenB d) (dex_tokenA d) n m (reserveB d) (reserveA d) c = Some (w, c1)" and
    d': "pools c1 p = Some d'" "checked_add (reserveB d') n = Some b" "checked_sub (reserveA d') w = Some a" and
    c': "c' = c1\<lparr>pools := (pools c1)(p := Some (d'\<lparr>reserveA := a, reserveB := b\<rparr>))\<rparr>"
    by (auto simp: SandboxDex_swapExactBForA_def bind_eq_Some_conv)
  note D = swapExactIn_runD [OF ok s]
  then have "pools c1 = pools c" using traded_pools by blast
  then show ?thesis
    using D d d' c' by (auto simp: checked_add_Some checked_sub_Some)
qed

lemma seed_runD:
  assumes ok: "supplies_ok c" and r: "SandboxDex_seedLiquidity p s m n c = Some c'"
  shows "\<exists>d c1 c2 a b. pools c p = Some d \<and> moves (dex_tokenA d) s p (uint m) c c1 \<and>
    moves (dex_tokenB d) s p (uint n) c1 c2 \<and>
    uint a = uint (reserveA d) + uint m \<and> uint b = uint (reserveB d) + uint n \<and>
    c' = c2\<lparr>pools := (pools c)(p := Some (d\<lparr>reserveA := a, reserveB := b\<rparr>))\<rparr>"
proof -
  from r obtain d c1 c2 d' a b where
    d: "pools c p = Some d" and
    c1: "on_token (dex_tokenA d) (SandboxERC20_transferFrom p s p m) c = Some c1" and
    c2: "on_token (dex_tokenB d) (SandboxERC20_transferFrom p s p n) c1 = Some c2" and
    d': "pools c2 p = Some d'" "checked_add (reserveA d') m = Some a" "checked_add (reserveB d') n = Some b" and
    c': "c' = c2\<lparr>pools := (pools c2)(p := Some (d'\<lparr>reserveA := a, reserveB := b\<rparr>))\<rparr>"
    by (auto simp: SandboxDex_seedLiquidity_def bind_eq_Some_conv split: if_splits)
  note D1 = transferFrom_runD [OF ok c1]
  then have "supplies_ok c1" by (simp add: moves_def)
  note D2 = transferFrom_runD [OF this c2]
  have "pools c2 = pools c" using D1 D2 by (simp add: moves_def)
  then show ?thesis
    using D1 D2 d d' c' by (auto simp: checked_add_Some)
qed

end
