(* ===== verification/Contract_Chain.thy ===== *)
theory Contract_Chain
  imports Contract_Dex
begin

text \<open>
  The backrun contract (\<^verbatim>\<open>blockchain/src/backrun/SandboxBackrun.sol\<close>), transactions of external
  accounts, and what holds on the chain after any of them: supplies are conserved, pools hold at
  least their reserves, and a pool's product never goes down.
\<close>

section \<open>The backrun contract\<close>

definition chain_balanceOf :: "address \<Rightarrow> address \<Rightarrow> chain \<Rightarrow> uint256 option" where
  "chain_balanceOf tok a c = map_option (\<lambda>t. balanceOf t a) (tokens c tok)"

definition SandboxBackrun_new :: "address \<Rightarrow> address option" where
  "SandboxBackrun_new operator = (if operator = 0 then None else Some operator)"

definition SandboxBackrun_executeBackrun ::
  "address \<Rightarrow> address \<Rightarrow> address \<Rightarrow> address \<Rightarrow> uint256 \<Rightarrow> uint256 \<Rightarrow> uint256 \<Rightarrow> uint256 \<Rightarrow> chain \<Rightarrow>
   (uint256 \<times> uint256 \<times> chain) option" where
  "SandboxBackrun_executeBackrun self sender buyPool sellPool amountInB minAmountOutA minAmountOutB
       minProfitB c =
     Option.bind (operators c self) (\<lambda>operator.
     if sender \<noteq> operator then None
     else if buyPool = 0 then None
     else if sellPool = 0 then None
     else if buyPool = sellPool then None
     else if \<not> amountInB > 0 then None
     else
       Option.bind (pools c buyPool) (\<lambda>buyDex.
       Option.bind (pools c sellPool) (\<lambda>sellDex.
       let tokenA = dex_tokenA buyDex; tokenB = dex_tokenB buyDex in
       if tokenA \<noteq> dex_tokenA sellDex then None
       else if tokenB \<noteq> dex_tokenB sellDex then None
       else
         Option.bind (chain_balanceOf tokenB self c) (\<lambda>initialBalanceB.
         if \<not> amountInB \<le> initialBalanceB then None
         else
           Option.bind (on_token tokenB (SandboxERC20_approve self buyPool amountInB) c) (\<lambda>c1.
           Option.bind (SandboxDex_swapExactBForA buyPool self amountInB minAmountOutA c1)
             (\<lambda>(amountOutA, c2).
           Option.bind (on_token tokenA (SandboxERC20_approve self sellPool amountOutA) c2) (\<lambda>c3.
           Option.bind (SandboxDex_swapExactAForB sellPool self amountOutA minAmountOutB c3)
             (\<lambda>(amountOutB, c4).
           Option.bind (chain_balanceOf tokenB self c4) (\<lambda>finalBalanceB.
           Option.bind (checked_sub finalBalanceB initialBalanceB) (\<lambda>profitB.
           if \<not> minProfitB \<le> profitB then None
           else Some (amountOutA, amountOutB, c4)))))))))))"

definition SandboxBackrun_withdrawToken ::
  "address \<Rightarrow> address \<Rightarrow> address \<Rightarrow> address \<Rightarrow> uint256 \<Rightarrow> chain \<Rightarrow> chain option" where
  "SandboxBackrun_withdrawToken self sender tok to amount c =
     Option.bind (operators c self) (\<lambda>operator.
     if sender \<noteq> operator then None
     else if tok = 0 then None
     else if to = 0 then None
     else on_token tok (SandboxERC20_transfer self to amount) c)"

section \<open>Transactions\<close>

text \<open>
  The external functions that change state, called directly by an external account: an address
  that hosts no contract.  A transaction that reverts leaves the chain as it was.
\<close>

datatype tx =
    Mint address address uint256
  | Approve address address uint256
  | Transfer address address uint256
  | TransferFrom address address address uint256
  | Seed address uint256 uint256
  | SwapAB address uint256 uint256
  | SwapBA address uint256 uint256
  | Backrun address address address uint256 uint256 uint256 uint256
  | Withdraw address address address uint256

fun exec_tx :: "address \<Rightarrow> tx \<Rightarrow> chain \<Rightarrow> chain option" where
  "exec_tx s (Mint tok to n) c = on_token tok (SandboxERC20_mint s to n) c"
| "exec_tx s (Approve tok b n) c = on_token tok (SandboxERC20_approve s b n) c"
| "exec_tx s (Transfer tok to n) c = on_token tok (SandboxERC20_transfer s to n) c"
| "exec_tx s (TransferFrom tok a to n) c = on_token tok (SandboxERC20_transferFrom s a to n) c"
| "exec_tx s (Seed p m n) c = SandboxDex_seedLiquidity p s m n c"
| "exec_tx s (SwapAB p n m) c = map_option snd (SandboxDex_swapExactAForB p s n m c)"
| "exec_tx s (SwapBA p n m) c = map_option snd (SandboxDex_swapExactBForA p s n m c)"
| "exec_tx s (Backrun k p1 p2 n a b m) c =
     map_option (snd \<circ> snd) (SandboxBackrun_executeBackrun k s p1 p2 n a b m c)"
| "exec_tx s (Withdraw k tok to n) c = SandboxBackrun_withdrawToken k s tok to n c"

definition external :: "chain \<Rightarrow> address \<Rightarrow> bool" where
  "external c s \<longleftrightarrow> s \<noteq> 0 \<and> tokens c s = None \<and> pools c s = None \<and> operators c s = None"

text \<open>
  An address a contract can be created at: nothing is there, and, as nobody has a key of it, it
  has not allowed anybody anything.
\<close>

definition unused :: "chain \<Rightarrow> address \<Rightarrow> bool" where
  "unused c a \<longleftrightarrow> tokens c a = None \<and> pools c a = None \<and> operators c a = None \<and>
     (\<forall>k b. allowed c k a b = 0)"

inductive chain_step :: "chain \<Rightarrow> chain \<Rightarrow> bool" where
  New_token: "unused c a \<Longrightarrow> SandboxERC20_new m = Some t \<Longrightarrow>
    chain_step c (c\<lparr>tokens := (tokens c)(a := Some t)\<rparr>)"
| New_pool: "unused c a \<Longrightarrow> SandboxDex_new ta tb = Some d \<Longrightarrow>
    chain_step c (c\<lparr>pools := (pools c)(a := Some d)\<rparr>)"
| New_backrun: "unused c a \<Longrightarrow> SandboxBackrun_new b = Some k \<Longrightarrow>
    chain_step c (c\<lparr>operators := (operators c)(a := Some k)\<rparr>)"
| Included: "external c s \<Longrightarrow> exec_tx s tx c = Some c' \<Longrightarrow> chain_step c c'"
| Reverted: "external c s \<Longrightarrow> exec_tx s tx c = None \<Longrightarrow> chain_step c c"

abbreviation chain_runs :: "chain \<Rightarrow> chain \<Rightarrow> bool" where
  "chain_runs \<equiv> chain_step\<^sup>*\<^sup>*"

section \<open>The invariant\<close>

text \<open>A pool holds its reserves, never allows anybody anything, and is no backrun contract.\<close>

definition pool_ok :: "chain \<Rightarrow> address \<Rightarrow> dex \<Rightarrow> bool" where
  "pool_ok c p d \<longleftrightarrow> dex_tokenA d \<noteq> dex_tokenB d \<and> operators c p = None \<and>
     uint (reserveA d) \<le> bal c (dex_tokenA d) p \<and> uint (reserveB d) \<le> bal c (dex_tokenB d) p \<and>
     (\<forall>k b. allowed c k p b = 0)"

definition chain_inv :: "chain \<Rightarrow> bool" where
  "chain_inv c \<longleftrightarrow> supplies_ok c \<and> (\<forall>p d. pools c p = Some d \<longrightarrow> pool_ok c p d)"

text \<open>
  Contracts stay, a backrun contract with its operator, a pool with its tokens, and the product of
  a pool does not go down.
\<close>

definition dex_evolves :: "dex \<Rightarrow> dex \<Rightarrow> bool" where
  "dex_evolves d d' \<longleftrightarrow> dex_tokenA d' = dex_tokenA d \<and> dex_tokenB d' = dex_tokenB d \<and>
     uint (reserveA d) * uint (reserveB d) \<le> uint (reserveA d') * uint (reserveB d')"

definition chain_evolves :: "chain \<Rightarrow> chain \<Rightarrow> bool" where
  "chain_evolves c c' \<longleftrightarrow> operators c \<subseteq>\<^sub>m operators c' \<and> dom (tokens c) \<subseteq> dom (tokens c') \<and>
     (\<forall>p d. pools c p = Some d \<longrightarrow> (\<exists>d'. pools c' p = Some d' \<and> dex_evolves d d'))"

lemma dex_evolves_trans: "dex_evolves d e \<Longrightarrow> dex_evolves e f \<Longrightarrow> dex_evolves d f"
  unfolding dex_evolves_def
  by (elim conjE, intro conjI) (simp, simp, erule (1) order_trans)

lemma dex_evolves_refl [simp]: "dex_evolves d d"
  by (simp add: dex_evolves_def)

interpretation chain_evolves: step_order chain_evolves
proof unfold_locales
  fix a b c :: chain
  show "chain_evolves a a" by (simp add: chain_evolves_def)
  assume ab: "chain_evolves a b" and bc: "chain_evolves b c"
  have "\<exists>f. pools c p = Some f \<and> dex_evolves d f" if d: "pools a p = Some d" for p d
  proof -
    obtain e where e: "pools b p = Some e" "dex_evolves d e"
      using ab d unfolding chain_evolves_def by metis
    obtain f where "pools c p = Some f" "dex_evolves e f"
      using bc e unfolding chain_evolves_def by metis
    then show ?thesis using e dex_evolves_trans by blast
  qed
  then show "chain_evolves a c"
    using ab bc unfolding chain_evolves_def by (meson map_le_trans order_trans)
qed

text \<open>Both at once: what every call keeps.\<close>

definition keeps_chain :: "chain \<Rightarrow> chain \<Rightarrow> bool" where
  "keeps_chain c c' \<longleftrightarrow> chain_inv c' \<and> chain_evolves c c'"

lemma keeps_chain_trans: "keeps_chain a b \<Longrightarrow> keeps_chain b c \<Longrightarrow> keeps_chain a c"
  unfolding keeps_chain_def using chain_evolves.step_trans by blast

lemma bal_nonneg: "0 \<le> bal c k a"
  by (simp add: bal_def split: option.split)

lemma allowed_nonneg: "0 \<le> allowed c k a b"
  by (simp add: allowed_def split: option.split)

text \<open>A transfer out of an account that is no pool.\<close>

lemma moves_keeps:
  assumes inv: "chain_inv c" and m: "moves tok s to n c c'" and "0 \<le> n" and "pools c s = None \<or> n = 0"
  shows "keeps_chain c c'"
proof -
  have "pool_ok c' p d" if "pools c p = Some d" for p d
  proof -
    have ok: "pool_ok c p d" using inv that by (simp add: chain_inv_def)
    have "p \<noteq> s \<or> n = 0" using assms(4) that by auto
    then have b: "bal c k p \<le> bal c' k p" for k
      using m assms(3) by (auto simp: moves_def)
    have "allowed c' k p b \<le> allowed c k p b" for k b
      using m by (simp add: moves_def)
    then have "allowed c' k p b = 0" for k b
      using ok allowed_nonneg [of c' k p b] by (metis antisym pool_ok_def)
    moreover have "operators c' p = None" using ok m by (simp add: moves_def pool_ok_def)
    ultimately show ?thesis
      using ok order_trans [OF _ b] by (simp add: pool_ok_def)
  qed
  then show ?thesis
    using m by (simp add: keeps_chain_def chain_inv_def moves_def chain_evolves_def)
qed

text \<open>Minting, and approving by an account that is no pool.\<close>

lemma mint_keeps:
  assumes inv: "chain_inv c" and r: "on_token tok (SandboxERC20_mint s to n) c = Some c'"
  shows "keeps_chain c c'"
proof -
  obtain t t' where t: "tokens c tok = Some t" and t': "SandboxERC20_mint s to n t = Some t'" and
    c': "c' = c\<lparr>tokens := (tokens c)(tok := Some t')\<rparr>"
    using r by (auto simp: on_token_def bind_eq_Some_conv)
  have "supply_ok t" using inv t by (simp add: chain_inv_def supplies_ok_def)
  note D = mint_SomeD [OF this t']
  have a: "allowed c' = allowed c" and b: "bal c k a \<le> bal c' k a" for k a
    using D t c' by (auto simp: allowed_def bal_def fun_eq_iff)
  have "pool_ok c' p d" if "pool_ok c p d" for p d
    using that a b [of "dex_tokenA d" p] b [of "dex_tokenB d" p] c' by (auto simp: pool_ok_def)
  then show ?thesis
    using inv D t c' by (auto simp: keeps_chain_def chain_inv_def supplies_ok_def chain_evolves_def)
qed

lemma approve_run:
  assumes "supplies_ok c" and "on_token tok (SandboxERC20_approve s b n) c = Some c'"
  shows "supplies_ok c' \<and> pools c' = pools c \<and> operators c' = operators c \<and> dom (tokens c') = dom (tokens c) \<and>
    bal c' = bal c \<and> allowed c' tok s b = uint n \<and>
    (\<forall>k x y. x \<noteq> s \<or> k \<noteq> tok \<or> y \<noteq> b \<longrightarrow> allowed c' k x y = allowed c k x y)"
  using assms
  by (auto simp: on_token_def SandboxERC20_approve_def bind_eq_Some_conv supplies_ok_def bal_def
      allowed_def fun_eq_iff split: if_splits option.splits)

lemma approve_keeps:
  assumes inv: "chain_inv c" and r: "on_token tok (SandboxERC20_approve s b n) c = Some c'"
    and "pools c s = None"
  shows "keeps_chain c c'"
proof -
  have "supplies_ok c" using inv by (simp add: chain_inv_def)
  note D = approve_run [OF this r]
  have "pool_ok c' p d" if "pools c p = Some d" for p d
  proof -
    have "pool_ok c p d" "p \<noteq> s" using inv that assms(3) by (auto simp: chain_inv_def)
    then show ?thesis using D by (simp add: pool_ok_def)
  qed
  then show ?thesis
    using D by (simp add: keeps_chain_def chain_inv_def chain_evolves_def)
qed

text \<open>A call that updates the reserves of one pool, to what the pool holds afterwards.\<close>

lemma pool_update_keeps:
  assumes inv: "chain_inv c" and p: "pools c p = Some d" and s: "pools c s = None"
    and same: "pools c1 = pools c" "operators c1 = operators c" "dom (tokens c1) = dom (tokens c)"
      "supplies_ok c1"
    and b: "\<And>k a. a \<noteq> p \<Longrightarrow> a \<noteq> s \<Longrightarrow> bal c k a \<le> bal c1 k a"
    and al: "\<And>k a b. allowed c1 k a b \<le> allowed c k a b"
    and d': "dex_evolves d d'" "uint (reserveA d') \<le> bal c1 (dex_tokenA d) p"
      "uint (reserveB d') \<le> bal c1 (dex_tokenB d) p"
  shows "keeps_chain c (c1\<lparr>pools := (pools c)(p := Some d')\<rparr>)"
proof -
  let ?c = "c1\<lparr>pools := (pools c)(p := Some d')\<rparr>"
  have zero: "allowed c1 k a b = 0" if "pools c a = Some e" for k a b e
  proof -
    have "allowed c k a b = 0" using inv that by (simp add: chain_inv_def pool_ok_def)
    then show ?thesis using al [of k a b] allowed_nonneg [of c1 k a b] by simp
  qed
  have "pool_ok ?c a e'" if "pools ?c a = Some e'" for a e'
  proof (cases "a = p")
    case True
    have "pool_ok c p d" using inv p by (simp add: chain_inv_def)
    then show ?thesis
      using True that d' same zero [OF p] by (simp add: pool_ok_def dex_evolves_def)
  next
    case False
    then have e: "pools c a = Some e'" using that by simp
    then have "pool_ok c a e'" "a \<noteq> s" using inv s by (auto simp: chain_inv_def)
    then show ?thesis
      using False same zero [OF e] order_trans [OF _ b [OF False]] by (simp add: pool_ok_def)
  qed
  then have "chain_inv ?c" using same by (simp add: chain_inv_def)
  moreover have "chain_evolves c ?c"
    using same p d'(1) by (simp add: chain_evolves_def)
  ultimately show ?thesis by (simp add: keeps_chain_def)
qed

lemma quote_keeps_product:
  assumes "SandboxDex_getAmountOut n x y = Some w"
  shows "uint x * uint y \<le> (uint x + uint n) * (uint y - uint w)"
  using sandbox.quote_product assms by (simp add: getAmountOut_Some)

lemma traded_others:
  "traded ti to' p s n q c c1 \<Longrightarrow> a \<noteq> p \<Longrightarrow> a \<noteq> s \<Longrightarrow> bal c k a \<le> bal c1 k a"
  by (simp add: traded_bal)

lemma swapAForB_keeps:
  assumes inv: "chain_inv c" and s: "pools c s = None"
    and r: "SandboxDex_swapExactAForB p s n m c = Some (w, c')"
  shows "keeps_chain c c'"
proof -
  have "supplies_ok c" using inv by (simp add: chain_inv_def)
  from swapAForB_runD [OF this r] obtain d c1 a b where
    d: "pools c p = Some d" and q: "SandboxDex_getAmountOut n (reserveA d) (reserveB d) = Some w" and
    t: "traded (dex_tokenA d) (dex_tokenB d) p s (uint n) (uint w) c c1" and
    ab: "uint a = uint (reserveA d) + uint n" "uint b = uint (reserveB d) - uint w" and
    c': "c' = c1\<lparr>pools := (pools c)(p := Some (d\<lparr>reserveA := a, reserveB := b\<rparr>))\<rparr>"
    by blast
  have ok: "pool_ok c p d" and "p \<noteq> s" using inv d s by (auto simp: chain_inv_def)
  then have "bal c1 (dex_tokenA d) p = bal c (dex_tokenA d) p + uint n"
    "bal c1 (dex_tokenB d) p = bal c (dex_tokenB d) p - uint w"
    using traded_bal [OF t] by (auto simp: pool_ok_def)
  then have r: "uint a \<le> bal c1 (dex_tokenA d) p" "uint b \<le> bal c1 (dex_tokenB d) p"
    using ok ab by (simp_all add: pool_ok_def)
  have "dex_evolves d (d\<lparr>reserveA := a, reserveB := b\<rparr>)"
    using quote_keeps_product [OF q] ab by (simp add: dex_evolves_def)
  then show ?thesis
    unfolding c'
    using traded_pools [OF t] traded_others [OF t] traded_allowed(1) [OF t] r
    by (intro pool_update_keeps [OF inv d s]) simp_all
qed

lemma swapBForA_keeps:
  assumes inv: "chain_inv c" and s: "pools c s = None"
    and r: "SandboxDex_swapExactBForA p s n m c = Some (w, c')"
  shows "keeps_chain c c'"
proof -
  have "supplies_ok c" using inv by (simp add: chain_inv_def)
  from swapBForA_runD [OF this r] obtain d c1 a b where
    d: "pools c p = Some d" and q: "SandboxDex_getAmountOut n (reserveB d) (reserveA d) = Some w" and
    t: "traded (dex_tokenB d) (dex_tokenA d) p s (uint n) (uint w) c c1" and
    ab: "uint a = uint (reserveA d) - uint w" "uint b = uint (reserveB d) + uint n" and
    c': "c' = c1\<lparr>pools := (pools c)(p := Some (d\<lparr>reserveA := a, reserveB := b\<rparr>))\<rparr>"
    by blast
  have ok: "pool_ok c p d" and "p \<noteq> s" using inv d s by (auto simp: chain_inv_def)
  then have "bal c1 (dex_tokenB d) p = bal c (dex_tokenB d) p + uint n"
    "bal c1 (dex_tokenA d) p = bal c (dex_tokenA d) p - uint w"
    using traded_bal [OF t] by (auto simp: pool_ok_def)
  then have r: "uint a \<le> bal c1 (dex_tokenA d) p" "uint b \<le> bal c1 (dex_tokenB d) p"
    using ok ab by (simp_all add: pool_ok_def)
  have "dex_evolves d (d\<lparr>reserveA := a, reserveB := b\<rparr>)"
    using quote_keeps_product [OF q] ab by (simp add: dex_evolves_def mult.commute)
  then show ?thesis
    unfolding c'
    using traded_pools [OF t] traded_others [OF t] traded_allowed(1) [OF t] r
    by (intro pool_update_keeps [OF inv d s]) simp_all
qed

lemma seed_keeps:
  assumes inv: "chain_inv c" and s: "pools c s = None"
    and r: "SandboxDex_seedLiquidity p s m n c = Some c'"
  shows "keeps_chain c c'"
proof -
  have "supplies_ok c" using inv by (simp add: chain_inv_def)
  from seed_runD [OF this r] obtain d c1 c2 a b where
    d: "pools c p = Some d" and m: "moves (dex_tokenA d) s p (uint m) c c1" "moves (dex_tokenB d) s p (uint n) c1 c2" and
    ab: "uint a = uint (reserveA d) + uint m" "uint b = uint (reserveB d) + uint n" and
    c': "c' = c2\<lparr>pools := (pools c)(p := Some (d\<lparr>reserveA := a, reserveB := b\<rparr>))\<rparr>"
    by blast
  have ok: "pool_ok c p d" and ps: "p \<noteq> s" using inv d s by (auto simp: chain_inv_def)
  have bal: "bal c2 k x = bal c k x
      - (if k = dex_tokenA d \<and> x = s then uint m else 0) + (if k = dex_tokenA d \<and> x = p then uint m else 0)
      - (if k = dex_tokenB d \<and> x = s then uint n else 0) + (if k = dex_tokenB d \<and> x = p then uint n else 0)"
    for k x
    using m by (auto simp: moves_def)
  have al: "allowed c2 k x y \<le> allowed c k x y" for k x y
    using m unfolding moves_def by (meson order_trans)
  have r: "uint a \<le> bal c2 (dex_tokenA d) p" "uint b \<le> bal c2 (dex_tokenB d) p"
    using ok ps ab by (auto simp: bal pool_ok_def)
  have "dex_evolves d (d\<lparr>reserveA := a, reserveB := b\<rparr>)"
    using ab by (auto simp: dex_evolves_def intro: mult_mono)
  then show ?thesis
    unfolding c' using m al r
    by (intro pool_update_keeps [OF inv d s]) (simp_all add: bal moves_def)
qed

lemma backrun_keeps:
  assumes inv: "chain_inv c" and r: "SandboxBackrun_executeBackrun k s p1 p2 n a b m c = Some (x, y, c')"
  shows "keeps_chain c c'"
proof -
  from r obtain tB tA c1 c2 c3 c4 where
    k: "operators c k \<noteq> None" and
    c1: "on_token tB (SandboxERC20_approve k p1 n) c = Some c1" and
    c2: "SandboxDex_swapExactBForA p1 k n a c1 = Some (x, c2)" and
    c3: "on_token tA (SandboxERC20_approve k p2 x) c2 = Some c3" and
    c4: "SandboxDex_swapExactAForB p2 k x b c3 = Some (y, c')"
    by (auto simp: SandboxBackrun_executeBackrun_def bind_eq_Some_conv Let_def split: if_splits)
  have nopool: "pools d k = None" if "chain_inv d" "operators c \<subseteq>\<^sub>m operators d" for d
    using that k by (cases "pools d k") (auto simp: chain_inv_def pool_ok_def map_le_def dom_def)
  have K1: "keeps_chain c c1" by (rule approve_keeps [OF inv c1 nopool [OF inv]]) simp
  then have I1: "chain_inv c1" and o1: "operators c \<subseteq>\<^sub>m operators c1"
    by (simp_all add: keeps_chain_def chain_evolves_def)
  have K2: "keeps_chain c1 c2" by (rule swapBForA_keeps [OF I1 nopool [OF I1 o1] c2])
  then have I2: "chain_inv c2" and o2: "operators c \<subseteq>\<^sub>m operators c2"
    using o1 map_le_trans by (auto simp: keeps_chain_def chain_evolves_def)
  have K3: "keeps_chain c2 c3" by (rule approve_keeps [OF I2 c3 nopool [OF I2 o2]])
  then have I3: "chain_inv c3" and o3: "operators c \<subseteq>\<^sub>m operators c3"
    using o2 map_le_trans by (auto simp: keeps_chain_def chain_evolves_def)
  have K4: "keeps_chain c3 c'" by (rule swapAForB_keeps [OF I3 nopool [OF I3 o3] c4])
  show ?thesis using K1 K2 K3 K4 by (blast intro: keeps_chain_trans)
qed

section \<open>Every transaction\<close>

lemma transfer_keeps:
  assumes inv: "chain_inv c" and s: "pools c s = None"
    and r: "on_token tok (SandboxERC20_transfer s to n) c = Some c'"
  shows "keeps_chain c c'"
proof -
  have "supplies_ok c" using inv by (simp add: chain_inv_def)
  note D = transfer_runD [OF this r]
  then show ?thesis using s by (intro moves_keeps [OF inv, of tok s to "uint n"]) auto
qed

lemma transferFrom_keeps:
  assumes inv: "chain_inv c" and r: "on_token tok (SandboxERC20_transferFrom s a to n) c = Some c'"
  shows "keeps_chain c c'"
proof -
  have "supplies_ok c" using inv by (simp add: chain_inv_def)
  note D = transferFrom_runD [OF this r]
  have "pools c a = None \<or> uint n = 0"
  proof (cases "pools c a")
    case (Some d)
    then have "allowed c tok a s = 0" using inv by (simp add: chain_inv_def pool_ok_def)
    then show ?thesis using D uint_ge_0 [of n] by simp
  qed simp
  then show ?thesis using D by (intro moves_keeps [OF inv, of tok a to "uint n"]) auto
qed

lemma exec_keeps:
  assumes inv: "chain_inv c" and s: "external c s" and r: "exec_tx s tx c = Some c'"
  shows "keeps_chain c c'"
proof -
  have p: "pools c s = None" using s by (simp add: external_def)
  show ?thesis
  proof (cases tx)
    case (Withdraw k tok to n)
    with r obtain "operators c k \<noteq> None" and t: "on_token tok (SandboxERC20_transfer k to n) c = Some c'"
      by (auto simp: SandboxBackrun_withdrawToken_def bind_eq_Some_conv split: if_splits)
    then have "pools c k = None"
      using inv by (cases "pools c k") (auto simp: chain_inv_def pool_ok_def)
    then show ?thesis using transfer_keeps [OF inv _ t] by simp
  qed (use r p mint_keeps [OF inv] approve_keeps [OF inv _ p] transfer_keeps [OF inv p]
      transferFrom_keeps [OF inv] seed_keeps [OF inv p] swapAForB_keeps [OF inv p]
      swapBForA_keeps [OF inv p] backrun_keeps [OF inv] in \<open>auto\<close>)
qed

lemma new_token_keeps:
  assumes inv: "chain_inv c" and a: "unused c a" and t: "SandboxERC20_new m = Some t"
  shows "keeps_chain c (c\<lparr>tokens := (tokens c)(a := Some t)\<rparr>)"
proof -
  let ?c = "c\<lparr>tokens := (tokens c)(a := Some t)\<rparr>"
  have n: "tokens c a = None" using a by (simp add: unused_def)
  have z: "balanceOf t = (\<lambda>_. 0)" "allowance t = (\<lambda>_ _. 0)"
    using t by (auto simp: SandboxERC20_new_def split: if_splits)
  have "bal ?c = bal c" "allowed ?c = allowed c"
    using n z by (auto simp: bal_def allowed_def fun_eq_iff)
  then have "pool_ok ?c p d = pool_ok c p d" for p d by (simp add: pool_ok_def)
  then show ?thesis
    using inv new_supply [OF t]
    by (auto simp: keeps_chain_def chain_inv_def supplies_ok_def chain_evolves_def)
qed

lemma new_pool_keeps:
  assumes inv: "chain_inv c" and a: "unused c a" and d: "SandboxDex_new ta tb = Some d"
  shows "keeps_chain c (c\<lparr>pools := (pools c)(a := Some d)\<rparr>)"
proof -
  let ?c = "c\<lparr>pools := (pools c)(a := Some d)\<rparr>"
  have "dex_tokenA d \<noteq> dex_tokenB d" "reserveA d = 0" "reserveB d = 0"
    using d by (auto simp: SandboxDex_new_def split: if_splits)
  then have "pool_ok ?c a d"
    using a bal_nonneg by (simp add: pool_ok_def unused_def)
  moreover have "pool_ok ?c p e = pool_ok c p e" for p e by (simp add: pool_ok_def)
  ultimately show ?thesis
    using inv a by (auto simp: keeps_chain_def chain_inv_def chain_evolves_def unused_def)
qed

lemma new_backrun_keeps:
  assumes inv: "chain_inv c" and a: "unused c a"
  shows "keeps_chain c (c\<lparr>operators := (operators c)(a := Some k)\<rparr>)"
proof -
  let ?c = "c\<lparr>operators := (operators c)(a := Some k)\<rparr>"
  have same: "bal ?c = bal c" "allowed ?c = allowed c" "supplies_ok ?c = supplies_ok c"
    by (simp_all add: bal_def allowed_def supplies_ok_def fun_eq_iff)
  have "pool_ok ?c p d" if "pools c p = Some d" for p d
  proof -
    have "pool_ok c p d" "p \<noteq> a" using inv a that by (auto simp: chain_inv_def unused_def)
    then show ?thesis using same by (simp add: pool_ok_def)
  qed
  then show ?thesis
    using inv a same by (simp add: keeps_chain_def chain_inv_def chain_evolves_def unused_def map_le_def dom_def)
qed

lemma step_keeps: "chain_step c c' \<Longrightarrow> chain_inv c \<Longrightarrow> keeps_chain c c'"
proof (induction rule: chain_step.induct)
  case (Reverted c s tx)
  then show ?case by (simp add: keeps_chain_def chain_evolves.step_refl)
qed (simp_all add: new_token_keeps new_pool_keeps new_backrun_keeps exec_keeps)

definition empty_chain :: chain where
  "empty_chain = \<lparr>tokens = (\<lambda>_. None), pools = (\<lambda>_. None), operators = (\<lambda>_. None)\<rparr>"

lemma runs_keep: "chain_runs c c' \<Longrightarrow> chain_inv c \<Longrightarrow> keeps_chain c c'"
proof (induction rule: rtranclp_induct)
  case base
  then show ?case by (simp add: keeps_chain_def chain_evolves.step_refl)
next
  case (step d e)
  then have "keeps_chain c d" by simp
  moreover from this have "keeps_chain d e" using step by (simp add: keeps_chain_def step_keeps [unfolded keeps_chain_def])
  ultimately show ?case by (rule keeps_chain_trans)
qed

lemma empty_inv: "chain_inv empty_chain"
  by (simp add: chain_inv_def empty_chain_def supplies_ok_def)

text \<open>
  C19. From the empty chain on, over any deployments and any transactions of external accounts: the
  supply of every token is the sum of its balances, every pool holds at least its reserves and
  allows nobody anything, and from any such state on contracts stay what they are and the product
  of a pool's reserves never goes down.
\<close>

theorem pools_stay_solvent:
  assumes "chain_runs empty_chain c" and "chain_runs c c'"
  shows "chain_inv c \<and> chain_inv c' \<and> chain_evolves c c'"
proof -
  have c: "chain_inv c" using runs_keep [OF assms(1) empty_inv] by (simp add: keeps_chain_def)
  then show ?thesis using runs_keep [OF assms(2) c] by (simp add: keeps_chain_def)
qed

end
