(* ===== verification/Backrun_Plan.thy ===== *)
theory Backrun_Plan
  imports Contract_Chain Scenario_Outcomes
begin

text \<open>
  The scenarios' plans against the contracts: a swap pays exactly what was quoted or reverts, and
  the backrun scenario's transactions, with the amounts its route computes, go through and leave
  the balances its checks ask for.
\<close>

section \<open>Quotes that fit into a word\<close>

definition small :: "int \<Rightarrow> bool" where "small z \<longleftrightarrow> 0 \<le> z \<and> z < 2 ^ 120"

lemma small_product: "small a \<Longrightarrow> small b \<Longrightarrow> a * 997 * b < 2 ^ 256"
proof -
  assume a: "small a" and b: "small b"
  have "a * 997 * b \<le> 2 ^ 120 * 997 * 2 ^ 120"
    using a b by (intro mult_mono) (auto simp: small_def)
  then show ?thesis by simp
qed

lemma quote_fits:
  assumes q: "sandbox_amount_out (uint n) (uint x) (uint y) = Inr q"
    and s: "small (uint n)" "small (uint x)" "small (uint y)"
  shows "\<exists>w. SandboxDex_getAmountOut n x y = Some w \<and> uint w = q"
proof -
  have "0 \<le> q" "q < uint y" using sandbox.quote_bounds [OF q] by simp_all
  then have w: "uint (word_of_int q :: uint256) = q"
    using uint_max [of y] by (simp add: uint_word_of_int_eq take_bit_int_eq_self_iff)
  have "uint x * 1000 + uint n * 997 < 2 ^ 256" using s by (simp add: small_def)
  then have "SandboxDex_getAmountOut n x y = Some (word_of_int q)"
    using q w small_product [OF s(1,3)] by (simp add: getAmountOut_Some)
  then show ?thesis using w by blast
qed

lemma small_max: "small z \<Longrightarrow> z < 2 ^ 256"
  by (simp add: small_def)

lemma small_add: "small (uint x) \<Longrightarrow> small (uint n) \<Longrightarrow>
    checked_add x n = Some (x + n) \<and> uint (x + n) = uint x + uint n"
  using checked_add_Some [of x n] by (auto simp: small_def checked_add_def)

section \<open>A swap that can be paid for\<close>

lemma swapAForB_run:
  assumes inv: "chain_inv c" and d: "pools c p = Some d"
    and toks: "dex_tokenA d \<in> dom (tokens c)" "dex_tokenB d \<in> dom (tokens c)"
    and who: "p \<noteq> 0" "s \<noteq> 0"
    and q: "sandbox_amount_out (uint n) (uint (reserveA d)) (uint (reserveB d)) = Inr q" "0 < q" "uint m \<le> q"
    and fits: "small (uint n)" "small (uint (reserveA d))" "small (uint (reserveB d))"
    and has: "uint n \<le> bal c (dex_tokenA d) s" "uint n \<le> allowed c (dex_tokenA d) s p"
  shows "\<exists>w c1 a b. SandboxDex_swapExactAForB p s n m c =
      Some (w, c1\<lparr>pools := (pools c)(p := Some (d\<lparr>reserveA := a, reserveB := b\<rparr>))\<rparr>) \<and>
    uint w = q \<and> traded (dex_tokenA d) (dex_tokenB d) p s (uint n) q c c1 \<and>
    uint a = uint (reserveA d) + uint n \<and> uint b = uint (reserveB d) - q"
proof -
  have ok: "pool_ok c p d" and sup: "supplies_ok c" using inv d by (simp_all add: chain_inv_def)
  from quote_fits [OF q(1) fits] obtain w where
    w: "SandboxDex_getAmountOut n (reserveA d) (reserveB d) = Some w" "uint w = q" by blast
  have qy: "q < uint (reserveB d)" using sandbox.quote_bounds [OF q(1)] by simp
  have pos: "0 < w" "m \<le> w" using q w(2) by (simp_all add: word_less_def word_le_def)
  have out: "uint w \<le> bal c (dex_tokenB d) p" using ok qy w(2) by (simp add: pool_ok_def)
  have ne: "dex_tokenA d \<noteq> dex_tokenB d" using ok by (simp add: pool_ok_def)
  from swapExactIn_run [OF sup w(1) pos toks ne who has out] obtain c1 where
    c1: "SandboxDex_swapExactIn p s (dex_tokenA d) (dex_tokenB d) n m (reserveA d) (reserveB d) c = Some (w, c1)"
      "traded (dex_tokenA d) (dex_tokenB d) p s (uint n) (uint w) c c1" by blast
  have pl: "pools c1 = pools c" using traded_pools [OF c1(2)] by simp
  note a = small_add [OF fits(2,1)]
  have b: "checked_sub (reserveB d) w = Some (reserveB d - w)" "uint (reserveB d - w) = uint (reserveB d) - q"
    using qy w(2) checked_sub_Some [of "reserveB d" w] by (auto simp: checked_sub_def word_le_def)
  have "SandboxDex_swapExactAForB p s n m c =
      Some (w, c1\<lparr>pools := (pools c)(p := Some (d\<lparr>reserveA := reserveA d + n, reserveB := reserveB d - w\<rparr>))\<rparr>)"
    using d c1(1) pl a b(1) by (simp add: SandboxDex_swapExactAForB_def)
  then show ?thesis using w(2) c1(2) a b(2) by metis
qed

lemma swapBForA_run:
  assumes inv: "chain_inv c" and d: "pools c p = Some d"
    and toks: "dex_tokenA d \<in> dom (tokens c)" "dex_tokenB d \<in> dom (tokens c)"
    and who: "p \<noteq> 0" "s \<noteq> 0"
    and q: "sandbox_amount_out (uint n) (uint (reserveB d)) (uint (reserveA d)) = Inr q" "0 < q" "uint m \<le> q"
    and fits: "small (uint n)" "small (uint (reserveA d))" "small (uint (reserveB d))"
    and has: "uint n \<le> bal c (dex_tokenB d) s" "uint n \<le> allowed c (dex_tokenB d) s p"
  shows "\<exists>w c1 a b. SandboxDex_swapExactBForA p s n m c =
      Some (w, c1\<lparr>pools := (pools c)(p := Some (d\<lparr>reserveA := a, reserveB := b\<rparr>))\<rparr>) \<and>
    uint w = q \<and> traded (dex_tokenB d) (dex_tokenA d) p s (uint n) q c c1 \<and>
    uint a = uint (reserveA d) - q \<and> uint b = uint (reserveB d) + uint n"
proof -
  have ok: "pool_ok c p d" and sup: "supplies_ok c" using inv d by (simp_all add: chain_inv_def)
  from quote_fits [OF q(1) fits(1,3,2)] obtain w where
    w: "SandboxDex_getAmountOut n (reserveB d) (reserveA d) = Some w" "uint w = q" by blast
  have qy: "q < uint (reserveA d)" using sandbox.quote_bounds [OF q(1)] by simp
  have pos: "0 < w" "m \<le> w" using q w(2) by (simp_all add: word_less_def word_le_def)
  have out: "uint w \<le> bal c (dex_tokenA d) p" using ok qy w(2) by (simp add: pool_ok_def)
  have ne: "dex_tokenB d \<noteq> dex_tokenA d" using ok by (auto simp: pool_ok_def)
  from swapExactIn_run [OF sup w(1) pos toks(2,1) ne who has out] obtain c1 where
    c1: "SandboxDex_swapExactIn p s (dex_tokenB d) (dex_tokenA d) n m (reserveB d) (reserveA d) c = Some (w, c1)"
      "traded (dex_tokenB d) (dex_tokenA d) p s (uint n) (uint w) c c1" by blast
  have pl: "pools c1 = pools c" using traded_pools [OF c1(2)] by simp
  note b = small_add [OF fits(3,1)]
  have a: "checked_sub (reserveA d) w = Some (reserveA d - w)" "uint (reserveA d - w) = uint (reserveA d) - q"
    using qy w(2) checked_sub_Some [of "reserveA d" w] by (auto simp: checked_sub_def word_le_def)
  have "SandboxDex_swapExactBForA p s n m c =
      Some (w, c1\<lparr>pools := (pools c)(p := Some (d\<lparr>reserveA := reserveA d - w, reserveB := reserveB d + n\<rparr>))\<rparr>)"
    using d c1(1) pl b a(1) by (simp add: SandboxDex_swapExactBForA_def)
  then show ?thesis using w(2) c1(2) b a(2) by metis
qed

text \<open>A swap with a minimum up to the quote, and one with a minimum above it.\<close>

lemma swap_goes:
  assumes inv: "chain_inv c" and d: "pools c p = Some d" and who: "p \<noteq> 0" "s \<noteq> 0" "s \<noteq> p"
    and toks: "dex_tokenA d \<in> dom (tokens c)" "dex_tokenB d \<in> dom (tokens c)"
    and q: "sandbox_amount_out (uint n) (uint (reserveA d)) (uint (reserveB d)) = Inr q" "0 < q" "uint m \<le> q"
    and fits: "small (uint n)" "small (uint (reserveA d))" "small (uint (reserveB d))"
    and has: "uint n \<le> bal c (dex_tokenA d) s" "uint n \<le> allowed c (dex_tokenA d) s p"
  shows "\<exists>c'. exec_tx s (SwapAB p n m) c = Some c' \<and> dom (tokens c') = dom (tokens c) \<and>
    bal c (dex_tokenA d) s - bal c' (dex_tokenA d) s = uint n \<and> bal c' (dex_tokenB d) s - bal c (dex_tokenB d) s = q"
proof -
  obtain w c1 a b where
    r: "SandboxDex_swapExactAForB p s n m c =
      Some (w, c1\<lparr>pools := (pools c)(p := Some (d\<lparr>reserveA := a, reserveB := b\<rparr>))\<rparr>)" and
    t: "traded (dex_tokenA d) (dex_tokenB d) p s (uint n) q c c1"
    using swapAForB_run [OF inv d toks who(1,2) q fits has] by blast
  have "dex_tokenA d \<noteq> dex_tokenB d" using inv d by (simp add: chain_inv_def pool_ok_def)
  then show ?thesis using r traded_bal [OF t] traded_pools [OF t] who(3) by simp
qed

lemma swap_reverts:
  assumes inv: "chain_inv c" and d: "pools c p = Some d"
    and q: "sandbox_amount_out (uint n) (uint (reserveA d)) (uint (reserveB d)) = Inr q" "q < uint m"
  shows "exec_tx s (SwapAB p n m) c = None"
proof (rule ccontr)
  have sup: "supplies_ok c" using inv by (simp add: chain_inv_def)
  assume "exec_tx s (SwapAB p n m) c \<noteq> None"
  then obtain w c' where r: "SandboxDex_swapExactAForB p s n m c = Some (w, c')" by auto
  from swapAForB_runD [OF sup r] d have
    "SandboxDex_getAmountOut n (reserveA d) (reserveB d) = Some w" "m \<le> w" by auto
  then have "uint w = q" "uint m \<le> uint w"
    using q(1) by (simp_all add: getAmountOut_Some word_le_def)
  then show False using q(2) by simp
qed

text \<open>
  A victim's swap does what the scenarios rely on.  When the trader has and allows the input
  and the quote is positive: with a minimum up to the quote the transaction goes through, takes
  exactly the input and pays exactly the quote; with a minimum above the quote, the impossible
  swap, it reverts.
\<close>

theorem swap_pays_the_quote:
  assumes "chain_inv c" and "pools c p = Some d" and "p \<noteq> 0" and "s \<noteq> 0" and "s \<noteq> p"
    and "dex_tokenA d \<in> dom (tokens c)" and "dex_tokenB d \<in> dom (tokens c)"
    and "sandbox_amount_out (uint n) (uint (reserveA d)) (uint (reserveB d)) = Inr q" and "0 < q"
    and "small (uint n)" and "small (uint (reserveA d))" and "small (uint (reserveB d))"
    and "uint n \<le> bal c (dex_tokenA d) s" and "uint n \<le> allowed c (dex_tokenA d) s p"
  shows "case exec_tx s (SwapAB p n m) c of
      None \<Rightarrow> q < uint m
    | Some c' \<Rightarrow> uint m \<le> q \<and>
        bal c (dex_tokenA d) s - bal c' (dex_tokenA d) s = uint n \<and>
        bal c' (dex_tokenB d) s - bal c (dex_tokenB d) s = q"
proof (cases "uint m \<le> q")
  case True
  from swap_goes [OF assms(1-9) this assms(10-14)] obtain c' where
    "exec_tx s (SwapAB p n m) c = Some c'" "bal c (dex_tokenA d) s - bal c' (dex_tokenA d) s = uint n"
    "bal c' (dex_tokenB d) s - bal c (dex_tokenB d) s = q" by blast
  then show ?thesis using True by (simp del: exec_tx.simps)
next
  case False
  then show ?thesis using swap_reverts [OF assms(1,2,8)] by simp
qed

section \<open>The backrun\<close>

text \<open>The contract's part: both swaps of the backrun and its profit.\<close>

lemma approve_Some:
  assumes "supplies_ok c" and "tok \<in> dom (tokens c)"
  shows "\<exists>c'. on_token tok (SandboxERC20_approve s b n) c = Some c'"
  using assms by (auto simp: on_token_def SandboxERC20_approve_def)

lemma balanceOf_bal:
  assumes "tok \<in> dom (tokens c)"
  shows "\<exists>w. chain_balanceOf tok a c = Some w \<and> uint w = bal c tok a"
  using assms by (auto simp: chain_balanceOf_def bal_def)

lemma backrun_run:
  assumes inv: "chain_inv c" and op: "operators c k = Some bt"
    and d1: "pools c p1 = Some d1" and d2: "pools c p2 = Some d2"
    and who: "p1 \<noteq> 0" "p2 \<noteq> 0" "k \<noteq> 0" "p1 \<noteq> p2"
    and A: "dex_tokenA d1 = A" "dex_tokenA d2 = A" "A \<in> dom (tokens c)"
    and B: "dex_tokenB d1 = B" "dex_tokenB d2 = B" "B \<in> dom (tokens c)"
    and q1: "sandbox_amount_out (uint n) (uint (reserveB d1)) (uint (reserveA d1)) = Inr oa" "uint ma \<le> oa"
    and q2: "sandbox_amount_out oa (uint (reserveA d2)) (uint (reserveB d2)) = Inr ob" "uint mb \<le> ob"
    and profit: "0 < ob" "uint mp \<le> ob - uint n"
    and fits: "small (uint n)" "small (uint (reserveA d1))" "small (uint (reserveB d1))"
      "small (uint (reserveA d2))" "small (uint (reserveB d2))"
    and has: "uint n \<le> bal c B k"
  shows "\<exists>wa wb c'. SandboxBackrun_executeBackrun k bt p1 p2 n ma mb mp c = Some (wa, wb, c') \<and>
    bal c' A k = bal c A k \<and> bal c' B k = bal c B k + ob - uint n \<and>
    (\<forall>a. a \<noteq> k \<longrightarrow> a \<noteq> p1 \<longrightarrow> a \<noteq> p2 \<longrightarrow> (\<forall>t. bal c' t a = bal c t a)) \<and> dom (tokens c') = dom (tokens c)"
proof -
  have sup: "supplies_ok c" using inv by (simp add: chain_inv_def)
  have ok1: "pool_ok c p1 d1" and ok2: "pool_ok c p2 d2" using inv d1 d2 by (simp_all add: chain_inv_def)
  have AB: "A \<noteq> B" using ok1 A B by (auto simp: pool_ok_def)
  have kp: "k \<noteq> p1" "k \<noteq> p2" using ok1 ok2 op by (auto simp: pool_ok_def)
  have k: "pools c k = None" using inv op by (cases "pools c k") (auto simp: chain_inv_def pool_ok_def)
  have oa: "0 < oa" "oa < uint (reserveA d1)" using sandbox.quote_bounds [OF q2(1)] sandbox.quote_bounds [OF q1(1)] by simp_all
  obtain w0 where w0: "chain_balanceOf B k c = Some w0" "uint w0 = bal c B k"
    using balanceOf_bal [OF B(3)] by blast
  obtain c1 where c1: "on_token B (SandboxERC20_approve k p1 n) c = Some c1"
    using approve_Some [OF sup B(3)] by blast
  note a1 = approve_run [OF sup c1]
  have i1: "chain_inv c1" using approve_keeps [OF inv c1 k] by (simp add: keeps_chain_def)
  have "pools c1 p1 = Some d1" "A \<in> dom (tokens c1)" "B \<in> dom (tokens c1)" "uint n \<le> bal c1 B k"
    "uint n \<le> allowed c1 B k p1"
    using a1 d1 A B has by simp_all
  from swapBForA_run [OF i1 this(1) _ _ who(1,3) q1(1) oa(1) q1(2) fits(1-3)] this A B
  obtain wa e2 x y where
    r1: "SandboxDex_swapExactBForA p1 k n ma c1 =
      Some (wa, e2\<lparr>pools := (pools c1)(p1 := Some (d1\<lparr>reserveA := x, reserveB := y\<rparr>))\<rparr>)" and
    wa: "uint wa = oa" and t1: "traded B A p1 k (uint n) oa c1 e2"
    by auto
  define c2 where "c2 = e2\<lparr>pools := (pools c1)(p1 := Some (d1\<lparr>reserveA := x, reserveB := y\<rparr>))\<rparr>"
  have k1: "pools c1 k = None" using a1 k by simp
  have i2: "chain_inv c2" using swapBForA_keeps [OF i1 k1 r1] by (simp add: keeps_chain_def c2_def)
  then have s2: "supplies_ok c2" by (simp add: chain_inv_def)
  have toks2: "dom (tokens c2) = dom (tokens c)" and pools2: "pools c2 p2 = Some d2" "pools c2 k = None"
    using traded_pools [OF t1] a1 d2 k who(4) kp by (simp_all add: c2_def)
  have bal2: "bal c2 t a = bal e2 t a" for t a by (simp add: c2_def)
  obtain c3 where c3: "on_token A (SandboxERC20_approve k p2 wa) c2 = Some c3"
    using approve_Some [OF s2] toks2 A(3) by blast
  note a3 = approve_run [OF s2 c3]
  have i3: "chain_inv c3" using approve_keeps [OF i2 c3 pools2(2)] by (simp add: keeps_chain_def)
  have "small (uint wa)" using oa fits(2) wa by (simp add: small_def)
  have balA: "bal c3 A k = bal c A k + oa" and balB: "bal c3 B k = bal c B k - uint n"
    using traded_bal [OF t1] a1 a3 bal2 AB kp by simp_all
  have h3: "uint wa \<le> bal c3 A k" "uint wa \<le> allowed c3 A k p2"
    using balA wa bal_nonneg [of c A k] a3 by simp_all
  have "pools c3 p2 = Some d2" "A \<in> dom (tokens c3)" "B \<in> dom (tokens c3)"
    using a3 pools2 toks2 A(3) B(3) by simp_all
  from swapAForB_run [OF i3 this(1) _ _ who(2,3) q2(1) [folded wa] profit(1) q2(2) \<open>small (uint wa)\<close> fits(4,5)] this h3 A B
  obtain wb e4 x' y' where
    r2: "SandboxDex_swapExactAForB p2 k wa mb c3 =
      Some (wb, e4\<lparr>pools := (pools c3)(p2 := Some (d2\<lparr>reserveA := x', reserveB := y'\<rparr>))\<rparr>)" and
    t2: "traded A B p2 k oa ob c3 e4"
    by (auto simp: wa)
  define c4 where "c4 = e4\<lparr>pools := (pools c3)(p2 := Some (d2\<lparr>reserveA := x', reserveB := y'\<rparr>))\<rparr>"
  have bal4: "bal c4 t a = bal e4 t a" for t a by (simp add: c4_def)
  have balA4: "bal c4 A k = bal c A k" and balB4: "bal c4 B k = bal c B k + ob - uint n"
    using traded_bal [OF t2] bal4 balA balB AB kp by simp_all
  have others: "bal c4 t a = bal c t a" if "a \<noteq> k" "a \<noteq> p1" "a \<noteq> p2" for t a
    using traded_bal [OF t1] traded_bal [OF t2] bal2 bal4 a1 a3 that by simp
  have toks4: "dom (tokens c4) = dom (tokens c)"
    using traded_pools [OF t2] a3 toks2 by (simp add: c4_def)
  obtain w1 where w1: "chain_balanceOf B k c4 = Some w1" "uint w1 = bal c4 B k"
    using balanceOf_bal [of B c4] toks4 B(3) by blast
  have "uint w0 \<le> uint w1" "uint mp \<le> uint w1 - uint w0"
    using w0(2) w1(2) balB4 profit(2) uint_ge_0 [of mp] by linarith+
  moreover from this(1) have "checked_sub w1 w0 = Some (w1 - w0)" by (simp add: checked_sub_def word_le_def)
  moreover from this have "uint (w1 - w0) = uint w1 - uint w0" by (simp only: checked_sub_Some)
  ultimately obtain wp where wp: "checked_sub w1 w0 = Some wp" "mp \<le> wp"
    by (simp add: word_le_def)
  have "0 < n" using sandbox.quote_bounds [OF q1(1)] by (simp add: word_less_def)
  moreover have "n \<le> w0" using has w0(2) by (simp add: word_le_def)
  ultimately have "SandboxBackrun_executeBackrun k bt p1 p2 n ma mb mp c = Some (wa, wb, c4)"
    using op who d1 d2 A B w0(1) c1 r1 c3 r2 w1(1) wp
    by (simp add: SandboxBackrun_executeBackrun_def c2_def [symmetric] c4_def [symmetric])
  then show ?thesis using balA4 balB4 others toks4 by blast
qed

section \<open>The plan of the backrun scenario\<close>

text \<open>The two transactions of the scenario's bundle, with the amounts of the route.\<close>

definition victim_tx :: "address \<Rightarrow> backrun_route \<Rightarrow> tx" where
  "victim_tx p1 r = SwapAB p1 (word_of_int VICTIM_SWAP_AMOUNT_A) (word_of_int (br_victim_min r))"

definition backrun_tx :: "address \<Rightarrow> address \<Rightarrow> address \<Rightarrow> backrun_route \<Rightarrow> tx" where
  "backrun_tx k p1 p2 r =
     Backrun k p1 p2 (word_of_int BACKRUN_AMOUNT_B) (word_of_int (br_min_a r)) (word_of_int (br_min_b r))
       (word_of_int MIN_PROFIT_B)"

text \<open>The answers of the builder when everything was included.\<close>

definition included_doc :: json where
  "included_doc = JObj [(''status'', JStr ''included'')]"

text \<open>
  The chain as the scenario has checked and funded it: two pools of the same two tokens, a backrun
  contract that holds nothing but its input, and a victim that holds and allows its input.
\<close>

definition ready_for_backrun ::
  "chain \<Rightarrow> address \<Rightarrow> address \<Rightarrow> address \<Rightarrow> address \<Rightarrow> address \<Rightarrow> dex \<Rightarrow> dex \<Rightarrow> bool" where
  "ready_for_backrun c p1 p2 k bt v d1 d2 \<longleftrightarrow>
     chain_inv c \<and> external c v \<and> operators c k = Some bt \<and>
     pools c p1 = Some d1 \<and> pools c p2 = Some d2 \<and> p1 \<noteq> p2 \<and> p1 \<noteq> 0 \<and> p2 \<noteq> 0 \<and> k \<noteq> 0 \<and>
     dex_tokenA d2 = dex_tokenA d1 \<and> dex_tokenB d2 = dex_tokenB d1 \<and>
     dex_tokenA d1 \<in> dom (tokens c) \<and> dex_tokenB d1 \<in> dom (tokens c) \<and>
     bal c (dex_tokenA d1) k = 0 \<and> bal c (dex_tokenB d1) k = BACKRUN_AMOUNT_B \<and>
     VICTIM_SWAP_AMOUNT_A \<le> bal c (dex_tokenA d1) v \<and>
     VICTIM_SWAP_AMOUNT_A \<le> allowed c (dex_tokenA d1) v p1"

lemma word_of_small: "small z \<Longrightarrow> uint (word_of_int z :: uint256) = z"
  by (simp add: small_def uint_word_of_int_eq take_bit_int_eq_self_iff)

lemma plan_amounts:
  "small VICTIM_SWAP_AMOUNT_A" "small BACKRUN_AMOUNT_B" "small MIN_PROFIT_B"
  by (simp_all add: small_def VICTIM_SWAP_AMOUNT_A_def BACKRUN_AMOUNT_B_def MIN_PROFIT_B_def
      TOKEN_DECIMALS_def DEFAULT_TOKEN_DECIMALS_def)

lemma checks_pass:
  assumes "spent_a = VICTIM_SWAP_AMOUNT_A" "vmin \<le> received_b" "a_after = 0" "MIN_PROFIT_B \<le> profit"
  shows "fst (backrun_checks included_doc included_doc included_doc included_doc
    spent_a received_b vmin a_after profit st) = Inr ()"
  using assms by (simp add: backrun_checks_def included_doc_def fail_if_def)

lemma slippage_le: "0 \<le> m \<Longrightarrow> 0 \<le> m * MIN_OUTPUT_BPS div 10000 \<and> m * MIN_OUTPUT_BPS div 10000 \<le> m"
proof -
  assume "0 \<le> m"
  then have "m * 9900 div 10000 \<le> m * 10000 div 10000" by (intro zdiv_mono1) auto
  then show ?thesis using \<open>0 \<le> m\<close> by (simp add: MIN_OUTPUT_BPS_def)
qed

text \<open>
  The two transactions one after the other: the route's amounts are what changes hands.
\<close>

lemma backrun_goes:
  assumes ready: "ready_for_backrun c p1 p2 k bt v d1 d2"
    and route: "calculate_route (uint (reserveA d1), uint (reserveB d1))
                                (uint (reserveA d2), uint (reserveB d2)) = Inr r"
    and pos: "0 < br_victim_out r"
    and size: "max (max (uint (reserveA d1)) (uint (reserveB d1)))
                   (max (uint (reserveA d2)) (uint (reserveB d2))) < 2 ^ 110"
  shows "\<exists>c1 c2. exec_tx v (victim_tx p1 r) c = Some c1 \<and> exec_tx bt (backrun_tx k p1 p2 r) c1 = Some c2 \<and>
    bal c2 (dex_tokenA d1) v = bal c (dex_tokenA d1) v - VICTIM_SWAP_AMOUNT_A \<and>
    bal c2 (dex_tokenB d1) v = bal c (dex_tokenB d1) v + br_victim_out r \<and>
    bal c2 (dex_tokenA d1) k = bal c (dex_tokenA d1) k \<and>
    bal c2 (dex_tokenB d1) k = bal c (dex_tokenB d1) k + br_profit r \<and> dom (tokens c2) = dom (tokens c)"
proof -
  define A B where "A = dex_tokenA d1" and "B = dex_tokenB d1"
  define vn where "vn = (word_of_int VICTIM_SWAP_AMOUNT_A :: uint256)"
  define n where "n = (word_of_int BACKRUN_AMOUNT_B :: uint256)"
  note R = ready [unfolded ready_for_backrun_def, folded A_def B_def]
  have vn: "uint vn = VICTIM_SWAP_AMOUNT_A" and n: "uint n = BACKRUN_AMOUNT_B"
    using word_of_small plan_amounts by (simp_all add: vn_def n_def)
  from route obtain vo oa ob where
    vo: "sandbox_amount_out (uint vn) (uint (reserveA d1)) (uint (reserveB d1)) = Inr vo" and
    oa: "sandbox_amount_out (uint n) (uint (reserveB d1) - vo) (uint (reserveA d1) + uint vn) = Inr oa" and
    ob: "sandbox_amount_out oa (uint (reserveA d2)) (uint (reserveB d2)) = Inr ob" and
    r: "MIN_PROFIT_B \<le> ob - uint n" "br_victim_out r = vo" "br_victim_min r = vo * MIN_OUTPUT_BPS div 10000"
      "br_profit r = ob - uint n" "br_min_a r = oa * MIN_OUTPUT_BPS div 10000"
      "br_min_b r = ob * MIN_OUTPUT_BPS div 10000"
    unfolding vn n
    by (auto simp: calculate_route_def Let_def rbind_Inr_iff split: if_splits)
  note Q = sandbox.quote_bounds [OF vo] sandbox.quote_bounds [OF oa] sandbox.quote_bounds [OF ob]
  have fits: "small (uint vn)" "small (uint n)" "small (uint (reserveA d1))" "small (uint (reserveB d1))"
      "small (uint (reserveA d2))" "small (uint (reserveB d2))"
    using size plan_amounts by (simp_all add: vn n) (simp_all add: small_def)
  have va: "uint vn < 2 ^ 110"
    by (simp add: vn VICTIM_SWAP_AMOUNT_A_def TOKEN_DECIMALS_def DEFAULT_TOKEN_DECIMALS_def)
  have mins: "uint (word_of_int (br_victim_min r) :: uint256) \<le> vo"
      "uint (word_of_int (br_min_a r) :: uint256) \<le> oa" "uint (word_of_int (br_min_b r) :: uint256) \<le> ob"
  proof -
    have w: "uint (word_of_int (z * MIN_OUTPUT_BPS div 10000) :: uint256) \<le> z" if "0 \<le> z" "z < 2 ^ 115" for z
      using word_of_small [of "z * MIN_OUTPUT_BPS div 10000"] slippage_le [OF that(1)] that(2)
      by (simp add: small_def)
    show "uint (word_of_int (br_victim_min r) :: uint256) \<le> vo"
      unfolding r(3) using Q size by (intro w) auto
    show "uint (word_of_int (br_min_a r) :: uint256) \<le> oa"
      unfolding r(5) using Q size va by (intro w) auto
    show "uint (word_of_int (br_min_b r) :: uint256) \<le> ob"
      unfolding r(6) using Q size by (intro w) auto
  qed
  have vp: "v \<noteq> p1" "v \<noteq> p2" "v \<noteq> k" "v \<noteq> 0" "pools c v = None"
    using R by (auto simp: external_def)
  have inv: "chain_inv c" and ok1: "pool_ok c p1 d1" using R by (auto simp: chain_inv_def)
  have AB: "A \<noteq> B" using ok1 by (simp add: pool_ok_def A_def B_def)
  have kp: "k \<noteq> p1" "k \<noteq> p2"
    using R by (auto simp: chain_inv_def pool_ok_def)
  from swapAForB_run [of c p1 d1 v vn vo "word_of_int (br_victim_min r)", folded A_def B_def] R vp vo pos r(2) mins(1)
    fits vn
  obtain w e x y where
    r1: "SandboxDex_swapExactAForB p1 v vn (word_of_int (br_victim_min r)) c =
      Some (w, e\<lparr>pools := (pools c)(p1 := Some (d1\<lparr>reserveA := x, reserveB := y\<rparr>))\<rparr>)" and
    t: "traded A B p1 v (uint vn) vo c e" and
    xy: "uint x = uint (reserveA d1) + uint vn" "uint y = uint (reserveB d1) - vo"
    by auto
  let ?d = "d1\<lparr>reserveA := x, reserveB := y\<rparr>"
  define c1 where "c1 = e\<lparr>pools := (pools c)(p1 := Some ?d)\<rparr>"
  have i1: "chain_inv c1" using swapAForB_keeps [OF inv vp(5) r1] by (simp add: keeps_chain_def c1_def)
  have bal1: "bal c1 q a = bal e q a" for q a by (simp add: c1_def)
  have same: "operators c1 = operators c" "dom (tokens c1) = dom (tokens c)" "pools c1 p1 = Some ?d"
    "pools c1 p2 = Some d2"
    using traded_pools [OF t] R by (auto simp: c1_def)
  have k1: "bal c1 q k = bal c q k" for q
    using traded_bal [OF t] bal1 vp kp by simp
  have s1: "small (uint x)" "small (uint y)"
    using xy Q size va by (auto simp: small_def)
  have prof: "0 < ob" "uint (word_of_int MIN_PROFIT_B :: uint256) \<le> ob - uint n"
  proof -
    show "uint (word_of_int MIN_PROFIT_B :: uint256) \<le> ob - uint n"
      using r(1) word_of_small plan_amounts by simp
    have "0 < MIN_PROFIT_B" by (simp add: MIN_PROFIT_B_def TOKEN_DECIMALS_def)
    then show "0 < ob" using r(1) uint_ge_0 [of n] by linarith
  qed
  have "\<exists>wa wb c'. SandboxBackrun_executeBackrun k bt p1 p2 n (word_of_int (br_min_a r)) (word_of_int (br_min_b r))
      (word_of_int MIN_PROFIT_B) c1 = Some (wa, wb, c') \<and>
    bal c' A k = bal c1 A k \<and> bal c' B k = bal c1 B k + ob - uint n \<and>
    (\<forall>a. a \<noteq> k \<longrightarrow> a \<noteq> p1 \<longrightarrow> a \<noteq> p2 \<longrightarrow> (\<forall>t. bal c' t a = bal c1 t a)) \<and>
    dom (tokens c') = dom (tokens c1)"
  proof (rule backrun_run [OF i1 _ same(3,4)])
    show "operators c1 k = Some bt" using R same by simp
    show "sandbox_amount_out (uint n) (uint (reserveB ?d)) (uint (reserveA ?d)) = Inr oa"
      using oa xy by simp
    show "uint n \<le> bal c1 B k" using R k1 n by simp
  qed (use R same mins ob prof fits s1 in \<open>simp_all add: A_def B_def\<close>)
  then obtain wa wb c2 where
    r2: "SandboxBackrun_executeBackrun k bt p1 p2 n (word_of_int (br_min_a r)) (word_of_int (br_min_b r))
      (word_of_int MIN_PROFIT_B) c1 = Some (wa, wb, c2)" and
    b2: "bal c2 A k = bal c1 A k" "bal c2 B k = bal c1 B k + ob - uint n" "dom (tokens c2) = dom (tokens c1)"
      "\<forall>a. a \<noteq> k \<longrightarrow> a \<noteq> p1 \<longrightarrow> a \<noteq> p2 \<longrightarrow> (\<forall>t. bal c2 t a = bal c1 t a)"
    by blast
  have v2: "bal c2 A v = bal c A v - uint vn" "bal c2 B v = bal c B v + vo"
    using b2(4) vp bal1 traded_bal [OF t] AB by simp_all
  have "exec_tx v (victim_tx p1 r) c = Some c1" "exec_tx bt (backrun_tx k p1 p2 r) c1 = Some c2"
    using r1 r2 by (simp_all add: victim_tx_def backrun_tx_def c1_def vn_def n_def)
  then show ?thesis
    using v2 b2 k1 same(2) r(2,4) vn unfolding A_def [symmetric] B_def [symmetric] by auto
qed

lemma accepted_route:
  assumes "calculate_route (a1, b1) (a2, b2) = Inr r"
  shows "MIN_PROFIT_B \<le> br_profit r" "0 \<le> br_victim_out r" "br_victim_min r = br_victim_out r * MIN_OUTPUT_BPS div 10000"
  using assms sandbox.quote_bounds
  by (auto simp: calculate_route_def Let_def rbind_Inr_iff split: if_splits)

text \<open>
  C18. The backrun scenario's plan works on the contracts.  From a chain that the scenario has
  checked and funded, with reserves below 2 to the 110, when the route it computes from the
  reserves is accepted and the victim's quote is positive: the victim's transaction and then the
  backrun's both go through, the amounts are exactly those of the route, and with the balances
  they leave all the final checks of the scenario pass.
\<close>

theorem backrun_plan_works:
  assumes ready: "ready_for_backrun c p1 p2 k bt v d1 d2"
    and route: "calculate_route (uint (reserveA d1), uint (reserveB d1))
                                (uint (reserveA d2), uint (reserveB d2)) = Inr r"
    and pos: "0 < br_victim_out r"
    and size: "max (max (uint (reserveA d1)) (uint (reserveB d1)))
                   (max (uint (reserveA d2)) (uint (reserveB d2))) < 2 ^ 110"
  shows "\<exists>c1 c2. exec_tx v (victim_tx p1 r) c = Some c1 \<and> exec_tx bt (backrun_tx k p1 p2 r) c1 = Some c2 \<and>
    bal c2 (dex_tokenB d1) v - bal c (dex_tokenB d1) v = br_victim_out r \<and>
    bal c2 (dex_tokenB d1) k - bal c (dex_tokenB d1) k = br_profit r \<and>
    fst (backrun_checks included_doc included_doc included_doc included_doc
      (bal c (dex_tokenA d1) v - bal c2 (dex_tokenA d1) v) (bal c2 (dex_tokenB d1) v - bal c (dex_tokenB d1) v)
      (br_victim_min r) (bal c2 (dex_tokenA d1) k) (bal c2 (dex_tokenB d1) k - bal c (dex_tokenB d1) k) st)
      = Inr ()"
proof -
  obtain c1 c2 where c: "exec_tx v (victim_tx p1 r) c = Some c1" "exec_tx bt (backrun_tx k p1 p2 r) c1 = Some c2"
    "bal c2 (dex_tokenA d1) v = bal c (dex_tokenA d1) v - VICTIM_SWAP_AMOUNT_A"
    "bal c2 (dex_tokenB d1) v = bal c (dex_tokenB d1) v + br_victim_out r"
    "bal c2 (dex_tokenA d1) k = bal c (dex_tokenA d1) k" "bal c2 (dex_tokenB d1) k = bal c (dex_tokenB d1) k + br_profit r"
    using backrun_goes [OF assms] by blast
  have "fst (backrun_checks included_doc included_doc included_doc included_doc
      (bal c (dex_tokenA d1) v - bal c2 (dex_tokenA d1) v) (bal c2 (dex_tokenB d1) v - bal c (dex_tokenB d1) v)
      (br_victim_min r) (bal c2 (dex_tokenA d1) k) (bal c2 (dex_tokenB d1) k - bal c (dex_tokenB d1) k) st) = Inr ()"
    using c accepted_route [OF route] slippage_le [of "br_victim_out r"] ready
    by (intro checks_pass) (simp_all add: ready_for_backrun_def)
  then show ?thesis using c by (intro exI conjI) (assumption+, simp_all)
qed

end
