(* ===== verification/Contract_Witnesses.thy ===== *)
theory Contract_Witnesses
  imports Backrun_Plan
begin

text \<open>
  A chain as the backrun scenario prepares it, and the properties of the contracts applied to it.
  The contracts are at the addresses 1 and 2 (pools), 3 (backrun), 10 and 11 (tokens), the
  operator is 4, the victim 5, the minter 6.
\<close>

definition toy_token_a :: token where
  "toy_token_a =
     \<lparr>totalSupply = 2100000000000000000000, minter = 6,
      balanceOf = (\<lambda>_. 0)(1 := 1000000000000000000000, 2 := 1000000000000000000000,
                          5 := 100000000000000000000),
      allowance = (\<lambda>_ _. 0)(5 := (\<lambda>_. 0)(1 := 100000000000000000000))\<rparr>"

definition toy_token_b :: token where
  "toy_token_b =
     \<lparr>totalSupply = 2042000000000000000000, minter = 6,
      balanceOf = (\<lambda>_. 0)(1 := 1000000000000000000000, 2 := 1000000000000000000000,
                          3 := 42000000000000000000),
      allowance = (\<lambda>_ _. 0)\<rparr>"

definition toy_dex :: dex where
  "toy_dex = \<lparr>dex_tokenA = 10, dex_tokenB = 11, reserveA = 1000000000000000000000,
              reserveB = 1000000000000000000000\<rparr>"

definition toy_chain :: chain where
  "toy_chain =
     \<lparr>tokens = (\<lambda>_. None)(10 := Some toy_token_a, 11 := Some toy_token_b),
      pools = (\<lambda>_. None)(1 := Some toy_dex, 2 := Some toy_dex),
      operators = (\<lambda>_. None)(3 := Some 4)\<rparr>"

lemma toy_supplies: "supply_ok toy_token_a" "supply_ok toy_token_b"
  unfolding supply_ok_def toy_token_a_def toy_token_b_def token.simps sum_update
  by simp_all

lemma toy_inv: "chain_inv toy_chain"
proof -
  have "supplies_ok toy_chain"
    using toy_supplies by (auto simp: supplies_ok_def toy_chain_def split: if_splits)
  moreover have "pool_ok toy_chain p toy_dex" if "p = 1 \<or> p = 2" for p
    using that
    by (auto simp: pool_ok_def toy_chain_def toy_dex_def bal_def allowed_def toy_token_a_def toy_token_b_def)
  ultimately show ?thesis
    by (auto simp: chain_inv_def toy_chain_def split: if_splits)
qed

lemma toy_seeded: "uint (reserveA toy_dex) = POOL_SEED_AMOUNT" "uint (reserveB toy_dex) = POOL_SEED_AMOUNT"
  by (simp_all add: toy_dex_def POOL_SEED_AMOUNT_def TOKEN_DECIMALS_def DEFAULT_TOKEN_DECIMALS_def)

lemma toy_quote: "sandbox_amount_out (uint (100000000000000000000 :: uint256)) (uint (reserveA toy_dex)) (uint (reserveB toy_dex))
    = Inr 90661089388014913158"
  by (simp add: toy_dex_def sandbox_amount_out_def)

theorem swap_pays_the_quote_witness:
  "exec_tx 5 (SwapAB 1 100000000000000000000 90661089388014913159) toy_chain = None"
proof -
  have "case exec_tx 5 (SwapAB 1 100000000000000000000 90661089388014913159) toy_chain of
      None \<Rightarrow> 90661089388014913158 < uint (90661089388014913159 :: uint256)
    | Some c' \<Rightarrow> uint (90661089388014913159 :: uint256) \<le> 90661089388014913158 \<and>
        bal toy_chain (dex_tokenA toy_dex) 5 - bal c' (dex_tokenA toy_dex) 5 = uint (100000000000000000000 :: uint256) \<and>
        bal c' (dex_tokenB toy_dex) 5 - bal toy_chain (dex_tokenB toy_dex) 5 = 90661089388014913158"
    by (rule swap_pays_the_quote [OF toy_inv _ _ _ _ _ _ toy_quote])
      (simp_all add: toy_chain_def toy_dex_def small_def bal_def allowed_def toy_token_a_def)
  then show ?thesis by (simp split: option.splits)
qed

text \<open>A run from the empty chain: a token is deployed, and its minter mints.\<close>

definition fresh_token :: token where
  "fresh_token = \<lparr>totalSupply = 0, minter = 6, balanceOf = (\<lambda>_. 0), allowance = (\<lambda>_ _. 0)\<rparr>"

definition toy_start :: chain where
  "toy_start = empty_chain\<lparr>tokens := (tokens empty_chain)(10 := Some fresh_token)\<rparr>"

definition toy_minted :: chain where
  "toy_minted = toy_start\<lparr>tokens := (tokens toy_start)
     (10 := Some (fresh_token\<lparr>totalSupply := 100, balanceOf := (\<lambda>_. 0)(5 := 100)\<rparr>))\<rparr>"

lemma toy_runs: "chain_runs empty_chain toy_start" "chain_runs toy_start toy_minted"
proof -
  have "unused empty_chain 10"
    by (simp add: unused_def empty_chain_def allowed_def)
  then have "chain_step empty_chain toy_start"
    unfolding toy_start_def
    by (rule chain_step.New_token [where m = 6]) (simp add: SandboxERC20_new_def fresh_token_def)
  then show "chain_runs empty_chain toy_start" by blast
  have "external toy_start 6" by (simp add: external_def toy_start_def empty_chain_def)
  then have "chain_step toy_start toy_minted"
    by (rule chain_step.Included [where tx = "Mint 10 5 100"])
      (simp add: on_token_def toy_start_def toy_minted_def fresh_token_def SandboxERC20_mint_def
        checked_add_def)
  then show "chain_runs toy_start toy_minted" by blast
qed

theorem pools_stay_solvent_witness:
  "supply_ok (fresh_token\<lparr>totalSupply := 100, balanceOf := (\<lambda>_. 0)(5 := 100)\<rparr>) \<and>
   chain_evolves toy_start toy_minted"
proof -
  have "tokens toy_minted 10 = Some (fresh_token\<lparr>totalSupply := 100, balanceOf := (\<lambda>_. 0)(5 := 100)\<rparr>)"
    by (simp add: toy_minted_def)
  then show ?thesis
    using pools_stay_solvent [OF toy_runs] by (auto simp: chain_inv_def supplies_ok_def)
qed

theorem backrun_plan_works_witness:
  "\<exists>r c1 c2. exec_tx 5 (victim_tx 1 r) toy_chain = Some c1 \<and> exec_tx 4 (backrun_tx 3 1 2 r) c1 = Some c2 \<and>
     bal c2 11 3 - bal toy_chain 11 3 = 4055111818329587586"
proof -
  have ready: "ready_for_backrun toy_chain 1 2 3 4 5 toy_dex toy_dex"
    using toy_inv
    by (auto simp: ready_for_backrun_def external_def toy_chain_def toy_dex_def bal_def allowed_def
        toy_token_a_def toy_token_b_def BACKRUN_AMOUNT_B_def VICTIM_SWAP_AMOUNT_A_def TOKEN_DECIMALS_def
        DEFAULT_TOKEN_DECIMALS_def)
  let ?r = "\<lparr>br_victim_out = 90661089388014913158, br_victim_min = 89754478494134764026,
          br_out_a = 48423859144600256062, br_out_b = 46055111818329587586,
          br_profit = 4055111818329587586,
          br_min_a = 47939620553154253501, br_min_b = 45594560700146291710\<rparr>"
  have route: "calculate_route (uint (reserveA toy_dex), uint (reserveB toy_dex))
      (uint (reserveA toy_dex), uint (reserveB toy_dex)) = Inr ?r"
    unfolding toy_seeded by (rule route_on_seeded_pools)
  have pos: "0 < br_victim_out ?r" by simp
  have size: "max (max (uint (reserveA toy_dex)) (uint (reserveB toy_dex)))
      (max (uint (reserveA toy_dex)) (uint (reserveB toy_dex))) < 2 ^ 110"
    by (simp add: toy_dex_def)
  have t: "dex_tokenB toy_dex = 11" by (simp add: toy_dex_def)
  from backrun_plan_works [OF ready route pos size, where st = "\<lparr>world = (), printed = []\<rparr>", unfolded t]
  obtain c1 c2 where "exec_tx 5 (victim_tx 1 ?r) toy_chain = Some c1"
    "exec_tx 4 (backrun_tx 3 1 2 ?r) c1 = Some c2"
    "bal c2 11 3 - bal toy_chain 11 3 = br_profit ?r"
    by blast
  then show ?thesis by (intro exI [of _ ?r] exI [of _ c1] exI [of _ c2]) simp
qed

end
