(* ===== verification/Knight_Queue.thy ===== *)
theory Knight_Queue
  imports "HOL-Library.Sublist"
begin

text \<open>
  The input queue of the knight, the C++ bot (\<^verbatim>\<open>src/knight/src/common/queue.h\<close> and
  \<^verbatim>\<open>envelope.h\<close>): the bounded queue between the thread of the network and the core
  loop.  Each operation holds the mutex from its start to its end, so it is one function on the
  state; a \<^verbatim>\<open>wait_pop\<close> that would wait on the condition variable is \<^verbatim>\<open>None\<close>.  The
  locale is the interface \<^verbatim>\<open>IQueue\<close> with the laws its clients use; \<^verbatim>\<open>Queue<Capacity>\<close>
  interprets it for every capacity.
\<close>

section \<open>Envelopes and the queue\<close>

record input_envelope =
  ingress_time :: nat
  env_source :: string
  env_payload :: string

record 'e input_queue =
  q_items :: "'e list"
  q_closed :: bool

definition empty_queue :: "'e input_queue" where
  "empty_queue = \<lparr>q_items = [], q_closed = False\<rparr>"

definition try_push :: "nat \<Rightarrow> 'e \<Rightarrow> 'e input_queue \<Rightarrow> bool \<times> 'e input_queue" where
  "try_push capacity item q =
     (if q_closed q then (False, q)
      else if capacity \<le> length (q_items q) then (False, q)
      else (True, q\<lparr>q_items := q_items q @ [item]\<rparr>))"

definition wait_pop :: "'e input_queue \<Rightarrow> ('e option \<times> 'e input_queue) option" where
  "wait_pop q =
     (if \<not> (q_items q \<noteq> [] \<or> q_closed q) then None
      else if q_items q = [] then Some (None, q)
      else Some (Some (hd (q_items q)), q\<lparr>q_items := tl (q_items q)\<rparr>))"

definition close_queue :: "'e input_queue \<Rightarrow> 'e input_queue" where
  "close_queue q = q\<lparr>q_closed := True\<rparr>"

section \<open>The interface\<close>

text \<open>
  What a provider of \<^verbatim>\<open>IQueue\<close> promises, over the envelopes it holds and whether it is
  closed: a push is refused and changes nothing or appends, a pop takes the first envelope,
  waits only on an open queue and reports the end only on a closed one, closing keeps the
  envelopes, and nothing is accepted after it.
\<close>

locale iqueue =
  fixes push :: "'e \<Rightarrow> 'q \<Rightarrow> bool \<times> 'q"
    and pop :: "'q \<Rightarrow> ('e option \<times> 'q) option"
    and close :: "'q \<Rightarrow> 'q"
    and held :: "'q \<Rightarrow> 'e list"
    and closed :: "'q \<Rightarrow> bool"
  assumes push_law: "push e q = (b, q') \<Longrightarrow>
      held q' = (if b then held q @ [e] else held q) \<and> closed q' = closed q \<and> (closed q \<longrightarrow> \<not> b)"
    and pop_law: "pop q = Some (r, q') \<Longrightarrow>
      closed q' = closed q \<and> (case r of Some e \<Rightarrow> held q = e # held q' | None \<Rightarrow> held q = [] \<and> closed q \<and> held q' = [])"
    and wait_law: "pop q = None \<longleftrightarrow> held q = [] \<and> \<not> closed q"
    and close_law: "held (close q) = held q \<and> closed (close q)"

text \<open>
  A history of operations on a queue, with what was accepted, refused and popped so far.  A pop
  that has to wait changes nothing.
\<close>

datatype 'e queue_op = Push 'e | Pop | Close

record ('q, 'e) queue_history =
  h_queue :: 'q
  h_accepted :: "'e list"
  h_refused :: "'e list"
  h_popped :: "'e list"

definition untouched :: "'q \<Rightarrow> ('q, 'e) queue_history" where
  "untouched q = \<lparr>h_queue = q, h_accepted = [], h_refused = [], h_popped = []\<rparr>"

fun queue_step ::
  "('e \<Rightarrow> 'q \<Rightarrow> bool \<times> 'q) \<Rightarrow> ('q \<Rightarrow> ('e option \<times> 'q) option) \<Rightarrow> ('q \<Rightarrow> 'q) \<Rightarrow>
   'e queue_op \<Rightarrow> ('q, 'e) queue_history \<Rightarrow> ('q, 'e) queue_history" where
  "queue_step push pop close (Push e) h =
     (case push e (h_queue h) of
        (True, q) \<Rightarrow> h\<lparr>h_queue := q, h_accepted := h_accepted h @ [e]\<rparr>
      | (False, q) \<Rightarrow> h\<lparr>h_queue := q, h_refused := h_refused h @ [e]\<rparr>)"
| "queue_step push pop close Pop h =
     (case pop (h_queue h) of
        Some (Some e, q) \<Rightarrow> h\<lparr>h_queue := q, h_popped := h_popped h @ [e]\<rparr>
      | Some (None, q) \<Rightarrow> h\<lparr>h_queue := q\<rparr>
      | None \<Rightarrow> h)"
| "queue_step push pop close Close h = h\<lparr>h_queue := close (h_queue h)\<rparr>"

definition pushed_items :: "'e queue_op list \<Rightarrow> 'e list" where
  "pushed_items ops = concat (map (\<lambda>op. case op of Push e \<Rightarrow> [e] | _ \<Rightarrow> []) ops)"

lemma pushed_items_simps [simp]:
  "pushed_items [] = []" "pushed_items (Push e # ops) = e # pushed_items ops" "pushed_items (Pop # ops) = pushed_items ops"
  "pushed_items (Close # ops) = pushed_items ops"
  by (simp_all add: pushed_items_def)

text \<open>
  The core loop as a client of the interface: it pops until the queue reports its end.  The
  fuel is the number of pops; the result is the envelopes handled and whether the loop ended.
\<close>

fun drain :: "('q \<Rightarrow> ('e option \<times> 'q) option) \<Rightarrow> nat \<Rightarrow> 'q \<Rightarrow> 'e list \<times> bool \<times> 'q" where
  "drain pop 0 q = ([], False, q)"
| "drain pop (Suc n) q =
     (case pop q of
        None \<Rightarrow> ([], False, q)
      | Some (None, q') \<Rightarrow> ([], True, q')
      | Some (Some e, q') \<Rightarrow> (case drain pop n q' of (es, ended, r) \<Rightarrow> (e # es, ended, r)))"

context iqueue
begin

lemma push_cases:
  obtains (taken) q' where "push e q = (True, q')" "held q' = held q @ [e]" "closed q' = closed q" "\<not> closed q"
  | (refused) q' where "push e q = (False, q')" "held q' = held q" "closed q' = closed q"
proof (cases "push e q")
  case (Pair b q')
  then show ?thesis using push_law [OF Pair] that by (cases b) auto
qed

lemma pop_cases:
  obtains (waits) "pop q = None" "held q = []" "\<not> closed q"
  | (ends) q' where "pop q = Some (None, q')" "held q = []" "closed q" "held q' = []" "closed q'"
  | (takes) e q' where "pop q = Some (Some e, q')" "held q = e # held q'" "closed q' = closed q"
proof (cases "pop q")
  case None
  then show ?thesis using wait_law that(1) by blast
next
  case (Some p)
  obtain r q' where p: "p = (r, q')" by (cases p)
  then show ?thesis using pop_law [of q r q'] Some that(2,3) by (cases r) auto
qed

lemma step_keeps_order:
  assumes "q0 @ h_accepted h = h_popped h @ held (h_queue h)"
  shows "q0 @ h_accepted (queue_step push pop close op h) =
    h_popped (queue_step push pop close op h) @ held (h_queue (queue_step push pop close op h))"
proof (cases op)
  case (Push e)
  then show ?thesis
    using assms by (cases rule: push_cases [of e "h_queue h"]) (simp_all flip: append_assoc)
next
  case Pop
  then show ?thesis using assms by (cases rule: pop_cases [of "h_queue h"]) simp_all
next
  case Close
  then show ?thesis using assms close_law by simp
qed

lemma first_in_first_out:
  "q0 @ h_accepted h = h_popped h @ held (h_queue h) \<Longrightarrow>
   q0 @ h_accepted (fold (queue_step push pop close) ops h) =
     h_popped (fold (queue_step push pop close) ops h) @
     held (h_queue (fold (queue_step push pop close) ops h))"
  by (induction ops arbitrary: h) (simp_all add: step_keeps_order)

lemma step_when_closed:
  assumes "closed (h_queue h)"
  shows "closed (h_queue (queue_step push pop close op h)) \<and>
    h_accepted (queue_step push pop close op h) = h_accepted h"
proof (cases op)
  case (Push e)
  then show ?thesis using assms by (cases rule: push_cases [of e "h_queue h"]) simp_all
next
  case Pop
  then show ?thesis using assms by (cases rule: pop_cases [of "h_queue h"]) simp_all
next
  case Close
  then show ?thesis using assms close_law by simp
qed

lemma nothing_accepted_when_closed:
  "closed (h_queue h) \<Longrightarrow> h_accepted (fold (queue_step push pop close) ops h) = h_accepted h"
  by (induction ops arbitrary: h) (simp_all add: step_when_closed)

lemma every_push_counted:
  "length (h_accepted (fold (queue_step push pop close) ops h)) +
   length (h_refused (fold (queue_step push pop close) ops h)) =
   length (h_accepted h) + length (h_refused h) + length (pushed_items ops)"
proof (induction ops arbitrary: h)
  case (Cons op ops)
  show ?case
  proof (cases op)
    case (Push e)
    then show ?thesis
      using Cons [of "queue_step push pop close op h"]
      by (cases rule: push_cases [of e "h_queue h"]) simp_all
  next
    case Pop
    then show ?thesis
      using Cons [of "queue_step push pop close op h"]
      by (cases rule: pop_cases [of "h_queue h"]) simp_all
  next
    case Close
    then show ?thesis using Cons [of "queue_step push pop close op h"] by simp
  qed
qed simp

lemma accepted_in_order:
  "subseq (h_accepted (fold (queue_step push pop close) ops h)) (h_accepted h @ pushed_items ops)"
proof (induction ops arbitrary: h)
  case (Cons op ops)
  have step: "subseq (h_accepted (queue_step push pop close op h) @ pushed_items ops)
      (h_accepted h @ pushed_items (op # ops))"
  proof (cases op)
    case (Push e)
    then show ?thesis by (cases rule: push_cases [of e "h_queue h"]) (simp_all add: subseq_append' list_emb_Cons)
  next
    case Pop
    then show ?thesis by (cases rule: pop_cases [of "h_queue h"]) simp_all
  next
    case Close
    then show ?thesis by simp
  qed
  show ?case using subseq_order.order_trans [OF Cons step] by simp
qed simp

lemma closed_queue_drains:
  "closed q \<Longrightarrow> length (held q) < n \<Longrightarrow>
   \<exists>r. drain pop n q = (held q, True, r) \<and> held r = [] \<and> closed r"
proof (induction n arbitrary: q)
  case (Suc n)
  then show ?case by (cases rule: pop_cases [of q]) fastforce+
qed simp

lemma open_queue_waits:
  "\<not> closed q \<Longrightarrow> length (held q) < n \<Longrightarrow>
   \<exists>r. drain pop n q = (held q, False, r) \<and> held r = [] \<and> \<not> closed r"
proof (induction n arbitrary: q)
  case (Suc n)
  then show ?case by (cases rule: pop_cases [of q]) fastforce+
qed simp

end

interpretation bounded: iqueue "try_push capacity" wait_pop close_queue q_items q_closed
  for capacity
  by unfold_locales (auto simp: try_push_def wait_pop_def close_queue_def split: if_splits)

section \<open>The capacity\<close>

lemma push_capacity:
  "length (q_items q) \<le> capacity \<Longrightarrow> length (q_items (snd (try_push capacity e q))) \<le> capacity"
  by (simp add: try_push_def)

lemma pop_capacity:
  "length (q_items q) \<le> capacity \<Longrightarrow> wait_pop q = Some (r, q') \<Longrightarrow> length (q_items q') \<le> capacity"
  by (auto simp: wait_pop_def split: if_splits)

abbreviation bounded_run ::
  "nat \<Rightarrow> 'e queue_op list \<Rightarrow> ('e input_queue, 'e) queue_history \<Rightarrow> ('e input_queue, 'e) queue_history" where
  "bounded_run capacity \<equiv> fold (queue_step (try_push capacity) wait_pop close_queue)"

lemma step_capacity:
  assumes "length (q_items (h_queue h)) \<le> capacity"
  shows "length (q_items (h_queue (queue_step (try_push capacity) wait_pop close_queue op h))) \<le> capacity"
  using assms by (cases op) (auto simp: try_push_def wait_pop_def close_queue_def)

lemma run_capacity:
  "length (q_items (h_queue h)) \<le> capacity \<Longrightarrow>
   length (q_items (h_queue (bounded_run capacity ops h))) \<le> capacity"
  by (induction ops arbitrary: h) (simp_all add: step_capacity)

text \<open>
  The input queue is a bounded first-in-first-out channel: over any sequence of pushes, pops
  and closings, the envelopes popped and the ones still held are the accepted ones in the order
  they were pushed, every push is either accepted or refused, never more than the capacity is
  held, and nothing is accepted once the queue is closed.
\<close>

theorem input_queue_is_fifo:
  "let h = bounded_run capacity ops (untouched empty_queue) in
     h_popped h @ q_items (h_queue h) = h_accepted h \<and>
     length (q_items (h_queue h)) \<le> capacity \<and>
     length (h_accepted h) + length (h_refused h) = length (pushed_items ops) \<and>
     h_accepted (bounded_run capacity (ops @ Close # later) (untouched empty_queue)) = h_accepted h"
proof -
  let ?h = "bounded_run capacity ops (untouched empty_queue)"
  have "q_closed (h_queue (queue_step (try_push capacity) wait_pop close_queue Close ?h))"
    by (simp add: close_queue_def)
  from bounded.nothing_accepted_when_closed [OF this, of capacity later] show ?thesis
    using bounded.first_in_first_out [of "[]" "untouched empty_queue" capacity ops]
      run_capacity [of "untouched empty_queue" capacity ops]
      bounded.every_push_counted [of capacity ops "untouched empty_queue"]
    by (simp add: untouched_def empty_queue_def Let_def)
qed

end
