(* ===== verification/Knight_Source.thy ===== *)
theory Knight_Source
  imports Knight_Queue
begin

text \<open>
  The websocket source of the knight (\<^verbatim>\<open>src/knight/src/network/ws_source.cpp\<close>): a
  state machine driven by its three operations and by the completion handlers of the
  asynchronous operations it starts.  The thread of the \<^verbatim>\<open>io_context\<close> runs one handler
  at a time, so each handler is one function on the state.

  What Asio, Beast and OpenSSL do is not code of the repository.  The model keeps the
  operations that have been started and not completed; any of them may complete next, with any
  error code, also the ones whose stream or resolver has been cancelled since, which Asio
  completes with an error unless they were already done.  A timer that has not been cancelled
  completes with success; a cancelled one with an error, or with success when it had already
  expired.  Whether the socket is open, whether the TLS setup succeeds and what has been read
  are given by the environment with the event.
\<close>

section \<open>The state\<close>

datatype ws_source_state = Ws_STOPPED | Ws_STARTING | Ws_RUNNING | Ws_STOPPING | Ws_FAILED

datatype error_code = Success | Ws_error_closed | Other_error nat

datatype stream_op = Op_resolve | Op_connect | Op_tls_handshake | Op_ws_handshake | Op_read | Op_close

text \<open>
  An operation on a stream carries the number of the stream (and resolver round) it was started
  on; \<^verbatim>\<open>reset_stream\<close> begins a new one.
\<close>

datatype async_op = On_stream stream_op nat | Timer nat | Timer_cancelled

text \<open>The callbacks \<^verbatim>\<open>m_on_state\<close>, \<^verbatim>\<open>m_on_error\<close> and \<^verbatim>\<open>m_on_drop\<close>, in the order they are made.\<close>

datatype ws_note = Note_state ws_source_state | Note_error error_code string | Note_drop

record 'q ws_source =
  ws_state :: ws_source_state
  restart_requested :: bool
  reconnect_attempts :: nat
  ws_buffer :: string
  ws_queue :: "'q option"
  use_tls :: bool
  verify_tls_peer :: bool
  ws_host :: string
  ws_port :: string
  ws_target :: string
  stream_no :: nat
  outstanding :: "async_op list"
  callbacks :: "ws_note list"

definition kMaxReconnectAttempts :: nat where "kMaxReconnectAttempts = 10"
definition kReconnectBaseDelay :: nat where "kReconnectBaseDelay = 200"
definition kReconnectMaxDelay :: nat where "kReconnectMaxDelay = 5000"

section \<open>The operations\<close>

definition begin_op :: "stream_op \<Rightarrow> 'q ws_source \<Rightarrow> 'q ws_source" where
  "begin_op k s = s\<lparr>outstanding := outstanding s @ [On_stream k (stream_no s)]\<rparr>"

definition cancel_timer :: "'q ws_source \<Rightarrow> 'q ws_source" where
  "cancel_timer s = s\<lparr>outstanding :=
     map (\<lambda>op. case op of Timer _ \<Rightarrow> Timer_cancelled | _ \<Rightarrow> op) (outstanding s)\<rparr>"

definition reset_stream :: "'q ws_source \<Rightarrow> 'q ws_source" where
  "reset_stream s = s\<lparr>ws_buffer := [], stream_no := Suc (stream_no s)\<rparr>"

definition publish_state :: "ws_source_state \<Rightarrow> 'q ws_source \<Rightarrow> 'q ws_source" where
  "publish_state st s = s\<lparr>ws_state := st, callbacks := callbacks s @ [Note_state st]\<rparr>"

definition publish_error :: "error_code \<Rightarrow> string \<Rightarrow> 'q ws_source \<Rightarrow> 'q ws_source" where
  "publish_error ec place s = s\<lparr>callbacks := callbacks s @ [Note_error ec place]\<rparr>"

definition publish_message ::
  "(input_envelope \<Rightarrow> 'q \<Rightarrow> bool \<times> 'q) \<Rightarrow> nat \<Rightarrow> string \<Rightarrow> 'q ws_source \<Rightarrow> 'q ws_source" where
  "publish_message push now payload s =
     (case ws_queue s of
        None \<Rightarrow> s
      | Some q \<Rightarrow>
          (case push \<lparr>ingress_time = now, env_source = ws_host s, env_payload = payload\<rparr> q of
             (pushed, q') \<Rightarrow>
               (let s = s\<lparr>ws_queue := Some q'\<rparr> in
                if \<not> pushed then s\<lparr>callbacks := callbacks s @ [Note_drop]\<rparr> else s)))"

definition new_source ::
  "'q option \<Rightarrow> bool \<Rightarrow> bool \<Rightarrow> string \<Rightarrow> string \<Rightarrow> string \<Rightarrow> 'q ws_source" where
  "new_source queue tls verify host port target =
     reset_stream \<lparr>ws_state = Ws_STOPPED, restart_requested = False, reconnect_attempts = 0,
       ws_buffer = [], ws_queue = queue, use_tls = tls, verify_tls_peer = verify, ws_host = host,
       ws_port = port, ws_target = target, stream_no = 0, outstanding = [], callbacks = []\<rparr>"

definition ws_start :: "'q ws_source \<Rightarrow> 'q ws_source" where
  "ws_start s =
     (let s = cancel_timer s in
      if ws_state s = Ws_STARTING \<or> ws_state s = Ws_RUNNING then s
      else begin_op Op_resolve
             (publish_state Ws_STARTING (reset_stream (s\<lparr>restart_requested := False\<rparr>))))"

definition reconnect_delay :: "nat \<Rightarrow> nat" where
  "reconnect_delay attempt = min (kReconnectBaseDelay * 2 ^ min attempt 5) kReconnectMaxDelay"

definition schedule_reconnect :: "'q ws_source \<Rightarrow> 'q ws_source" where
  "schedule_reconnect s =
     (if ws_state s = Ws_STOPPING \<or> ws_state s = Ws_STOPPED then s
      else if kMaxReconnectAttempts \<le> reconnect_attempts s then s
      else
        let attempt = reconnect_attempts s;
            s = cancel_timer (s\<lparr>reconnect_attempts := attempt + 1\<rparr>)
        in s\<lparr>outstanding := outstanding s @ [Timer (reconnect_delay attempt)]\<rparr>)"

definition ws_fail :: "error_code \<Rightarrow> string \<Rightarrow> 'q ws_source \<Rightarrow> 'q ws_source" where
  "ws_fail ec place s =
     schedule_reconnect (reset_stream (publish_state Ws_FAILED (publish_error ec place s)))"

definition on_close :: "error_code \<Rightarrow> 'q ws_source \<Rightarrow> 'q ws_source" where
  "on_close ec s =
     (let s = s\<lparr>ws_buffer := []\<rparr>;
          close_failed = (ec \<noteq> Success \<and> ec \<noteq> Ws_error_closed);
          s = (if close_failed
               then schedule_reconnect (publish_state Ws_FAILED (publish_error ec ''close'' s))
               else publish_state Ws_STOPPED s);
          s = reset_stream s
      in if restart_requested s then ws_start (s\<lparr>restart_requested := False\<rparr>) else s)"

definition do_close :: "bool \<Rightarrow> 'q ws_source \<Rightarrow> 'q ws_source" where
  "do_close is_open s = (if \<not> is_open then on_close Success s else begin_op Op_close s)"

definition ws_stop :: "bool \<Rightarrow> 'q ws_source \<Rightarrow> 'q ws_source" where
  "ws_stop is_open s =
     (let s = cancel_timer (s\<lparr>restart_requested := False\<rparr>) in
      if ws_state s = Ws_STOPPED \<or> ws_state s = Ws_STOPPING then s
      else do_close is_open (publish_state Ws_STOPPING s))"

definition ws_restart :: "bool \<Rightarrow> 'q ws_source \<Rightarrow> 'q ws_source" where
  "ws_restart is_open s =
     (let s = s\<lparr>restart_requested := True\<rparr> in
      if ws_state s = Ws_STOPPED \<or> ws_state s = Ws_FAILED then ws_start (reset_stream s)
      else if ws_state s = Ws_STOPPING then s
      else do_close is_open (publish_state Ws_STOPPING s))"

section \<open>The completion handlers\<close>

definition on_resolve :: "error_code \<Rightarrow> 'q ws_source \<Rightarrow> 'q ws_source" where
  "on_resolve ec s = (if ec \<noteq> Success then ws_fail ec ''resolve'' s else begin_op Op_connect s)"

definition do_ws_handshake :: "'q ws_source \<Rightarrow> 'q ws_source" where
  "do_ws_handshake s = begin_op Op_ws_handshake s"

text \<open>\<^verbatim>\<open>sni\<close> and \<^verbatim>\<open>verify\<close> are the results of the two OpenSSL setup calls.\<close>

definition on_connect ::
  "error_code \<Rightarrow> error_code \<Rightarrow> error_code \<Rightarrow> 'q ws_source \<Rightarrow> 'q ws_source" where
  "on_connect ec sni verify s =
     (if ec \<noteq> Success then ws_fail ec ''connect'' s
      else if \<not> use_tls s then do_ws_handshake s
      else if sni \<noteq> Success then ws_fail sni ''tls_sni'' s
      else if verify_tls_peer s \<and> verify \<noteq> Success then ws_fail verify ''tls_verify_host'' s
      else begin_op Op_tls_handshake s)"

definition on_tls_handshake :: "error_code \<Rightarrow> 'q ws_source \<Rightarrow> 'q ws_source" where
  "on_tls_handshake ec s = (if ec \<noteq> Success then ws_fail ec ''tls_handshake'' s else do_ws_handshake s)"

definition do_read :: "'q ws_source \<Rightarrow> 'q ws_source" where
  "do_read s = begin_op Op_read s"

definition on_ws_handshake :: "error_code \<Rightarrow> 'q ws_source \<Rightarrow> 'q ws_source" where
  "on_ws_handshake ec s =
     (if ec \<noteq> Success then ws_fail ec ''ws_handshake'' s
      else do_read (publish_state Ws_RUNNING (s\<lparr>reconnect_attempts := 0\<rparr>)))"

definition on_read ::
  "(input_envelope \<Rightarrow> 'q \<Rightarrow> bool \<times> 'q) \<Rightarrow> nat \<Rightarrow> error_code \<Rightarrow> 'q ws_source \<Rightarrow> 'q ws_source" where
  "on_read push now ec s =
     (if ec \<noteq> Success then ws_fail ec ''read'' s
      else
        let s = (publish_message push now (ws_buffer s) s)\<lparr>ws_buffer := []\<rparr>
        in if ws_state s = Ws_RUNNING then do_read s else s)"

definition on_timer :: "bool \<Rightarrow> 'q ws_source \<Rightarrow> 'q ws_source" where
  "on_timer aborted s =
     (if aborted then s
      else if ws_state s = Ws_STOPPING \<or> ws_state s = Ws_RUNNING then s
      else ws_start s)"

section \<open>The machine\<close>

text \<open>A completion, with what the environment supplies.  A read brings the bytes it put into the buffer.\<close>

datatype completion =
  Resolve_done error_code
| Connect_done error_code error_code error_code
| Tls_done error_code
| Handshake_done error_code
| Read_done error_code string nat
| Close_done error_code

primrec completes :: "completion \<Rightarrow> stream_op" where
  "completes (Resolve_done ec) = Op_resolve"
| "completes (Connect_done ec sni verify) = Op_connect"
| "completes (Tls_done ec) = Op_tls_handshake"
| "completes (Handshake_done ec) = Op_ws_handshake"
| "completes (Read_done ec bytes now) = Op_read"
| "completes (Close_done ec) = Op_close"

primrec on_completion ::
  "(input_envelope \<Rightarrow> 'q \<Rightarrow> bool \<times> 'q) \<Rightarrow> completion \<Rightarrow> 'q ws_source \<Rightarrow> 'q ws_source" where
  "on_completion push (Resolve_done ec) s = on_resolve ec s"
| "on_completion push (Connect_done ec sni verify) s = on_connect ec sni verify s"
| "on_completion push (Tls_done ec) s = on_tls_handshake ec s"
| "on_completion push (Handshake_done ec) s = on_ws_handshake ec s"
| "on_completion push (Read_done ec bytes now) s = on_read push now ec (s\<lparr>ws_buffer := ws_buffer s @ bytes\<rparr>)"
| "on_completion push (Close_done ec) s = on_close ec s"

datatype ws_event =
  Start | Stop bool | Restart bool
| Complete nat completion
| Expire nat
| Cancelled bool

definition completed :: "async_op \<Rightarrow> 'q ws_source \<Rightarrow> 'q ws_source" where
  "completed op s = s\<lparr>outstanding := remove1 op (outstanding s)\<rparr>"

inductive ws_step ::
  "(input_envelope \<Rightarrow> 'q \<Rightarrow> bool \<times> 'q) \<Rightarrow> 'q ws_source \<Rightarrow> ws_event \<Rightarrow> 'q ws_source \<Rightarrow> bool"
  for push :: "input_envelope \<Rightarrow> 'q \<Rightarrow> bool \<times> 'q" where
  start: "ws_step push s Start (ws_start s)"
| stop: "ws_step push s (Stop is_open) (ws_stop is_open s)"
| restart: "ws_step push s (Restart is_open) (ws_restart is_open s)"
| complete: "On_stream (completes c) n \<in> set (outstanding s) \<Longrightarrow>
    ws_step push s (Complete n c) (on_completion push c (completed (On_stream (completes c) n) s))"
| expire: "Timer d \<in> set (outstanding s) \<Longrightarrow>
    ws_step push s (Expire d) (on_timer False (completed (Timer d) s))"
| cancelled: "Timer_cancelled \<in> set (outstanding s) \<Longrightarrow>
    ws_step push s (Cancelled aborted) (on_timer aborted (completed Timer_cancelled s))"

inductive_simps ws_step_simps [simp]:
  "ws_step push s Start t" "ws_step push s (Stop b) t" "ws_step push s (Restart b) t"
  "ws_step push s (Complete n c) t" "ws_step push s (Expire d) t" "ws_step push s (Cancelled b) t"

inductive ws_path ::
  "(input_envelope \<Rightarrow> 'q \<Rightarrow> bool \<times> 'q) \<Rightarrow> 'q ws_source \<Rightarrow> ws_event list \<Rightarrow> 'q ws_source \<Rightarrow> bool"
  for push :: "input_envelope \<Rightarrow> 'q \<Rightarrow> bool \<times> 'q" where
  here: "ws_path push s [] s"
| there: "ws_step push s e t \<Longrightarrow> ws_path push t es u \<Longrightarrow> ws_path push s (e # es) u"

inductive_simps ws_path_simps: "ws_path push s [] t" "ws_path push s (e # es) t"

text \<open>The machine is deterministic in its events: the step as a function, for runs to be evaluated.\<close>

definition ws_next ::
  "(input_envelope \<Rightarrow> 'q \<Rightarrow> bool \<times> 'q) \<Rightarrow> ws_event \<Rightarrow> 'q ws_source \<Rightarrow> 'q ws_source option" where
  "ws_next push e s =
     (case e of
        Start \<Rightarrow> Some (ws_start s)
      | Stop is_open \<Rightarrow> Some (ws_stop is_open s)
      | Restart is_open \<Rightarrow> Some (ws_restart is_open s)
      | Complete n c \<Rightarrow>
          if On_stream (completes c) n \<in> set (outstanding s)
          then Some (on_completion push c (completed (On_stream (completes c) n) s)) else None
      | Expire d \<Rightarrow>
          if Timer d \<in> set (outstanding s) then Some (on_timer False (completed (Timer d) s)) else None
      | Cancelled aborted \<Rightarrow>
          if Timer_cancelled \<in> set (outstanding s)
          then Some (on_timer aborted (completed Timer_cancelled s)) else None)"

lemma ws_next_step: "ws_step push s e t \<longleftrightarrow> ws_next push e s = Some t"
  by (cases e) (auto simp: ws_next_def)

fun ws_exec ::
  "(input_envelope \<Rightarrow> 'q \<Rightarrow> bool \<times> 'q) \<Rightarrow> ws_event list \<Rightarrow> 'q ws_source \<Rightarrow> 'q ws_source option" where
  "ws_exec push [] s = Some s"
| "ws_exec push (e # es) s = Option.bind (ws_next push e s) (ws_exec push es)"

lemma ws_exec_path: "ws_path push s es t \<longleftrightarrow> ws_exec push es s = Some t"
  by (induction es arbitrary: s) (auto simp: ws_path_simps ws_next_step bind_eq_Some_conv)

section \<open>What the machine keeps\<close>

named_theorems ws_defs

lemmas [ws_defs] = begin_op_def reset_stream_def publish_state_def publish_error_def
  ws_start_def schedule_reconnect_def ws_fail_def on_close_def do_close_def ws_stop_def ws_restart_def
  on_resolve_def do_ws_handshake_def on_connect_def on_tls_handshake_def do_read_def
  on_ws_handshake_def on_timer_def completed_def kMaxReconnectAttempts_def

definition is_timer :: "async_op \<Rightarrow> bool" where
  "is_timer op = (case op of Timer _ \<Rightarrow> True | _ \<Rightarrow> False)"

lemma is_timer_simps [simp]:
  "is_timer (Timer d)" "\<not> is_timer Timer_cancelled" "\<not> is_timer (On_stream k n)"
  by (simp_all add: is_timer_def)

lemma cancel_timer_outstanding:
  "(On_stream k n \<in> set (outstanding (cancel_timer s)) \<longleftrightarrow> On_stream k n \<in> set (outstanding s)) \<and>
   Timer d \<notin> set (outstanding (cancel_timer s)) \<and> filter is_timer (outstanding (cancel_timer s)) = []"
proof -
  have "(On_stream k n \<in> set (map (\<lambda>op. case op of Timer _ \<Rightarrow> Timer_cancelled | _ \<Rightarrow> op) ops) \<longleftrightarrow>
      On_stream k n \<in> set ops) \<and>
    Timer d \<notin> set (map (\<lambda>op. case op of Timer _ \<Rightarrow> Timer_cancelled | _ \<Rightarrow> op) ops) \<and>
    filter is_timer (map (\<lambda>op. case op of Timer _ \<Rightarrow> Timer_cancelled | _ \<Rightarrow> op) ops) = []" for ops
    by (induction ops) (auto split: async_op.splits)
  then show ?thesis by (simp add: cancel_timer_def)
qed

lemma cancel_timer_fields [simp]:
  "ws_state (cancel_timer s) = ws_state s"
  "restart_requested (cancel_timer s) = restart_requested s"
  "reconnect_attempts (cancel_timer s) = reconnect_attempts s"
  "ws_buffer (cancel_timer s) = ws_buffer s"
  "ws_queue (cancel_timer s) = ws_queue s"
  "stream_no (cancel_timer s) = stream_no s"
  "callbacks (cancel_timer s) = callbacks s"
  "ws_host (cancel_timer s) = ws_host s"
  "use_tls (cancel_timer s) = use_tls s"
  "verify_tls_peer (cancel_timer s) = verify_tls_peer s"
  "On_stream k n \<in> set (outstanding (cancel_timer s)) \<longleftrightarrow> On_stream k n \<in> set (outstanding s)"
  "Timer d \<notin> set (outstanding (cancel_timer s))"
  "filter is_timer (outstanding (cancel_timer s)) = []"
  using cancel_timer_outstanding [of k n s d] by (simp_all add: cancel_timer_def)

lemma reconnect_delay_bounds: "kReconnectBaseDelay \<le> reconnect_delay n \<and> reconnect_delay n \<le> kReconnectMaxDelay"
  by (simp add: reconnect_delay_def kReconnectBaseDelay_def kReconnectMaxDelay_def)

text \<open>
  The invariant.  Timers: at most one wait is live and its delay is within the bounds.  Progress:
  in every state but \<^verbatim>\<open>STOPPED\<close> something is outstanding that takes the source on: a
  step of the connection on the current stream while it is starting, a read on it while it is
  running, a close on it while it is stopping, and after a failure the reconnect timer, unless
  the attempts are used up.  Restart: a requested restart has a close to wait for.
\<close>

definition timers_ok :: "'q ws_source \<Rightarrow> bool" where
  "timers_ok s \<longleftrightarrow> length (filter is_timer (outstanding s)) \<le> 1 \<and>
     (\<forall>d. Timer d \<in> set (outstanding s) \<longrightarrow> kReconnectBaseDelay \<le> d \<and> d \<le> kReconnectMaxDelay) \<and>
     reconnect_attempts s \<le> kMaxReconnectAttempts"

definition making_progress :: "'q ws_source \<Rightarrow> bool" where
  "making_progress s =
     (case ws_state s of
        Ws_STOPPED \<Rightarrow> True
      | Ws_STARTING \<Rightarrow> (\<exists>k \<in> {Op_resolve, Op_connect, Op_tls_handshake, Op_ws_handshake}.
          On_stream k (stream_no s) \<in> set (outstanding s))
      | Ws_RUNNING \<Rightarrow> On_stream Op_read (stream_no s) \<in> set (outstanding s) \<and> reconnect_attempts s = 0
      | Ws_STOPPING \<Rightarrow> On_stream Op_close (stream_no s) \<in> set (outstanding s)
      | Ws_FAILED \<Rightarrow> (\<exists>d. Timer d \<in> set (outstanding s)) \<or>
          reconnect_attempts s = kMaxReconnectAttempts)"

definition restart_waits :: "'q ws_source \<Rightarrow> bool" where
  "restart_waits s \<longleftrightarrow> (restart_requested s \<longrightarrow> (\<exists>n. On_stream Op_close n \<in> set (outstanding s)))"

definition ws_inv :: "'q ws_source \<Rightarrow> bool" where
  "ws_inv s \<longleftrightarrow> timers_ok s \<and> making_progress s \<and> restart_waits s \<and> ws_buffer s = []"

lemmas inv_defs = ws_inv_def timers_ok_def making_progress_def restart_waits_def

lemma timers_ok_fields [simp]:
  "timers_ok (publish_state st s) = timers_ok s" "timers_ok (publish_error ec w s) = timers_ok s"
  "timers_ok (reset_stream s) = timers_ok s" "timers_ok (s\<lparr>ws_buffer := b\<rparr>) = timers_ok s"
  "timers_ok (s\<lparr>restart_requested := r\<rparr>) = timers_ok s"
  by (simp_all add: timers_ok_def publish_state_def publish_error_def reset_stream_def)

lemma ws_inv_queue [simp]: "ws_inv (s\<lparr>ws_queue := q\<rparr>) = ws_inv s"
  by (cases "ws_state s") (simp_all add: inv_defs)

lemma new_source_inv: "ws_inv (new_source queue tls verify host port target)"
  by (simp add: new_source_def inv_defs reset_stream_def)

lemma ws_start_inv:
  assumes "timers_ok s" and "ws_state s = Ws_STARTING \<or> ws_state s = Ws_RUNNING \<Longrightarrow> ws_inv s"
  shows "ws_inv (ws_start s)"
  using assms by (cases "ws_state s") (auto simp: inv_defs ws_start_def Let_def ws_defs)

lemma schedule_inv:
  assumes "timers_ok s" and "restart_waits s" and "ws_state s = Ws_FAILED" and "ws_buffer s = []"
  shows "ws_inv (schedule_reconnect s)"
  using assms reconnect_delay_bounds
  by (auto simp: inv_defs schedule_reconnect_def Let_def kMaxReconnectAttempts_def)

lemma ws_fail_inv: "timers_ok s \<Longrightarrow> restart_waits s \<Longrightarrow> ws_inv (ws_fail ec place s)"
  unfolding ws_fail_def
  by (rule schedule_inv) (auto simp: ws_defs timers_ok_def restart_waits_def)

lemma schedule_timers: "timers_ok s \<Longrightarrow> timers_ok (schedule_reconnect s)"
  using reconnect_delay_bounds
  by (auto simp: timers_ok_def schedule_reconnect_def Let_def kMaxReconnectAttempts_def)

lemma schedule_state [simp]:
  "ws_state (schedule_reconnect s) = ws_state s"
  "restart_requested (schedule_reconnect s) = restart_requested s"
  "ws_buffer (schedule_reconnect s) = ws_buffer s"
  "ws_queue (schedule_reconnect s) = ws_queue s"
  "callbacks (schedule_reconnect s) = callbacks s"
  by (simp_all add: schedule_reconnect_def Let_def)

lemma on_close_inv:
  assumes "timers_ok s"
  shows "ws_inv (on_close ec s)"
proof -
  let ?t = "s\<lparr>ws_buffer := []\<rparr>"
  let ?u = "if ec \<noteq> Success \<and> ec \<noteq> Ws_error_closed
      then schedule_reconnect (publish_state Ws_FAILED (publish_error ec ''close'' ?t))
      else publish_state Ws_STOPPED ?t"
  have u: "timers_ok (reset_stream ?u)"
    using assms by (simp add: schedule_timers)
  have closed: "ws_state (reset_stream ?u) = Ws_STOPPED \<or> ws_state (reset_stream ?u) = Ws_FAILED"
    by (simp add: publish_state_def reset_stream_def)
  show ?thesis
  proof (cases "restart_requested s")
    case True
    have "on_close ec s = ws_start ((reset_stream ?u)\<lparr>restart_requested := False\<rparr>)"
      using True by (simp add: on_close_def Let_def publish_state_def publish_error_def reset_stream_def)
    moreover have "ws_inv (ws_start ((reset_stream ?u)\<lparr>restart_requested := False\<rparr>))"
      by (rule ws_start_inv) (use u closed in auto)
    ultimately show ?thesis by simp
  next
    case False
    have run: "on_close ec s = reset_stream ?u"
      using False by (simp add: on_close_def Let_def publish_state_def publish_error_def reset_stream_def)
    have "ws_inv (schedule_reconnect (publish_state Ws_FAILED (publish_error ec ''close'' ?t)))"
      using False assms by (intro schedule_inv) (simp_all add: publish_state_def publish_error_def restart_waits_def timers_ok_def)
    then show ?thesis
      using u False unfolding run by (auto simp: inv_defs reset_stream_def publish_state_def)
  qed
qed

lemma do_close_inv:
  assumes "timers_ok s" and "ws_state s = Ws_STOPPING" and "ws_buffer s = []"
  shows "ws_inv (do_close is_open s)"
proof (cases is_open)
  case False
  then show ?thesis using on_close_inv [OF assms(1)] by (simp add: do_close_def)
next
  case True
  then show ?thesis using assms by (auto simp: do_close_def inv_defs begin_op_def)
qed

lemma ws_stop_inv:
  assumes "ws_inv s"
  shows "ws_inv (ws_stop is_open s)"
proof -
  let ?t = "cancel_timer (s\<lparr>restart_requested := False\<rparr>)"
  have t: "timers_ok ?t" "ws_buffer ?t = []" using assms by (simp_all add: inv_defs)
  show ?thesis
  proof (cases "ws_state s = Ws_STOPPED \<or> ws_state s = Ws_STOPPING")
    case True
    then show ?thesis using assms by (auto simp: ws_stop_def Let_def inv_defs)
  next
    case False
    have "ws_inv (do_close is_open (publish_state Ws_STOPPING ?t))"
      by (rule do_close_inv) (use t in \<open>simp_all add: publish_state_def timers_ok_def\<close>)
    then show ?thesis using False by (simp add: ws_stop_def Let_def)
  qed
qed

lemma ws_restart_inv:
  assumes "ws_inv s"
  shows "ws_inv (ws_restart is_open s)"
proof -
  let ?t = "s\<lparr>restart_requested := True\<rparr>"
  have t: "timers_ok ?t" "ws_buffer ?t = []" using assms by (simp_all add: inv_defs)
  show ?thesis
  proof (cases "ws_state s")
    case Ws_STOPPING
    then show ?thesis using assms by (auto simp: ws_restart_def Let_def inv_defs)
  next
    case Ws_STOPPED
    have "ws_inv (ws_start (reset_stream ?t))"
      by (rule ws_start_inv) (use t Ws_STOPPED in \<open>simp_all add: reset_stream_def timers_ok_def\<close>)
    then show ?thesis using Ws_STOPPED by (simp add: ws_restart_def)
  next
    case Ws_FAILED
    have "ws_inv (ws_start (reset_stream ?t))"
      by (rule ws_start_inv) (use t Ws_FAILED in \<open>simp_all add: reset_stream_def timers_ok_def\<close>)
    then show ?thesis using Ws_FAILED by (simp add: ws_restart_def)
  next
    case Ws_STARTING
    have "ws_inv (do_close is_open (publish_state Ws_STOPPING ?t))"
      by (rule do_close_inv) (use t in \<open>simp_all add: publish_state_def timers_ok_def\<close>)
    then show ?thesis using Ws_STARTING by (simp add: ws_restart_def)
  next
    case Ws_RUNNING
    have "ws_inv (do_close is_open (publish_state Ws_STOPPING ?t))"
      by (rule do_close_inv) (use t in \<open>simp_all add: publish_state_def timers_ok_def\<close>)
    then show ?thesis using Ws_RUNNING by (simp add: ws_restart_def)
  qed
qed

text \<open>A completion removes its operation; the handler makes up for it.\<close>

lemma completed_timers: "timers_ok s \<Longrightarrow> timers_ok (completed op s)"
  using length_filter_le [of is_timer]
  by (auto simp: timers_ok_def completed_def filter_remove1 length_remove1 dest: notin_set_remove1)

lemma completed_other [simp]:
  "ws_state (completed op s) = ws_state s" "restart_requested (completed op s) = restart_requested s"
  "reconnect_attempts (completed op s) = reconnect_attempts s" "ws_buffer (completed op s) = ws_buffer s"
  "ws_queue (completed op s) = ws_queue s" "stream_no (completed op s) = stream_no s"
  "callbacks (completed op s) = callbacks s" "ws_host (completed op s) = ws_host s"
  by (simp_all add: completed_def)

lemma still_outstanding:
  "op \<noteq> op' \<Longrightarrow> op' \<in> set (outstanding (completed op s)) \<longleftrightarrow> op' \<in> set (outstanding s)"
  by (simp add: completed_def in_set_remove1)

lemma completed_restart:
  assumes "restart_waits s" and "\<And>n. op \<noteq> On_stream Op_close n"
  shows "restart_waits (completed op s)"
  using assms(1) by (simp add: restart_waits_def still_outstanding assms(2))

text \<open>
  A handler of the connection phase that goes on: it begins the next operation on the current
  stream.  What is left to check is the state the source is in.
\<close>

lemma next_op_inv:
  assumes "ws_inv s" and "op = On_stream k' n" and "k' \<in> {Op_resolve, Op_connect, Op_tls_handshake, Op_ws_handshake}"
    and "k \<in> {Op_connect, Op_tls_handshake, Op_ws_handshake}"
  shows "ws_inv (begin_op k (completed op s))"
proof -
  have r: "restart_waits (completed op s)" "timers_ok (completed op s)"
    using assms completed_restart [of s op] completed_timers [of s op] by (auto simp: ws_inv_def)
  have p: "making_progress (begin_op k (completed op s))"
    using assms by (auto simp: inv_defs begin_op_def completed_def in_set_remove1
        split: ws_source_state.splits)
  show ?thesis
    using r p assms(1) by (auto simp: ws_inv_def begin_op_def restart_waits_def timers_ok_def)
qed

lemma fail_after:
  assumes "ws_inv s" and "\<And>n. op \<noteq> On_stream Op_close n"
  shows "ws_inv (ws_fail ec place (completed op s))"
  by (rule ws_fail_inv) (use assms completed_restart completed_timers in \<open>auto simp: ws_inv_def\<close>)

lemma on_timer_inv:
  assumes "ws_inv s" and "is_timer op \<and> \<not> aborted \<or> op = Timer_cancelled"
  shows "ws_inv (on_timer aborted (completed op s))"
proof (cases "op = Timer_cancelled \<and> (aborted \<or> ws_state s \<in> {Ws_STOPPING, Ws_RUNNING}) \<or>
    ws_state s \<in> {Ws_STOPPING, Ws_RUNNING, Ws_STARTING}")
  case True
  have "ws_inv (completed op s)"
    using assms True completed_timers [of s op] completed_restart [of s op]
    by (auto simp: ws_inv_def making_progress_def completed_def in_set_remove1 is_timer_def
        split: ws_source_state.splits async_op.splits)
  then show ?thesis using True assms ws_start_inv [of "completed op s"]
    by (auto simp: on_timer_def ws_inv_def)
next
  case False
  then show ?thesis
    using assms completed_timers [of s op] ws_start_inv [of "completed op s"]
    by (auto simp: on_timer_def ws_inv_def)
qed

lemma publish_message_fields [simp]:
  "ws_state (publish_message push now p s) = ws_state s"
  "restart_requested (publish_message push now p s) = restart_requested s"
  "reconnect_attempts (publish_message push now p s) = reconnect_attempts s"
  "stream_no (publish_message push now p s) = stream_no s"
  "outstanding (publish_message push now p s) = outstanding s"
  by (simp_all add: publish_message_def Let_def split: option.splits prod.splits)

lemma handshake_inv:
  assumes "ws_inv s"
  shows "ws_inv (on_ws_handshake ec (completed (On_stream Op_ws_handshake n) s))"
proof (cases "ec = Success")
  case True
  have "restart_waits (completed (On_stream Op_ws_handshake n) s)"
    "timers_ok (completed (On_stream Op_ws_handshake n) s)"
    using assms completed_restart completed_timers by (auto simp: ws_inv_def)
  then show ?thesis
    using assms True
    by (auto simp: on_ws_handshake_def do_read_def begin_op_def publish_state_def inv_defs)
next
  case False
  then show ?thesis by (simp add: on_ws_handshake_def fail_after assms)
qed

lemma read_inv:
  assumes "ws_inv s"
  shows "ws_inv (on_read push now ec ((completed (On_stream Op_read n) s)\<lparr>ws_buffer := b\<rparr>))"
proof -
  let ?s = "(completed (On_stream Op_read n) s)\<lparr>ws_buffer := b\<rparr>"
  have c: "restart_waits (completed (On_stream Op_read n) s)" "timers_ok (completed (On_stream Op_read n) s)"
    using assms completed_restart completed_timers by (auto simp: ws_inv_def)
  show ?thesis
  proof (cases "ec = Success")
    case True
    have "making_progress (do_read ?s)" if "ws_state s = Ws_RUNNING"
      using assms that by (simp add: inv_defs do_read_def begin_op_def)
    moreover have "making_progress ?s" if "ws_state s \<noteq> Ws_RUNNING"
      using assms that
      by (auto simp: inv_defs still_outstanding split: ws_source_state.splits)
    ultimately show ?thesis
      using True c
      by (auto simp: on_read_def Let_def inv_defs do_read_def begin_op_def split: ws_source_state.splits)
  next
    case False
    have "ws_inv (ws_fail ec ''read'' ?s)"
      by (rule ws_fail_inv) (use c in \<open>simp_all add: restart_waits_def\<close>)
    then show ?thesis using False by (simp add: on_read_def)
  qed
qed

lemma completion_inv:
  assumes "ws_inv s"
  shows "ws_inv (on_completion push c (completed (On_stream (completes c) n) s))"
proof (cases c)
  case (Resolve_done ec)
  then show ?thesis
    using assms fail_after [OF assms] next_op_inv [OF assms] by (simp add: on_resolve_def)
next
  case (Connect_done ec sni verify)
  then show ?thesis
    using assms fail_after [OF assms] next_op_inv [OF assms] by (simp add: on_connect_def do_ws_handshake_def)
next
  case (Tls_done ec)
  then show ?thesis
    using assms fail_after [OF assms] next_op_inv [OF assms] by (simp add: on_tls_handshake_def do_ws_handshake_def)
next
  case (Handshake_done ec)
  then show ?thesis using handshake_inv [OF assms] by simp
next
  case (Read_done ec bytes now)
  then show ?thesis using read_inv [OF assms] by simp
next
  case (Close_done ec)
  have "timers_ok (completed (On_stream Op_close n) s)"
    using assms completed_timers [of s] by (simp add: ws_inv_def)
  then show ?thesis using on_close_inv Close_done by simp
qed

lemma ws_step_inv:
  assumes "ws_step push s e t" and "ws_inv s"
  shows "ws_inv t"
  using assms
proof (cases rule: ws_step.cases)
  case start
  then show ?thesis using ws_start_inv [of s] assms(2) by (simp add: ws_inv_def)
qed (auto intro: ws_stop_inv ws_restart_inv completion_inv on_timer_inv)

lemma ws_path_inv: "ws_path push s es t \<Longrightarrow> ws_inv s \<Longrightarrow> ws_inv t"
  by (induction rule: ws_path.induct) (auto dest: ws_step_inv)

definition ws_reachable :: "(input_envelope \<Rightarrow> 'q \<Rightarrow> bool \<times> 'q) \<Rightarrow> 'q ws_source \<Rightarrow> bool" where
  "ws_reachable push s \<longleftrightarrow>
     (\<exists>queue tls verify host port target es. ws_path push (new_source queue tls verify host port target) es s)"

lemma reachable_inv: "ws_reachable push s \<Longrightarrow> ws_inv s"
  unfolding ws_reachable_def using ws_path_inv new_source_inv by blast

lemma ws_path_append: "ws_path push s es t \<Longrightarrow> ws_path push t fs u \<Longrightarrow> ws_path push s (es @ fs) u"
  by (induction rule: ws_path.induct) (auto intro: ws_path.intros)

lemma reachable_path: "ws_reachable push s \<Longrightarrow> ws_path push s es t \<Longrightarrow> ws_reachable push t"
  unfolding ws_reachable_def using ws_path_append by blast

lemma reachable_step: "ws_reachable push s \<Longrightarrow> ws_step push s e t \<Longrightarrow> ws_reachable push t"
  by (rule reachable_path) (auto intro: ws_path.intros)

section \<open>Restarting\<close>

lemma ws_start_starts:
  "ws_state s \<noteq> Ws_RUNNING \<Longrightarrow> ws_state (ws_start s) = Ws_STARTING"
  by (simp add: ws_start_def Let_def begin_op_def publish_state_def)

lemma close_restarts:
  assumes "restart_requested s"
  shows "ws_state (on_close ec s) = Ws_STARTING"
proof -
  have "restart_requested (reset_stream t) = restart_requested t" "ws_state (reset_stream t) = ws_state t"
    for t :: "'a ws_source" by (simp_all add: reset_stream_def)
  then show ?thesis
    using assms
    by (auto simp: on_close_def Let_def publish_state_def publish_error_def intro!: ws_start_starts)
qed

lemma fail_keeps_restart: "restart_requested (ws_fail ec place s) = restart_requested s"
  by (simp add: ws_fail_def reset_stream_def publish_state_def publish_error_def)

lemma timer_restart:
  "restart_requested s \<Longrightarrow>
   restart_requested (on_timer aborted s) \<or> ws_state (on_timer aborted s) = Ws_STARTING"
  using ws_start_starts [of s] by (cases "ws_state s = Ws_RUNNING") (auto simp: on_timer_def)

lemma start_restart:
  "restart_requested s \<Longrightarrow> restart_requested (ws_start s) \<or> ws_state (ws_start s) = Ws_STARTING"
  using ws_start_starts [of s] by (cases "ws_state s = Ws_RUNNING") (auto simp: ws_start_def Let_def)

lemma restart_keeps:
  assumes "ws_step push s e t" and "restart_requested s" and "\<And>b. e \<noteq> Stop b"
  shows "restart_requested t \<or> ws_state t = Ws_STARTING"
  using assms(1)
proof (cases rule: ws_step.cases)
  case start
  then show ?thesis using start_restart assms(2) by simp
next
  case (restart is_open)
  then show ?thesis
    using assms(2) start_restart [of "reset_stream (s\<lparr>restart_requested := True\<rparr>)"]
      close_restarts [of "publish_state Ws_STOPPING (s\<lparr>restart_requested := True\<rparr>)" Success]
    by (auto simp: ws_restart_def Let_def do_close_def begin_op_def publish_state_def reset_stream_def)
next
  case (complete c n)
  show ?thesis
  proof (cases c)
    case (Close_done ec)
    then show ?thesis using complete assms(2) by (simp add: close_restarts)
  qed (use complete assms(2) in \<open>auto simp: on_resolve_def on_connect_def on_tls_handshake_def
      on_ws_handshake_def on_read_def do_ws_handshake_def do_read_def begin_op_def publish_state_def
      Let_def fail_keeps_restart\<close>)
next
  case (expire d)
  then show ?thesis using timer_restart [of "completed (Timer d) s" False] assms(2) by simp
next
  case (cancelled aborted)
  then show ?thesis using timer_restart [of "completed Timer_cancelled s" aborted] assms(2) by simp
qed (use assms(3) in auto)

lemma restart_requests:
  "restart_requested (ws_restart b s) \<or> ws_state (ws_restart b s) = Ws_STARTING"
  using start_restart [of "reset_stream (s\<lparr>restart_requested := True\<rparr>)"]
    close_restarts [of "publish_state Ws_STOPPING (s\<lparr>restart_requested := True\<rparr>)" Success]
  by (auto simp: ws_restart_def Let_def do_close_def begin_op_def publish_state_def reset_stream_def)

lemma restart_path:
  assumes "ws_path push s es t" and "restart_requested s \<or> ws_state s = Ws_STARTING"
    and "\<And>b. Stop b \<notin> set es"
  shows "restart_requested t \<or>
    (\<exists>es1 es2 u. es = es1 @ es2 \<and> ws_path push s es1 u \<and> ws_state u = Ws_STARTING)"
  using assms
proof (induction rule: ws_path.induct)
  case (here s)
  then show ?case by (auto intro: ws_path.here)
next
  case (there s e t es u)
  show ?case
  proof (cases "ws_state s = Ws_STARTING")
    case True
    then show ?thesis by (metis append_Nil ws_path.here)
  next
    case False
    then have "restart_requested t \<or> ws_state t = Ws_STARTING"
      using restart_keeps [OF there.hyps(1)] there.prems by auto
    then consider "restart_requested u"
      | es1 es2 v where "es = es1 @ es2" "ws_path push t es1 v" "ws_state v = Ws_STARTING"
      using there.IH there.prems(2) by auto
    then show ?thesis
    proof cases
      case 2
      then have "ws_path push s (e # es1) v" using there.hyps(1) by (auto intro: ws_path.there)
      then show ?thesis using 2 by (metis append_Cons)
    qed simp
  qed
qed

section \<open>Properties\<close>

text \<open>
  C24. Whatever the operations do, in whatever order and with whatever errors they complete and
  however calls of start, stop and restart fall in between, the source is never stuck: while it
  is starting a step of the connection is under way on its current stream, while it is running
  a read is, while it is stopping a close is, and after a failure the reconnect timer is set
  unless all ten attempts are used up; no more than one timer is ever live, and a requested
  restart always has a close to wait for.
\<close>

theorem source_never_stuck:
  assumes "ws_reachable push s"
  shows "making_progress s \<and> timers_ok s \<and> restart_waits s"
  using reachable_inv [OF assms] by (simp add: ws_inv_def)

text \<open>
  A restart is not lost: after a restart in any reachable state, and as long as nobody calls
  stop, the source has been starting anew at some point or the request is still standing, and
  then there is a close under way whose completion, clean or failed, starts the source.
\<close>

theorem restart_is_not_lost:
  assumes "ws_reachable push s" and "ws_path push (ws_restart b s) es t" and "\<forall>b. Stop b \<notin> set es"
  shows "(\<exists>es1 es2 u. es = es1 @ es2 \<and> ws_path push (ws_restart b s) es1 u \<and> ws_state u = Ws_STARTING) \<or>
    (\<exists>n. On_stream Op_close n \<in> set (outstanding t) \<and>
       (\<forall>ec. ws_state (on_completion push (Close_done ec) (completed (On_stream Op_close n) t)) = Ws_STARTING))"
proof -
  have "ws_step push s (Restart b) (ws_restart b s)" by simp
  then have "ws_inv t"
    using reachable_path [OF reachable_step] assms(1,2) reachable_inv by blast
  then have "restart_requested t \<Longrightarrow> \<exists>n. On_stream Op_close n \<in> set (outstanding t)"
    by (simp add: ws_inv_def restart_waits_def)
  moreover have "restart_requested t \<Longrightarrow>
      ws_state (on_completion push (Close_done ec) (completed op t)) = Ws_STARTING" for ec op
    by (simp add: close_restarts)
  ultimately show ?thesis
    using restart_path [OF assms(2) restart_requests] assms(3) by blast
qed

section \<open>Reconnecting\<close>

text \<open>The reconnects of a run, and how many are still possible.\<close>

definition reconnects :: "ws_event list \<Rightarrow> nat list" where
  "reconnects es = concat (map (\<lambda>e. case e of Expire d \<Rightarrow> [d] | _ \<Rightarrow> []) es)"

definition live_timers :: "'q ws_source \<Rightarrow> nat" where
  "live_timers s = length (filter is_timer (outstanding s))"

text \<open>The attempts left, and the timer that is already running.\<close>

definition reconnects_left :: "'q ws_source \<Rightarrow> nat" where
  "reconnects_left s = kMaxReconnectAttempts - reconnect_attempts s + live_timers s"

lemma left_simps [simp]:
  "reconnects_left (publish_state st s) = reconnects_left s"
  "reconnects_left (publish_error ec w s) = reconnects_left s"
  "reconnects_left (reset_stream s) = reconnects_left s"
  "reconnects_left (begin_op k s) = reconnects_left s"
  "reconnects_left (s\<lparr>ws_buffer := b\<rparr>) = reconnects_left s"
  "reconnects_left (s\<lparr>restart_requested := r\<rparr>) = reconnects_left s"
  "reconnects_left (publish_message push now p s) = reconnects_left s"
  by (simp_all add: reconnects_left_def live_timers_def publish_state_def publish_error_def
      reset_stream_def begin_op_def)

lemma left_cancel: "reconnects_left (cancel_timer s) \<le> reconnects_left s"
  by (simp add: reconnects_left_def live_timers_def)

lemma left_schedule: "reconnects_left (schedule_reconnect s) \<le> reconnects_left s"
proof (cases "ws_state s = Ws_STOPPING \<or> ws_state s = Ws_STOPPED \<or> kMaxReconnectAttempts \<le> reconnect_attempts s")
  case False
  then show ?thesis
    by (simp add: schedule_reconnect_def Let_def reconnects_left_def live_timers_def) linarith
qed (auto simp: schedule_reconnect_def)

lemma left_start: "reconnects_left (ws_start s) \<le> reconnects_left s"
  using left_cancel [of s] left_cancel [of "s\<lparr>restart_requested := False\<rparr>"]
  by (simp add: ws_start_def Let_def)

lemma left_fail: "reconnects_left (ws_fail ec w s) \<le> reconnects_left s"
  using left_schedule [of "reset_stream (publish_state Ws_FAILED (publish_error ec w s))"]
  by (simp add: ws_fail_def)

lemma left_close: "reconnects_left (on_close ec s) \<le> reconnects_left s"
proof -
  let ?t = "s\<lparr>ws_buffer := []\<rparr>"
  let ?u = "if ec \<noteq> Success \<and> ec \<noteq> Ws_error_closed
      then schedule_reconnect (publish_state Ws_FAILED (publish_error ec ''close'' ?t))
      else publish_state Ws_STOPPED ?t"
  have u: "reconnects_left ?u \<le> reconnects_left s"
    using left_schedule [of "publish_state Ws_FAILED (publish_error ec ''close'' ?t)"] by simp
  then show ?thesis
    using left_start [of "(reset_stream ?u)\<lparr>restart_requested := False\<rparr>"]
    by (simp add: on_close_def Let_def)
qed

lemma left_do_close: "reconnects_left (do_close b s) \<le> reconnects_left s"
  using left_close [of Success s] by (simp add: do_close_def)

lemma left_completed: "reconnects_left (completed op s) \<le> reconnects_left s"
  by (simp add: reconnects_left_def live_timers_def completed_def filter_remove1 length_remove1)

lemma left_expire: "Timer d \<in> set (outstanding s) \<Longrightarrow> Suc (reconnects_left (completed (Timer d) s)) = reconnects_left s"
proof -
  assume "Timer d \<in> set (outstanding s)"
  then have "Timer d \<in> set (filter is_timer (outstanding s))" by simp
  then have "0 < length (filter is_timer (outstanding s))" using length_pos_if_in_set by fast
  then show ?thesis
    using \<open>Timer d \<in> set (outstanding s)\<close>
    by (simp add: reconnects_left_def live_timers_def completed_def filter_remove1 length_remove1)
qed

lemma left_timer: "reconnects_left (on_timer aborted s) \<le> reconnects_left s"
  using left_start [of s] by (simp add: on_timer_def)

lemma left_step:
  assumes "ws_step push s e t" and "\<And>n. e \<noteq> Complete n (Handshake_done Success)"
  shows "length (reconnects [e]) + reconnects_left t \<le> reconnects_left s"
  using assms(1)
proof (cases rule: ws_step.cases)
  case start
  then show ?thesis using left_start by (simp add: reconnects_def)
next
  case (stop is_open)
  then show ?thesis
    using left_cancel [of "s\<lparr>restart_requested := False\<rparr>"]
      left_do_close [of is_open "publish_state Ws_STOPPING (cancel_timer (s\<lparr>restart_requested := False\<rparr>))"]
    by (simp add: reconnects_def ws_stop_def Let_def)
next
  case (restart is_open)
  then show ?thesis
    using left_start [of "reset_stream (s\<lparr>restart_requested := True\<rparr>)"]
      left_do_close [of is_open "publish_state Ws_STOPPING (s\<lparr>restart_requested := True\<rparr>)"]
    by (simp add: reconnects_def ws_restart_def Let_def)
next
  case (complete c n)
  let ?s = "completed (On_stream (completes c) n) s"
  have fail: "reconnects_left (ws_fail ec w ?s) \<le> reconnects_left s" for ec w
    using left_fail [of ec w ?s] left_completed [of "On_stream (completes c) n" s] by simp
  have "reconnects_left t \<le> reconnects_left s"
  proof (cases c)
    case (Close_done ec)
    then show ?thesis
      using complete left_close [of ec ?s] left_completed [of "On_stream (completes c) n" s] by simp
  next
    case (Read_done ec bytes now)
    then show ?thesis
      using complete left_completed [of "On_stream (completes c) n" s]
        left_fail [of ec "''read''" "?s\<lparr>ws_buffer := bytes\<rparr>"]
        left_fail [of ec "''read''" "?s\<lparr>ws_buffer := ws_buffer s @ bytes\<rparr>"]
      by (simp add: on_read_def Let_def do_read_def)
  next
    case (Handshake_done ec)
    then show ?thesis using complete fail assms(2) by (auto simp: on_ws_handshake_def)
  qed (use complete fail left_completed [of "On_stream (completes c) n" s] in
      \<open>auto simp: on_resolve_def on_connect_def on_tls_handshake_def do_ws_handshake_def\<close>)
  then show ?thesis using complete by (simp add: reconnects_def)
next
  case (expire d)
  then show ?thesis
    using left_timer [of False "completed (Timer d) s"] left_expire [of d s] by (simp add: reconnects_def)
next
  case (cancelled aborted)
  then show ?thesis
    using left_timer [of aborted "completed Timer_cancelled s"] left_completed [of Timer_cancelled s]
    by (simp add: reconnects_def)
qed

lemma expired_delay:
  "ws_step push s e t \<Longrightarrow> ws_inv s \<Longrightarrow> d \<in> set (reconnects [e]) \<Longrightarrow> d \<le> kReconnectMaxDelay"
  by (cases rule: ws_step.cases) (auto simp: reconnects_def ws_inv_def timers_ok_def)

lemma left_path:
  assumes "ws_path push s es t" and "ws_inv s" and "\<forall>n. Complete n (Handshake_done Success) \<notin> set es"
  shows "length (reconnects es) + reconnects_left t \<le> reconnects_left s \<and>
    (\<forall>d \<in> set (reconnects es). d \<le> kReconnectMaxDelay)"
  using assms
proof (induction rule: ws_path.induct)
  case (here s)
  then show ?case by (simp add: reconnects_def)
next
  case (there s e t es u)
  have "reconnects (e # es) = reconnects [e] @ reconnects es" by (simp add: reconnects_def)
  moreover have "length (reconnects [e]) + reconnects_left t \<le> reconnects_left s"
    using there.prems(2) by (intro left_step [OF there.hyps(1)]) auto
  ultimately show ?case
    using there expired_delay [OF there.hyps(1)] ws_step_inv [OF there.hyps(1)]
    by auto
qed

lemma sum_list_bound: "\<forall>d \<in> set ds. d \<le> (k::nat) \<Longrightarrow> sum_list ds \<le> length ds * k"
  by (induction ds) auto

text \<open>
  C27. The reconnecting of an outage is bounded: on a run without a successful handshake the
  reconnect timer expires at most as often as there are attempts left, and once more if one is
  already live when the run begins, however the failures, late handlers and calls of start, stop
  and restart are ordered.  So it is at most ten times from a state without a live timer, in
  particular from the first failure of a running source that has none, and never more than eleven
  times; and all the waiting together takes at most the maximal delay for each of them.  (A timer
  that is cancelled when its handler is already due is no expiry and is not counted.)
\<close>

theorem outage_reconnects_bounded:
  assumes "ws_reachable push s" and "ws_path push s es t"
    and "\<forall>n. Complete n (Handshake_done Success) \<notin> set es"
  shows "length (reconnects es) \<le> kMaxReconnectAttempts - reconnect_attempts s + live_timers s \<and>
    live_timers s \<le> 1 \<and>
    (live_timers s = 0 \<longrightarrow> length (reconnects es) \<le> kMaxReconnectAttempts) \<and>
    length (reconnects es) \<le> kMaxReconnectAttempts + 1 \<and>
    sum_list (reconnects es) \<le> length (reconnects es) * kReconnectMaxDelay"
proof -
  have inv: "ws_inv s" by (rule reachable_inv [OF assms(1)])
  note left = left_path [OF assms(2) inv assms(3)]
  have "live_timers s \<le> 1" using inv by (simp add: ws_inv_def timers_ok_def live_timers_def)
  then show ?thesis
    using left sum_list_bound [of "reconnects es" kReconnectMaxDelay]
    by (auto simp: reconnects_left_def)
qed

section \<open>Stopping\<close>

text \<open>A stopped source with nothing under way: what a stop is meant to reach.\<close>

definition at_rest :: "'q ws_source \<Rightarrow> bool" where
  "at_rest s \<longleftrightarrow> ws_state s = Ws_STOPPED \<and> \<not> restart_requested s \<and>
     set (outstanding s) \<subseteq> {Timer_cancelled}"

text \<open>The events that are not a wish to run, and no timer that fires after being cancelled.\<close>

definition unprompted :: "ws_event \<Rightarrow> bool" where
  "unprompted e = (case e of Start \<Rightarrow> False | Restart _ \<Rightarrow> False | Cancelled aborted \<Rightarrow> aborted | _ \<Rightarrow> True)"

lemma rest_step:
  assumes "ws_step push s e t" and "at_rest s" and "unprompted e"
  shows "at_rest t"
  using assms(1)
proof (cases rule: ws_step.cases)
  case (stop is_open)
  have "set (outstanding (cancel_timer s')) \<subseteq> {Timer_cancelled}"
    if "set (outstanding s') \<subseteq> {Timer_cancelled}" for s' :: "'a ws_source"
    using that by (auto simp: cancel_timer_def)
  then show ?thesis using stop assms(2) by (simp add: ws_stop_def Let_def at_rest_def)
next
  case (cancelled aborted)
  then show ?thesis
    using assms(2,3) set_remove1_subset [of Timer_cancelled "outstanding s"]
    by (auto simp: unprompted_def on_timer_def at_rest_def completed_def)
qed (use assms(2,3) in \<open>auto simp: at_rest_def unprompted_def\<close>)

text \<open>
  A source at rest stays at rest: once it is stopped with nothing under way but timers that
  have been cancelled in time, no event but a start or a restart moves it.
\<close>

theorem rest_is_kept:
  assumes "ws_path push s es t" and "at_rest s" and "list_all unprompted es"
  shows "at_rest t"
  using assms by (induction rule: ws_path.induct) (auto dest: rest_step)

text \<open>
  C30. A stop is not final: stop a running source, and let the read that is still under way end
  with an error, as it does when the stream is closed, and then the close, cleanly or not.  The
  failed read has armed the reconnect timer; when it expires, or the second one that a failed
  close has armed in its place, the source starts again without anyone having asked for it,
  even when the close had left it stopped.
\<close>

theorem stopped_source_starts_again:
  assumes "ws_reachable push s" and "ws_state s = Ws_RUNNING" and "ec \<noteq> Success"
  shows "\<exists>t u d. ws_path push s [Stop True, Complete (stream_no s) (Read_done ec [] 0),
        Complete (stream_no s) (Close_done ec')] t \<and>
      (ec' = Success \<longrightarrow> ws_state t = Ws_STOPPED) \<and>
      ws_step push t (Expire d) u \<and> ws_state u = Ws_STARTING"
proof -
  have inv: "ws_inv s" by (rule reachable_inv [OF assms(1)])
  then have r: "On_stream Op_read (stream_no s) \<in> set (outstanding s)" "reconnect_attempts s = 0"
    using assms(2) by (simp_all add: inv_defs)
  define s1 where "s1 = ws_stop True s"
  define s2 where "s2 = on_completion push (Read_done ec [] 0) (completed (On_stream Op_read (stream_no s)) s1)"
  define s2' where "s2' = completed (On_stream Op_close (stream_no s)) s2"
  define s3 where "s3 = on_completion push (Close_done ec') s2'"
  have s1: "On_stream Op_read (stream_no s) \<in> set (outstanding s1)"
    "On_stream Op_close (stream_no s) \<in> set (outstanding s1)" "ws_state s1 = Ws_STOPPING"
    "reconnect_attempts s1 = 0" "\<not> restart_requested s1"
    using assms(2) r by (simp_all add: s1_def ws_stop_def Let_def do_close_def begin_op_def publish_state_def)
  have "On_stream Op_close (stream_no s) \<in> set (outstanding (completed (On_stream Op_read (stream_no s)) s1))"
    using s1(2) by (simp add: still_outstanding)
  then have s2: "On_stream Op_close (stream_no s) \<in> set (outstanding s2)"
    "Timer (reconnect_delay 0) \<in> set (outstanding s2)" "\<not> restart_requested s2"
    "reconnect_attempts s2 = 1"
    using assms(3) s1(4,5)
    by (simp_all add: s2_def on_read_def ws_fail_def schedule_reconnect_def Let_def reset_stream_def
        publish_state_def publish_error_def kMaxReconnectAttempts_def)
  have s2': "Timer (reconnect_delay 0) \<in> set (outstanding s2')" "\<not> restart_requested s2'"
    "reconnect_attempts s2' = 1"
    using s2 by (simp_all add: s2'_def still_outstanding)
  have clean: "ws_state s3 = Ws_STOPPED \<and> Timer (reconnect_delay 0) \<in> set (outstanding s3)"
    if "ec' = Success \<or> ec' = Ws_error_closed"
    using s2' that by (auto simp: s3_def on_close_def Let_def reset_stream_def publish_state_def)
  have failed: "ws_state s3 = Ws_FAILED \<and> Timer (reconnect_delay 1) \<in> set (outstanding s3)"
    if "\<not> (ec' = Success \<or> ec' = Ws_error_closed)"
    using s2' that
    by (simp add: s3_def on_close_def schedule_reconnect_def Let_def reset_stream_def
        publish_state_def publish_error_def kMaxReconnectAttempts_def)
  from clean failed obtain d where d: "Timer d \<in> set (outstanding s3)" "ws_state s3 \<noteq> Ws_RUNNING"
    "ws_state s3 \<noteq> Ws_STOPPING" "ec' = Success \<Longrightarrow> ws_state s3 = Ws_STOPPED"
    by (cases "ec' = Success \<or> ec' = Ws_error_closed") auto
  have "ws_path push s [Stop True, Complete (stream_no s) (Read_done ec [] 0),
      Complete (stream_no s) (Close_done ec')] s3"
    using s1(1) s2(1) by (simp add: ws_path_simps s1_def s2_def s2'_def s3_def)
  moreover have "ws_state (on_timer False (completed (Timer d) s3)) = Ws_STARTING"
    using d by (simp add: on_timer_def ws_start_starts)
  ultimately show ?thesis using d by (intro exI conjI) auto
qed

section \<open>Messages\<close>

text \<open>What a run reads, in order.\<close>

definition messages_read :: "string \<Rightarrow> ws_event list \<Rightarrow> input_envelope list" where
  "messages_read host es = concat (map (\<lambda>e. case e of
       Complete n (Read_done Success bytes now) \<Rightarrow>
         [\<lparr>ingress_time = now, env_source = host, env_payload = bytes\<rparr>]
     | _ \<Rightarrow> []) es)"

definition drops :: "'q ws_source \<Rightarrow> nat" where
  "drops s = length (filter (\<lambda>c. c = Note_drop) (callbacks s))"

text \<open>
  The source as a producer of any queue: a step that reads a message pushes it, counting a
  refusal as a drop, and no other step touches the queue.
\<close>

lemma other_handlers [simp]:
  "ws_queue (ws_start s) = ws_queue s" "drops (ws_start s) = drops s" "ws_host (ws_start s) = ws_host s"
  "ws_queue (ws_fail ec w s) = ws_queue s" "drops (ws_fail ec w s) = drops s" "ws_host (ws_fail ec w s) = ws_host s"
  "ws_queue (begin_op k s) = ws_queue s" "drops (begin_op k s) = drops s" "ws_host (begin_op k s) = ws_host s"
  "ws_queue (on_close ec s) = ws_queue s" "drops (on_close ec s) = drops s" "ws_host (on_close ec s) = ws_host s"
  "drops (completed op s) = drops s" "drops (s\<lparr>ws_buffer := b\<rparr>) = drops s"
  by (simp_all add: ws_start_def ws_fail_def begin_op_def on_close_def schedule_reconnect_def Let_def
      drops_def publish_state_def publish_error_def reset_stream_def)

lemma publish_message_effect:
  "push \<lparr>ingress_time = now, env_source = ws_host s, env_payload = p\<rparr> q = (taken, q') \<Longrightarrow> ws_queue s = Some q \<Longrightarrow>
   ws_queue (publish_message push now p s) = Some q' \<and>
   drops (publish_message push now p s) = drops s + (if taken then 0 else 1) \<and>
   ws_host (publish_message push now p s) = ws_host s"
  by (simp add: publish_message_def Let_def drops_def)

lemma quiet_parts [simp]:
  "drops (publish_state st s) = drops s" "ws_queue (publish_state st s) = ws_queue s"
  "ws_host (publish_state st s) = ws_host s"
  "drops (reset_stream s) = drops s" "ws_queue (reset_stream s) = ws_queue s"
  "ws_host (reset_stream s) = ws_host s"
  "drops (cancel_timer s) = drops s" "drops (s\<lparr>restart_requested := r\<rparr>) = drops s"
  "drops (s\<lparr>reconnect_attempts := n\<rparr>) = drops s"
  by (simp_all add: drops_def publish_state_def reset_stream_def)

lemma stop_restart_queue [simp]:
  "ws_queue (ws_stop b s) = ws_queue s" "drops (ws_stop b s) = drops s" "ws_host (ws_stop b s) = ws_host s"
  "ws_queue (ws_restart b s) = ws_queue s" "drops (ws_restart b s) = drops s" "ws_host (ws_restart b s) = ws_host s"
  by (simp_all add: ws_stop_def ws_restart_def do_close_def Let_def)

lemma on_timer_queue [simp]:
  "ws_queue (on_timer b s) = ws_queue s" "drops (on_timer b s) = drops s" "ws_host (on_timer b s) = ws_host s"
  by (simp_all add: on_timer_def)

lemma queue_after_step:
  assumes step: "ws_step push s e t" and buffer: "ws_buffer s = []" and queue: "ws_queue s = Some (h_queue h)"
    and h'_def: "h' = fold (queue_step push pop close) (map Push (messages_read (ws_host s) [e])) h"
  shows "ws_queue t = Some (h_queue h') \<and> ws_host t = ws_host s \<and>
    drops t + length (h_refused h) = drops s + length (h_refused h')"
  using step
proof (cases rule: ws_step.cases)
  case (complete c n)
  show ?thesis
  proof (cases "\<exists>bytes now. c = Read_done Success bytes now")
    case True
    then obtain bytes now where c: "c = Read_done Success bytes now" by blast
    let ?m = "\<lparr>ingress_time = now, env_source = ws_host s, env_payload = bytes\<rparr>"
    obtain taken q where push: "push ?m (h_queue h) = (taken, q)" by (cases "push ?m (h_queue h)")
    let ?s = "(completed (On_stream Op_read n) s)\<lparr>ws_buffer := bytes\<rparr>"
    have "ws_queue (publish_message push now bytes ?s) = Some q \<and>
        drops (publish_message push now bytes ?s) = drops ?s + (if taken then 0 else 1) \<and>
        ws_host (publish_message push now bytes ?s) = ws_host ?s"
      by (rule publish_message_effect) (use push queue in simp_all)
    then show ?thesis
      using complete c push buffer
      by (cases taken) (simp_all add: h'_def messages_read_def on_read_def Let_def do_read_def)
  next
    case False
    then have "messages_read (ws_host s) [e] = []"
      using complete by (simp add: messages_read_def split: completion.splits error_code.splits)
    moreover have "ws_queue t = ws_queue s \<and> ws_host t = ws_host s \<and> drops t = drops s"
      using complete False
      by (cases c) (auto simp: on_resolve_def on_connect_def on_tls_handshake_def do_ws_handshake_def
          on_ws_handshake_def on_read_def do_read_def)
    ultimately show ?thesis using queue by (simp add: h'_def)
  qed
qed (use queue in \<open>simp_all add: h'_def messages_read_def\<close>)

lemma queue_after_path:
  assumes "ws_path push s es t" and "ws_inv s" and "ws_queue s = Some (h_queue h)"
    and "h' = fold (queue_step push pop close) (map Push (messages_read (ws_host s) es)) h"
  shows "ws_queue t = Some (h_queue h') \<and> drops t + length (h_refused h) = drops s + length (h_refused h')"
  using assms
proof (induction arbitrary: h h' rule: ws_path.induct)
  case (here s)
  then show ?case by (simp add: messages_read_def)
next
  case (there s e t es u)
  have split: "messages_read host (e # es) = messages_read host [e] @ messages_read host es" for host
    by (simp add: messages_read_def)
  have "ws_buffer s = []" using there.prems(1) by (simp add: ws_inv_def)
  note step = queue_after_step [OF there.hyps(1) this there.prems(2) refl, of pop close]
  note path = there.IH [OF ws_step_inv [OF there.hyps(1) there.prems(1)] conjunct1 [OF step] refl]
  show ?case unfolding there.prems(3) split using step path by simp
qed

lemma pushes_pop_nothing [simp]:
  "h_popped (fold (queue_step push pop close) (map Push ms) h) = h_popped h"
proof (induction ms arbitrary: h)
  case (Cons m ms)
  then show ?case by (simp split: prod.split bool.split)
qed simp

lemma pushes_fill:
  fixes h :: "('e input_queue, 'e) queue_history"
  shows "let room = (if q_closed (h_queue h) then 0 else capacity - length (q_items (h_queue h)));
      h' = bounded_run capacity (map Push ms) h
    in q_items (h_queue h') = q_items (h_queue h) @ take room ms \<and>
       h_refused h' = h_refused h @ drop room ms \<and> q_closed (h_queue h') = q_closed (h_queue h)"
proof (induction ms arbitrary: h)
  case (Cons m ms)
  let ?h = "queue_step (try_push capacity) wait_pop close_queue (Push m) h"
  consider "q_closed (h_queue h) \<or> capacity \<le> length (q_items (h_queue h))"
    | "\<not> q_closed (h_queue h)" "length (q_items (h_queue h)) < capacity" by linarith
  then show ?case
  proof cases
    case 1
    then have "?h = h\<lparr>h_refused := h_refused h @ [m]\<rparr>" by (auto simp: try_push_def)
    then show ?thesis using Cons [of ?h] 1 by (auto simp: Let_def simp del: queue_step.simps)
  next
    case 2
    then have h: "?h = h\<lparr>h_queue := (h_queue h)\<lparr>q_items := q_items (h_queue h) @ [m]\<rparr>,
        h_accepted := h_accepted h @ [m]\<rparr>"
      by (simp add: try_push_def)
    have "capacity - length (q_items (h_queue h)) = Suc (capacity - Suc (length (q_items (h_queue h))))"
      using 2 by simp
    then show ?thesis using Cons [of ?h] 2 by (simp add: h Let_def del: queue_step.simps)
  qed
qed simp

text \<open>
  The source delivers what it reads: over any run between two pops, the messages that have
  been read successfully are appended to the input queue in the order they were read, as far as
  there is room, and none when the queue is closed; each of the others is reported by exactly
  one drop callback, and nothing but a message is ever pushed.
\<close>

theorem source_delivers_messages:
  assumes "ws_reachable (try_push capacity) s" and "ws_path (try_push capacity) s es t"
    and "ws_queue s = Some q"
  shows "let ms = messages_read (ws_host s) es;
      room = (if q_closed q then 0 else capacity - length (q_items q))
    in (\<exists>q'. ws_queue t = Some q' \<and> q_items q' = q_items q @ take room ms \<and> q_closed q' = q_closed q) \<and>
       drops t = drops s + (length ms - room)"
proof -
  note inv = reachable_inv [OF assms(1)]
  show ?thesis
    using queue_after_path [OF assms(2) inv, of "untouched q" _ wait_pop close_queue, OF _ refl] assms(3)
      pushes_fill [of "untouched q" capacity "messages_read (ws_host s) es"]
    by (simp add: untouched_def Let_def)
qed

end
