(* ===== verification/Knight_Config.thy ===== *)
theory Knight_Config
  imports "HOL-Library.Word"
begin

text \<open>
  The configuration of the knight (\<^verbatim>\<open>src/knight/src/common/config.h\<close>, with the JSON
  accessors of \<^verbatim>\<open>src/knight/src/utils/utils.cpp\<close>): the websocket URL of the builder
  taken apart into scheme, host, port and target.  The JSON parser of Boost is a parameter; its
  values are the constructors of \<^verbatim>\<open>boost::json::kind\<close>.
\<close>

section \<open>JSON objects as Boost gives them\<close>

datatype boost_json =
  BNull | BBool bool | BInt64 "64 word" | BUint64 "64 word" | BDouble "64 word" | BString string
| BArray "boost_json list" | BObject "(string \<times> boost_json) list"

type_synonym boost_object = "(string \<times> boost_json) list"

text \<open>The string is read back through \<^verbatim>\<open>c_str()\<close>, up to its first NUL.\<close>

definition json_string :: "boost_object \<Rightarrow> string \<Rightarrow> string option" where
  "json_string object field =
     (case map_of object field of
        Some (BString s) \<Rightarrow> Some (takeWhile (\<lambda>c. c \<noteq> CHR 0x00) s)
      | _ \<Rightarrow> None)"

definition json_bool :: "boost_object \<Rightarrow> string \<Rightarrow> bool option" where
  "json_bool object field = (case map_of object field of Some (BBool b) \<Rightarrow> Some b | _ \<Rightarrow> None)"

definition parse_to_json_object ::
  "(string \<Rightarrow> boost_json option) \<Rightarrow> string \<Rightarrow> boost_object option" where
  "parse_to_json_object boost_parse s =
     (case boost_parse s of Some (BObject object) \<Rightarrow> Some object | _ \<Rightarrow> None)"

section \<open>Text\<close>

text \<open>\<^verbatim>\<open>boost::algorithm::to_lower\<close> in the C locale the program runs in.\<close>

definition lower_char :: "char \<Rightarrow> char" where
  "lower_char c = (if 65 \<le> (of_char c :: nat) \<and> (of_char c :: nat) \<le> 90
                   then char_of ((of_char c :: nat) + 32) else c)"

definition to_lower :: "string \<Rightarrow> string" where
  "to_lower s = map lower_char s"

text \<open>\<^verbatim>\<open>string_view::find\<close> of a character from a position on, and of a text.\<close>

definition find_char :: "string \<Rightarrow> char \<Rightarrow> nat \<Rightarrow> nat option" where
  "find_char s c pos =
     (let i = pos + length (takeWhile (\<lambda>d. d \<noteq> c) (drop pos s)) in if i < length s then Some i else None)"

fun find_text :: "string \<Rightarrow> string \<Rightarrow> nat option" where
  "find_text [] pat = (if pat = [] then Some 0 else None)"
| "find_text (c # s) pat =
     (if take (length pat) (c # s) = pat then Some 0 else map_option Suc (find_text s pat))"

definition substr :: "string \<Rightarrow> nat \<Rightarrow> nat \<Rightarrow> string" where
  "substr s pos n = take n (drop pos s)"

definition is_digit :: "char \<Rightarrow> bool" where
  "is_digit c \<longleftrightarrow> 48 \<le> (of_char c :: nat) \<and> (of_char c :: nat) \<le> 57"

definition number :: "string \<Rightarrow> nat" where
  "number s = foldl (\<lambda>n c. 10 * n + (of_char c - 48)) 0 s"

datatype from_chars_error = Invalid_argument | Result_out_of_range

text \<open>
  \<^verbatim>\<open>std::from_chars\<close> for a \<^verbatim>\<open>uint16_t\<close>: the longest run of digits, without a
  sign, or an error; with the value comes what is left of the text.
\<close>

definition from_chars_u16 :: "string \<Rightarrow> from_chars_error + 16 word \<times> string" where
  "from_chars_u16 s =
     (let digits = takeWhile is_digit s in
      if digits = [] then Inl Invalid_argument
      else if 2 ^ 16 \<le> number digits then Inl Result_out_of_range
      else Inr (word_of_nat (number digits), dropWhile is_digit s))"

section \<open>The endpoint\<close>

record ws_endpoint =
  ep_scheme :: string
  ep_host :: string
  ep_port :: string
  ep_target :: string
  ep_use_tls :: bool

record scheme_info =
  si_scheme :: string
  si_default_port :: string
  si_use_tls :: bool

definition is_valid_port :: "string \<Rightarrow> bool" where
  "is_valid_port port =
     (if port = [] then False
      else case from_chars_u16 port of Inl _ \<Rightarrow> False | Inr (v, rest) \<Rightarrow> rest = [] \<and> v > 0)"

definition parse_scheme :: "string \<Rightarrow> scheme_info option" where
  "parse_scheme scheme_raw =
     (let scheme = to_lower scheme_raw in
      if scheme = ''ws'' then Some \<lparr>si_scheme = scheme, si_default_port = ''80'', si_use_tls = False\<rparr>
      else if scheme = ''wss'' then Some \<lparr>si_scheme = scheme, si_default_port = ''443'', si_use_tls = True\<rparr>
      else None)"

definition parse_url_parts :: "string \<Rightarrow> nat \<Rightarrow> (string \<times> string) option" where
  "parse_url_parts url authority_start =
     (let target_start = find_char url CHR ''/'' authority_start;
          authority = (case target_start of
              None \<Rightarrow> drop authority_start url
            | Some t \<Rightarrow> substr url authority_start (t - authority_start));
          target = (case target_start of None \<Rightarrow> ''/'' | Some t \<Rightarrow> drop t url)
      in if authority = [] \<or> target = [] \<or> find_char authority CHR ''@'' 0 \<noteq> None then None
         else Some (authority, target))"

definition parse_host_port :: "string \<Rightarrow> string \<Rightarrow> (string \<times> string) option" where
  "parse_host_port authority default_port =
     (let colon = find_char authority CHR '':'' 0 in
      if (case colon of None \<Rightarrow> False | Some i \<Rightarrow> find_char authority CHR '':'' (i + 1) \<noteq> None) then None
      else
        let host = (case colon of None \<Rightarrow> authority | Some i \<Rightarrow> substr authority 0 i);
            port = (case colon of None \<Rightarrow> default_port | Some i \<Rightarrow> drop (i + 1) authority)
        in if host = [] \<or> \<not> is_valid_port port then None else Some (host, port))"

definition parse_ws_endpoint :: "string \<Rightarrow> ws_endpoint option" where
  "parse_ws_endpoint url =
     (case find_text url ''://'' of
        None \<Rightarrow> None
      | Some scheme_end \<Rightarrow>
          (case parse_scheme (substr url 0 scheme_end) of
             None \<Rightarrow> None
           | Some scheme \<Rightarrow>
               (case parse_url_parts url (scheme_end + 3) of
                  None \<Rightarrow> None
                | Some (authority, target) \<Rightarrow>
                    (case parse_host_port authority (si_default_port scheme) of
                       None \<Rightarrow> None
                     | Some (host, port) \<Rightarrow>
                         Some \<lparr>ep_scheme = si_scheme scheme, ep_host = host, ep_port = port,
                               ep_target = target, ep_use_tls = si_use_tls scheme\<rparr>))))"

section \<open>The configuration\<close>

record knight_config =
  builder_ws_url :: string
  builder_ws_endpoint :: ws_endpoint
  tls_verify_peer :: bool

definition Config_from_json :: "boost_object \<Rightarrow> knight_config option" where
  "Config_from_json json =
     (case json_string json ''builderWsUrl'' of
        None \<Rightarrow> None
      | Some url \<Rightarrow>
          (case parse_ws_endpoint url of
             None \<Rightarrow> None
           | Some endpoint \<Rightarrow>
               Some \<lparr>builder_ws_url = url, builder_ws_endpoint = endpoint,
                     tls_verify_peer = (case json_bool json ''tlsVerifyPeer'' of
                        Some b \<Rightarrow> b | None \<Rightarrow> True)\<rparr>))"

definition Config_from_string ::
  "(string \<Rightarrow> boost_json option) \<Rightarrow> string \<Rightarrow> knight_config option" where
  "Config_from_string boost_parse s =
     (case parse_to_json_object boost_parse s of
        None \<Rightarrow> None
      | Some json \<Rightarrow> Config_from_json json)"

section \<open>What an endpoint URL is\<close>

text \<open>
  The reference definition, as a grammar: a scheme in any case, \<^verbatim>\<open>://\<close>, a host, an
  optional port and an optional target.
\<close>

definition host_name :: "string \<Rightarrow> bool" where
  "host_name h \<longleftrightarrow> h \<noteq> [] \<and> CHR ''/'' \<notin> set h \<and> CHR '':'' \<notin> set h \<and> CHR ''@'' \<notin> set h"

definition port_text :: "string \<Rightarrow> bool" where
  "port_text p \<longleftrightarrow> p \<noteq> [] \<and> list_all is_digit p \<and> 1 \<le> number p \<and> number p \<le> 65535"

definition ws_url :: "string \<Rightarrow> ws_endpoint \<Rightarrow> bool" where
  "ws_url url e \<longleftrightarrow>
     (\<exists>raw port_part target_part.
        url = raw @ ''://'' @ ep_host e @ port_part @ target_part \<and>
        to_lower raw = ep_scheme e \<and>
        (ep_scheme e, ep_use_tls e) \<in> {(''ws'', False), (''wss'', True)} \<and>
        host_name (ep_host e) \<and> port_text (ep_port e) \<and>
        (port_part = CHR '':'' # ep_port e \<or>
         port_part = [] \<and> ep_port e = (if ep_use_tls e then ''443'' else ''80'')) \<and>
        (target_part = ep_target e \<and> (\<exists>t. ep_target e = CHR ''/'' # t) \<or>
         target_part = [] \<and> ep_target e = ''/''))"

section \<open>The parser on the pieces of a URL\<close>

lemma find_text_split:
  "find_text s pat = Some i \<Longrightarrow> s = take i s @ pat @ drop (i + length pat) s \<and> i + length pat \<le> length s"
proof (induction s arbitrary: i)
  case Nil
  then show ?case by (simp split: if_splits)
next
  case (Cons c s)
  show ?case
  proof (cases "take (length pat) (c # s) = pat")
    case True
    then show ?thesis
      using Cons.prems append_take_drop_id [of "length pat" "c # s"] length_take [of "length pat" "c # s"]
      by (simp del: length_take take_Cons drop_Cons append_take_drop_id)
  next
    case False
    then obtain j where "i = Suc j" "find_text s pat = Some j" using Cons.prems by auto
    then show ?thesis using Cons.IH [of j] by simp
  qed
qed

text \<open>The first \<^verbatim>\<open>://\<close> after a text without a colon is the one right behind it.\<close>

lemma find_text_first:
  "CHR '':'' \<notin> set a \<Longrightarrow> find_text (a @ ''://'' @ b) ''://'' = Some (length a)"
  by (induction a) auto

lemma find_char_split:
  "find_char s c pos =
     (if pos \<le> length s \<and> c \<in> set (drop pos s)
      then Some (pos + length (takeWhile (\<lambda>d. d \<noteq> c) (drop pos s))) else None)"
proof (cases "pos \<le> length s")
  case True
  let ?t = "takeWhile (\<lambda>d. d \<noteq> c) (drop pos s)"
  have "length ?t < length (drop pos s) \<longleftrightarrow> c \<in> set (drop pos s)"
    using length_takeWhile_le [of "\<lambda>d. d \<noteq> c" "drop pos s"] takeWhile_eq_all_conv [of "\<lambda>d. d \<noteq> c" "drop pos s"]
      takeWhile_eq_take [of "\<lambda>d. d \<noteq> c" "drop pos s"]
    by (metis le_neq_implies_less less_irrefl takeWhile_dropWhile_id append_Nil2 length_append
        length_0_conv add_left_cancel add.right_neutral)
  then show ?thesis using True by (simp add: find_char_def Let_def less_diff_conv2 add.commute less_diff_conv)
qed (simp add: find_char_def Let_def)

lemma parse_url_parts_split:
  assumes "n \<le> length url"
  shows "parse_url_parts url n =
    (let authority = takeWhile (\<lambda>d. d \<noteq> CHR ''/'') (drop n url);
         rest = dropWhile (\<lambda>d. d \<noteq> CHR ''/'') (drop n url)
     in if authority = [] \<or> CHR ''@'' \<in> set authority then None
        else Some (authority, if rest = [] then ''/'' else rest))"
proof -
  have d: "drop (n + length (takeWhile P (drop n url))) url = dropWhile P (drop n url)"
    "take (length (takeWhile P (drop n url))) (drop n url) = takeWhile P (drop n url)" for P
    by (simp_all add: dropWhile_eq_drop drop_drop add.commute flip: takeWhile_eq_take)
  have at: "find_char a c 0 = None \<longleftrightarrow> c \<notin> set a" "(\<exists>i. find_char a c 0 = Some i) \<longleftrightarrow> c \<in> set a" for a c
    by (simp_all add: find_char_split)
  show ?thesis
  proof (cases "CHR ''/'' \<in> set (drop n url)")
    case True
    then have "dropWhile (\<lambda>d. d \<noteq> CHR ''/'') (drop n url) \<noteq> []" by simp
    then show ?thesis
      using True assms by (auto simp: parse_url_parts_def find_char_split [of url] substr_def Let_def d at)
  next
    case False
    then have "takeWhile (\<lambda>d. d \<noteq> CHR ''/'') (drop n url) = drop n url"
      "dropWhile (\<lambda>d. d \<noteq> CHR ''/'') (drop n url) = []" by (auto simp: takeWhile_eq_all_conv)
    then show ?thesis
      using False assms
      by (simp add: parse_url_parts_def find_char_split [of url] Let_def at
          del: takeWhile_eq_all_conv dropWhile_eq_Nil_conv)
  qed
qed

text \<open>An authority is a host, and a port behind its only colon.\<close>

lemma parse_host_port_host:
  "CHR '':'' \<notin> set h \<Longrightarrow>
   parse_host_port h dflt = (if h = [] \<or> \<not> is_valid_port dflt then None else Some (h, dflt))"
  by (simp add: parse_host_port_def find_char_split Let_def)

lemma parse_host_port_colon:
  assumes "CHR '':'' \<notin> set h"
  shows "parse_host_port (h @ CHR '':'' # p) dflt =
    (if h = [] \<or> CHR '':'' \<in> set p \<or> \<not> is_valid_port p then None else Some (h, p))"
proof -
  have "takeWhile (\<lambda>d. d \<noteq> CHR '':'') (h @ CHR '':'' # p) = h"
    using assms by (subst takeWhile_append2) auto
  then have "find_char (h @ CHR '':'' # p) CHR '':'' 0 = Some (length h)"
    by (simp add: find_char_split)
  then show ?thesis by (simp add: parse_host_port_def Let_def find_char_split substr_def)
qed

section \<open>Ports\<close>

lemma digits_no_colon: "list_all is_digit p \<Longrightarrow> CHR '':'' \<notin> set p"
  by (auto simp: list_all_iff is_digit_def)

lemma is_valid_port_text: "is_valid_port p \<longleftrightarrow> port_text p"
proof (cases "list_all is_digit p")
  case True
  then have t: "takeWhile is_digit p = p" "dropWhile is_digit p = []"
    by (auto simp: takeWhile_eq_all_conv list_all_iff)
  have "word_of_nat (number p) > (0 :: 16 word) \<longleftrightarrow> 0 < number p" if "number p < 65536"
    using that by (simp add: word_less_nat_alt unat_of_nat)
  then show ?thesis
    using True unfolding is_valid_port_def port_text_def from_chars_u16_def Let_def t by auto
next
  case False
  then have "dropWhile is_digit p \<noteq> []" by (auto simp: list_all_iff)
  then show ?thesis
    using False by (auto simp: is_valid_port_def port_text_def from_chars_u16_def Let_def)
qed

lemma default_ports [simp]: "port_text ''80''" "port_text ''443''"
  by (simp_all add: port_text_def is_digit_def number_def)

section \<open>The parser and the grammar\<close>

lemma first_char_split:
  "c \<notin> set h \<Longrightarrow> c \<notin> set h' \<Longrightarrow> h @ c # p = h' @ c # p' \<longleftrightarrow> h = h' \<and> p = p'"
proof (induction h arbitrary: h')
  case Nil
  then show ?case by (cases h') auto
next
  case (Cons d h)
  then show ?case by (cases h') auto
qed

lemma parse_host_port_iff:
  assumes "port_text dflt"
  shows "parse_host_port a dflt = Some (h, p) \<longleftrightarrow>
    h \<noteq> [] \<and> CHR '':'' \<notin> set h \<and> port_text p \<and> (a = h @ CHR '':'' # p \<or> a = h \<and> p = dflt)"
proof (cases "CHR '':'' \<in> set a")
  case True
  then obtain h' p' where a: "a = h' @ CHR '':'' # p'" "CHR '':'' \<notin> set h'"
    by (meson split_list_first)
  have "CHR '':'' \<notin> set h \<Longrightarrow> h' @ CHR '':'' # p' = h @ CHR '':'' # p \<longleftrightarrow> h' = h \<and> p' = p"
    by (rule first_char_split [OF a(2)])
  moreover have "h' @ CHR '':'' # p' = h \<Longrightarrow> CHR '':'' \<in> set h" by (drule sym) simp
  moreover have "port_text p' \<Longrightarrow> CHR '':'' \<notin> set p'" by (simp add: port_text_def digits_no_colon)
  ultimately show ?thesis
    using a(2) unfolding a(1) parse_host_port_colon [OF a(2)] is_valid_port_text by (cases "port_text p'") auto
next
  case False
  then show ?thesis using assms by (auto simp: parse_host_port_host is_valid_port_text)
qed

lemma parse_url_parts_iff:
  assumes "n \<le> length url"
  shows "parse_url_parts url n = Some (a, t) \<longleftrightarrow>
    a \<noteq> [] \<and> CHR ''/'' \<notin> set a \<and> CHR ''@'' \<notin> set a \<and>
    (\<exists>target_part. drop n url = a @ target_part \<and>
       (target_part = t \<and> (\<exists>u. t = CHR ''/'' # u) \<or> target_part = [] \<and> t = ''/''))"
    (is "?parse \<longleftrightarrow> ?parts")
proof
  let ?P = "\<lambda>d. d \<noteq> CHR ''/''"
  have rest: "dropWhile ?P (drop n url) = [] \<or> (\<exists>u. dropWhile ?P (drop n url) = CHR ''/'' # u)"
    using hd_dropWhile [of ?P "drop n url"] by (cases "dropWhile ?P (drop n url)") auto
  assume ?parse
  then have a: "a = takeWhile ?P (drop n url)" "a \<noteq> []" "CHR ''@'' \<notin> set a"
    and t: "t = (if dropWhile ?P (drop n url) = [] then ''/'' else dropWhile ?P (drop n url))"
    by (simp_all add: parse_url_parts_split [OF assms] Let_def split: if_splits del: dropWhile_eq_Nil_conv)
  moreover have "drop n url = a @ dropWhile ?P (drop n url)" by (simp add: a(1))
  moreover have "CHR ''/'' \<notin> set a" using a(1) set_takeWhileD by fastforce
  ultimately show ?parts using rest by (intro conjI exI [of _ "dropWhile ?P (drop n url)"]) auto
next
  assume ?parts
  then obtain r where r: "drop n url = a @ r" "a \<noteq> []" "CHR ''/'' \<notin> set a" "CHR ''@'' \<notin> set a"
    "r = t \<and> (\<exists>u. t = CHR ''/'' # u) \<or> r = [] \<and> t = ''/''" by blast
  have p: "\<And>d. d \<in> set a \<Longrightarrow> d \<noteq> CHR ''/''" using r(3) by auto
  have "takeWhile (\<lambda>d. d \<noteq> CHR ''/'') r = []" "dropWhile (\<lambda>d. d \<noteq> CHR ''/'') r = r"
    using r(5) by (elim disjE conjE exE; simp)+
  then have tw: "takeWhile (\<lambda>d. d \<noteq> CHR ''/'') (a @ r) = a" "dropWhile (\<lambda>d. d \<noteq> CHR ''/'') (a @ r) = r"
    using takeWhile_append2 [of a "\<lambda>d. d \<noteq> CHR ''/''" r] dropWhile_append2 [of a "\<lambda>d. d \<noteq> CHR ''/''" r] p
    by (metis append_Nil2)+
  show ?parse
    using r(2,4,5) unfolding parse_url_parts_split [OF assms] r(1) Let_def tw by auto
qed

lemma lower_colon: "CHR '':'' \<in> set raw \<Longrightarrow> CHR '':'' \<in> set (to_lower raw)"
  by (force simp: to_lower_def lower_char_def)

lemma parse_scheme_iff:
  "parse_scheme raw = Some sc \<longleftrightarrow> to_lower raw = si_scheme sc \<and>
     (sc = \<lparr>si_scheme = ''ws'', si_default_port = ''80'', si_use_tls = False\<rparr> \<or>
      sc = \<lparr>si_scheme = ''wss'', si_default_port = ''443'', si_use_tls = True\<rparr>)"
  by (auto simp: parse_scheme_def Let_def)

lemma parser_sound:
  assumes "parse_ws_endpoint url = Some e"
  shows "ws_url url e"
proof -
  from assms obtain i sc a t h p where parse: "find_text url ''://'' = Some i"
    "parse_scheme (take i url) = Some sc" "parse_url_parts url (i + 3) = Some (a, t)"
    "parse_host_port a (si_default_port sc) = Some (h, p)"
    and e: "e = \<lparr>ep_scheme = si_scheme sc, ep_host = h, ep_port = p, ep_target = t,
                 ep_use_tls = si_use_tls sc\<rparr>"
    by (auto simp: parse_ws_endpoint_def substr_def split: option.splits)
  note url = find_text_split [OF parse(1)]
  have sc: "port_text (si_default_port sc)" using parse(2) by (auto simp: parse_scheme_iff)
  obtain r where r: "drop (i + 3) url = a @ r" "CHR ''/'' \<notin> set a" "CHR ''@'' \<notin> set a"
    "r = t \<and> (\<exists>u. t = CHR ''/'' # u) \<or> r = [] \<and> t = ''/''"
    using parse(3) url by (auto simp: parse_url_parts_iff)
  obtain q where q: "a = h @ q" "q = CHR '':'' # p \<or> q = [] \<and> p = si_default_port sc"
    "h \<noteq> []" "CHR '':'' \<notin> set h" "port_text p"
    using parse(4) by (auto simp: parse_host_port_iff [OF sc])
  have u: "url = take i url @ ''://'' @ drop (i + 3) url"
  proof -
    have "i + length ''://'' = i + 3" by simp
    then show ?thesis using url by (metis (no_types))
  qed
  have "url = take i url @ ''://'' @ h @ q @ r"
    by (rule trans [OF u]) (simp only: r(1) q(1) append_assoc)
  then show ?thesis
    unfolding ws_url_def
  proof (intro exI conjI)
    show "url = take i url @ ''://'' @ ep_host e @ q @ r"
      using \<open>url = take i url @ ''://'' @ h @ q @ r\<close> by (simp only: e ws_endpoint.simps)
    show "host_name (ep_host e)" using r(2,3) q(1,3,4) by (auto simp: e host_name_def)
    show "q = CHR '':'' # ep_port e \<or> q = [] \<and> ep_port e = (if ep_use_tls e then ''443'' else ''80'')"
      using parse(2) q(2) by (auto simp: e parse_scheme_iff)
    show "r = ep_target e \<and> (\<exists>t. ep_target e = CHR ''/'' # t) \<or> r = [] \<and> ep_target e = ''/''"
      using r(4) by (auto simp: e)
  qed (use parse(2) q(5) in \<open>auto simp: e parse_scheme_iff\<close>)
qed

lemma parser_accepts:
  assumes "ws_url url e"
  shows "parse_ws_endpoint url = Some e"
proof -
  from assms obtain raw q r where url: "url = raw @ ''://'' @ ep_host e @ q @ r"
    and scheme: "to_lower raw = ep_scheme e"
      "(ep_scheme e, ep_use_tls e) \<in> {(''ws'', False), (''wss'', True)}"
    and host: "host_name (ep_host e)" and port: "port_text (ep_port e)"
    and q: "q = CHR '':'' # ep_port e \<or> q = [] \<and> ep_port e = (if ep_use_tls e then ''443'' else ''80'')"
    and r: "r = ep_target e \<and> (\<exists>t. ep_target e = CHR ''/'' # t) \<or> r = [] \<and> ep_target e = ''/''"
    unfolding ws_url_def by blast
  define sc where "sc = \<lparr>si_scheme = ep_scheme e,
      si_default_port = (if ep_use_tls e then ''443'' else ''80''), si_use_tls = ep_use_tls e\<rparr>"
  have "CHR '':'' \<notin> set raw" using scheme lower_colon by fastforce
  then have find: "find_text url ''://'' = Some (length raw)"
    using find_text_first [of raw "ep_host e @ q @ r"] by (simp add: url)
  have sch: "parse_scheme raw = Some sc" using scheme by (auto simp: parse_scheme_iff sc_def)
  have slash: "CHR ''/'' \<notin> set (ep_port e)" "CHR ''@'' \<notin> set (ep_port e)"
    using port by (auto simp: port_text_def list_all_iff is_digit_def)
  then have parts: "parse_url_parts url (length raw + 3) = Some (ep_host e @ q, ep_target e)"
    using host q r by (auto simp: parse_url_parts_iff url host_name_def)
  have "parse_host_port (ep_host e @ q) (si_default_port sc) = Some (ep_host e, ep_port e)"
    using host port q by (auto simp: parse_host_port_iff sc_def host_name_def)
  then show ?thesis
    using find sch parts by (simp add: parse_ws_endpoint_def substr_def url sc_def)
qed

text \<open>
  C28. The URL parser of the configuration accepts exactly the websocket URLs of the grammar and
  takes them apart as it says: a scheme ws or wss in any case, a host without slash, colon or at
  sign, a decimal port from 1 to 65535 or the default of the scheme, and a target that starts
  with a slash or is the single slash when the URL has none.
\<close>

theorem endpoint_parser_is_the_grammar:
  "parse_ws_endpoint url = Some e \<longleftrightarrow> ws_url url e"
  using parser_sound parser_accepts by blast

section \<open>The configuration\<close>

text \<open>
  Reading the configuration succeeds exactly on an object whose \<^verbatim>\<open>builderWsUrl\<close> is
  a string that is, up to its first NUL, a websocket URL of the grammar; the configuration then
  holds that URL and its endpoint, and the peer is verified unless \<^verbatim>\<open>tlsVerifyPeer\<close> is the
  boolean false.
\<close>

theorem config_accepts_endpoint_urls:
  "Config_from_json json = Some c \<longleftrightarrow>
   (\<exists>s. map_of json ''builderWsUrl'' = Some (BString s) \<and>
        builder_ws_url c = takeWhile (\<lambda>d. d \<noteq> CHR 0x00) s \<and>
        ws_url (builder_ws_url c) (builder_ws_endpoint c)) \<and>
   (tls_verify_peer c \<longleftrightarrow> map_of json ''tlsVerifyPeer'' \<noteq> Some (BBool False))"
proof -
  have tls: "(case json_bool json ''tlsVerifyPeer'' of Some b \<Rightarrow> b | None \<Rightarrow> True) \<longleftrightarrow>
      map_of json ''tlsVerifyPeer'' \<noteq> Some (BBool False)"
    by (simp add: json_bool_def split: option.split boost_json.split)
  have grammar: "ws_url u e \<longleftrightarrow> parse_ws_endpoint u = Some e" for u e
  proof
    assume "ws_url u e"
    then show "parse_ws_endpoint u = Some e" by (rule parser_accepts)
  qed (rule parser_sound)
  show ?thesis
    unfolding Config_from_json_def tls grammar json_string_def
    by (cases c) (auto split: option.splits boost_json.splits)
qed

end
