(* ===== verification/Knight_Feed.thy ===== *)
theory Knight_Feed
  imports Knight_Source Knight_Config
begin

text \<open>
  The pending feed of the knight (\<^verbatim>\<open>src/knight/src/builder/pending_feed.cpp\<close>): the
  websocket source with the input queue, and a state of its own that the callbacks of the
  source set.  The callbacks only write the state of the feed, so a call into the source is
  followed by the callbacks it has made, in their order.
\<close>

section \<open>The feed\<close>

datatype pending_feed_state = Feed_CLOSED | Feed_OPEN | Feed_FAILED

datatype builder_error = REQUEST_ERROR | TIMEOUT

record 'q pending_feed =
  feed_state :: pending_feed_state
  feed_source :: "'q ws_source"

definition new_feed :: "knight_config \<Rightarrow> 'q \<Rightarrow> 'q pending_feed" where
  "new_feed config queue =
     (let endpoint = builder_ws_endpoint config in
      \<lparr>feed_state = Feed_CLOSED,
       feed_source = new_source (Some queue) (ep_use_tls endpoint) (tls_verify_peer config)
         (ep_host endpoint) (ep_port endpoint) (ep_target endpoint)\<rparr>)"

definition on_ws_state :: "ws_source_state \<Rightarrow> pending_feed_state \<Rightarrow> pending_feed_state" where
  "on_ws_state state m =
     (case state of
        Ws_STOPPED \<Rightarrow> Feed_CLOSED
      | Ws_STARTING \<Rightarrow> m
      | Ws_RUNNING \<Rightarrow> Feed_OPEN
      | Ws_STOPPING \<Rightarrow> m
      | Ws_FAILED \<Rightarrow> Feed_FAILED)"

definition on_ws_error :: "pending_feed_state \<Rightarrow> pending_feed_state" where
  "on_ws_error m = Feed_FAILED"

definition on_callback :: "pending_feed_state \<Rightarrow> ws_note \<Rightarrow> pending_feed_state" where
  "on_callback m c =
     (case c of Note_state state \<Rightarrow> on_ws_state state m | Note_error ec place \<Rightarrow> on_ws_error m | Note_drop \<Rightarrow> m)"

text \<open>The source after a call, with the callbacks made during it.\<close>

definition after_call :: "'q pending_feed \<Rightarrow> 'q ws_source \<Rightarrow> 'q pending_feed" where
  "after_call f s =
     f\<lparr>feed_source := s,
       feed_state := foldl on_callback (feed_state f)
         (drop (length (callbacks (feed_source f))) (callbacks s))\<rparr>"

definition feed_open :: "'q pending_feed \<Rightarrow> 'q pending_feed" where
  "feed_open f = (if feed_state f = Feed_OPEN then f else after_call f (ws_start (feed_source f)))"

definition feed_close :: "bool \<Rightarrow> 'q pending_feed \<Rightarrow> 'q pending_feed" where
  "feed_close is_open f =
     (if feed_state f = Feed_CLOSED then f else after_call f (ws_stop is_open (feed_source f)))"

definition feed_reopen :: "bool \<Rightarrow> 'q pending_feed \<Rightarrow> 'q pending_feed" where
  "feed_reopen is_open f = after_call f (ws_restart is_open (feed_source f))"

text \<open>
  Waiting for the feed: \<^verbatim>\<open>None\<close> while the condition does not hold and the time is not up.
\<close>

definition wait_until_ready :: "bool \<Rightarrow> 'q pending_feed \<Rightarrow> (builder_error + unit) option" where
  "wait_until_ready timed_out f =
     (let ok = (feed_state f = Feed_OPEN \<or> feed_state f = Feed_FAILED) in
      if \<not> ok \<and> \<not> timed_out then None
      else if \<not> ok then Some (Inl TIMEOUT)
      else if feed_state f = Feed_FAILED then Some (Inl REQUEST_ERROR)
      else Some (Inr ()))"

text \<open>The handlers of the network thread, and the steps of the feed.\<close>

definition from_network :: "ws_event \<Rightarrow> bool" where
  "from_network e = (case e of Start \<Rightarrow> False | Stop _ \<Rightarrow> False | Restart _ \<Rightarrow> False | _ \<Rightarrow> True)"

inductive feed_step ::
  "(input_envelope \<Rightarrow> 'q \<Rightarrow> bool \<times> 'q) \<Rightarrow> 'q pending_feed \<Rightarrow> ws_event \<Rightarrow> 'q pending_feed \<Rightarrow> bool"
  for push :: "input_envelope \<Rightarrow> 'q \<Rightarrow> bool \<times> 'q" where
  opens: "feed_step push f Start (feed_open f)"
| closes: "feed_step push f (Stop is_open) (feed_close is_open f)"
| reopens: "feed_step push f (Restart is_open) (feed_reopen is_open f)"
| network: "from_network e \<Longrightarrow> ws_step push (feed_source f) e s \<Longrightarrow> feed_step push f e (after_call f s)"

inductive feed_path ::
  "(input_envelope \<Rightarrow> 'q \<Rightarrow> bool \<times> 'q) \<Rightarrow> 'q pending_feed \<Rightarrow> ws_event list \<Rightarrow> 'q pending_feed \<Rightarrow> bool"
  for push :: "input_envelope \<Rightarrow> 'q \<Rightarrow> bool \<times> 'q" where
  here: "feed_path push f [] f"
| there: "feed_step push f e g \<Longrightarrow> feed_path push g es h \<Longrightarrow> feed_path push f (e # es) h"

text \<open>The step as a function of the event.\<close>

definition feed_next ::
  "(input_envelope \<Rightarrow> 'q \<Rightarrow> bool \<times> 'q) \<Rightarrow> ws_event \<Rightarrow> 'q pending_feed \<Rightarrow> 'q pending_feed option" where
  "feed_next push e f =
     (case e of
        Start \<Rightarrow> Some (feed_open f)
      | Stop is_open \<Rightarrow> Some (feed_close is_open f)
      | Restart is_open \<Rightarrow> Some (feed_reopen is_open f)
      | _ \<Rightarrow> map_option (after_call f) (ws_next push e (feed_source f)))"

lemma feed_next_step: "feed_step push f e g \<longleftrightarrow> feed_next push e f = Some g"
  by (cases e) (auto simp: feed_next_def ws_next_step from_network_def intro: feed_step.intros
      elim: feed_step.cases)

fun feed_exec ::
  "(input_envelope \<Rightarrow> 'q \<Rightarrow> bool \<times> 'q) \<Rightarrow> ws_event list \<Rightarrow> 'q pending_feed \<Rightarrow> 'q pending_feed option" where
  "feed_exec push [] f = Some f"
| "feed_exec push (e # es) f = Option.bind (feed_next push e f) (feed_exec push es)"

inductive_simps feed_path_simps: "feed_path push f [] g" "feed_path push f (e # es) g"

lemma feed_exec_path: "feed_path push f es g \<longleftrightarrow> feed_exec push es f = Some g"
  by (induction es arbitrary: f) (auto simp: feed_path_simps feed_next_step bind_eq_Some_conv)

section \<open>The callbacks of a call\<close>

lemma start_callbacks:
  "callbacks (ws_start s) = callbacks s @
     (if ws_state s = Ws_STARTING \<or> ws_state s = Ws_RUNNING then [] else [Note_state Ws_STARTING])"
  "ws_state (ws_start s) = (if ws_state s = Ws_RUNNING then Ws_RUNNING else Ws_STARTING)"
  by (simp_all add: ws_start_def Let_def begin_op_def publish_state_def reset_stream_def)

lemma fail_callbacks:
  "callbacks (ws_fail ec w s) = callbacks s @ [Note_error ec w, Note_state Ws_FAILED]"
  "ws_state (ws_fail ec w s) = Ws_FAILED"
  by (simp_all add: ws_fail_def publish_state_def publish_error_def reset_stream_def)

lemma close_callbacks:
  "callbacks (on_close ec s) = callbacks s @
     (if ec \<noteq> Success \<and> ec \<noteq> Ws_error_closed then [Note_error ec ''close'', Note_state Ws_FAILED]
      else [Note_state Ws_STOPPED]) @
     (if restart_requested s then [Note_state Ws_STARTING] else [])"
  "ws_state (on_close ec s) =
     (if restart_requested s then Ws_STARTING
      else if ec \<noteq> Success \<and> ec \<noteq> Ws_error_closed then Ws_FAILED else Ws_STOPPED)"
  by (simp_all add: on_close_def Let_def publish_state_def publish_error_def reset_stream_def
      start_callbacks)

lemma message_callbacks:
  "\<exists>ds. callbacks (publish_message push now p s) = callbacks s @ ds \<and> set ds \<subseteq> {Note_drop}"
  by (auto simp: publish_message_def Let_def split: option.splits prod.splits)

lemma drops_keep [simp]: "set ds \<subseteq> {Note_drop} \<Longrightarrow> foldl on_callback m ds = m"
  by (induction ds) (auto simp: on_callback_def)

text \<open>
  What the state of the feed says of the source.  \<^verbatim>\<open>STARTING\<close> and
  \<^verbatim>\<open>STOPPING\<close> leave it as it was, but the source never starts while the feed is open.
\<close>

definition mirrors :: "pending_feed_state \<Rightarrow> ws_source_state \<Rightarrow> bool" where
  "mirrors m st =
     (case st of
        Ws_STOPPED \<Rightarrow> m = Feed_CLOSED
      | Ws_STARTING \<Rightarrow> m \<noteq> Feed_OPEN
      | Ws_RUNNING \<Rightarrow> m = Feed_OPEN
      | Ws_STOPPING \<Rightarrow> True
      | Ws_FAILED \<Rightarrow> m = Feed_FAILED)"

definition call_mirrors :: "pending_feed_state \<Rightarrow> 'q ws_source \<Rightarrow> 'q ws_source \<Rightarrow> bool" where
  "call_mirrors m s t \<longleftrightarrow>
     (\<exists>cs. callbacks t = callbacks s @ cs \<and> mirrors (foldl on_callback m cs) (ws_state t))"

lemma mirror_callback [simp]:
  "on_callback m (Note_state st) = on_ws_state st m" "on_callback m (Note_error ec w) = Feed_FAILED"
  by (simp_all add: on_callback_def on_ws_error_def)

lemma reset_parts [simp]:
  "callbacks (reset_stream s) = callbacks s" "ws_state (reset_stream s) = ws_state s"
  "callbacks (begin_op k s) = callbacks s" "ws_state (begin_op k s) = ws_state s"
  "callbacks (publish_state st s) = callbacks s @ [Note_state st]" "ws_state (publish_state st s) = st"
  "restart_requested (publish_state st s) = restart_requested s"
  by (simp_all add: reset_stream_def begin_op_def publish_state_def)

lemmas mirror_simps = call_mirrors_def mirrors_def on_ws_state_def

lemma start_mirrors:
  "mirrors m (ws_state s) \<Longrightarrow> (ws_state s = Ws_STOPPING \<Longrightarrow> m \<noteq> Feed_OPEN) \<Longrightarrow> call_mirrors m s (ws_start s)"
  by (cases "ws_state s") (simp_all add: mirror_simps start_callbacks)

lemma fail_mirrors: "callbacks s = callbacks s0 \<Longrightarrow> call_mirrors m s0 (ws_fail ec w s)"
  by (simp add: mirror_simps fail_callbacks)

lemma close_mirrors: "callbacks s = callbacks s0 @ cs \<Longrightarrow> call_mirrors m s0 (on_close ec s)"
  by (simp add: mirror_simps close_callbacks)

lemma do_close_mirrors:
  "callbacks s = callbacks s0 @ cs \<Longrightarrow> ws_state s = Ws_STOPPING \<Longrightarrow> call_mirrors m s0 (do_close b s)"
  by (cases b) (simp_all add: do_close_def close_mirrors, simp add: mirror_simps)

lemma stop_mirrors:
  assumes "mirrors m (ws_state s)"
  shows "call_mirrors m s (ws_stop b s)"
proof (cases "ws_state s = Ws_STOPPED \<or> ws_state s = Ws_STOPPING")
  case True
  then show ?thesis using assms by (auto simp: ws_stop_def mirror_simps)
next
  case False
  then show ?thesis by (auto simp: ws_stop_def Let_def intro!: do_close_mirrors)
qed

lemma restart_mirrors:
  assumes "mirrors m (ws_state s)"
  shows "call_mirrors m s (ws_restart b s)"
proof -
  let ?s = "s\<lparr>restart_requested := True\<rparr>"
  have close: "call_mirrors m s (do_close b (publish_state Ws_STOPPING ?s))"
    by (rule do_close_mirrors) simp_all
  show ?thesis
  proof (cases "ws_state s = Ws_STARTING \<or> ws_state s = Ws_RUNNING")
    case True
    then show ?thesis using close by (auto simp: ws_restart_def)
  next
    case False
    then show ?thesis
      using assms by (cases "ws_state s") (simp_all add: ws_restart_def mirror_simps start_callbacks)
  qed
qed

lemma timer_mirrors:
  assumes "mirrors m (ws_state s)"
  shows "call_mirrors m s (on_timer aborted s)"
proof (cases "aborted \<or> ws_state s = Ws_STOPPING \<or> ws_state s = Ws_RUNNING")
  case True
  then show ?thesis using assms by (auto simp: on_timer_def call_mirrors_def)
next
  case False
  then show ?thesis using start_mirrors [OF assms] by (simp add: on_timer_def)
qed

lemma completion_mirrors:
  assumes "mirrors m (ws_state s)"
  shows "call_mirrors m s (on_completion push c s)"
proof (cases c)
  case (Read_done ec bytes now)
  let ?s = "s\<lparr>ws_buffer := ws_buffer s @ bytes\<rparr>"
  obtain ds where "callbacks (publish_message push now (ws_buffer s @ bytes) ?s) = callbacks s @ ds"
    "set ds \<subseteq> {Note_drop}"
    using message_callbacks [of push now "ws_buffer s @ bytes" ?s] by auto
  then show ?thesis
    using assms Read_done fail_mirrors [of ?s s]
    by (auto simp: on_read_def Let_def do_read_def call_mirrors_def)
next
  case (Close_done ec)
  then show ?thesis by (simp add: close_mirrors [of s s "[]"])
qed (use assms fail_mirrors [of s s] in \<open>auto simp: on_resolve_def on_connect_def on_tls_handshake_def
    on_ws_handshake_def do_ws_handshake_def do_read_def call_mirrors_def, auto simp: mirror_simps\<close>)

lemma step_mirrors:
  assumes "ws_step push s e t" and "from_network e" and "mirrors m (ws_state s)"
  shows "call_mirrors m s t"
  using assms(1)
proof (cases rule: ws_step.cases)
  case (complete c n)
  have "call_mirrors m (completed (On_stream (completes c) n) s) t"
    using complete completion_mirrors [of m "completed (On_stream (completes c) n) s" push c] assms(3) by simp
  then show ?thesis by (simp add: call_mirrors_def)
next
  case (expire d)
  have "call_mirrors m (completed (Timer d) s) t"
    using expire timer_mirrors [of m "completed (Timer d) s" False] assms(3) by simp
  then show ?thesis by (simp add: call_mirrors_def)
next
  case (cancelled aborted)
  have "call_mirrors m (completed Timer_cancelled s) t"
    using cancelled timer_mirrors [of m "completed Timer_cancelled s" aborted] assms(3) by simp
  then show ?thesis by (simp add: call_mirrors_def)
qed (use assms(2) in \<open>simp_all add: from_network_def\<close>)

section \<open>Properties\<close>

lemma call_after: "call_mirrors (feed_state f) (feed_source f) s \<Longrightarrow>
   mirrors (feed_state (after_call f s)) (ws_state (feed_source (after_call f s)))"
  by (auto simp: call_mirrors_def after_call_def)

lemma feed_step_call:
  assumes "feed_step push f e g" and "mirrors (feed_state f) (ws_state (feed_source f))"
  shows "g = f \<or> (\<exists>s. g = after_call f s \<and> call_mirrors (feed_state f) (feed_source f) s)"
  using assms(1)
proof (cases rule: feed_step.cases)
  case opens
  then show ?thesis
    using assms(2) start_mirrors [of "feed_state f" "feed_source f"] by (auto simp: feed_open_def)
next
  case (closes is_open)
  then show ?thesis
    using stop_mirrors [OF assms(2), of is_open] by (auto simp: feed_close_def)
next
  case (reopens is_open)
  then show ?thesis
    using restart_mirrors [OF assms(2), of is_open] by (auto simp: feed_reopen_def)
next
  case (network s)
  then show ?thesis using step_mirrors [of push "feed_source f" e s "feed_state f"] assms(2) by auto
qed

lemma feed_step_mirrors:
  "feed_step push f e g \<Longrightarrow> mirrors (feed_state f) (ws_state (feed_source f)) \<Longrightarrow>
   mirrors (feed_state g) (ws_state (feed_source g))"
  by (drule feed_step_call) (auto simp: call_after)

text \<open>
  What the source has last reported: of its states \<^verbatim>\<open>STARTING\<close> and \<^verbatim>\<open>STOPPING\<close> are on the way
  to another one, the others are settled, and an error counts as \<^verbatim>\<open>FAILED\<close>.  The feed shows the
  last settled report.
\<close>

definition settle :: "ws_source_state \<Rightarrow> ws_note \<Rightarrow> ws_source_state" where
  "settle r c =
     (case c of
        Note_state st \<Rightarrow> if st = Ws_STARTING \<or> st = Ws_STOPPING then r else st
      | Note_error ec place \<Rightarrow> Ws_FAILED
      | Note_drop \<Rightarrow> r)"

definition last_settled :: "'q ws_source \<Rightarrow> ws_source_state" where
  "last_settled s = foldl settle Ws_STOPPED (callbacks s)"

definition shows_report :: "pending_feed_state \<Rightarrow> ws_source_state \<Rightarrow> bool" where
  "shows_report m r \<longleftrightarrow> (r = Ws_STOPPED \<and> m = Feed_CLOSED) \<or> (r = Ws_RUNNING \<and> m = Feed_OPEN) \<or>
     (r = Ws_FAILED \<and> m = Feed_FAILED)"

lemma shows_callback: "shows_report m r \<Longrightarrow> shows_report (on_callback m c) (settle r c)"
  by (cases c)
    (auto simp: shows_report_def settle_def on_callback_def on_ws_error_def on_ws_state_def
      split: ws_source_state.split)

lemma shows_callbacks: "shows_report m r \<Longrightarrow> shows_report (foldl on_callback m cs) (foldl settle r cs)"
  by (induction cs arbitrary: m r) (simp_all add: shows_callback)

lemma after_call_shows:
  assumes "call_mirrors (feed_state f) (feed_source f) s"
    and "shows_report (feed_state f) (last_settled (feed_source f))"
  shows "shows_report (feed_state (after_call f s)) (last_settled s)"
proof -
  obtain cs where "callbacks s = callbacks (feed_source f) @ cs" using assms(1) by (auto simp: call_mirrors_def)
  then show ?thesis using shows_callbacks [OF assms(2)] by (simp add: after_call_def last_settled_def)
qed

lemma feed_step_shows:
  assumes "feed_step push f e g" and "mirrors (feed_state f) (ws_state (feed_source f))"
    and "shows_report (feed_state f) (last_settled (feed_source f))"
  shows "shows_report (feed_state g) (last_settled (feed_source g))"
  using feed_step_call [OF assms(1,2)] assms(3)
proof (elim disjE exE conjE)
  fix s assume s: "g = after_call f s" "call_mirrors (feed_state f) (feed_source f) s"
  have "feed_source g = s" by (simp add: s(1) after_call_def)
  then show ?thesis using after_call_shows [OF s(2) assms(3)] s(1) by simp
qed simp

text \<open>Only a successful handshake opens a feed.\<close>

definition no_running :: "'q ws_source \<Rightarrow> 'q ws_source \<Rightarrow> bool" where
  "no_running s t \<longleftrightarrow> (\<exists>cs. callbacks t = callbacks s @ cs \<and> Note_state Ws_RUNNING \<notin> set cs)"

lemma no_running_calls:
  "no_running s (ws_start s)" "no_running s (ws_fail ec w s)" "no_running s (on_close ec s)"
  "no_running s (on_timer aborted s)" "no_running s (begin_op k s)"
  by (simp_all add: no_running_def start_callbacks fail_callbacks close_callbacks on_timer_def)

lemma no_running_read: "no_running s (on_completion push (Read_done ec bytes now) s)"
proof -
  let ?s = "s\<lparr>ws_buffer := ws_buffer s @ bytes\<rparr>"
  obtain ds where "callbacks (publish_message push now (ws_buffer s @ bytes) ?s) = callbacks s @ ds"
    "set ds \<subseteq> {Note_drop}"
    using message_callbacks [of push now "ws_buffer s @ bytes" ?s] by auto
  then show ?thesis
    using no_running_calls(2) [of ?s ec "''read''"]
    by (auto simp: on_read_def Let_def do_read_def no_running_def)
qed

lemma network_no_running:
  assumes "ws_step push s e t" and "from_network e" and "\<And>n. e \<noteq> Complete n (Handshake_done Success)"
  shows "no_running s t"
  using assms(1)
proof (cases rule: ws_step.cases)
  case (complete c n)
  let ?s = "completed (On_stream (completes c) n) s"
  have "no_running ?s (on_completion push c ?s)"
  proof (cases c)
    case (Read_done ec bytes now)
    then show ?thesis using no_running_read [of ?s push ec bytes now] by simp
  next
    case (Handshake_done ec)
    then show ?thesis using complete assms(3) no_running_calls(2) [of ?s] by (auto simp: on_ws_handshake_def)
  qed (use no_running_calls [of ?s] in \<open>auto simp: on_resolve_def on_connect_def
      on_tls_handshake_def do_ws_handshake_def\<close>)
  then show ?thesis using complete by (simp add: no_running_def)
next
  case (expire d)
  then show ?thesis using no_running_calls(4) [of "completed (Timer d) s" False] by (simp add: no_running_def)
next
  case (cancelled aborted)
  then show ?thesis
    using no_running_calls(4) [of "completed Timer_cancelled s" aborted] by (simp add: no_running_def)
qed (use assms(2) in \<open>simp_all add: from_network_def\<close>)

lemma stays_not_open:
  "Note_state Ws_RUNNING \<notin> set cs \<Longrightarrow> m \<noteq> Feed_OPEN \<Longrightarrow> foldl on_callback m cs \<noteq> Feed_OPEN"
proof (induction cs arbitrary: m)
  case (Cons c cs)
  have "on_callback m c \<noteq> Feed_OPEN"
    using Cons.prems by (cases c)
      (auto simp: on_ws_state_def on_callback_def on_ws_error_def split: ws_source_state.splits)
  then show ?case using Cons by simp
qed simp

lemma no_running_after:
  "no_running (feed_source f) s \<Longrightarrow> feed_state f \<noteq> Feed_OPEN \<Longrightarrow> feed_state (after_call f s) \<noteq> Feed_OPEN"
  using stays_not_open by (auto simp: no_running_def after_call_def)

lemma stop_no_running: "no_running s (ws_stop b s)"
proof -
  have "no_running s (do_close b t)" if "callbacks t = callbacks s @ cs" "Note_state Ws_RUNNING \<notin> set cs" for t cs
    using that by (auto simp: no_running_def do_close_def close_callbacks)
  from this [of "publish_state Ws_STOPPING (cancel_timer (s\<lparr>restart_requested := False\<rparr>))" "[Note_state Ws_STOPPING]"]
  show ?thesis by (simp add: ws_stop_def Let_def) (simp add: no_running_def)
qed

lemma open_close_not_open:
  assumes "feed_state f \<noteq> Feed_OPEN"
  shows "feed_state (feed_open f) \<noteq> Feed_OPEN" and "feed_state (feed_close b f) \<noteq> Feed_OPEN"
  using no_running_after [OF no_running_calls(1) assms] no_running_after [OF stop_no_running assms] assms
  by (simp_all add: feed_open_def feed_close_def)

lemma network_not_open:
  assumes "feed_step push f e g" and "from_network e" and "\<And>n. e \<noteq> Complete n (Handshake_done Success)"
    and "feed_state f \<noteq> Feed_OPEN"
  shows "feed_state g \<noteq> Feed_OPEN"
  using assms(1)
proof (cases rule: feed_step.cases)
  case (network s)
  then show ?thesis using no_running_after [OF network_no_running [OF network(3) assms(2,3)] assms(4)] by simp
qed (use assms(2) in \<open>simp_all add: from_network_def\<close>)

definition feed_reachable :: "(input_envelope \<Rightarrow> 'q \<Rightarrow> bool \<times> 'q) \<Rightarrow> 'q pending_feed \<Rightarrow> bool" where
  "feed_reachable push f \<longleftrightarrow> (\<exists>config queue es. feed_path push (new_feed config queue) es f)"

lemma feed_path_mirrors:
  assumes "feed_path push f es g" and "mirrors (feed_state f) (ws_state (feed_source f))"
    and "shows_report (feed_state f) (last_settled (feed_source f))"
  shows "mirrors (feed_state g) (ws_state (feed_source g)) \<and>
    shows_report (feed_state g) (last_settled (feed_source g))"
  using assms
  by (induction rule: feed_path.induct) (simp, metis feed_step_mirrors feed_step_shows)

lemma new_feed_mirrors:
  "mirrors (feed_state (new_feed config queue)) (ws_state (feed_source (new_feed config queue)))"
  "shows_report (feed_state (new_feed config queue)) (last_settled (feed_source (new_feed config queue)))"
  by (simp_all add: new_feed_def new_source_def mirrors_def shows_report_def last_settled_def reset_stream_def Let_def)

lemma feed_reachable_mirrors:
  assumes "feed_reachable push f"
  shows "mirrors (feed_state f) (ws_state (feed_source f))"
    and "shows_report (feed_state f) (last_settled (feed_source f))"
proof -
  obtain config queue es where "feed_path push (new_feed config queue) es f"
    using assms unfolding feed_reachable_def by blast
  from feed_path_mirrors [OF this new_feed_mirrors]
  show "mirrors (feed_state f) (ws_state (feed_source f))"
    "shows_report (feed_state f) (last_settled (feed_source f))" by simp_all
qed

text \<open>The source of a feed runs like a source on its own.\<close>

lemma feed_step_source:
  "feed_step push f e g \<Longrightarrow> feed_source g = feed_source f \<or> ws_step push (feed_source f) e (feed_source g)"
  by (erule feed_step.cases)
    (simp_all add: feed_open_def feed_close_def feed_reopen_def after_call_def)

lemma feed_path_source:
  "feed_path push f es g \<Longrightarrow> ws_reachable push (feed_source f) \<Longrightarrow> ws_reachable push (feed_source g)"
proof (induction rule: feed_path.induct)
  case (there f e g es h)
  then show ?case using feed_step_source [OF there.hyps(1)] reachable_step by auto
qed

lemma new_source_reachable: "ws_reachable push (new_source queue tls verify host port target)"
  unfolding ws_reachable_def using ws_path.here by blast

lemma feed_reachable_source: "feed_reachable push f \<Longrightarrow> ws_reachable push (feed_source f)"
  unfolding feed_reachable_def
  using feed_path_source new_source_reachable by (force simp: new_feed_def Let_def)

text \<open>
  C29. The feed mirrors its source.  In every reachable state the feed is open exactly when the
  source is running, or is stopping and running was its last settled report; it is failed exactly
  when the source has failed, or is starting or stopping and a failure was its last settled
  report; and it is closed exactly when the source is stopped, or is starting or stopping and has
  last reported a stop, or nothing settled yet.  Running is never the last report of a source
  that is starting, so a feed is not open then.  An open feed has a read under way on the current
  stream, or is being closed, and a failed one is starting again, stopping, waiting for its timer,
  or has used up its attempts.
\<close>

theorem feed_mirrors_source:
  assumes "feed_reachable push f"
  shows "let st = ws_state (feed_source f); r = last_settled (feed_source f) in
    (feed_state f = Feed_OPEN \<longleftrightarrow> st = Ws_RUNNING \<or> st = Ws_STOPPING \<and> r = Ws_RUNNING) \<and>
    (feed_state f = Feed_FAILED \<longleftrightarrow> st = Ws_FAILED \<or> (st = Ws_STARTING \<or> st = Ws_STOPPING) \<and> r = Ws_FAILED) \<and>
    (feed_state f = Feed_CLOSED \<longleftrightarrow> st = Ws_STOPPED \<or> (st = Ws_STARTING \<or> st = Ws_STOPPING) \<and> r = Ws_STOPPED) \<and>
    \<not> (st = Ws_STARTING \<and> r = Ws_RUNNING) \<and>
    (feed_state f = Feed_OPEN \<longrightarrow> st = Ws_STOPPING \<or>
       On_stream Op_read (stream_no (feed_source f)) \<in> set (outstanding (feed_source f))) \<and>
    (feed_state f = Feed_FAILED \<longrightarrow> st = Ws_STARTING \<or> st = Ws_STOPPING \<or>
       (\<exists>d. Timer d \<in> set (outstanding (feed_source f))) \<or>
       reconnect_attempts (feed_source f) = kMaxReconnectAttempts)"
proof -
  note m = feed_reachable_mirrors [OF assms]
  moreover have "making_progress (feed_source f)"
    using reachable_inv [OF feed_reachable_source [OF assms]] by (simp add: ws_inv_def)
  ultimately show ?thesis
    by (cases "ws_state (feed_source f)")
      (auto simp: mirrors_def shows_report_def making_progress_def Let_def)
qed

section \<open>A close while connecting\<close>

text \<open>A call of \<^verbatim>\<open>close\<close>, and a connection step that succeeds: all but the websocket handshake.\<close>

definition is_close :: "ws_event \<Rightarrow> bool" where
  "is_close e = (case e of Stop _ \<Rightarrow> True | _ \<Rightarrow> False)"

definition connects :: "ws_event \<Rightarrow> bool" where
  "connects e =
     (case e of
        Complete n c \<Rightarrow>
          (case c of
             Resolve_done ec \<Rightarrow> ec = Success
           | Connect_done ec sni verify \<Rightarrow> ec = Success \<and> sni = Success \<and> verify = Success
           | Tls_done ec \<Rightarrow> ec = Success
           | _ \<Rightarrow> False)
      | _ \<Rightarrow> False)"

definition connecting :: "'q pending_feed \<Rightarrow> bool" where
  "connecting f \<longleftrightarrow> feed_state f = Feed_CLOSED \<and> ws_state (feed_source f) = Ws_STARTING"

lemma completed_parts [simp]:
  "callbacks (completed op s) = callbacks s" "ws_state (completed op s) = ws_state s"
  "stream_no (completed op s) = stream_no s"
  by (simp_all add: completed_def)

lemma connecting_step:
  assumes "feed_step push f e g" and "connects e" and "connecting f"
  shows "connecting g"
  using assms(1)
proof (cases rule: feed_step.cases)
  case (network s)
  obtain n c where c: "e = Complete n c" using assms(2) by (auto simp: connects_def split: ws_event.splits)
  have "callbacks s = callbacks (feed_source f) \<and> ws_state s = ws_state (feed_source f)"
    using network c assms(2)
    by (cases c) (auto simp: connects_def on_resolve_def on_connect_def on_tls_handshake_def do_ws_handshake_def)
  then show ?thesis using assms(3) network by (simp add: connecting_def after_call_def)
qed (use assms(2) in \<open>simp_all add: connects_def\<close>)

lemma close_while_connecting: "connecting f \<Longrightarrow> feed_close is_open f = f"
  by (simp add: connecting_def feed_close_def)

lemma connecting_path:
  assumes "feed_path push f es g" and "list_all (\<lambda>e. is_close e \<or> connects e) es" and "connecting f"
  shows "connecting g \<and> feed_path push f (filter (\<lambda>e. \<not> is_close e) es) g"
  using assms
proof (induction rule: feed_path.induct)
  case (here f)
  then show ?case by (simp add: feed_path.here)
next
  case (there f e g es h)
  show ?case
  proof (cases "is_close e")
    case True
    then obtain b where "e = Stop b" by (auto simp: is_close_def split: ws_event.splits)
    then have "g = f"
      using there.hyps(1) close_while_connecting [OF there.prems(2)]
      by (auto elim!: feed_step.cases simp: from_network_def)
    then show ?thesis using there True by simp
  next
    case False
    then have "connects e" using there.prems(1) by simp
    then show ?thesis
      using there False connecting_step [OF there.hyps(1) _ there.prems(2)]
      by (auto intro: feed_path.there)
  qed
qed

lemma handshake_opens:
  assumes "feed_step push f (Complete n (Handshake_done Success)) g"
  shows "feed_state g = Feed_OPEN \<and> ws_state (feed_source g) = Ws_RUNNING"
  using assms
  by (cases rule: feed_step.cases)
    (simp_all add: after_call_def on_ws_handshake_def do_read_def on_ws_state_def)

text \<open>From the operation under way the connection can go on to its handshake.\<close>

definition can_open :: "(input_envelope \<Rightarrow> 'q \<Rightarrow> bool \<times> 'q) \<Rightarrow> 'q pending_feed \<Rightarrow> bool" where
  "can_open push f \<longleftrightarrow>
     (\<exists>es n g. list_all connects es \<and> feed_path push f (es @ [Complete n (Handshake_done Success)]) g)"

lemma can_open_step: "feed_step push f e g \<Longrightarrow> connects e \<Longrightarrow> can_open push g \<Longrightarrow> can_open push f"
  unfolding can_open_def by (elim exE conjE) (rule exI [of _ "e # _"], auto intro: feed_path.there)

abbreviation under_way :: "stream_op \<Rightarrow> 'q pending_feed \<Rightarrow> bool" where
  "under_way k f \<equiv> On_stream k (stream_no (feed_source f)) \<in> set (outstanding (feed_source f))"

lemma begin_op_under_way:
  "under_way k (after_call f (begin_op k s))"
  by (simp add: after_call_def begin_op_def)

lemma completion_step:
  "under_way (completes c) f \<Longrightarrow>
   feed_step push f (Complete (stream_no (feed_source f)) c)
     (after_call f (on_completion push c
        (completed (On_stream (completes c) (stream_no (feed_source f))) (feed_source f))))"
  by (rule feed_step.network) (simp_all add: from_network_def)

lemma handshake_can_open: "under_way Op_ws_handshake f \<Longrightarrow> can_open push f"
  unfolding can_open_def using completion_step [of "Handshake_done Success" f push]
  by (intro exI [of _ "[]"]) (auto intro: feed_path.intros)

lemma tls_can_open: "under_way Op_tls_handshake f \<Longrightarrow> can_open push f"
  using completion_step [of "Tls_done Success" f push]
  by (auto elim!: can_open_step intro: handshake_can_open begin_op_under_way
      simp: connects_def on_tls_handshake_def do_ws_handshake_def)

lemma connect_can_open: "under_way Op_connect f \<Longrightarrow> can_open push f"
proof -
  assume k: "under_way Op_connect f"
  let ?s = "completed (On_stream Op_connect (stream_no (feed_source f))) (feed_source f)"
  have "can_open push (after_call f (on_connect Success Success Success ?s))"
    by (cases "use_tls ?s") (simp_all add: on_connect_def do_ws_handshake_def
        handshake_can_open tls_can_open begin_op_under_way)
  with completion_step [of "Connect_done Success Success Success" f push] k
  show ?thesis by (auto intro: can_open_step simp: connects_def)
qed

lemma resolve_can_open: "under_way Op_resolve f \<Longrightarrow> can_open push f"
  using completion_step [of "Resolve_done Success" f push]
  by (auto elim!: can_open_step intro: connect_can_open begin_op_under_way simp: connects_def on_resolve_def)

text \<open>
  C31. A close while the feed is connecting is lost.  Let the source be starting while the feed
  is closed, as it is from the first open, or one after a stop, until the handshake.  Then
  close changes nothing, as often as it is called and wherever it comes between the steps of
  the connection: the run is the one without the calls, the feed is still closed and its source
  starting, a connection that goes through can still follow, and the successful handshake opens
  the feed.  (When the source reconnects after a failure the feed is failed, not closed, and
  close does stop the source.)
\<close>

theorem close_while_connecting_is_lost:
  assumes "feed_reachable push f" and "feed_state f = Feed_CLOSED" and "ws_state (feed_source f) = Ws_STARTING"
    and "feed_path push f es g" and "list_all (\<lambda>e. is_close e \<or> connects e) es"
  shows "feed_close is_open g = g \<and> feed_path push f (filter (\<lambda>e. \<not> is_close e) es) g \<and>
    feed_state g = Feed_CLOSED \<and> ws_state (feed_source g) = Ws_STARTING \<and>
    (\<exists>es' n h. list_all connects es' \<and> feed_path push g (es' @ [Complete n (Handshake_done Success)]) h) \<and>
    (\<forall>n h. feed_step push g (Complete n (Handshake_done Success)) h \<longrightarrow>
       feed_state h = Feed_OPEN \<and> ws_state (feed_source h) = Ws_RUNNING)"
proof -
  have "connecting f" using assms(2,3) by (simp add: connecting_def)
  note path = connecting_path [OF assms(4,5) this]
  then have starting: "feed_state g = Feed_CLOSED" "ws_state (feed_source g) = Ws_STARTING"
    by (simp_all add: connecting_def)
  have "making_progress (feed_source g)"
    using reachable_inv [OF feed_path_source [OF assms(4) feed_reachable_source [OF assms(1)]]]
    by (simp add: ws_inv_def)
  then have "can_open push g"
    using starting(2) resolve_can_open connect_can_open tls_can_open handshake_can_open
    by (auto simp: making_progress_def)
  then show ?thesis
    using path starting close_while_connecting handshake_opens unfolding can_open_def by blast
qed

end
