(* ===== verification/Knight_Rest.thy ===== *)
theory Knight_Rest
  imports Knight_Feed
begin

text \<open>
  The REST clients of the knight: one HTTP exchange with its phases
  (\<^verbatim>\<open>src/knight/src/network/rest_client.cpp\<close>) and the request for the pending snapshot
  with its retries (\<^verbatim>\<open>src/knight/src/builder/rest_client.cpp\<close>).  What the network does in
  the phases of an exchange is given by the environment.
\<close>

section \<open>One exchange\<close>

datatype rest_error =
  UNKNOWN_ERROR | RESOLVE_ERROR | CONNECT_ERROR | SSL_HANDSHAKE_ERROR | HTTP_WRITE_ERROR
| HTTP_READ_ERROR | BAD_STATUS | SHUTDOWN_ERROR

text \<open>
  What the network does on a request: the result of each call of an exchange, and the status
  and the body of the response, should it come to one.  The response depends on the request.
\<close>

record http_request =
  http_host :: string
  http_port :: string
  http_method :: string
  http_path :: string

record http_network =
  net_sni :: bool
  net_verify_host :: bool
  net_resolve :: error_code
  net_connect :: error_code
  net_handshake :: error_code
  net_write :: error_code
  net_read :: error_code
  net_response :: "http_request \<Rightarrow> nat \<times> string"

record rest_client =
  rc_use_tls :: bool
  rc_verify_tls_peer :: bool
  rc_host :: string
  rc_port :: string

text \<open>The part both transports share: write the request, read the response, check the status.\<close>

definition http_exchange :: "http_network \<Rightarrow> http_request \<Rightarrow> rest_error + string" where
  "http_exchange net req =
     (if net_write net \<noteq> Success then Inl HTTP_WRITE_ERROR
      else if net_read net \<noteq> Success then Inl HTTP_READ_ERROR
      else case net_response net req of (status, body) \<Rightarrow>
        if status \<noteq> 200 then Inl BAD_STATUS else Inr body)"

definition get_request :: "rest_client \<Rightarrow> string \<Rightarrow> http_request" where
  "get_request c target =
     \<lparr>http_host = rc_host c, http_port = rc_port c, http_method = ''GET'', http_path = target\<rparr>"

definition get_plain :: "http_network \<Rightarrow> rest_client \<Rightarrow> string \<Rightarrow> rest_error + string" where
  "get_plain net c target =
     (if net_resolve net \<noteq> Success then Inl RESOLVE_ERROR
      else if net_connect net \<noteq> Success then Inl CONNECT_ERROR
      else http_exchange net (get_request c target))"

definition get_tls :: "http_network \<Rightarrow> rest_client \<Rightarrow> string \<Rightarrow> rest_error + string" where
  "get_tls net c target =
     (if \<not> net_sni net then Inl SSL_HANDSHAKE_ERROR
      else if rc_verify_tls_peer c \<and> \<not> net_verify_host net then Inl SSL_HANDSHAKE_ERROR
      else if net_resolve net \<noteq> Success then Inl RESOLVE_ERROR
      else if net_connect net \<noteq> Success then Inl CONNECT_ERROR
      else if net_handshake net \<noteq> Success then Inl SSL_HANDSHAKE_ERROR
      else http_exchange net (get_request c target))"

definition rest_get :: "http_network \<Rightarrow> rest_client \<Rightarrow> string \<Rightarrow> rest_error + string" where
  "rest_get net c target = (if rc_use_tls c then get_tls net c target else get_plain net c target)"

section \<open>The pending snapshot\<close>

definition kPendingSnapshotTarget :: string where "kPendingSnapshotTarget = ''/public/pending''"
definition kSnapshotMaxAttempts :: nat where "kSnapshotMaxAttempts = 3"
definition kSnapshotBaseBackoff :: nat where "kSnapshotBaseBackoff = 200"

definition new_rest_client :: "knight_config \<Rightarrow> rest_client" where
  "new_rest_client config =
     (let endpoint = builder_ws_endpoint config in
      \<lparr>rc_use_tls = ep_use_tls endpoint, rc_verify_tls_peer = tls_verify_peer config,
       rc_host = ep_host endpoint, rc_port = ep_port endpoint\<rparr>)"

text \<open>
  The loop from an attempt on.  The environment answers each attempt; the result comes with the
  milliseconds slept before each retry.
\<close>

function request_from ::
  "(nat \<Rightarrow> http_network) \<Rightarrow> rest_client \<Rightarrow> nat \<Rightarrow> (builder_error + string) \<times> nat list" where
  "request_from net c attempt =
     (if kSnapshotMaxAttempts < attempt then (Inl REQUEST_ERROR, [])
      else
        (case rest_get (net attempt) c kPendingSnapshotTarget of
           Inr body \<Rightarrow> (Inr body, [])
         | Inl e \<Rightarrow>
             if attempt = kSnapshotMaxAttempts then (Inl REQUEST_ERROR, [])
             else
               (case request_from net c (attempt + 1) of (res, sleeps) \<Rightarrow>
                  (res, kSnapshotBaseBackoff * 2 ^ (attempt - 1) # sleeps))))"
  by pat_completeness auto
termination
  by (relation "measure (\<lambda>(net, c, attempt). Suc kSnapshotMaxAttempts - attempt)")
    (auto simp: kSnapshotMaxAttempts_def)

declare request_from.simps [simp del]

definition request_snapshot ::
  "(nat \<Rightarrow> http_network) \<Rightarrow> rest_client \<Rightarrow> (builder_error + string) \<times> nat list" where
  "request_snapshot net c = request_from net c 1"

section \<open>Properties\<close>

lemma get_result:
  "rest_get net c target = Inr body \<longleftrightarrow>
     net_resolve net = Success \<and> net_connect net = Success \<and> net_write net = Success \<and>
     net_read net = Success \<and> net_response net (get_request c target) = (200, body) \<and>
     (rc_use_tls c \<longrightarrow> net_sni net \<and> (rc_verify_tls_peer c \<longrightarrow> net_verify_host net) \<and> net_handshake net = Success)"
  by (auto simp: rest_get_def get_tls_def get_plain_def http_exchange_def split: prod.splits)

lemma request_unfold:
  "request_snapshot net c =
     (case rest_get (net 1) c kPendingSnapshotTarget of
        Inr body \<Rightarrow> (Inr body, [])
      | Inl _ \<Rightarrow>
          (case rest_get (net 2) c kPendingSnapshotTarget of
             Inr body \<Rightarrow> (Inr body, [200])
           | Inl _ \<Rightarrow>
               (case rest_get (net 3) c kPendingSnapshotTarget of
                  Inr body \<Rightarrow> (Inr body, [200, 400])
                | Inl _ \<Rightarrow> (Inl REQUEST_ERROR, [200, 400]))))"
proof -
  have "request_from net c 3 = (case rest_get (net 3) c kPendingSnapshotTarget of
      Inr body \<Rightarrow> (Inr body, []) | Inl _ \<Rightarrow> (Inl REQUEST_ERROR, []))"
    by (subst request_from.simps) (simp add: kSnapshotMaxAttempts_def)
  moreover have "request_from net c 2 = (case rest_get (net 2) c kPendingSnapshotTarget of
      Inr body \<Rightarrow> (Inr body, [])
    | Inl _ \<Rightarrow> (case request_from net c 3 of (res, sleeps) \<Rightarrow> (res, 400 # sleeps)))"
    by (subst request_from.simps)
      (simp add: kSnapshotMaxAttempts_def kSnapshotBaseBackoff_def numeral_3_eq_3 split: sum.split)
  moreover have "request_from net c 1 = (case rest_get (net 1) c kPendingSnapshotTarget of
      Inr body \<Rightarrow> (Inr body, [])
    | Inl _ \<Rightarrow> (case request_from net c 2 of (res, sleeps) \<Rightarrow> (res, 200 # sleeps)))"
    by (subst request_from.simps)
      (simp add: kSnapshotMaxAttempts_def kSnapshotBaseBackoff_def numeral_2_eq_2 split: sum.split)
  ultimately show ?thesis
    by (simp add: request_snapshot_def split: sum.split)
qed

text \<open>
  The snapshot request gives the body of the first of at most three attempts that goes
  through every phase and is answered with status 200, having slept 200 and then 400
  milliseconds before the retries, and an error exactly when all three attempts fail.
\<close>

theorem snapshot_takes_the_first_success:
  "request_snapshot net c =
     (let result = (\<lambda>n. rest_get (net n) c ''/public/pending'') in
      case List.find (\<lambda>n. \<not> isl (result n)) [1, 2, 3] of
        None \<Rightarrow> (Inl REQUEST_ERROR, [200, 400])
      | Some n \<Rightarrow> (Inr (projr (result n)), take (n - 1) [200, 400]))"
  unfolding request_unfold kPendingSnapshotTarget_def Let_def
  by (simp split: sum.split)

end
