(* ===== verification/Knight_Runtime.thy ===== *)
theory Knight_Runtime
  imports Knight_Rest
begin

text \<open>
  The runtime of the knight (\<^verbatim>\<open>src/knight/src/runtime/runtime.cpp\<close>,
  \<^verbatim>\<open>runtime_factory.cpp\<close> and \<^verbatim>\<open>main.cpp\<close>): the main thread, the network thread
  and the thread that calls for the shutdown, over the feed and its queue.  A step is what one
  thread does between two points where the others may act: a handler of the network thread, a
  pop, the snapshot request, or one of the calls that \<^verbatim>\<open>Runtime::stop\<close> makes one after
  the other.
\<close>

section \<open>The state\<close>

text \<open>Where the main thread is in \<^verbatim>\<open>run\<close> and in \<^verbatim>\<open>run_core_loop\<close>.\<close>

datatype main_thread = Main_created | Main_waiting | Main_ready | Main_loop | Main_returned

text \<open>How far a shutdown has come.\<close>

datatype shutdown = No_stop | Stop_begun | Feed_closed | Queue_closed | Io_stopped

text \<open>The messages the runtime logs, with their data.\<close>

datatype knight_log =
  Log_open_failed builder_error | Log_feed_ready | Log_snapshot "builder_error + string"
| Log_envelope input_envelope | Log_queue_closed

text \<open>The queue is the one the source pushes into; both hold a pointer to it.\<close>

record knight =
  kn_running :: bool
  kn_main :: main_thread
  kn_shutdown :: shutdown
  kn_feed :: "input_envelope input_queue pending_feed"
  kn_client :: rest_client
  kn_handled :: "input_envelope list"
  kn_log :: "knight_log list"

definition kQueueCapacity :: nat where "kQueueCapacity = 10000"

definition create_components :: "knight_config \<Rightarrow> knight" where
  "create_components config =
     \<lparr>kn_running = False, kn_main = Main_created, kn_shutdown = No_stop,
      kn_feed = new_feed config empty_queue, kn_client = new_rest_client config,
      kn_handled = [], kn_log = []\<rparr>"

definition pending_queue :: "knight \<Rightarrow> input_envelope input_queue" where
  "pending_queue k = (case ws_queue (feed_source (kn_feed k)) of Some q \<Rightarrow> q | None \<Rightarrow> empty_queue)"

definition with_queue :: "input_envelope input_queue \<Rightarrow> knight \<Rightarrow> knight" where
  "with_queue q k =
     k\<lparr>kn_feed := (kn_feed k)\<lparr>feed_source := (feed_source (kn_feed k))\<lparr>ws_queue := Some q\<rparr>\<rparr>\<rparr>"

definition log_message :: "knight_log \<Rightarrow> knight \<Rightarrow> knight" where
  "log_message m k = k\<lparr>kn_log := kn_log k @ [m]\<rparr>"

section \<open>The threads\<close>

definition run_begin :: "knight \<Rightarrow> knight" where
  "run_begin k = k\<lparr>kn_running := True, kn_feed := feed_open (kn_feed k), kn_main := Main_waiting\<rparr>"

definition run_ready :: "builder_error + unit \<Rightarrow> knight \<Rightarrow> knight" where
  "run_ready wait_res k =
     (case wait_res of
        Inl e \<Rightarrow> log_message (Log_open_failed e) (k\<lparr>kn_main := Main_returned\<rparr>)
      | Inr _ \<Rightarrow> log_message Log_feed_ready (k\<lparr>kn_main := Main_ready\<rparr>))"

definition core_snapshot :: "(nat \<Rightarrow> http_network) \<Rightarrow> knight \<Rightarrow> knight" where
  "core_snapshot net k =
     log_message (Log_snapshot (fst (request_snapshot net (kn_client k)))) (k\<lparr>kn_main := Main_loop\<rparr>)"

definition core_pop :: "knight \<Rightarrow> knight option" where
  "core_pop k =
     (case wait_pop (pending_queue k) of
        None \<Rightarrow> None
      | Some (None, q) \<Rightarrow> Some (log_message Log_queue_closed (with_queue q (k\<lparr>kn_main := Main_returned\<rparr>)))
      | Some (Some e, q) \<Rightarrow>
          Some (log_message (Log_envelope e) (with_queue q (k\<lparr>kn_handled := kn_handled k @ [e]\<rparr>))))"

text \<open>\<^verbatim>\<open>stop\<close>: the exchange of the running flag, then one call after the other.\<close>

definition stop_request :: "knight \<Rightarrow> knight" where
  "stop_request k = (if \<not> kn_running k then k else k\<lparr>kn_running := False, kn_shutdown := Stop_begun\<rparr>)"

definition stop_next :: "bool \<Rightarrow> knight \<Rightarrow> knight" where
  "stop_next is_open k =
     (case kn_shutdown k of
        Stop_begun \<Rightarrow> k\<lparr>kn_feed := feed_close is_open (kn_feed k), kn_shutdown := Feed_closed\<rparr>
      | Feed_closed \<Rightarrow> with_queue (close_queue (pending_queue k)) (k\<lparr>kn_shutdown := Queue_closed\<rparr>)
      | Queue_closed \<Rightarrow> k\<lparr>kn_shutdown := Io_stopped\<rparr>
      | _ \<Rightarrow> k)"

datatype knight_event =
  Run | Ready bool | Snapshot "nat \<Rightarrow> http_network" | Take | Network ws_event | Stop_called | Stop_goes_on bool

inductive knight_step :: "knight \<Rightarrow> knight_event \<Rightarrow> knight \<Rightarrow> bool" where
  run: "kn_main k = Main_created \<Longrightarrow> knight_step k Run (run_begin k)"
| ready: "kn_main k = Main_waiting \<Longrightarrow> wait_until_ready timed_out (kn_feed k) = Some r \<Longrightarrow>
    knight_step k (Ready timed_out) (run_ready r k)"
| snapshot: "kn_main k = Main_ready \<Longrightarrow> knight_step k (Snapshot net) (core_snapshot net k)"
| take_envelope: "kn_main k = Main_loop \<Longrightarrow> core_pop k = Some k' \<Longrightarrow> knight_step k Take k'"
| network: "kn_main k \<noteq> Main_created \<Longrightarrow> kn_shutdown k \<noteq> Io_stopped \<Longrightarrow> from_network e \<Longrightarrow>
    feed_step (try_push kQueueCapacity) (kn_feed k) e f \<Longrightarrow> knight_step k (Network e) (k\<lparr>kn_feed := f\<rparr>)"
| stop_called: "knight_step k Stop_called (stop_request k)"
| stop_goes_on: "kn_shutdown k \<noteq> No_stop \<Longrightarrow> knight_step k (Stop_goes_on is_open) (stop_next is_open k)"

inductive knight_path :: "knight \<Rightarrow> knight_event list \<Rightarrow> knight \<Rightarrow> bool" where
  here: "knight_path k [] k"
| there: "knight_step k e l \<Longrightarrow> knight_path l es m \<Longrightarrow> knight_path k (e # es) m"

inductive_simps knight_path_simps: "knight_path k [] l" "knight_path k (e # es) l"

text \<open>The step as a function of the event.\<close>

definition knight_next :: "knight_event \<Rightarrow> knight \<Rightarrow> knight option" where
  "knight_next e k =
     (case e of
        Run \<Rightarrow> if kn_main k = Main_created then Some (run_begin k) else None
      | Ready timed_out \<Rightarrow>
          if kn_main k = Main_waiting
          then map_option (\<lambda>r. run_ready r k) (wait_until_ready timed_out (kn_feed k)) else None
      | Snapshot net \<Rightarrow> if kn_main k = Main_ready then Some (core_snapshot net k) else None
      | Take \<Rightarrow> if kn_main k = Main_loop then core_pop k else None
      | Network e' \<Rightarrow>
          if kn_main k \<noteq> Main_created \<and> kn_shutdown k \<noteq> Io_stopped \<and> from_network e'
          then map_option (\<lambda>f. k\<lparr>kn_feed := f\<rparr>) (feed_next (try_push kQueueCapacity) e' (kn_feed k)) else None
      | Stop_called \<Rightarrow> Some (stop_request k)
      | Stop_goes_on is_open \<Rightarrow> if kn_shutdown k \<noteq> No_stop then Some (stop_next is_open k) else None)"

lemma knight_next_step: "knight_step k e l \<longleftrightarrow> knight_next e k = Some l"
  by (cases e) (auto simp: knight_next_def feed_next_step intro: knight_step.intros elim: knight_step.cases)

fun knight_exec :: "knight_event list \<Rightarrow> knight \<Rightarrow> knight option" where
  "knight_exec [] k = Some k"
| "knight_exec (e # es) k = Option.bind (knight_next e k) (knight_exec es)"

lemma knight_exec_path: "knight_path k es l \<longleftrightarrow> knight_exec es k = Some l"
  by (induction es arbitrary: k) (auto simp: knight_path_simps knight_next_step bind_eq_Some_conv)

section \<open>What the threads keep\<close>

text \<open>
  The log of a run tells what has happened, in order; the core loop only ends on a closed queue,
  and the queue is closed only by a shutdown.
\<close>

definition log_ok :: "knight \<Rightarrow> bool" where
  "log_ok k =
     (case kn_main k of
        Main_created \<Rightarrow> kn_log k = [] \<and> kn_handled k = []
      | Main_waiting \<Rightarrow> kn_log k = [] \<and> kn_handled k = []
      | Main_ready \<Rightarrow> kn_log k = [Log_feed_ready] \<and> kn_handled k = []
      | Main_loop \<Rightarrow> (\<exists>r. kn_log k = Log_feed_ready # Log_snapshot r # map Log_envelope (kn_handled k))
      | Main_returned \<Rightarrow>
          (\<exists>e. kn_log k = [Log_open_failed e] \<and> kn_handled k = []) \<or>
          (\<exists>r. kn_log k = Log_feed_ready # Log_snapshot r # map Log_envelope (kn_handled k) @ [Log_queue_closed]) \<and>
          q_closed (pending_queue k) \<and> q_items (pending_queue k) = [])"

definition shutdown_ok :: "knight \<Rightarrow> bool" where
  "shutdown_ok k \<longleftrightarrow>
     (q_closed (pending_queue k) \<longleftrightarrow> kn_shutdown k = Queue_closed \<or> kn_shutdown k = Io_stopped) \<and>
     (kn_running k \<longrightarrow> kn_shutdown k = No_stop) \<and>
     (kn_main k = Main_created \<longrightarrow> kn_shutdown k = No_stop \<and> \<not> kn_running k)"

definition feed_ok :: "knight \<Rightarrow> bool" where
  "feed_ok k \<longleftrightarrow> ws_inv (feed_source (kn_feed k)) \<and>
     mirrors (feed_state (kn_feed k)) (ws_state (feed_source (kn_feed k))) \<and>
     ws_queue (feed_source (kn_feed k)) = Some (pending_queue k)"

text \<open>What a step does to the feed and the queue.\<close>

lemma with_queue_parts [simp]:
  "pending_queue (with_queue q k) = q" "feed_state (kn_feed (with_queue q k)) = feed_state (kn_feed k)"
  "kn_main (with_queue q k) = kn_main k" "kn_shutdown (with_queue q k) = kn_shutdown k"
  "kn_running (with_queue q k) = kn_running k" "kn_handled (with_queue q k) = kn_handled k"
  "kn_log (with_queue q k) = kn_log k" "kn_client (with_queue q k) = kn_client k"
  "ws_host (feed_source (kn_feed (with_queue q k))) = ws_host (feed_source (kn_feed k))"
  "ws_state (feed_source (kn_feed (with_queue q k))) = ws_state (feed_source (kn_feed k))"
  "ws_inv (feed_source (kn_feed (with_queue q k))) = ws_inv (feed_source (kn_feed k))"
  "drops (feed_source (kn_feed (with_queue q k))) = drops (feed_source (kn_feed k))"
  "ws_queue (feed_source (kn_feed (with_queue q k))) = Some q"
  by (simp_all add: with_queue_def pending_queue_def drops_def)

lemma same_feed [simp]:
  "pending_queue (k\<lparr>kn_main := m\<rparr>) = pending_queue k" "pending_queue (k\<lparr>kn_running := b\<rparr>) = pending_queue k"
  "pending_queue (k\<lparr>kn_shutdown := sd\<rparr>) = pending_queue k" "pending_queue (k\<lparr>kn_log := l\<rparr>) = pending_queue k"
  "pending_queue (k\<lparr>kn_handled := es\<rparr>) = pending_queue k"
  by (simp_all add: pending_queue_def)

lemma log_parts [simp]:
  "kn_feed (log_message m k) = kn_feed k" "kn_main (log_message m k) = kn_main k"
  "kn_shutdown (log_message m k) = kn_shutdown k" "kn_running (log_message m k) = kn_running k"
  "kn_handled (log_message m k) = kn_handled k" "kn_log (log_message m k) = kn_log k @ [m]"
  "pending_queue (log_message m k) = pending_queue k"
  by (simp_all add: log_message_def pending_queue_def)

lemma feed_calls [simp]:
  "ws_queue (feed_source (feed_open f)) = ws_queue (feed_source f)"
  "ws_host (feed_source (feed_open f)) = ws_host (feed_source f)"
  "drops (feed_source (feed_open f)) = drops (feed_source f)"
  "ws_queue (feed_source (feed_close b f)) = ws_queue (feed_source f)"
  "ws_host (feed_source (feed_close b f)) = ws_host (feed_source f)"
  "drops (feed_source (feed_close b f)) = drops (feed_source f)"
  by (simp_all add: feed_open_def feed_close_def after_call_def)

lemma open_close_ok:
  assumes "ws_inv (feed_source f)" and "mirrors (feed_state f) (ws_state (feed_source f))"
  shows "ws_inv (feed_source (feed_open f)) \<and> mirrors (feed_state (feed_open f)) (ws_state (feed_source (feed_open f)))"
    and "ws_inv (feed_source (feed_close b f)) \<and> mirrors (feed_state (feed_close b f)) (ws_state (feed_source (feed_close b f)))"
  using feed_step_mirrors [OF feed_step.opens assms(2)] feed_step_mirrors [OF feed_step.closes assms(2)]
    ws_step_inv [OF ws_step.start assms(1)] ws_step_inv [OF ws_step.stop assms(1)] assms(1)
  by (simp_all add: feed_open_def feed_close_def after_call_def)

lemma network_parts:
  assumes "feed_step push f e g" and "from_network e"
  shows "ws_step push (feed_source f) e (feed_source g)"
  using assms by (cases rule: feed_step.cases) (auto simp: from_network_def after_call_def)

lemma knight_step_feed:
  assumes "knight_step k e l" and "feed_ok k"
  shows "feed_ok l \<and> ws_host (feed_source (kn_feed l)) = ws_host (feed_source (kn_feed k))"
  using assms(1)
proof (cases rule: knight_step.cases)
  case run
  then show ?thesis
    using assms(2) open_close_ok(1) [of "kn_feed k"] by (simp add: feed_ok_def run_begin_def pending_queue_def)
next
  case (ready timed_out r)
  then show ?thesis using assms(2) by (simp add: feed_ok_def run_ready_def split: sum.split)
next
  case (snapshot net)
  then show ?thesis using assms(2) by (simp add: feed_ok_def core_snapshot_def)
next
  case take_envelope
  then show ?thesis
    using assms(2) by (auto simp: feed_ok_def core_pop_def split: option.splits)
next
  case (network e f)
  let ?s = "feed_source (kn_feed k)"
  have step: "ws_step (try_push kQueueCapacity) ?s e (feed_source f)"
    by (rule network_parts [OF network(6,5)])
  have "ws_queue ?s = Some (h_queue (untouched (pending_queue k)))" "ws_buffer ?s = []"
    using assms(2) by (simp_all add: feed_ok_def untouched_def ws_inv_def)
  from queue_after_step [OF step this(2,1) refl, of wait_pop close_queue]
  have "\<exists>q. ws_queue (feed_source f) = Some q" "ws_host (feed_source f) = ws_host ?s" by auto
  moreover have "mirrors (feed_state f) (ws_state (feed_source f))"
    using feed_step_mirrors [OF network(6)] assms(2) by (simp add: feed_ok_def)
  moreover have "ws_inv (feed_source f)"
    using ws_step_inv [OF step] assms(2) by (simp add: feed_ok_def)
  ultimately show ?thesis using network by (auto simp: feed_ok_def pending_queue_def)
next
  case stop_called
  then show ?thesis using assms(2) by (simp add: feed_ok_def stop_request_def)
next
  case (stop_goes_on is_open)
  then show ?thesis
    using assms(2) open_close_ok(2) [of "kn_feed k" is_open]
    by (auto simp: feed_ok_def stop_next_def pending_queue_def split: shutdown.splits)
qed

text \<open>A handler of the network thread pushes what it reads, as far as there is room.\<close>

lemma network_queue:
  assumes "feed_step (try_push kQueueCapacity) (kn_feed k) e f" and "from_network e" and "feed_ok k"
  shows "let room = (if q_closed (pending_queue k) then 0
                     else kQueueCapacity - length (q_items (pending_queue k)));
             ms = messages_read (ws_host (feed_source (kn_feed k))) [e]
    in q_items (pending_queue (k\<lparr>kn_feed := f\<rparr>)) = q_items (pending_queue k) @ take room ms \<and>
       q_closed (pending_queue (k\<lparr>kn_feed := f\<rparr>)) = q_closed (pending_queue k)"
proof -
  let ?s = "feed_source (kn_feed k)"
  have q: "ws_queue ?s = Some (h_queue (untouched (pending_queue k)))" "ws_buffer ?s = []"
    using assms(3) by (simp_all add: feed_ok_def untouched_def ws_inv_def)
  from queue_after_step [OF network_parts [OF assms(1,2)] q(2,1) refl, of wait_pop close_queue]
    pushes_fill [of "untouched (pending_queue k)" kQueueCapacity "messages_read (ws_host ?s) [e]"]
  show ?thesis by (simp add: pending_queue_def [of "k\<lparr>kn_feed := f\<rparr>"] untouched_def Let_def)
qed

lemma pop_some:
  assumes "core_pop k = Some l"
  obtains (handles) e q where "wait_pop (pending_queue k) = Some (Some e, q)"
      "l = log_message (Log_envelope e) (with_queue q (k\<lparr>kn_handled := kn_handled k @ [e]\<rparr>))"
      "q_items (pending_queue k) = e # q_items q" "q_closed q = q_closed (pending_queue k)"
  | (ends) "wait_pop (pending_queue k) = Some (None, pending_queue k)" "q_closed (pending_queue k)"
      "q_items (pending_queue k) = []"
      "l = log_message Log_queue_closed (with_queue (pending_queue k) (k\<lparr>kn_main := Main_returned\<rparr>))"
proof (cases rule: bounded.pop_cases [of "pending_queue k"])
  case waits
  then show ?thesis using assms by (simp add: core_pop_def)
next
  case (ends q)
  moreover have "q = pending_queue k" using ends(1,2) by (auto simp: wait_pop_def split: if_splits)
  ultimately show ?thesis using assms that(2) by (simp add: core_pop_def)
next
  case (takes e q)
  then show ?thesis using assms that(1) [of e q] by (simp add: core_pop_def)
qed

lemma knight_step_log:
  assumes "knight_step k e l" and "feed_ok k" and "log_ok k" and "shutdown_ok k"
  shows "log_ok l \<and> shutdown_ok l"
  using assms(1)
proof (cases rule: knight_step.cases)
  case run
  then show ?thesis using assms by (simp add: log_ok_def shutdown_ok_def run_begin_def pending_queue_def)
next
  case (ready timed_out r)
  then show ?thesis
    using assms by (auto simp: log_ok_def shutdown_ok_def run_ready_def split: sum.split)
next
  case (snapshot net)
  then show ?thesis using assms by (simp add: log_ok_def shutdown_ok_def core_snapshot_def)
next
  case take_envelope
  from take_envelope(3) show ?thesis
    by (cases rule: pop_some) (use take_envelope assms in \<open>auto simp: log_ok_def shutdown_ok_def\<close>)
next
  case (network e f)
  note q = network_queue [OF network(6,5) assms(2), unfolded Let_def]
  have closed: "q_closed (pending_queue k) \<Longrightarrow> q_items (pending_queue (k\<lparr>kn_feed := f\<rparr>)) = q_items (pending_queue k)"
    using q by simp
  then show ?thesis
    using network assms(3,4) q
    by (auto simp: log_ok_def shutdown_ok_def split: main_thread.splits)
next
  case stop_called
  then show ?thesis
    using assms by (auto simp: log_ok_def shutdown_ok_def stop_request_def split: main_thread.splits)
next
  case (stop_goes_on is_open)
  have pq: "pending_queue (k\<lparr>kn_feed := feed_close is_open (kn_feed k), kn_shutdown := sd\<rparr>) = pending_queue k" for sd
    by (simp add: pending_queue_def)
  show ?thesis
    using stop_goes_on assms pq
    by (cases "kn_shutdown k"; cases "kn_main k")
      (auto simp: log_ok_def shutdown_ok_def stop_next_def close_queue_def)
qed

definition knight_ok :: "knight \<Rightarrow> bool" where
  "knight_ok k \<longleftrightarrow> feed_ok k \<and> log_ok k \<and> shutdown_ok k"

lemma create_ok: "knight_ok (create_components config)"
proof -
  have "pending_queue (create_components config) = empty_queue"
    by (simp add: create_components_def pending_queue_def new_feed_def new_source_def reset_stream_def Let_def)
  moreover have "ws_queue (feed_source (kn_feed (create_components config))) = Some empty_queue"
    "ws_inv (feed_source (kn_feed (create_components config)))"
    "mirrors (feed_state (kn_feed (create_components config))) (ws_state (feed_source (kn_feed (create_components config))))"
    using new_feed_mirrors [of config "empty_queue :: input_envelope input_queue"] new_source_inv
    by (simp_all add: create_components_def new_feed_def new_source_def reset_stream_def Let_def)
  ultimately show ?thesis
    by (simp add: knight_ok_def feed_ok_def log_ok_def shutdown_ok_def empty_queue_def create_components_def)
qed

lemma knight_path_ok: "knight_path k es l \<Longrightarrow> knight_ok k \<Longrightarrow> knight_ok l"
proof (induction rule: knight_path.induct)
  case (there k e l es m)
  then show ?case
    using knight_step_feed [OF there.hyps(1)] knight_step_log [OF there.hyps(1)] by (simp add: knight_ok_def)
qed

section \<open>From the network to the log\<close>

definition network_events :: "knight_event list \<Rightarrow> ws_event list" where
  "network_events es = concat (map (\<lambda>e. case e of Network e' \<Rightarrow> [e'] | _ \<Rightarrow> []) es)"

text \<open>A run of the threads seen as a history of operations on the queue.\<close>

definition as_history :: "knight \<Rightarrow> (input_envelope input_queue, input_envelope) queue_history \<Rightarrow> bool" where
  "as_history k h \<longleftrightarrow> pending_queue k = h_queue h \<and> kn_handled k = h_popped h \<and>
     drops (feed_source (kn_feed k)) = length (h_refused h)"

lemma knight_step_history:
  assumes "knight_step k e l" and "feed_ok k" and "as_history k h"
  shows "\<exists>ops. as_history l (bounded_run kQueueCapacity ops h) \<and>
    pushed_items ops = messages_read (ws_host (feed_source (kn_feed k))) (network_events [e])"
proof -
  have none: ?thesis
    if "pending_queue l = pending_queue k" "kn_handled l = kn_handled k"
      "drops (feed_source (kn_feed l)) = drops (feed_source (kn_feed k))"
      "network_events [e] = []"
    using that assms(3) by (intro exI [of _ "[]"]) (simp add: as_history_def messages_read_def)
  show ?thesis
    using assms(1)
  proof (cases rule: knight_step.cases)
    case run
    then show ?thesis by (intro none) (simp_all add: run_begin_def pending_queue_def network_events_def)
  next
    case (ready timed_out r)
    then show ?thesis by (intro none) (simp_all add: run_ready_def network_events_def split: sum.split)
  next
    case (snapshot net)
    then show ?thesis by (intro none) (simp_all add: core_snapshot_def network_events_def)
  next
    case take_envelope
    have nil: "pushed_items [Pop] = messages_read host (network_events [e])" for host
      using take_envelope by (simp add: network_events_def messages_read_def)
    from take_envelope(3) show ?thesis
      by (cases rule: pop_some; intro exI [of _ "[Pop]"])
        (use assms(3) nil in \<open>simp_all add: as_history_def\<close>)
  next
    case (network e' f)
    let ?s = "feed_source (kn_feed k)"
    have q: "ws_queue ?s = Some (h_queue h)" "ws_buffer ?s = []"
      using assms(2,3) by (simp_all add: feed_ok_def as_history_def ws_inv_def)
    from queue_after_step [OF network_parts [OF network(6,5)] q(2,1) refl, of wait_pop close_queue]
    show ?thesis
      using network assms(3)
      by (intro exI [of _ "map Push (messages_read (ws_host ?s) [e'])"])
        (simp add: as_history_def pending_queue_def network_events_def pushed_items_def comp_def)
  next
    case stop_called
    then show ?thesis by (intro none) (simp_all add: stop_request_def network_events_def)
  next
    case (stop_goes_on is_open)
    show ?thesis
    proof (cases "kn_shutdown k = Feed_closed")
      case True
      then show ?thesis
        using stop_goes_on assms(3)
        by (intro exI [of _ "[Close]"])
          (simp add: as_history_def stop_next_def network_events_def messages_read_def)
    next
      case False
      then show ?thesis
        using stop_goes_on
        by (intro none; cases "kn_shutdown k")
          (simp_all add: stop_next_def network_events_def pending_queue_def)
    qed
  qed
qed

lemma knight_path_history:
  assumes "knight_path k es l" and "feed_ok k" and "as_history k h"
  shows "\<exists>ops. as_history l (bounded_run kQueueCapacity ops h) \<and>
    pushed_items ops = messages_read (ws_host (feed_source (kn_feed k))) (network_events es)"
  using assms
proof (induction arbitrary: h rule: knight_path.induct)
  case (here k)
  then show ?case by (intro exI [of _ "[]"]) (simp add: network_events_def messages_read_def)
next
  case (there k e l es m)
  obtain ops where ops: "as_history l (bounded_run kQueueCapacity ops h)"
    "pushed_items ops = messages_read (ws_host (feed_source (kn_feed k))) (network_events [e])"
    using knight_step_history [OF there.hyps(1) there.prems] by blast
  note step = knight_step_feed [OF there.hyps(1) there.prems(1)]
  obtain ops' where ops': "as_history m (bounded_run kQueueCapacity ops' (bounded_run kQueueCapacity ops h))"
    "pushed_items ops' = messages_read (ws_host (feed_source (kn_feed k))) (network_events es)"
    using there.IH [OF _ ops(1)] step by auto
  have "messages_read host (network_events (e # es)) =
      messages_read host (network_events [e]) @ messages_read host (network_events es)" for host
    by (simp add: messages_read_def network_events_def)
  then show ?case
    using ops ops' by (intro exI [of _ "ops @ ops'"]) (simp add: pushed_items_def)
qed

lemma create_history: "as_history (create_components config) (untouched empty_queue)"
  by (simp add: as_history_def create_components_def pending_queue_def new_feed_def new_source_def
      reset_stream_def Let_def untouched_def drops_def)

lemma create_host [simp]:
  "ws_host (feed_source (kn_feed (create_components config))) = ep_host (builder_ws_endpoint config)"
  by (simp add: create_components_def new_feed_def new_source_def reset_stream_def Let_def)

section \<open>Shutting down\<close>

definition takes :: "knight_event list \<Rightarrow> nat" where
  "takes es = length (filter (\<lambda>e. case e of Take \<Rightarrow> True | _ \<Rightarrow> False) es)"

text \<open>The core loop on a closed queue: what is queued is handled, and then it returns.\<close>

definition draining :: "input_envelope list \<Rightarrow> knight \<Rightarrow> bool" where
  "draining all k \<longleftrightarrow> feed_ok k \<and> q_closed (pending_queue k) \<and>
     kn_handled k @ q_items (pending_queue k) = all \<and>
     (kn_main k = Main_loop \<or> kn_main k = Main_returned \<and> q_items (pending_queue k) = [])"

lemma draining_step:
  assumes "knight_step k e l" and "draining all k"
  shows "draining all l \<and> (kn_main k = Main_returned \<longrightarrow> kn_main l = Main_returned) \<and>
    (kn_main l = Main_loop \<longrightarrow> takes [e] + length (q_items (pending_queue l)) = length (q_items (pending_queue k)))"
proof -
  have ok: "feed_ok l" using knight_step_feed [OF assms(1)] assms(2) by (simp add: draining_def)
  show ?thesis
    using assms(1)
  proof (cases rule: knight_step.cases)
    case take_envelope
    from take_envelope(3) show ?thesis
      by (cases rule: pop_some) (use take_envelope assms(2) ok in \<open>auto simp: draining_def takes_def\<close>)
  next
    case (network e f)
    have "feed_ok k" "q_closed (pending_queue k)" using assms(2) by (simp_all add: draining_def)
    then have "q_items (pending_queue l) = q_items (pending_queue k)" "q_closed (pending_queue l)"
      using network_queue [OF network(6,5)] network(2) by (simp_all add: Let_def)
    then show ?thesis using assms(2) network ok by (auto simp: draining_def takes_def)
  next
    case (stop_goes_on is_open)
    have "pending_queue (k\<lparr>kn_feed := feed_close is_open (kn_feed k), kn_shutdown := sd\<rparr>) = pending_queue k" for sd
      by (simp add: pending_queue_def)
    then show ?thesis
      using assms(2) stop_goes_on ok
      by (cases "kn_shutdown k") (auto simp: draining_def takes_def stop_next_def close_queue_def)
  qed (use assms(2) ok in \<open>auto simp: draining_def takes_def stop_request_def\<close>)
qed

lemma draining_path:
  assumes "knight_path k es l" and "draining all k"
  shows "draining all l \<and> (kn_main k = Main_returned \<longrightarrow> kn_main l = Main_returned) \<and>
    (kn_main l = Main_loop \<longrightarrow> takes es + length (q_items (pending_queue l)) = length (q_items (pending_queue k)))"
  using assms
proof (induction rule: knight_path.induct)
  case (here k)
  then show ?case by (simp add: takes_def)
next
  case (there k e l es m)
  have "takes (e # es) = takes [e] + takes es" by (simp add: takes_def)
  then show ?case
    using draining_step [OF there.hyps(1) there.prems] there.IH
    by (auto simp: draining_def)
qed

lemma held_capacity:
  assumes "knight_path (create_components config) es k"
  shows "length (q_items (pending_queue k)) \<le> kQueueCapacity"
proof -
  have "feed_ok (create_components config)" using create_ok [of config] by (simp add: knight_ok_def)
  from knight_path_history [OF assms this create_history] obtain ops where
    "as_history k (bounded_run kQueueCapacity ops (untouched empty_queue))" by auto
  then show ?thesis
    using run_capacity [of "untouched empty_queue" kQueueCapacity ops]
    by (simp add: as_history_def untouched_def empty_queue_def)
qed

section \<open>Connecting first\<close>

lemma not_open_before_handshake:
  assumes "knight_path k es l" and "feed_state (kn_feed k) \<noteq> Feed_OPEN" and "kn_main k \<in> {Main_created, Main_waiting}"
    and "\<forall>n. Network (Complete n (Handshake_done Success)) \<notin> set es"
  shows "feed_state (kn_feed l) \<noteq> Feed_OPEN \<and> kn_main l \<in> {Main_created, Main_waiting, Main_returned}"
proof -
  have step: "feed_state (kn_feed l) \<noteq> Feed_OPEN \<and> kn_main l \<in> {Main_created, Main_waiting, Main_returned}"
    if "knight_step k e l" "feed_state (kn_feed k) \<noteq> Feed_OPEN"
      "kn_main k \<in> {Main_created, Main_waiting, Main_returned}"
      "\<And>n. e \<noteq> Network (Complete n (Handshake_done Success))" for k e l
    using that(1)
  proof (cases rule: knight_step.cases)
    case run
    then show ?thesis using open_close_not_open(1) [OF that(2)] by (simp add: run_begin_def)
  next
    case (ready timed_out r)
    then show ?thesis
      using that(2) by (auto simp: wait_until_ready_def run_ready_def Let_def split: if_splits)
  next
    case (network e' f)
    then show ?thesis
      using that network_not_open [OF network(6,5)] by auto
  next
    case (stop_goes_on is_open)
    then show ?thesis
      using that(2,3) open_close_not_open(2) [OF that(2), of is_open]
      by (cases "kn_shutdown k") (auto simp: stop_next_def)
  qed (use that in \<open>auto simp: stop_request_def\<close>)
  have "feed_state (kn_feed l) \<noteq> Feed_OPEN \<and> kn_main l \<in> {Main_created, Main_waiting, Main_returned}"
    if "knight_path k es l" "feed_state (kn_feed k) \<noteq> Feed_OPEN"
      "kn_main k \<in> {Main_created, Main_waiting, Main_returned}"
      "\<forall>n. Network (Complete n (Handshake_done Success)) \<notin> set es" for k es l
    using that
  proof (induction rule: knight_path.induct)
    case (there k e l es m)
    have "feed_state (kn_feed l) \<noteq> Feed_OPEN \<and> kn_main l \<in> {Main_created, Main_waiting, Main_returned}"
      by (rule step [OF there.hyps(1) there.prems(1,2)]) (use there.prems(3) in auto)
    then show ?case using there by auto
  qed auto
  then show ?thesis using assms by auto
qed

lemma snapshot_after_handshake:
  assumes "knight_path (create_components config) es k" and "knight_step k (Snapshot net) l"
  shows "\<exists>n. Network (Complete n (Handshake_done Success)) \<in> set es"
proof (rule ccontr)
  assume "\<not> ?thesis"
  then have "kn_main k \<in> {Main_created, Main_waiting, Main_returned}"
    using not_open_before_handshake [OF assms(1)] by (simp add: create_components_def new_feed_def Let_def)
  with assms(2) show False by (auto elim: knight_step.cases)
qed

section \<open>Properties\<close>

lemma seen_in_order:
  assumes "knight_path (create_components config) es k"
  shows "let ms = messages_read (ep_host (builder_ws_endpoint config)) (network_events es);
             seen = kn_handled k @ q_items (pending_queue k)
    in subseq seen ms \<and> length seen + drops (feed_source (kn_feed k)) = length ms"
proof -
  let ?ms = "messages_read (ep_host (builder_ws_endpoint config)) (network_events es)"
  have "feed_ok (create_components config)" using create_ok [of config] by (simp add: knight_ok_def)
  from knight_path_history [OF assms this create_history] obtain ops where
    ops: "as_history k (bounded_run kQueueCapacity ops (untouched empty_queue))" "pushed_items ops = ?ms"
    by auto
  let ?h = "bounded_run kQueueCapacity ops (untouched empty_queue)"
  have seen: "kn_handled k @ q_items (pending_queue k) = h_accepted ?h"
    using ops(1) bounded.first_in_first_out [of "[]" "untouched empty_queue" kQueueCapacity ops]
    by (simp add: as_history_def untouched_def empty_queue_def)
  moreover have sub: "subseq (h_accepted ?h) ?ms"
    using bounded.accepted_in_order [of kQueueCapacity ops "untouched empty_queue"] ops(2)
    by (simp add: untouched_def)
  moreover have count: "length (h_accepted ?h) + drops (feed_source (kn_feed k)) = length ?ms"
    using bounded.every_push_counted [of kQueueCapacity ops "untouched empty_queue"] ops
    by (simp add: as_history_def untouched_def)
  ultimately show ?thesis by (simp add: Let_def)
qed

lemma all_handled:
  assumes "knight_path (create_components config) es k" and "drops (feed_source (kn_feed k)) = 0"
  shows "kn_handled k @ q_items (pending_queue k) =
    messages_read (ep_host (builder_ws_endpoint config)) (network_events es)"
  using seen_in_order [OF assms(1)] assms(2) subseq_same_length by (fastforce simp: Let_def)

text \<open>
  C23. The knight handles what the network reads, in order and completely but for reported
  drops: on every run of its threads, the envelopes handled by the core loop followed by those
  still queued are messages read from the stream of the configured host, in the order they were
  read; together with the drops they are as many as the messages, so without a drop they are
  all of them; and the queue never holds more than its capacity.
\<close>

theorem knight_handles_what_it_reads:
  assumes "knight_path (create_components config) es k"
  shows "let ms = messages_read (ep_host (builder_ws_endpoint config)) (network_events es);
             seen = kn_handled k @ q_items (pending_queue k)
    in subseq seen ms \<and> length seen + drops (feed_source (kn_feed k)) = length ms \<and>
       (drops (feed_source (kn_feed k)) = 0 \<longrightarrow> seen = ms) \<and>
       length (q_items (pending_queue k)) \<le> kQueueCapacity"
  using seen_in_order [OF assms] all_handled [OF assms] held_capacity [OF assms]
  by (simp add: Let_def)

text \<open>The running flag falls only by a call of stop.\<close>

lemma unstopped:
  assumes "knight_path k es l" and "kn_shutdown k = No_stop" and "Stop_called \<notin> set es"
  shows "kn_shutdown l = No_stop"
  using assms
proof (induction rule: knight_path.induct)
  case (there k e l es m)
  have "kn_shutdown l = No_stop"
    using there.hyps(1) there.prems
    by (cases rule: knight_step.cases)
      (auto simp: run_begin_def run_ready_def core_snapshot_def elim!: pop_some split: sum.split)
  then show ?case using there by simp
qed simp

text \<open>
  C26. The log of the knight tells its life in order: the feed is reported ready before the
  snapshot is, the snapshot before the first envelope, the envelopes as they were handled; and
  once the feed is ready the core loop ends only after a shutdown has closed the queue and
  every envelope in it has been handled.
\<close>

theorem knight_runs_until_shutdown:
  assumes "knight_path (create_components config) es k"
  shows "log_ok k \<and>
    (Log_queue_closed \<in> set (kn_log k) \<longrightarrow> Stop_called \<in> set es \<and> \<not> kn_running k \<and>
       kn_main k = Main_returned \<and> q_items (pending_queue k) = [])"
proof -
  have ok: "knight_ok k" by (rule knight_path_ok [OF assms create_ok])
  then have log: "log_ok k" "shutdown_ok k" by (simp_all add: knight_ok_def)
  have "kn_main k = Main_returned \<and> q_closed (pending_queue k) \<and> q_items (pending_queue k) = []"
    if "Log_queue_closed \<in> set (kn_log k)"
    using that log(1) by (auto simp: log_ok_def split: main_thread.splits)
  moreover have "kn_shutdown k = No_stop" if "Stop_called \<notin> set es"
    by (rule unstopped [OF assms _ that]) (simp add: create_components_def)
  ultimately show ?thesis using log by (fastforce simp: shutdown_ok_def)
qed

text \<open>
  C25. A shutdown lets the core loop finish: once it has closed the queue, on every further run
  of the threads the loop has either returned, having handled exactly the envelopes that were
  queued then, or it can take the next step at once; each step takes one of those envelopes, so
  there are never more than the capacity of the queue of them.
\<close>

theorem shutdown_drains_the_queue:
  assumes "knight_path (create_components config) es k" and "kn_main k = Main_loop"
    and "kn_shutdown k \<in> {Queue_closed, Io_stopped}" and "knight_path k fs l"
  shows "kn_main l = Main_returned \<and> kn_handled l = kn_handled k @ q_items (pending_queue k) \<or>
    kn_main l = Main_loop \<and> (\<exists>m. knight_step l Take m) \<and>
      takes fs + length (q_items (pending_queue l)) = length (q_items (pending_queue k)) \<and>
      takes fs \<le> kQueueCapacity"
proof -
  let ?all = "kn_handled k @ q_items (pending_queue k)"
  have "knight_ok k" by (rule knight_path_ok [OF assms(1) create_ok])
  then have "draining ?all k"
    using assms(2,3) by (auto simp: knight_ok_def shutdown_ok_def draining_def)
  from draining_path [OF assms(4) this] have l: "draining ?all l"
    "kn_main l = Main_loop \<Longrightarrow> takes fs + length (q_items (pending_queue l)) = length (q_items (pending_queue k))"
    by auto
  have "core_pop l \<noteq> None"
    using l(1) bounded.wait_law [of "pending_queue l"]
    by (auto simp: draining_def core_pop_def split: option.splits)
  then have "\<exists>m. knight_step l Take m" if "kn_main l = Main_loop"
    using that knight_step.take_envelope by blast
  moreover have "length (q_items (pending_queue k)) \<le> kQueueCapacity"
    using held_capacity [OF assms(1)] .
  ultimately show ?thesis
    using l by (fastforce simp: draining_def)
qed

text \<open>
  A shutdown that comes before the runtime runs is lost: the call changes nothing, and the
  runtime then starts and waits for its feed as if it had never been asked to stop.
\<close>

theorem early_stop_is_lost:
  "\<exists>k. knight_path (create_components config) [Stop_called, Run] k \<and>
     k = run_begin (create_components config) \<and> kn_running k \<and> kn_shutdown k = No_stop \<and> kn_main k = Main_waiting"
proof -
  have "stop_request (create_components config) = create_components config"
    by (simp add: stop_request_def create_components_def)
  then have "knight_step (create_components config) Stop_called (create_components config)"
    using knight_step.stop_called [of "create_components config"] by simp
  moreover have "knight_step (create_components config) Run (run_begin (create_components config))"
    by (rule knight_step.run) (simp add: create_components_def)
  ultimately show ?thesis
    by (intro exI [of _ "run_begin (create_components config)"])
      (auto intro: knight_path.intros simp: run_begin_def create_components_def)
qed

section \<open>The program\<close>

text \<open>
  \<^verbatim>\<open>main\<close>: the exit code, and the configuration the runtime runs with, if it comes to that.
  The arguments include the program's name; the file system, the JSON parser and the start of
  the signal listener are given.  How \<^verbatim>\<open>run\<close> ended makes no difference.
\<close>

definition knight_main ::
  "string list \<Rightarrow> (string \<Rightarrow> string option) \<Rightarrow> (string \<Rightarrow> boost_json option) \<Rightarrow> bool \<Rightarrow>
   nat \<times> knight_config option" where
  "knight_main argv config_file boost_parse listener_started =
     (if length argv < 2 then (1, None)
      else
        (case config_file (argv ! 1) of
           None \<Rightarrow> (1, None)
         | Some config_payload \<Rightarrow>
             (case Config_from_string boost_parse config_payload of
                None \<Rightarrow> (1, None)
              | Some config \<Rightarrow> if \<not> listener_started then (1, None) else (0, Some config))))"

text \<open>
  The program runs, and then exits with 0, exactly when it is given a file that holds a JSON
  object with a websocket URL and the signal listener starts; in every other case it exits with
  1 and no part of the runtime is created.
\<close>

theorem main_exit_code:
  "fst (knight_main argv config_file boost_parse listener) = 0 \<longleftrightarrow>
     listener \<and> (\<exists>program path rest payload json config.
       argv = program # path # rest \<and> config_file path = Some payload \<and>
       boost_parse payload = Some (BObject json) \<and> Config_from_json json = Some config \<and>
       knight_main argv config_file boost_parse listener = (0, Some config)) \<and>
   (fst (knight_main argv config_file boost_parse listener) \<noteq> 0 \<longrightarrow>
     knight_main argv config_file boost_parse listener = (1, None))"
proof -
  have argv: "\<not> length argv < 2 \<longleftrightarrow> (\<exists>program path rest. argv = program # path # rest)"
    by (cases argv; cases "tl argv") auto
  show ?thesis
    unfolding knight_main_def Config_from_string_def parse_to_json_object_def
    using argv by (auto split: option.splits boost_json.splits if_splits)
qed

end
