(* ===== verification/Builder_Watch.thy ===== *)
theory Builder_Watch
  imports Builder_Machine
begin

text \<open>
  What a subscriber of the service is told.  A client that follows the pool takes a snapshot of
  the pending transactions and listens to the broadcasts; this theory shows when the two
  together miss nothing: every record submitted while its websocket is a subscriber is sent to
  it, or the submission is still waiting to send it.
\<close>

section \<open>Only a submission adds a record\<close>

lemma mark_loop_length:
  "mark_each env ms s = (r, t) \<Longrightarrow> length (mp_heap t) = length (mp_heap s)"
proof (induction ms arbitrary: s)
  case (Cons m ms)
  obtain k h st rc where m: "m = (k, h, st, rc)" by (cases m)
  have "length (mp_heap (snd (Mempool_markMined env k h st rc s))) = length (mp_heap s)"
    by (cases "mp_lock s")
       (simp_all add: Mempool_markMined_def [of env k h st rc] with_lock_def [of _ s] markMined_run
          split: option.split prod.split)
  then show ?case
    using Cons by (auto simp: m pbind_def split: prod.splits sum.splits)
qed simp

lemma frame_length: "anvil_frame s t \<Longrightarrow> length (mp_heap t) = length (mp_heap s)"
  by (drule frame_same_pool) (simp add: same_pool_def)

lemma mine_length:
  assumes "app_inv s"
  shows "length (mp_heap (snd (submit_private_bundle env payload s))) = length (mp_heap s)"
proof -
  have inv: "mempool_inv s" using assms by (simp add: app_inv_def)
  have run: "Bundle_fromJson payload s = (read_bundle (pool_lookup s) payload, s)"
    using mempool_invD(1) [OF inv] by (rule bundle_reading_run)
  show ?thesis
  proof (cases "read_bundle (pool_lookup s) payload")
    case (Inl e)
    then show ?thesis using run by (simp add: submit_private_bundle_def pbind_def)
  next
    case (Inr b)
    have ready: "list_all (item_ready (pool_lookup s)) (bundle_items b)"
      using read_bundle_ready [OF Inr] by simp
    obtain r t where mine: "BundleBuilder_mineBundle env b s = (r, t)" by fastforce
    have st: "snd (submit_private_bundle env payload s) = t"
      using run Inr mine by (cases r) (simp_all add: submit_private_bundle_def pbind_def)
    show ?thesis
    proof (cases r)
      case (Inl e)
      then have "BundleBuilder_executeBundle env b s = (Inl e, t)"
        using mine mine_fails [OF inv ready] by blast
      then show ?thesis using frame_length [OF keepsD [OF keeps_execute]] st by simp
    next
      case (Inr res)
      obtain s1 where ex: "BundleBuilder_executeBundle env b s = (Inr res, s1)"
        using mine Inr by (auto simp: BundleBuilder_mineBundle_def pbind_result_iff)
      obtain ms where "fst ` set ms = bundle_ids b" "list_all (\<lambda>(k, h, st, rc). final_status st) ms" and
        loop: "BundleBuilder_mineBundle env b s = pbind (mark_each env ms) (\<lambda>_. pret res) s1"
        by (rule mine_loop [OF ex])
      have "BundleBuilder_mineBundle env b s = (Inr res, t)" using mine Inr by simp
      then have "mark_each env ms s1 = (Inr (), t)"
        unfolding loop pbind_result_iff by simp
      from mark_loop_length [OF this] show ?thesis
        using frame_length [OF keepsD [OF keeps_execute ex]] st by simp
    qed
  qed
qed

lemma handle_length:
  assumes "app_inv s" and "\<not> is_submission e"
  shows "length (mp_heap (snd (app_handle env e s))) = length (mp_heap s)"
proof -
  have inv: "mempool_inv s" using assms(1) by (simp add: app_inv_def)
  note l = mempool_invD(1) [OF inv]
  show ?thesis
  proof (cases e)
    case Get_chain_head
    then show ?thesis using frame_length [OF chain_head_frame] by simp
  next
    case (Post_chain_call p)
    then show ?thesis using frame_length [OF chain_call_frame] by simp
  next
    case (Post_bundle_simulate p)
    then show ?thesis using frame_length [OF simulate_frame [OF inv]] by simp
  next
    case (Post_public_tx p)
    then show ?thesis using assms(2) by (simp add: is_submission_def)
  next
    case (Post_bundle p)
    then show ?thesis using mine_length [OF assms(1)] by simp
  next
    case (Get_public_tx i)
    then show ?thesis using l by (simp add: get_public_tx_def getTransaction_run split: option.split)
  next
    case Get_public_pending
    then show ?thesis using l by (simp add: get_pending_transactions_def pendingSnapshot_run)
  next
    case (Ws_connect c)
    then show ?thesis by (auto simp: socket_def Broadcaster_connect_def pbind_def split: if_splits)
  next
    case (Ws_disconnect c)
    then show ?thesis by (simp add: socket_def Broadcaster_disconnect_def)
  qed simp_all
qed

section \<open>Runs as a subscriber sees them\<close>

text \<open>The message a step sends to a websocket: that of the suspended submission whose turn it is.\<close>

definition sent_to :: "ws \<Rightarrow> 'w config \<Rightarrow> nat option \<Rightarrow> json list" where
  "sent_to w c i =
     (case i of
        None \<Rightarrow> []
      | Some j \<Rightarrow>
          (case snd c j of
             None \<Rightarrow> []
           | Some task \<Rightarrow>
               (case task_rest task of
                  [] \<Rightarrow> []
                | x # _ \<Rightarrow> if x = w then [task_message task] else [])))"

text \<open>A run during which a websocket is a subscriber, with what is sent to it.\<close>

inductive watched :: "'w env \<Rightarrow> ws \<Rightarrow> 'w config \<Rightarrow> json list \<Rightarrow> 'w config \<Rightarrow> bool"
  for env :: "'w env" and w :: ws and c :: "'w config" where
  begins: "watched env w c [] c"
| goes_on: "watched env w c ms d \<Longrightarrow> w \<in> subscribers (fst d) \<Longrightarrow> loop_step env d i r e \<Longrightarrow>
    watched env w c (ms @ sent_to w d i) e"

lemma watched_runs: "watched env w c ms d \<Longrightarrow> loop_runs env c d"
  by (induction rule: watched.induct) (auto intro: loop_runs.intros)

text \<open>A record is announced: its message has been sent, or a submission still has to send it.\<close>

definition announced :: "ws \<Rightarrow> json list \<Rightarrow> 'w config \<Rightarrow> nat \<Rightarrow> bool" where
  "announced w ms d k \<longleftrightarrow>
     (\<exists>r. pending_message (MempoolRecord_toJson r) \<in> set ms \<and> is_pending r \<and> advances r (mp_heap (fst d) ! k)) \<or>
     (\<exists>i task. snd d i = Some task \<and> task_ref task = k \<and> w \<in> set (task_rest task))"

lemma announced_later:
  assumes "announced w ms d k" and "k < length (mp_heap (fst d))" and "app_evolves (fst d) (fst e)"
    and "\<And>i task. snd d i = Some task \<Longrightarrow> task_ref task = k \<Longrightarrow> w \<in> set (task_rest task) \<Longrightarrow>
      announced w ms' e k"
    and "set ms \<subseteq> set ms'"
  shows "announced w ms' e k"
proof -
  from assms(1) consider
    (sent) r where "pending_message (MempoolRecord_toJson r) \<in> set ms" "is_pending r"
      "advances r (mp_heap (fst d) ! k)"
  | (waits) i task where "snd d i = Some task" "task_ref task = k" "w \<in> set (task_rest task)"
    unfolding announced_def by blast
  then show ?thesis
  proof cases
    case sent
    have "advances (mp_heap (fst d) ! k) (mp_heap (fst e) ! k)"
      using assms(2,3) unfolding app_evolves_def pool_evolves_def list_all2_take_iff by auto
    then have "advances r (mp_heap (fst e) ! k)" using sent(3) advances_trans by blast
    then show ?thesis using sent assms(5) unfolding announced_def by blast
  next
    case waits
    then show ?thesis by (rule assms(4))
  qed
qed

lemma announced_step:
  assumes step: "loop_step env d i r e" and ok: "config_ok d"
    and order: "\<And>S. finite S \<Longrightarrow> w \<in> S \<Longrightarrow> w \<in> set (ws_order env S)"
    and sub: "w \<in> subscribers (fst d)"
    and old: "\<And>k. n \<le> k \<Longrightarrow> k < length (mp_heap (fst d)) \<Longrightarrow> announced w ms d k"
    and k: "n \<le> k" "k < length (mp_heap (fst e))"
  shows "announced w (ms @ sent_to w d i) e k"
proof -
  note safe = loop_step_safe [OF step ok]
  show ?thesis
    using step
  proof (cases rule: loop_step.cases)
    case (handler ev s rs t ts)
    have "app_inv s" using ok handler by (simp add: config_ok_def)
    then have "length (mp_heap t) = length (mp_heap s)"
      using handle_length [of s ev env] handler by simp
    then have len: "k < length (mp_heap (fst d))" using handler k by simp
    show ?thesis
      by (rule announced_later [OF old [OF k(1) len] len]) (use handler safe in \<open>auto simp: announced_def\<close>)
  next
    case (submit ts j payload s)
    have inv: "app_inv s" "mempool_inv s" using ok submit by (simp_all add: config_ok_def app_inv_def)
    note l = mempool_invD(1) [OF inv(2)]
    show ?thesis
    proof (cases "Transaction_fromJson payload")
      case (Inl err)
      then have "e = (s, ts)" using submit l by (auto simp: begin_submit_def)
      then show ?thesis
        using submit old k by (simp add: sent_to_def)
    next
      case (Inr t)
      define s1 where "s1 = snd (Mempool_addTransaction env t s)"
      have add: "Mempool_addTransaction env t s = (Inr (length (mp_heap s)), s1)"
        using l by (simp add: addTransaction_run s1_def)
      have s1: "length (mp_heap s1) = Suc (length (mp_heap s))" "subscribers s1 = subscribers s"
        using l by (simp_all add: s1_def addTransaction_run)
      have w: "w \<in> set (ws_order env (subscribers s1))"
        using order sub submit s1(2) inv(1) by (simp add: app_inv_def)
      then obtain x xs where rest: "ws_order env (subscribers s1) = x # xs"
        by (cases "ws_order env (subscribers s1)") auto
      define task where "task = \<lparr>task_ref = length (mp_heap s),
          task_message = pending_message (MempoolRecord_toJson (mp_heap s1 ! length (mp_heap s))),
          task_rest = ws_order env (subscribers s1), task_failed = []\<rparr>"
      have e: "e = (s1, ts(j \<mapsto> task))"
        using submit(4) Inr add rest by (simp add: begin_submit_def run_on_def task_def)
      show ?thesis
      proof (cases "k = length (mp_heap s)")
        case True
        then show ?thesis using e w by (auto simp: announced_def task_def)
      next
        case False
        then have len: "k < length (mp_heap (fst d))" using k e s1(1) submit by simp
        show ?thesis
        proof (rule announced_later [OF old [OF k(1) len] len conjunct2 [OF safe]])
          fix i' task' assume "snd d i' = Some task'" "task_ref task' = k" "w \<in> set (task_rest task')"
          then show "announced w (ms @ sent_to w d i) e k"
            using submit e unfolding announced_def by (intro disjI2 exI [of _ i']) auto
        qed simp
      qed
    qed
  next
    case (resume ts j task s)
    have task: "task_ok s task" "task_rest task \<noteq> []" using ok resume by (auto simp: config_ok_def)
    then obtain x xs where rest: "task_rest task = x # xs" by (cases "task_rest task") auto
    let ?s = "s\<lparr>world := snd (ws_send env x (task_message task) (world s))\<rparr>"
    have heap: "mp_heap (fst e) = mp_heap s"
      using resume(4) rest
      by (auto simp: resume_submit_def run_on_def disconnect_all_run case_prod_beta split: list.splits)
    then have len: "k < length (mp_heap (fst d))" using k resume by simp
    show ?thesis
    proof (rule announced_later [OF old [OF k(1) len] len conjunct2 [OF safe]])
      fix i' task' assume t: "snd d i' = Some task'" "task_ref task' = k" "w \<in> set (task_rest task')"
      show "announced w (ms @ sent_to w d i) e k"
      proof (cases "i' = j")
        case False
        have "snd e i' = snd d i'"
          using resume(1,4) rest False
          by (auto simp: resume_submit_def run_on_def disconnect_all_run case_prod_beta split: list.splits)
        then show ?thesis using t unfolding announced_def by auto
      next
        case True
        then have same: "task' = task" using t(1) resume by simp
        show ?thesis
        proof (cases "x = w")
          case True
          obtain q where q: "task_message task = pending_message (MempoolRecord_toJson q)" "is_pending q"
            "advances q (mp_heap s ! task_ref task)" using task(1) by (auto simp: task_ok_def)
          have "sent_to w d i = [task_message task]"
            using resume rest True by (simp add: sent_to_def)
          then show ?thesis
            using q t(2) same heap unfolding announced_def by (intro disjI1 exI [of _ q]) auto
        next
          case False
          then have w: "w \<in> set xs" using t(3) same rest by simp
          then have "\<exists>task''. snd e j = Some task'' \<and> task_ref task'' = k \<and> w \<in> set (task_rest task'')"
            using resume(4) rest t(2) same
            by (cases xs) (auto simp: resume_submit_def run_on_def case_prod_beta)
          then show ?thesis unfolding announced_def by blast
        qed
      qed
    qed simp
  qed
qed

lemma watched_announced:
  assumes "watched env w c ms d" and "config_ok c" and "\<And>S. finite S \<Longrightarrow> w \<in> S \<Longrightarrow> w \<in> set (ws_order env S)"
    and "length (mp_heap (fst c)) \<le> k" and "k < length (mp_heap (fst d))"
  shows "announced w ms d k"
proof -
  have "config_ok d \<and> (\<forall>k. length (mp_heap (fst c)) \<le> k \<longrightarrow> k < length (mp_heap (fst d)) \<longrightarrow> announced w ms d k)"
    using assms(1)
  proof (induction rule: watched.induct)
    case begins
    then show ?case using assms(2) by simp
  next
    case (goes_on ms d i r e)
    then show ?case
      using loop_step_safe [OF goes_on.hyps(3)] announced_step [OF goes_on.hyps(3) _ assms(3) goes_on.hyps(2)]
      by blast
  qed
  then show ?thesis using assms(4,5) by blast
qed

lemma known_or_announced:
  assumes "loop_runs env (idle (create_app w0)) c" and "uncollided (fst c)"
    and "watched env w c ms d" and "\<forall>S. finite S \<longrightarrow> w \<in> S \<longrightarrow> w \<in> set (ws_order env S)"
    and "k < length (mp_heap (fst d))" and "is_pending (mp_heap (fst d) ! k)"
  shows "(\<exists>r \<in> set (log_pending (mp_heap (fst c))). advances r (mp_heap (fst d) ! k)) \<or> announced w ms d k"
proof (cases "k < length (mp_heap (fst c))")
  case True
  have ok: "config_ok c" using loop_runs_safe [OF assms(1) idle_ok] by simp
  have "app_evolves (fst c) (fst d)" using loop_runs_safe [OF watched_runs [OF assms(3)] ok] by simp
  then have adv: "advances (mp_heap (fst c) ! k) (mp_heap (fst d) ! k)"
    using True unfolding app_evolves_def pool_evolves_def list_all2_take_iff by auto
  then have "is_pending (mp_heap (fst c) ! k)"
    using assms(6) by (auto simp: advances_def stage_of_def less_eq_stage_def split: if_splits)
  then have "mp_heap (fst c) ! k \<in> set (log_pending (mp_heap (fst c)))"
    using True by (simp add: log_pending_def)
  then show ?thesis using adv by blast
next
  case False
  then show ?thesis
    using watched_announced [OF assms(3)] loop_runs_safe [OF assms(1) idle_ok] assms(4,5) by auto
qed


section \<open>Properties\<close>

text \<open>
  C22. A client that is a subscriber when it takes the snapshot misses no pending transaction:
  however the event loop runs on while it stays one, every record that is pending then is
  either in the snapshot, as it still is, or it was submitted after the snapshot and is
  announced: the send of its broadcast message to the client has been made or a suspended
  submission still has the client among those it will send it to.  A send that raises counts as
  made; the client then stops being a subscriber when that broadcast ends.
\<close>

theorem subscriber_misses_nothing:
  assumes "loop_runs env (idle (create_app w0)) c" and "uncollided (fst c)"
    and "watched env w c ms d" and "\<forall>S. finite S \<longrightarrow> w \<in> S \<longrightarrow> w \<in> set (ws_order env S)"
    and "k < length (mp_heap (fst d))" and "is_pending (mp_heap (fst d) ! k)"
  shows "\<exists>listed. get_pending_transactions (fst c) =
      (Ok200 (JObj [(''snapshotSeq'', JInt (int (length (mp_heap (fst c))))),
                    (''transactions'', JList (map MempoolRecord_toJson listed))]), fst c) \<and>
    ((\<exists>r \<in> set listed. advances r (mp_heap (fst d) ! k)) \<or> announced w ms d k)"
  using known_or_announced [OF assms] snapshot_of_uncollided [OF assms(2)]
  by (intro exI [of _ "log_pending (mp_heap (fst c))"]) (simp add: get_pending_transactions_def)

end
