(* ===== verification/Knight_Builder.thy ===== *)
theory Knight_Builder
  imports Knight_Runtime Builder_Watch Local_Builder
begin

text \<open>
  The knight beside the builder.  The knight opens its stream before it asks for the pending
  snapshot; this theory puts the two models together and shows what the order is good for: every
  pending transaction of the builder is in the snapshot the knight has logged, or among the
  messages it has handled or queued, or at one of the few places where it can still be or can
  have been lost: with a submission that has yet to send it, with a send that raised, on its
  way, or dropped at a full queue.  The service's half is \<^verbatim>\<open>Builder_Watch\<close>, the knight's
  \<^verbatim>\<open>Knight_Runtime\<close>; between them are a connection, of which only order is assumed (what has been
  read is a prefix of what the sends that did not raise have sent), and the text of a JSON value,
  which is a parameter.
\<close>

section \<open>Where the knight finds the builder\<close>

text \<open>The address \<^verbatim>\<open>uvicorn\<close> serves on, and the path of the stream.\<close>

definition service_address :: "string \<times> nat" where
  "service_address = (''127.0.0.1'', 9001)"

definition pending_stream_path :: string where
  "pending_stream_path = ''/ws/pending''"

text \<open>\<^verbatim>\<open>src/knight/config.json\<close>.\<close>

definition shipped_config :: boost_object where
  "shipped_config =
     [(''builderWsUrl'', BString ''ws://127.0.0.1:9001/ws/pending''), (''tlsVerifyPeer'', BBool True)]"

text \<open>
  The configuration that comes with the knight is accepted, and with it the knight connects,
  without TLS, to the address the builder serves on, to the path of its stream, and asks for the
  snapshot at a path the builder routes to its pending transactions.
\<close>

theorem shipped_config_meets_the_builder:
  "\<exists>config. Config_from_json shipped_config = Some config \<and>
     (let e = builder_ws_endpoint config in
      (ep_host e, number (ep_port e)) = service_address \<and> ep_target e = pending_stream_path \<and>
      \<not> ep_use_tls e \<and> tls_verify_peer config \<and>
      route ''GET'' [Txt (http_path (get_request (new_rest_client config) kPendingSnapshotTarget))] None =
        Some Get_public_pending)"
proof -
  let ?e = "\<lparr>ep_scheme = ''ws'', ep_host = ''127.0.0.1'', ep_port = ''9001'',
             ep_target = ''/ws/pending'', ep_use_tls = False\<rparr>"
  have "ws_url ''ws://127.0.0.1:9001/ws/pending'' ?e"
    unfolding ws_url_def
    by (intro exI [of _ "''ws''"] exI [of _ "'':9001''"] exI [of _ "''/ws/pending''"])
      (simp add: host_name_def port_text_def is_digit_def number_def to_lower_def lower_char_def)
  then have parse: "parse_ws_endpoint ''ws://127.0.0.1:9001/ws/pending'' = Some ?e" by (rule parser_accepts)
  have "Config_from_json shipped_config =
      Some \<lparr>builder_ws_url = ''ws://127.0.0.1:9001/ws/pending'', builder_ws_endpoint = ?e, tls_verify_peer = True\<rparr>"
    using parse by (simp add: Config_from_json_def shipped_config_def json_string_def json_bool_def)
  then show ?thesis
    by (simp add: service_address_def pending_stream_path_def number_def get_request_def route_def
        kPendingSnapshotTarget_def)
qed

section \<open>The builder as the knight's network sees it\<close>

text \<open>
  The builder answers a request with the handler it is routed to; the pages of other answers
  are the framework's.
\<close>

definition builder_response ::
  "'w env \<Rightarrow> (json \<Rightarrow> string) \<Rightarrow> (response option \<Rightarrow> nat \<times> string) \<Rightarrow> 'w app_state \<Rightarrow> http_request \<Rightarrow> nat \<times> string" where
  "builder_response env text page s req =
     (case route (http_method req) [Txt (http_path req)] None of
        None \<Rightarrow> page None
      | Some e \<Rightarrow>
          (case fst (app_handle env e s) of Ok200 v \<Rightarrow> (200, text v) | r \<Rightarrow> page (Some r)))"

definition net_up :: "http_network \<Rightarrow> bool" where
  "net_up net \<longleftrightarrow> net_resolve net = Success \<and> net_connect net = Success \<and> net_write net = Success \<and>
     net_read net = Success \<and> net_sni net \<and> net_verify_host net \<and> net_handshake net = Success"

definition pending_json :: "'w app_state \<Rightarrow> json" where
  "pending_json s =
     JObj [(''snapshotSeq'', JInt (int (length (mp_heap s)))),
           (''transactions'', JList (map MempoolRecord_toJson (log_pending (mp_heap s))))]"

lemma get_pending_answer:
  "uncollided s \<Longrightarrow> get_pending_transactions s = (Ok200 (pending_json s), s)"
  by (simp add: get_pending_transactions_def snapshot_of_uncollided pending_json_def)

lemma snapshot_from_builder:
  assumes "net_up (nets 1)" and "net_response (nets 1) = builder_response env text page s" and "uncollided s"
  shows "fst (request_snapshot nets client) = Inr (text (pending_json s))"
proof -
  have "route ''GET'' [Txt kPendingSnapshotTarget] None = Some Get_public_pending"
    by (simp add: route_def kPendingSnapshotTarget_def)
  then have "net_response (nets 1) (get_request client kPendingSnapshotTarget) = (200, text (pending_json s))"
    using assms(2,3) by (simp add: builder_response_def get_request_def get_pending_answer)
  then have "rest_get (nets 1) client kPendingSnapshotTarget = Inr (text (pending_json s))"
    using assms(1) by (simp add: get_result net_up_def)
  then show ?thesis by (simp add: request_unfold)
qed

section \<open>The log keeps what it has\<close>

lemma step_log:
  "knight_step k e l \<Longrightarrow> kn_client l = kn_client k \<and> set (kn_log k) \<subseteq> set (kn_log l) \<and>
   (\<forall>nets. e = Snapshot nets \<longrightarrow> Log_snapshot (fst (request_snapshot nets (kn_client k))) \<in> set (kn_log l))"
proof (erule knight_step.cases)
  fix k1 l1 assume a: "k = k1" "e = Take" "l = l1" "core_pop k1 = Some l1"
  from a(4) have "kn_client l1 = kn_client k1 \<and> set (kn_log k1) \<subseteq> set (kn_log l1)"
    by (cases rule: pop_some) (auto simp: log_message_def)
  then show ?thesis using a by simp
qed (auto simp: run_begin_def run_ready_def core_snapshot_def log_message_def stop_request_def
    stop_next_def with_queue_def split: sum.split shutdown.split)

lemma path_log:
  "knight_path k es l \<Longrightarrow> kn_client l = kn_client k \<and> set (kn_log k) \<subseteq> set (kn_log l) \<and>
   (\<forall>nets. Snapshot nets \<in> set es \<longrightarrow> Log_snapshot (fst (request_snapshot nets (kn_client k))) \<in> set (kn_log l))"
proof (induction rule: knight_path.induct)
  case (there k e l es m)
  then show ?case using step_log [OF there.hyps(1)] by auto
qed simp

section \<open>What is sent on the stream\<close>

text \<open>
  The message a step sends to a websocket, if the send does not raise, and if it does: the
  step awaits \<^verbatim>\<open>websocket.send_json\<close> once for the client, in the state it starts from.
\<close>

definition accepted :: "'w env \<Rightarrow> ws \<Rightarrow> 'w config \<Rightarrow> nat option \<Rightarrow> json list" where
  "accepted env w c i = filter (\<lambda>m. fst (ws_send env w m (world (fst c)))) (sent_to w c i)"

definition raised_for :: "'w env \<Rightarrow> ws \<Rightarrow> 'w config \<Rightarrow> nat option \<Rightarrow> json list" where
  "raised_for env w c i = filter (\<lambda>m. \<not> fst (ws_send env w m (world (fst c)))) (sent_to w c i)"

text \<open>
  A run during which a websocket is a subscriber, with what its sends put on the stream, in
  order, and the messages for which the send raised.
\<close>

inductive streamed ::
  "'w env \<Rightarrow> ws \<Rightarrow> 'w config \<Rightarrow> json list \<Rightarrow> json list \<Rightarrow> 'w config \<Rightarrow> bool"
  for env :: "'w env" and w :: ws and c :: "'w config" where
  opens: "streamed env w c [] [] c"
| steps: "streamed env w c ms lost d \<Longrightarrow> w \<in> subscribers (fst d) \<Longrightarrow> loop_step env d i r e \<Longrightarrow>
    streamed env w c (ms @ accepted env w d i) (lost @ raised_for env w d i) e"

lemma streamed_watched:
  "streamed env w c ms lost d \<Longrightarrow> \<exists>all. watched env w c all d \<and> set all = set ms \<union> set lost"
proof (induction rule: streamed.induct)
  case opens
  then show ?case using watched.begins by fastforce
next
  case (steps ms lost d i r e)
  then obtain all where all: "watched env w c all d" "set all = set ms \<union> set lost" by blast
  have "set (sent_to w d i) = set (accepted env w d i) \<union> set (raised_for env w d i)"
    by (auto simp: accepted_def raised_for_def)
  then show ?case
    using watched.goes_on [OF all(1) steps.hyps(2,3)] all(2)
    by (intro exI [of _ "all @ sent_to w d i"]) auto
qed

section \<open>Property\<close>

text \<open>
  C16. The knight knows the pool.  Let its stream be a subscriber of the builder when the builder
  answers the snapshot request, and stay one, and let a broadcast go through all subscribers; let
  the messages the knight has read, with those still on their way, be what the stream carried
  before and then, in order, what the sends to the client that did not raise have sent since:
  one websocket connection delivers in order.  Then for every transaction that is pending at the
  builder, however its event loop has run on, the snapshot the knight has logged lists it, or
  its message is among the envelopes handled or queued.  There are four exceptions, and no other:
  a suspended submission has still to send the message, the send of it raised, it is still on
  its way, or it was read while the queue was full, and then the knight has counted a drop.
\<close>

theorem knight_knows_the_pool:
  assumes builder: "loop_runs env (idle (create_app w0)) c" "uncollided (fst c)" "streamed env w c ms lost d"
      "\<forall>S. finite S \<longrightarrow> w \<in> S \<longrightarrow> w \<in> set (ws_order env S)"
    and knight: "knight_path (create_components config) es kn" "Snapshot nets \<in> set es"
    and network: "net_up (nets 1)" "net_response (nets 1) = builder_response env text page (fst c)"
      "map env_payload (messages_read (ep_host (builder_ws_endpoint config)) (network_events es)) @ in_flight =
         early @ map text ms"
    and pending: "k < length (mp_heap (fst d))" "is_pending (mp_heap (fst d) ! k)"
  shows "(Log_snapshot (Inr (text (pending_json (fst c)))) \<in> set (kn_log kn) \<and>
       (\<exists>r \<in> set (log_pending (mp_heap (fst c))). advances r (mp_heap (fst d) ! k))) \<or>
    (\<exists>i task. snd d i = Some task \<and> task_ref task = k \<and> w \<in> set (task_rest task)) \<or>
    (\<exists>r m. is_pending r \<and> advances r (mp_heap (fst d) ! k) \<and> m = pending_message (MempoolRecord_toJson r) \<and>
       (text m \<in> env_payload ` set (kn_handled kn @ q_items (pending_queue kn)) \<or>
        m \<in> set lost \<or> text m \<in> set in_flight \<or>
        0 < drops (feed_source (kn_feed kn)) \<and>
        text m \<in> env_payload ` set (messages_read (ep_host (builder_ws_endpoint config)) (network_events es))))"
proof -
  let ?read = "messages_read (ep_host (builder_ws_endpoint config)) (network_events es)"
  have "Log_snapshot (fst (request_snapshot nets (kn_client (create_components config)))) \<in> set (kn_log kn)"
    using path_log [OF knight(1)] knight(2) by blast
  then have logged: "Log_snapshot (Inr (text (pending_json (fst c)))) \<in> set (kn_log kn)"
    using snapshot_from_builder [where nets = nets, OF network(1,2) builder(2)] by simp
  have seen: "text m \<in> env_payload ` set (kn_handled kn @ q_items (pending_queue kn)) \<or>
      text m \<in> set in_flight \<or> 0 < drops (feed_source (kn_feed kn)) \<and> text m \<in> env_payload ` set ?read"
    if "m \<in> set ms" for m
  proof -
    have "text m \<in> set (map env_payload ?read @ in_flight)" unfolding network(3) using that by simp
    then show ?thesis using all_handled [OF knight(1)] by (cases "drops (feed_source (kn_feed kn)) = 0") auto
  qed
  obtain all where all: "watched env w c all d" "set all = set ms \<union> set lost"
    using streamed_watched [OF builder(3)] by blast
  from known_or_announced [OF builder(1,2) all(1) builder(4) pending]
  consider "\<exists>r \<in> set (log_pending (mp_heap (fst c))). advances r (mp_heap (fst d) ! k)"
    | "\<exists>i task. snd d i = Some task \<and> task_ref task = k \<and> w \<in> set (task_rest task)"
    | r where "is_pending r" "advances r (mp_heap (fst d) ! k)"
        "pending_message (MempoolRecord_toJson r) \<in> set ms \<union> set lost"
    unfolding announced_def all(2) by blast
  then show ?thesis
  proof cases
    case 1
    then show ?thesis using logged by (intro disjI1 conjI)
  next
    case 2
    then show ?thesis by (rule disjI2 [OF disjI1])
  next
    case 3
    then show ?thesis using seen by (intro disjI2, intro exI [of _ r] exI conjI) auto
  qed
qed

end
