(* ===== verification/Knight_Witnesses.thy ===== *)
theory Knight_Witnesses
  imports Knight_Builder Machine_Witnesses
begin

text \<open>
  The properties of the knight at concrete runs: a source that connects, reads, fails and is
  stopped; a runtime that connects, takes its snapshot, handles messages and is shut down; and
  the same runtime beside the evaluated example of the builder.
\<close>

section \<open>A source\<close>

abbreviation small_push :: "input_envelope \<Rightarrow> input_envelope input_queue \<Rightarrow> bool \<times> input_envelope input_queue" where
  "small_push \<equiv> try_push 2"

definition toy_source :: "input_envelope input_queue ws_source" where
  "toy_source = new_source (Some empty_queue) False True ''h'' ''1'' ''/''"

definition connect_events :: "ws_event list" where
  "connect_events = [Start, Complete 2 (Resolve_done Success), Complete 2 (Connect_done Success Success Success),
     Complete 2 (Handshake_done Success)]"

definition toy_running :: "input_envelope input_queue ws_source" where
  "toy_running = the (ws_exec small_push connect_events toy_source)"

lemma toy_running_path: "ws_path small_push toy_source connect_events toy_running"
proof -
  have "ws_exec small_push connect_events toy_source \<noteq> None" by code_simp
  then show ?thesis by (auto simp: ws_exec_path toy_running_def)
qed

lemma toy_running_reachable: "ws_reachable small_push toy_running"
  unfolding ws_reachable_def using toy_running_path [unfolded toy_source_def] by blast

lemma toy_running_state: "ws_state toy_running = Ws_RUNNING" "stream_no toy_running = 2"
  by code_simp+

theorem source_never_stuck_witness:
  "ws_state toy_running = Ws_RUNNING \<and> On_stream Op_read 2 \<in> set (outstanding toy_running)"
  using source_never_stuck [OF toy_running_reachable] toy_running_state
  by (simp add: making_progress_def)

text \<open>A restart of the running source, the read failing before the close completes.\<close>

definition restart_events :: "ws_event list" where
  "restart_events = [Complete 2 (Read_done Ws_error_closed [] 0)]"

definition toy_restarting :: "input_envelope input_queue ws_source" where
  "toy_restarting = the (ws_exec small_push restart_events (ws_restart True toy_running))"

lemma toy_restarting_path: "ws_path small_push (ws_restart True toy_running) restart_events toy_restarting"
proof -
  have "ws_exec small_push restart_events (ws_restart True toy_running) \<noteq> None" by code_simp
  then show ?thesis by (auto simp: ws_exec_path toy_restarting_def)
qed

theorem restart_is_not_lost_witness:
  "ws_state toy_restarting = Ws_FAILED \<and>
   (\<exists>n. On_stream Op_close n \<in> set (outstanding toy_restarting) \<and>
      ws_state (on_completion small_push (Close_done (Other_error 125))
        (completed (On_stream Op_close n) toy_restarting)) = Ws_STARTING)"
proof -
  have failed: "ws_state toy_restarting = Ws_FAILED" by code_simp
  have none: "ws_state (ws_restart True toy_running) \<noteq> Ws_STARTING" by code_simp
  have "\<forall>b. Stop b \<notin> set restart_events" by (simp add: restart_events_def)
  note lost = restart_is_not_lost [OF toy_running_reachable toy_restarting_path this]
  have "\<not> (\<exists>es1 es2 u. restart_events = es1 @ es2 \<and>
      ws_path small_push (ws_restart True toy_running) es1 u \<and> ws_state u = Ws_STARTING)"
  proof
    assume "\<exists>es1 es2 u. restart_events = es1 @ es2 \<and>
      ws_path small_push (ws_restart True toy_running) es1 u \<and> ws_state u = Ws_STARTING"
    then obtain es1 es2 u where u: "restart_events = es1 @ es2"
      "ws_path small_push (ws_restart True toy_running) es1 u" "ws_state u = Ws_STARTING" by blast
    then have "es1 = [] \<or> es1 = restart_events"
      by (cases es1) (auto simp: restart_events_def)
    then show False
      using u(2,3) none failed toy_restarting_path by (auto simp: ws_exec_path)
  qed
  then show ?thesis using lost failed by blast
qed

theorem stopped_source_starts_again_witness:
  "\<exists>t u. ws_path small_push toy_running [Stop True, Complete 2 (Read_done Ws_error_closed [] 0),
      Complete 2 (Close_done Success)] t \<and> ws_state t = Ws_STOPPED \<and>
      (\<exists>d. ws_step small_push t (Expire d) u) \<and> ws_state u = Ws_STARTING"
  using stopped_source_starts_again [OF toy_running_reachable toy_running_state(1), of Ws_error_closed Success]
  unfolding toy_running_state(2) by auto

text \<open>
  An outage from the first failure until the attempts are used up: ten reconnects, with the
  delays doubling up to the maximum.
\<close>

definition outage_events :: "ws_event list" where
  "outage_events =
     concat (map (\<lambda>i. [Complete (2 + 2 * i) (Resolve_done (Other_error 1)), Expire (reconnect_delay i)]) [0..<10]) @
     [Complete 22 (Resolve_done (Other_error 1))]"

definition toy_gave_up :: "input_envelope input_queue ws_source" where
  "toy_gave_up = the (ws_exec small_push outage_events (ws_start toy_source))"

theorem outage_reconnects_bounded_witness:
  "reconnects outage_events = [200, 400, 800, 1600, 3200, 5000, 5000, 5000, 5000, 5000] \<and>
   length (reconnects outage_events) \<le> kMaxReconnectAttempts \<and>
   ws_state toy_gave_up = Ws_FAILED \<and> outstanding toy_gave_up = []"
proof -
  have run: "case ws_exec small_push outage_events (ws_start toy_source) of
      None \<Rightarrow> False | Some t \<Rightarrow> ws_state t = Ws_FAILED \<and> outstanding t = []" by code_simp
  then have path: "ws_path small_push (ws_start toy_source) outage_events toy_gave_up"
    by (auto simp: ws_exec_path toy_gave_up_def split: option.splits)
  have start: "ws_path small_push toy_source [Start] (ws_start toy_source)"
    by (simp add: ws_path_simps)
  then have reach: "ws_reachable small_push (ws_start toy_source)"
    unfolding ws_reachable_def toy_source_def by blast
  have "\<forall>n. Complete n (Handshake_done Success) \<notin> set outage_events"
    by (simp add: outage_events_def)
  note bounded = outage_reconnects_bounded [OF reach path this]
  have "reconnect_attempts (ws_start toy_source) = 0" "live_timers (ws_start toy_source) = 0" by code_simp+
  then have "length (reconnects outage_events) \<le> kMaxReconnectAttempts" using bounded by simp
  moreover have "reconnects outage_events = [200, 400, 800, 1600, 3200, 5000, 5000, 5000, 5000, 5000]"
    by code_simp
  moreover have "ws_state toy_gave_up = Ws_FAILED" "outstanding toy_gave_up = []"
    using run by (auto simp: toy_gave_up_def split: option.splits)
  ultimately show ?thesis by simp
qed

section \<open>A feed and a runtime\<close>

definition toy_config :: knight_config where
  "toy_config =
     \<lparr>builder_ws_url = ''ws://h:1/'',
      builder_ws_endpoint = \<lparr>ep_scheme = ''ws'', ep_host = ''h'', ep_port = ''1'', ep_target = ''/'', ep_use_tls = False\<rparr>,
      tls_verify_peer = True\<rparr>"

definition toy_feed :: "input_envelope input_queue pending_feed" where
  "toy_feed = the (feed_exec small_push connect_events (new_feed toy_config empty_queue))"

theorem feed_mirrors_source_witness:
  "feed_state toy_feed = Feed_OPEN \<and> ws_state (feed_source toy_feed) = Ws_RUNNING \<and>
   On_stream Op_read (stream_no (feed_source toy_feed)) \<in> set (outstanding (feed_source toy_feed))"
proof -
  have run: "case feed_exec small_push connect_events (new_feed toy_config empty_queue) of
      None \<Rightarrow> False | Some f \<Rightarrow> feed_state f = Feed_OPEN \<and> ws_state (feed_source f) = Ws_RUNNING" by code_simp
  then have "feed_path small_push (new_feed toy_config empty_queue) connect_events toy_feed"
    by (auto simp: feed_exec_path toy_feed_def split: option.splits)
  then have "feed_reachable small_push toy_feed" unfolding feed_reachable_def by blast
  moreover have "feed_state toy_feed = Feed_OPEN" "ws_state (feed_source toy_feed) = Ws_RUNNING"
    using run by (auto simp: toy_feed_def split: option.splits)
  ultimately show ?thesis using feed_mirrors_source [of small_push toy_feed] by (auto simp: Let_def)
qed

text \<open>The feed is closed three times while it connects, and opens.\<close>

definition closing_connect :: "ws_event list" where
  "closing_connect =
     [Stop True, Complete 2 (Resolve_done Success), Stop True,
      Complete 2 (Connect_done Success Success Success), Stop True]"

definition toy_opening :: "input_envelope input_queue pending_feed" where
  "toy_opening = the (feed_exec small_push [Start] (new_feed toy_config empty_queue))"

definition toy_connecting :: "input_envelope input_queue pending_feed" where
  "toy_connecting = the (feed_exec small_push closing_connect toy_opening)"

definition toy_opened :: "input_envelope input_queue pending_feed" where
  "toy_opened = the (feed_exec small_push [Complete 2 (Handshake_done Success)] toy_connecting)"

theorem close_while_connecting_is_lost_witness:
  "feed_path small_push toy_opening closing_connect toy_connecting \<and>
   feed_path small_push toy_opening
     [Complete 2 (Resolve_done Success), Complete 2 (Connect_done Success Success Success)] toy_connecting \<and>
   feed_close True toy_connecting = toy_connecting \<and>
   feed_step small_push toy_connecting (Complete 2 (Handshake_done Success)) toy_opened \<and>
   feed_state toy_opened = Feed_OPEN"
proof -
  have "feed_exec small_push [Start] (new_feed toy_config empty_queue) \<noteq> None" by code_simp
  then have "feed_path small_push (new_feed toy_config empty_queue) [Start] toy_opening"
    by (auto simp: feed_exec_path toy_opening_def)
  then have reach: "feed_reachable small_push toy_opening" unfolding feed_reachable_def by blast
  have start: "feed_state toy_opening = Feed_CLOSED" "ws_state (feed_source toy_opening) = Ws_STARTING"
    by code_simp+
  have "feed_exec small_push closing_connect toy_opening \<noteq> None" by code_simp
  then have path: "feed_path small_push toy_opening closing_connect toy_connecting"
    by (auto simp: feed_exec_path toy_connecting_def)
  have "feed_exec small_push [Complete 2 (Handshake_done Success)] toy_connecting \<noteq> None" by code_simp
  then have "feed_path small_push toy_connecting [Complete 2 (Handshake_done Success)] toy_opened"
    by (auto simp: feed_exec_path toy_opened_def)
  then have step: "feed_step small_push toy_connecting (Complete 2 (Handshake_done Success)) toy_opened"
    by (auto simp: feed_path_simps)
  have "list_all (\<lambda>e. is_close e \<or> connects e) closing_connect"
    by (simp add: closing_connect_def is_close_def connects_def)
  note lost = close_while_connecting_is_lost [OF reach start path this, of True]
  have "filter (\<lambda>e. \<not> is_close e) closing_connect =
      [Complete 2 (Resolve_done Success), Complete 2 (Connect_done Success Success Success)]"
    by (simp add: closing_connect_def is_close_def)
  then show ?thesis using lost path step by auto
qed

text \<open>
  The runtime connects, gets its snapshot at the first attempt, and three messages come; one is
  handled before the shutdown, the other two are still queued when the queue is closed.
\<close>

definition toy_text :: "json \<Rightarrow> string" where
  "toy_text v = (case v of JObj ((k, JStr t) # _) \<Rightarrow> t | JObj ((k, _) # _) \<Rightarrow> k | _ \<Rightarrow> [])"

definition toy_net :: "nat \<Rightarrow> http_network" where
  "toy_net _ =
     \<lparr>net_sni = True, net_verify_host = True, net_resolve = Success, net_connect = Success,
      net_handshake = Success, net_write = Success, net_read = Success,
      net_response = builder_response toy_env toy_text (\<lambda>_. (404, [])) toy_listening\<rparr>"

definition serving_events :: "knight_event list" where
  "serving_events =
     [Run, Network (Complete 2 (Resolve_done Success)), Network (Complete 2 (Connect_done Success Success Success)),
      Network (Complete 2 (Handshake_done Success)), Ready False, Snapshot toy_net,
      Network (Complete 2 (Read_done Success ''pending_transaction'' 1)), Take,
      Network (Complete 2 (Read_done Success ''b'' 2)), Network (Complete 2 (Read_done Success ''c'' 3))]"

definition closing_events :: "knight_event list" where
  "closing_events = [Stop_called, Stop_goes_on True, Stop_goes_on True]"

definition toy_serving :: knight where
  "toy_serving = the (knight_exec serving_events (create_components toy_config))"

definition toy_closing :: knight where
  "toy_closing = the (knight_exec closing_events toy_serving)"

lemma toy_serving_run:
  "case knight_exec serving_events (create_components toy_config) of
     None \<Rightarrow> False
   | Some k \<Rightarrow> kn_main k = Main_loop \<and> drops (feed_source (kn_feed k)) = 0 \<and>
       map env_payload (kn_handled k) = [''pending_transaction''] \<and>
       map env_payload (q_items (pending_queue k)) = [''b'', ''c''] \<and>
       (case knight_exec closing_events k of
          None \<Rightarrow> False
        | Some l \<Rightarrow> kn_main l = Main_loop \<and> kn_shutdown l = Queue_closed \<and>
            map env_payload (kn_handled l) = [''pending_transaction''] \<and>
            map env_payload (q_items (pending_queue l)) = [''b'', ''c''] \<and>
            (case knight_exec [Take, Take, Take] l of
               None \<Rightarrow> False | Some m \<Rightarrow> kn_main m = Main_returned \<and> Log_queue_closed \<in> set (kn_log m)))"
  by code_simp

definition toy_closed :: knight where
  "toy_closed = the (knight_exec [Take, Take, Take] toy_closing)"

lemma toy_serving_facts:
  "knight_path (create_components toy_config) serving_events toy_serving"
  "drops (feed_source (kn_feed toy_serving)) = 0"
  "map env_payload (kn_handled toy_serving) = [''pending_transaction'']"
  "map env_payload (q_items (pending_queue toy_serving)) = [''b'', ''c'']"
  using toy_serving_run by (auto simp: knight_exec_path toy_serving_def split: option.splits)

lemma toy_closing_facts:
  "knight_path toy_serving closing_events toy_closing"
  "kn_main toy_closing = Main_loop" "kn_shutdown toy_closing = Queue_closed"
  "map env_payload (kn_handled toy_closing) = [''pending_transaction'']"
  "map env_payload (q_items (pending_queue toy_closing)) = [''b'', ''c'']"
  using toy_serving_run by (auto simp: knight_exec_path toy_serving_def toy_closing_def split: option.splits)

lemma toy_closed_facts:
  "knight_path toy_closing [Take, Take, Take] toy_closed" "kn_main toy_closed = Main_returned"
  "Log_queue_closed \<in> set (kn_log toy_closed)"
  using toy_serving_run
  by (auto simp: knight_exec_path toy_serving_def toy_closing_def toy_closed_def split: option.splits)

lemma knight_path_append: "knight_path k es l \<Longrightarrow> knight_path l fs m \<Longrightarrow> knight_path k (es @ fs) m"
  by (induction rule: knight_path.induct) (auto intro: knight_path.intros)

lemma toy_closing_path: "knight_path (create_components toy_config) (serving_events @ closing_events) toy_closing"
  by (rule knight_path_append [OF toy_serving_facts(1) toy_closing_facts(1)])

lemma toy_host: "ep_host (builder_ws_endpoint toy_config) = ''h''"
  by (simp add: toy_config_def)

theorem knight_handles_what_it_reads_witness:
  "map env_payload (kn_handled toy_serving @ q_items (pending_queue toy_serving)) =
     [''pending_transaction'', ''b'', ''c''] \<and>
   kn_handled toy_serving @ q_items (pending_queue toy_serving) =
     messages_read ''h'' (network_events serving_events)"
proof -
  have "kn_handled toy_serving @ q_items (pending_queue toy_serving) =
      messages_read (ep_host (builder_ws_endpoint toy_config)) (network_events serving_events)"
    using knight_handles_what_it_reads [OF toy_serving_facts(1)] toy_serving_facts(2) by (simp only: Let_def)
  then show ?thesis
    using toy_serving_facts(3,4) by (metis (no_types) append_Cons append_Nil map_append toy_host)
qed

theorem shutdown_drains_the_queue_witness:
  "kn_main toy_closed = Main_returned \<and>
   map env_payload (kn_handled toy_closed) = [''pending_transaction'', ''b'', ''c'']"
proof -
  have "kn_shutdown toy_closing \<in> {Queue_closed, Io_stopped}" using toy_closing_facts(3) by simp
  from shutdown_drains_the_queue [OF toy_closing_path toy_closing_facts(2) this toy_closed_facts(1)]
  have "kn_handled toy_closed = kn_handled toy_closing @ q_items (pending_queue toy_closing)"
    using toy_closed_facts(2) by simp
  then show ?thesis using toy_closed_facts(2) toy_closing_facts(4,5) by simp
qed

theorem knight_runs_until_shutdown_witness:
  "Log_queue_closed \<in> set (kn_log toy_closed) \<and> \<not> kn_running toy_closed \<and> log_ok toy_closed \<and>
   Stop_called \<in> set (serving_events @ closing_events @ [Take, Take, Take])"
  using knight_runs_until_shutdown [OF knight_path_append [OF toy_closing_path toy_closed_facts(1)]]
    toy_closed_facts(3) by simp

section \<open>The runtime beside the builder\<close>

definition toy_broadcast :: "toy config" where
  "toy_broadcast = snd (resume_submit toy_env 0 toy_task toy_suspended)"

definition toy_sent :: "json list" where
  "toy_sent = [task_message toy_task]"

lemma toy_idle_reached: "loop_runs toy_env (idle (create_app toy_world)) (idle toy_listening)"
  unfolding toy_listening_def by (rule sequential_runs [OF create_app_inv])

lemma toy_watched: "watched toy_env 2 (idle toy_listening) toy_sent toy_broadcast"
proof -
  have sub: "2 \<in> subscribers (fst (idle toy_listening))" "2 \<in> subscribers (fst toy_suspended)"
    "task_rest toy_task = [2]"
    by code_simp+
  have "loop_step toy_env (idle toy_listening) (Some 0)
      (fst (begin_submit toy_env 0 toy_tx (idle toy_listening))) toy_suspended"
    unfolding idle_def toy_suspended_def by (rule loop_step.submit) simp_all
  from watched.goes_on [OF watched.begins sub(1) this]
  have first: "watched toy_env 2 (idle toy_listening) [] toy_suspended"
    by (simp add: sent_to_def idle_def)
  have "loop_step toy_env (fst toy_suspended, snd toy_suspended) (Some 0)
      (fst (resume_submit toy_env 0 toy_task toy_suspended)) toy_broadcast"
    unfolding toy_broadcast_def
    by (rule loop_step.resume [where ts = "snd toy_suspended" and i = 0, OF toy_task_suspended]) simp
  from watched.goes_on [OF first sub(2)] this
  have "watched toy_env 2 (idle toy_listening) ([] @ sent_to 2 toy_suspended (Some 0)) toy_broadcast" by simp
  then show ?thesis using toy_task_suspended sub(3) by (simp add: sent_to_def toy_sent_def)
qed

lemma toy_order: "\<forall>S. finite S \<longrightarrow> 2 \<in> S \<longrightarrow> 2 \<in> set (ws_order toy_env S)"
  by (simp add: toy_env_def)

lemma toy_pending:
  "0 < length (mp_heap (fst toy_broadcast))" "is_pending (mp_heap (fst toy_broadcast) ! 0)"
  "mp_heap (fst (idle toy_listening)) = []" "snd toy_broadcast 0 = None"
  "toy_text (task_message toy_task) = ''pending_transaction''"
  by code_simp+

lemma toy_only_task: "i \<noteq> 0 \<Longrightarrow> snd toy_broadcast i = None"
proof -
  assume i: "i \<noteq> 0"
  have one: "snd (snd (begin_submit env 0 p (s, ts))) i = ts i" for env :: "toy env" and p s ts
    using i by (auto simp: begin_submit_def run_on_def split: prod.split sum.split list.split)
  have two: "snd (snd (resume_submit env 0 t (s, ts))) i = ts i" for env :: "toy env" and t s ts
    using i by (auto simp: resume_submit_def run_on_def split: prod.split list.split)
  have "snd toy_suspended i = None" using one by (simp add: toy_suspended_def idle_def)
  then show "snd toy_broadcast i = None"
    using two [of toy_env toy_task "fst toy_suspended" "snd toy_suspended"] by (simp add: toy_broadcast_def)
qed

lemma toy_listening_uncollided: "uncollided (fst (idle toy_listening))"
proof -
  have "app_inv toy_listening"
    unfolding toy_listening_def by (rule conjunct1 [OF run_safe [OF create_app_inv]])
  then have "mempool_inv toy_listening" by (simp add: app_inv_def)
  moreover have "mp_transactions toy_listening = []" by code_simp
  ultimately show ?thesis using toy_pending(3) by (simp add: uncollided_def idle_def)
qed

theorem subscriber_misses_nothing_witness:
  "announced 2 toy_sent toy_broadcast 0 \<and>
   get_pending_transactions toy_listening =
     (Ok200 (JObj [(''snapshotSeq'', JInt 0), (''transactions'', JList [])]), toy_listening)"
proof -
  have "get_pending_transactions toy_listening =
      (Ok200 (JObj [(''snapshotSeq'', JInt 0), (''transactions'', JList [])]), toy_listening)" by code_simp
  then show ?thesis
    using subscriber_misses_nothing [OF toy_idle_reached toy_listening_uncollided toy_watched toy_order toy_pending(1,2)]
    by (auto simp: idle_def)
qed

text \<open>The same runtime with only the broadcast message read.\<close>

definition knowing_events :: "knight_event list" where
  "knowing_events = take 8 serving_events"

definition toy_knowing :: knight where
  "toy_knowing = the (knight_exec knowing_events (create_components toy_config))"

lemma toy_knowing_facts:
  "knight_path (create_components toy_config) knowing_events toy_knowing"
  "drops (feed_source (kn_feed toy_knowing)) = 0"
proof -
  have "case knight_exec knowing_events (create_components toy_config) of
      None \<Rightarrow> False | Some k \<Rightarrow> drops (feed_source (kn_feed k)) = 0" by code_simp
  then show "knight_path (create_components toy_config) knowing_events toy_knowing"
    "drops (feed_source (kn_feed toy_knowing)) = 0"
    by (auto simp: knight_exec_path toy_knowing_def split: option.splits)
qed

lemma toy_streamed: "streamed toy_env 2 (idle toy_listening) toy_sent [] toy_broadcast"
proof -
  have sub: "2 \<in> subscribers (fst (idle toy_listening))" "2 \<in> subscribers (fst toy_suspended)"
    "task_rest toy_task = [2]"
    by code_simp+
  have ok: "ws_send toy_env 2 m s = (True, s)" for m s by (simp add: toy_env_def)
  have "loop_step toy_env (idle toy_listening) (Some 0)
      (fst (begin_submit toy_env 0 toy_tx (idle toy_listening))) toy_suspended"
    unfolding idle_def toy_suspended_def by (rule loop_step.submit) simp_all
  from streamed.steps [OF streamed.opens sub(1) this]
  have first: "streamed toy_env 2 (idle toy_listening) [] [] toy_suspended"
    by (simp add: accepted_def raised_for_def sent_to_def idle_def)
  have "loop_step toy_env (fst toy_suspended, snd toy_suspended) (Some 0)
      (fst (resume_submit toy_env 0 toy_task toy_suspended)) toy_broadcast"
    unfolding toy_broadcast_def
    by (rule loop_step.resume [where ts = "snd toy_suspended" and i = 0, OF toy_task_suspended]) simp
  from streamed.steps [OF first sub(2)] this
  have "streamed toy_env 2 (idle toy_listening) ([] @ accepted toy_env 2 toy_suspended (Some 0))
      ([] @ raised_for toy_env 2 toy_suspended (Some 0)) toy_broadcast" by simp
  then show ?thesis
    using toy_task_suspended sub(3) by (simp add: accepted_def raised_for_def ok sent_to_def toy_sent_def)
qed

theorem knight_knows_the_pool_witness:
  "\<exists>r. is_pending r \<and> advances r (mp_heap (fst toy_broadcast) ! 0) \<and>
     toy_text (pending_message (MempoolRecord_toJson r)) \<in>
       env_payload ` set (kn_handled toy_knowing @ q_items (pending_queue toy_knowing))"
proof -
  have snapshot: "Snapshot toy_net \<in> set knowing_events"
    by (simp add: knowing_events_def serving_events_def)
  have net: "net_up (toy_net 1)"
    "net_response (toy_net 1) = builder_response toy_env toy_text (\<lambda>_. (404, [])) (fst (idle toy_listening))"
    by (simp_all add: toy_net_def net_up_def idle_def)
  have "map env_payload (messages_read ''h'' (network_events knowing_events)) = [''pending_transaction'']"
    by code_simp
  then have read: "map env_payload (messages_read (ep_host (builder_ws_endpoint toy_config)) (network_events knowing_events)) @ [] =
      [] @ map toy_text toy_sent"
    using toy_pending(5) by (simp add: toy_host toy_sent_def)
  have none: "snd toy_broadcast i = None" for i
    using toy_pending(4) toy_only_task by (cases "i = 0") auto
  show ?thesis
    using knight_knows_the_pool [OF toy_idle_reached toy_listening_uncollided toy_streamed toy_order
        toy_knowing_facts(1) snapshot net read toy_pending(1,2)]
      toy_pending(3) toy_knowing_facts(2) none
    by (auto simp: log_pending_def)
qed

end
