(* ===== verification/Contract_Market.thy ===== *)
theory Contract_Market
  imports Backrun_Plan
begin

text \<open>
  Preparing a market: mints, approvals and the seeding of a pool go through, with what they change
  and what they leave, and after them a swap can be paid for.
\<close>

section \<open>Minters and supplies\<close>

definition mints :: "address \<Rightarrow> chain \<Rightarrow> address \<Rightarrow> bool" where
  "mints s c k \<longleftrightarrow> (\<exists>t. tokens c k = Some t \<and> minter t = s)"

definition supplied :: "chain \<Rightarrow> address \<Rightarrow> int" where
  "supplied c k = (case tokens c k of None \<Rightarrow> 0 | Some t \<Rightarrow> uint (totalSupply t))"

lemma mints_dom: "mints s c k \<Longrightarrow> k \<in> dom (tokens c)"
  by (auto simp: mints_def)

lemma supplied_nonneg: "0 \<le> supplied c k"
  by (simp add: supplied_def split: option.split)

lemma bal_le_supplied: "supplies_ok c \<Longrightarrow> bal c k a \<le> supplied c k"
  by (auto simp: bal_def supplied_def supplies_ok_def balance_le_supply split: option.split)

text \<open>A call of a token that keeps its minter and its supply.\<close>

lemma on_token_minters:
  assumes "on_token k f c = Some c'" and "\<And>t t'. f t = Some t' \<Longrightarrow> minter t' = minter t \<and> totalSupply t' = totalSupply t"
  shows "mints s c' j = mints s c j" and "supplied c' j = supplied c j"
proof -
  obtain t t' where t: "tokens c k = Some t" "f t = Some t'" "c' = c\<lparr>tokens := (tokens c)(k := Some t')\<rparr>"
    using assms(1) by (auto simp: on_token_def bind_eq_Some_conv)
  then show "mints s c' j = mints s c j" and "supplied c' j = supplied c j"
    using assms(2) [OF t(2)] by (simp_all add: mints_def supplied_def)
qed

lemma transferFrom_minter:
  "SandboxERC20_transferFrom sp a to n t = Some t' \<Longrightarrow> minter t' = minter t \<and> totalSupply t' = totalSupply t"
  by (auto simp: SandboxERC20_transferFrom_def SandboxERC20_move_def Let_def bind_eq_Some_conv split: if_splits)

lemma uint_of_amount: "0 \<le> n \<Longrightarrow> n < 2 ^ 256 \<Longrightarrow> uint (word_of_int n :: uint256) = n"
  by (simp add: uint_word_of_int)

section \<open>What the steps of the preparation do\<close>

text \<open>What every step keeps.\<close>

definition same_market :: "chain \<Rightarrow> chain \<Rightarrow> bool" where
  "same_market c c' \<longleftrightarrow> chain_inv c' \<and> operators c' = operators c \<and> dom (pools c') = dom (pools c) \<and>
     dom (tokens c') = dom (tokens c) \<and> (\<forall>s k. mints s c' k = mints s c k)"

lemma same_market_trans: "same_market a b \<Longrightarrow> same_market b c \<Longrightarrow> same_market a c"
  by (simp add: same_market_def)

lemma mint_run:
  assumes inv: "chain_inv c" and m: "mints s c k" and to: "to \<noteq> 0"
    and n: "0 \<le> n" "supplied c k + n < 2 ^ 256"
  shows "\<exists>c'. exec_tx s (Mint k to (word_of_int n)) c = Some c' \<and> same_market c c' \<and> pools c' = pools c \<and>
    (\<forall>j a. bal c' j a = bal c j a + (if j = k \<and> a = to then n else 0)) \<and> allowed c' = allowed c \<and>
    (\<forall>j. supplied c' j = supplied c j + (if j = k then n else 0))"
proof -
  obtain t where t: "tokens c k = Some t" "minter t = s" using m by (auto simp: mints_def)
  have ok: "supply_ok t" using inv t by (simp add: chain_inv_def supplies_ok_def)
  have room: "uint (totalSupply t) + n < 2 ^ 256" using n t by (simp add: supplied_def)
  then have n': "uint (word_of_int n :: uint256) = n"
    using n(1) uint_ge_0 [of "totalSupply t"] by (intro uint_of_amount) linarith+
  have "uint (balanceOf t to) \<le> uint (totalSupply t)" by (rule balance_le_supply) (rule ok)
  then obtain t' where t': "SandboxERC20_mint s to (word_of_int n) t = Some t'"
    using t to n' room by (auto simp: SandboxERC20_mint_def checked_add_def)
  note D = mint_SomeD [OF ok t']
  have u: "uint (totalSupply t') = uint (totalSupply t) + n"
    using t' n' by (auto simp: SandboxERC20_mint_def bind_eq_Some_conv checked_add_Some split: if_splits)
  define c' where "c' = c\<lparr>tokens := (tokens c)(k := Some t')\<rparr>"
  have r: "exec_tx s (Mint k to (word_of_int n)) c = Some c'"
    using t t' by (simp add: on_token_def c'_def)
  then have "chain_inv c'" using mint_keeps [OF inv] by (simp add: keeps_chain_def)
  moreover have "mints q c' j = mints q c j" for q j using D t by (simp add: mints_def c'_def)
  moreover have "operators c' = operators c" "pools c' = pools c" "dom (tokens c') = dom (tokens c)"
    using t by (auto simp: c'_def)
  moreover have "bal c' j a = bal c j a + (if j = k \<and> a = to then n else 0)" for j a
    using D t n' by (simp add: c'_def bal_def)
  moreover have "allowed c' j a b = allowed c j a b" for j a b using D t by (simp add: c'_def allowed_def)
  moreover have "supplied c' j = supplied c j + (if j = k then n else 0)" for j
    using t u by (simp add: c'_def supplied_def)
  ultimately show ?thesis
    using r unfolding same_market_def by (intro exI [of _ c'] conjI ext allI) simp_all
qed

lemma approve_goes:
  assumes inv: "chain_inv c" and k: "k \<in> dom (tokens c)" and s: "pools c s = None" and n: "0 \<le> n" "n < 2 ^ 256"
  shows "\<exists>c'. exec_tx s (Approve k b (word_of_int n)) c = Some c' \<and> same_market c c' \<and> pools c' = pools c \<and>
    bal c' = bal c \<and> supplied c' = supplied c \<and> allowed c' k s b = n \<and>
    (\<forall>j x y. x \<noteq> s \<or> j \<noteq> k \<or> y \<noteq> b \<longrightarrow> allowed c' j x y = allowed c j x y)"
proof -
  have ok: "supplies_ok c" using inv by (simp add: chain_inv_def)
  obtain c' where r: "on_token k (SandboxERC20_approve s b (word_of_int n)) c = Some c'"
    using approve_Some [OF ok k] by blast
  have "mints q c' j = mints q c j" "supplied c' j = supplied c j" for q j
    using on_token_minters [OF r] by (auto simp: SandboxERC20_approve_def)
  moreover have "chain_inv c'" using approve_keeps [OF inv r s] by (simp add: keeps_chain_def)
  ultimately show ?thesis
    using approve_run [OF ok r] r uint_of_amount [OF n] by (auto simp: same_market_def)
qed

lemma seed_goes:
  assumes inv: "chain_inv c" and d: "pools c p = Some d" and p: "p \<noteq> 0" and s: "pools c s = None"
    and toks: "dex_tokenA d \<in> dom (tokens c)" "dex_tokenB d \<in> dom (tokens c)"
    and n: "0 < n" "small n" and fits: "small (uint (reserveA d))" "small (uint (reserveB d))"
    and has: "n \<le> bal c (dex_tokenA d) s" "n \<le> bal c (dex_tokenB d) s"
      "n \<le> allowed c (dex_tokenA d) s p" "n \<le> allowed c (dex_tokenB d) s p"
  shows "\<exists>c' a b. exec_tx s (Seed p (word_of_int n) (word_of_int n)) c = Some c' \<and> same_market c c' \<and>
    pools c' = (pools c)(p := Some (d\<lparr>reserveA := a, reserveB := b\<rparr>)) \<and>
    uint a = uint (reserveA d) + n \<and> uint b = uint (reserveB d) + n \<and> supplied c' = supplied c \<and>
    (\<forall>k x. x \<noteq> s \<longrightarrow> x \<noteq> p \<longrightarrow> bal c' k x = bal c k x)"
proof -
  let ?n = "word_of_int n :: uint256"
  have n': "uint ?n = n" using n by (intro uint_of_amount) (auto simp: small_def)
  have ok: "supplies_ok c" and pk: "pool_ok c p d" using inv d by (simp_all add: chain_inv_def)
  have ne: "dex_tokenA d \<noteq> dex_tokenB d" using pk by (simp add: pool_ok_def)
  obtain c1 where c1: "on_token (dex_tokenA d) (SandboxERC20_transferFrom p s p ?n) c = Some c1"
      "moves (dex_tokenA d) s p n c c1"
    using transferFrom_run [OF ok toks(1) p, of ?n s p] has n' by auto
  then have c1': "supplies_ok c1" "dex_tokenB d \<in> dom (tokens c1)" "pools c1 = pools c"
    "n \<le> bal c1 (dex_tokenB d) s" "n \<le> allowed c1 (dex_tokenB d) s p"
    using toks has ne by (auto simp: moves_def)
  obtain c2 where c2: "on_token (dex_tokenB d) (SandboxERC20_transferFrom p s p ?n) c1 = Some c2"
      "moves (dex_tokenB d) s p n c1 c2"
    using transferFrom_run [OF c1'(1,2) p, of ?n s p] c1'(4,5) n' by auto
  have pl: "pools c2 = pools c" using c2(2) c1'(3) by (simp add: moves_def)
  note a = small_add [OF fits(1), of ?n] and b = small_add [OF fits(2), of ?n]
  define c' where "c' = c2\<lparr>pools := (pools c)(p := Some (d\<lparr>reserveA := reserveA d + ?n, reserveB := reserveB d + ?n\<rparr>))\<rparr>"
  have r: "SandboxDex_seedLiquidity p s ?n ?n c = Some c'"
    using d c1(1) c2(1) pl a b n n' by (simp add: SandboxDex_seedLiquidity_def c'_def word_less_def)
  have inv': "chain_inv c'" using seed_keeps [OF inv s r] by (simp add: keeps_chain_def)
  have same: "mints q c2 j = mints q c j" "supplied c2 j = supplied c j" for q j
    using on_token_minters [OF c1(1)] on_token_minters [OF c2(1)] transferFrom_minter by auto
  have "bal c2 k x = bal c k x" if "x \<noteq> s" "x \<noteq> p" for k x
    using that c1(2) c2(2) by (auto simp: moves_def)
  moreover have "same_market c c'"
    using inv' same c1(2) c2(2) d by (auto simp: same_market_def c'_def moves_def mints_def)
  moreover have "supplied c' = supplied c" using same by (auto simp: c'_def supplied_def fun_eq_iff)
  ultimately show ?thesis
    using r a b n n' by (intro exI [of _ c'] exI conjI) (auto simp: c'_def bal_def)
qed

section \<open>The preparations of the scenarios\<close>

text \<open>A mint to an account and its approval of the whole amount to a spender.\<close>

lemma mint_and_approve_goes:
  assumes inv: "chain_inv c" and m: "mints s c k" and o': "owner \<noteq> 0" "pools c owner = None"
    and n: "0 \<le> n" "supplied c k + n < 2 ^ 256"
  shows "\<exists>c1 c2. exec_tx s (Mint k owner (word_of_int n)) c = Some c1 \<and>
    exec_tx owner (Approve k b (word_of_int n)) c1 = Some c2 \<and> same_market c c2 \<and> pools c2 = pools c \<and>
    (\<forall>j a. bal c2 j a = bal c j a + (if j = k \<and> a = owner then n else 0)) \<and>
    allowed c2 k owner b = n \<and>
    (\<forall>j x y. x \<noteq> owner \<or> j \<noteq> k \<or> y \<noteq> b \<longrightarrow> allowed c2 j x y = allowed c j x y) \<and>
    (\<forall>j. supplied c2 j = supplied c j + (if j = k then n else 0))"
proof -
  obtain c1 where c1: "exec_tx s (Mint k owner (word_of_int n)) c = Some c1" "same_market c c1" "pools c1 = pools c"
    "\<forall>j a. bal c1 j a = bal c j a + (if j = k \<and> a = owner then n else 0)" "allowed c1 = allowed c"
    "\<forall>j. supplied c1 j = supplied c j + (if j = k then n else 0)"
    using mint_run [OF inv m o'(1) n] by blast
  have n': "n < 2 ^ 256" using n supplied_nonneg [of c k] by linarith
  have k: "k \<in> dom (tokens c1)" using c1(2) mints_dom [OF m] by (simp add: same_market_def)
  obtain c2 where c2: "exec_tx owner (Approve k b (word_of_int n)) c1 = Some c2" "same_market c1 c2" "pools c2 = pools c1"
    "bal c2 = bal c1" "supplied c2 = supplied c1" "allowed c2 k owner b = n"
    "\<forall>j x y. x \<noteq> owner \<or> j \<noteq> k \<or> y \<noteq> b \<longrightarrow> allowed c2 j x y = allowed c1 j x y"
    using approve_goes [OF _ k _ n(1) n'] c1(2,3) o'(2) unfolding same_market_def by metis
  show ?thesis
    using c1 c2 same_market_trans [OF c1(2) c2(2)] by (intro exI [of _ c1] exI [of _ c2]) simp
qed

text \<open>Both tokens minted to the minter, approved to a pool, and put into it.\<close>

lemma liquidity_goes:
  assumes inv: "chain_inv c" and d: "pools c p = Some d" and p: "p \<noteq> 0" and s: "s \<noteq> 0" "pools c s = None"
    and m: "mints s c (dex_tokenA d)" "mints s c (dex_tokenB d)" and n: "0 < n" "small n"
    and fits: "small (uint (reserveA d))" "small (uint (reserveB d))"
    and room: "supplied c (dex_tokenA d) + n < 2 ^ 256" "supplied c (dex_tokenB d) + n < 2 ^ 256"
  shows "\<exists>c1 c2 c3 c4 c5 a b. exec_tx s (Mint (dex_tokenA d) s (word_of_int n)) c = Some c1 \<and>
    exec_tx s (Approve (dex_tokenA d) p (word_of_int n)) c1 = Some c2 \<and>
    exec_tx s (Mint (dex_tokenB d) s (word_of_int n)) c2 = Some c3 \<and>
    exec_tx s (Approve (dex_tokenB d) p (word_of_int n)) c3 = Some c4 \<and>
    exec_tx s (Seed p (word_of_int n) (word_of_int n)) c4 = Some c5 \<and> same_market c c5 \<and>
    pools c5 = (pools c)(p := Some (d\<lparr>reserveA := a, reserveB := b\<rparr>)) \<and>
    uint a = uint (reserveA d) + n \<and> uint b = uint (reserveB d) + n \<and>
    (\<forall>k. supplied c5 k = supplied c k + (if k = dex_tokenA d \<or> k = dex_tokenB d then n else 0)) \<and>
    (\<forall>k x. x \<noteq> s \<longrightarrow> x \<noteq> p \<longrightarrow> bal c5 k x = bal c k x)"
proof -
  have ne: "dex_tokenA d \<noteq> dex_tokenB d" using inv d by (auto simp: chain_inv_def pool_ok_def)
  have n0: "0 \<le> n" using n by simp
  obtain c1 c2 where A: "exec_tx s (Mint (dex_tokenA d) s (word_of_int n)) c = Some c1"
    "exec_tx s (Approve (dex_tokenA d) p (word_of_int n)) c1 = Some c2" "same_market c c2" "pools c2 = pools c"
    "\<forall>j a. bal c2 j a = bal c j a + (if j = dex_tokenA d \<and> a = s then n else 0)"
    "allowed c2 (dex_tokenA d) s p = n"
    "\<forall>j. supplied c2 j = supplied c j + (if j = dex_tokenA d then n else 0)"
    using mint_and_approve_goes [OF inv m(1) s n0 room(1), of p] by blast
  have A': "chain_inv c2" "mints s c2 (dex_tokenB d)" "pools c2 s = None" "supplied c2 (dex_tokenB d) + n < 2 ^ 256"
    using A(3,4,7) m(2) s(2) room(2) ne by (simp_all add: same_market_def)
  obtain c3 c4 where B: "exec_tx s (Mint (dex_tokenB d) s (word_of_int n)) c2 = Some c3"
    "exec_tx s (Approve (dex_tokenB d) p (word_of_int n)) c3 = Some c4" "same_market c2 c4" "pools c4 = pools c2"
    "\<forall>j a. bal c4 j a = bal c2 j a + (if j = dex_tokenB d \<and> a = s then n else 0)"
    "allowed c4 (dex_tokenB d) s p = n"
    "\<forall>j x y. x \<noteq> s \<or> j \<noteq> dex_tokenB d \<or> y \<noteq> p \<longrightarrow> allowed c4 j x y = allowed c2 j x y"
    "\<forall>j. supplied c4 j = supplied c2 j + (if j = dex_tokenB d then n else 0)"
    using mint_and_approve_goes [OF A'(1,2) s(1) A'(3) n0 A'(4), of p] by blast
  note AB = same_market_trans [OF A(3) B(3)]
  have toks: "dex_tokenA d \<in> dom (tokens c4)" "dex_tokenB d \<in> dom (tokens c4)"
    using AB m mints_dom by (simp_all add: same_market_def)
  have has: "n \<le> bal c4 (dex_tokenA d) s" "n \<le> bal c4 (dex_tokenB d) s"
    "n \<le> allowed c4 (dex_tokenA d) s p" "n \<le> allowed c4 (dex_tokenB d) s p"
    using A(5,6) B(5,6,7) ne bal_nonneg [of c] by simp_all
  have c4: "chain_inv c4" "pools c4 p = Some d" "pools c4 s = None" using AB A(4) B(4) d s by (simp_all add: same_market_def)
  obtain c5 a b where C: "exec_tx s (Seed p (word_of_int n) (word_of_int n)) c4 = Some c5" "same_market c4 c5"
    "pools c5 = (pools c4)(p := Some (d\<lparr>reserveA := a, reserveB := b\<rparr>))"
    "uint a = uint (reserveA d) + n" "uint b = uint (reserveB d) + n" "supplied c5 = supplied c4"
    "\<forall>k x. x \<noteq> s \<longrightarrow> x \<noteq> p \<longrightarrow> bal c5 k x = bal c4 k x"
    using seed_goes [OF c4(1,2) p c4(3) toks n fits has] by blast
  have "supplied c5 k = supplied c k + (if k = dex_tokenA d \<or> k = dex_tokenB d then n else 0)" for k
    using A(7) B(8) C(6) ne by simp
  moreover have "bal c5 k x = bal c k x" if "x \<noteq> s" "x \<noteq> p" for k x using A(5) B(5) C(7) that by simp
  moreover have "pools c5 = (pools c)(p := Some (d\<lparr>reserveA := a, reserveB := b\<rparr>))" using A(4) B(4) C(3) by simp
  ultimately show ?thesis
    using A(1,2) B(1,2) C(1,4,5) same_market_trans [OF AB C(2)] by blast
qed

end
