(* ===== verification/Sandbox_Node.thy ===== *)
theory Sandbox_Node
  imports Local_Builder Scenario_Outcomes Contract_Market
begin

text \<open>
  The whole sandbox on one machine: the deployment the scenarios read, the machine on which the
  scripts, the block builder and the contracts' node run together, and what the node and its
  command line tool are documented to do.  The node (Anvil) and the tool (\<^verbatim>\<open>cast\<close>) are not code
  of the repository: they are parameters, and their behaviour is a set of named laws about a view
  of the node's state, whose contracts are the model's.
\<close>

section \<open>The deployment\<close>

text \<open>The lines of \<^verbatim>\<open>blockchain/config/local.anvil.env\<close>.\<close>

definition local_anvil_env :: "string list" where
  "local_anvil_env =
     [''# Local Anvil network used by the sandbox.'',
      ''#'',
      ''# Start it with:'',
      ''# anvil --chain-id $CHAIN_ID --mnemonic '' @ [CHR 0x22] @ ''$MNEMONIC'' @ [CHR 0x22] @ '' --accounts $ACCOUNTS --balance $BALANCE_ETH'',
      '''',
      ''RPC_URL=http://127.0.0.1:8545'',
      ''CHAIN_ID=31337'',
      ''HARD_FORK=prague'',
      ''BASE_FEE_WEI=1000000000'',
      ''GAS_LIMIT=30000000'',
      ''MNEMONIC='' @ [CHR 0x22] @ ''test test test test test test test test test test test junk'' @ [CHR 0x22] @ '''',
      ''ACCOUNTS=10'',
      ''BALANCE_ETH=10000'',
      '''',
      ''# Deterministic Anvil roles for local development.'',
      ''DEPLOYER_ADDRESS=0xf39fd6e51aad88f6f4ce6ab8827279cfffb92266'',
      ''DEPLOYER_PRIVATE_KEY=0xac0974bec39a17e36ba4a6b4d238ff944bacb478cbed5efcae784d7bf4f2ff80'',
      '''',
      ''VICTIM_ADDRESS=0x70997970c51812dc3a010c7d01b50e0d17dc79c8'',
      ''VICTIM_PRIVATE_KEY=0x59c6995e998f97a5a0044966f0945389dc9e86dae88c7a8412f4603b6b78690d'',
      '''',
      ''BOT_ADDRESS=0x3c44cdddb6a900fa2b585dd299e03d12fa4293bc'',
      ''BOT_PRIVATE_KEY=0x5de4111afa1a4b94908f83103eb1f1706367c2e68ca870fc3fb9a804cdab365a'',
      '''',
      ''TREASURY_ADDRESS=0x90f79bf6eb2c4f870365e785982e1f101e93b906'']"

text \<open>
  The document \<^verbatim>\<open>deploy-local.zsh\<close> writes, from the values of the shell's variables; a chain id is
  written without quotes, as a number.
\<close>

definition local_deployment :: "(string \<times> string) list \<Rightarrow> json" where
  "local_deployment vars =
     (let v = (\<lambda>k. JStr (env_get vars k)) in
      JObj
       [(''chainId'', JInt (projr (py_int 10 (env_get vars ''CHAIN_ID'')))),
        (''rpcUrl'', v ''RPC_URL''),
        (''hardFork'', v ''HARD_FORK''),
        (''baseFeeWei'', v ''BASE_FEE_WEI''),
        (''gasLimit'', v ''GAS_LIMIT''),
        (''automine'', JBool False),
        (''deployer'', v ''DEPLOYER_ADDRESS''),
        (''roles'', JObj
          [(''deployer'', JObj [(''address'', v ''DEPLOYER_ADDRESS''), (''privateKey'', v ''DEPLOYER_PRIVATE_KEY'')]),
           (''victim'', JObj [(''address'', v ''VICTIM_ADDRESS''), (''privateKey'', v ''VICTIM_PRIVATE_KEY'')]),
           (''bot'', JObj [(''address'', v ''BOT_ADDRESS''), (''privateKey'', v ''BOT_PRIVATE_KEY'')]),
           (''treasury'', JObj [(''address'', v ''TREASURY_ADDRESS'')])]),
        (''contracts'', JObj
          [(''tokenA'', v ''TOKEN_A_ADDRESS''), (''tokenB'', v ''TOKEN_B_ADDRESS''),
           (''pool1'', v ''POOL_1_ADDRESS''), (''pool2'', v ''POOL_2_ADDRESS''),
           (''backrun'', v ''BACKRUN_ADDRESS'')]),
        (''checks'', JObj
          [(''tokenASymbol'', v ''TOKEN_A_SYMBOL''), (''tokenBSymbol'', v ''TOKEN_B_SYMBOL''),
           (''pool1TokenA'', v ''POOL_1_TOKEN_A''), (''pool1TokenB'', v ''POOL_1_TOKEN_B''),
           (''pool1ReserveA'', v ''POOL_1_RESERVE_A''), (''pool1ReserveB'', v ''POOL_1_RESERVE_B''),
           (''pool2TokenA'', v ''POOL_2_TOKEN_A''), (''pool2TokenB'', v ''POOL_2_TOKEN_B''),
           (''pool2ReserveA'', v ''POOL_2_RESERVE_A''), (''pool2ReserveB'', v ''POOL_2_RESERVE_B''),
           (''backrunOperator'', v ''BACKRUN_OPERATOR'')])])"

text \<open>The variables: those of the env file, and the ones the deployment assigns.\<close>

definition deployed_with :: "(string \<times> string) list \<Rightarrow> json" where
  "deployed_with assigned = local_deployment (env_values local_anvil_env [] @ assigned)"

definition rpc_url_text :: string where "rpc_url_text = ''http://127.0.0.1:8545''"
definition deployer_text :: string where "deployer_text = ''0xf39fd6e51aad88f6f4ce6ab8827279cfffb92266''"
definition victim_text :: string where "victim_text = ''0x70997970c51812dc3a010c7d01b50e0d17dc79c8''"
definition deployer_key_text :: string where
  "deployer_key_text = ''0xac0974bec39a17e36ba4a6b4d238ff944bacb478cbed5efcae784d7bf4f2ff80''"
definition victim_key_text :: string where
  "victim_key_text = ''0x59c6995e998f97a5a0044966f0945389dc9e86dae88c7a8412f4603b6b78690d''"
definition bot_text :: string where "bot_text = ''0x3c44cdddb6a900fa2b585dd299e03d12fa4293bc''"
definition bot_key_text :: string where
  "bot_key_text = ''0x5de4111afa1a4b94908f83103eb1f1706367c2e68ca870fc3fb9a804cdab365a''"
definition treasury_text :: string where "treasury_text = ''0x90f79bf6eb2c4f870365e785982e1f101e93b906''"

lemma env_file_values:
  "map (\<lambda>k. map_of (env_values local_anvil_env []) k)
     [''RPC_URL'', ''CHAIN_ID'', ''DEPLOYER_ADDRESS'', ''DEPLOYER_PRIVATE_KEY'', ''VICTIM_ADDRESS'',
      ''VICTIM_PRIVATE_KEY'', ''BOT_ADDRESS'', ''BOT_PRIVATE_KEY'', ''TREASURY_ADDRESS''] =
   [Some rpc_url_text, Some ''31337'', Some deployer_text, Some deployer_key_text, Some victim_text,
    Some victim_key_text, Some bot_text, Some bot_key_text, Some treasury_text]"
  by code_simp

lemma env_file_contracts:
  "map (\<lambda>k. map_of (env_values local_anvil_env []) k)
     [''TOKEN_A_ADDRESS'', ''TOKEN_B_ADDRESS'', ''POOL_1_ADDRESS'', ''POOL_2_ADDRESS'', ''BACKRUN_ADDRESS''] =
   [None, None, None, None, None]"
  by code_simp

text \<open>What the blocks cost and hold, as the file configures the node.\<close>

definition base_fee_wei :: int where "base_fee_wei = 1000000000"
definition block_gas_limit :: int where "block_gas_limit = 30000000"

lemma env_file_limits:
  "map (\<lambda>k. map_of (env_values local_anvil_env []) k) [''BASE_FEE_WEI'', ''GAS_LIMIT''] =
   [Some ''1000000000'', Some ''30000000'']"
  by code_simp

text \<open>The account a text names: the low 160 bits of the number it is.\<close>

definition address_of :: "string \<Rightarrow> address" where
  "address_of s = word_of_int (case py_int 16 s of Inr n \<Rightarrow> n | Inl _ \<Rightarrow> 0)"

section \<open>Calls of the contracts\<close>

text \<open>
  The calls the scenarios make, by the text of the contract's address, the signature and the texts
  of the arguments: the transaction of the contracts' model, and the value of a call that only
  reads.  A number must fit into 256 bits.
\<close>

definition uint_text :: "string \<Rightarrow> uint256 option" where
  "uint_text s = (case py_int 10 s of
       Inr n \<Rightarrow> if 0 \<le> n \<and> n < 2 ^ 256 then Some (word_of_int n) else None
     | Inl _ \<Rightarrow> None)"

definition two_uints :: "(uint256 \<Rightarrow> uint256 \<Rightarrow> tx) \<Rightarrow> string \<Rightarrow> string \<Rightarrow> tx option" where
  "two_uints f m n = Option.bind (uint_text m) (\<lambda>a. map_option (f a) (uint_text n))"

definition call_of :: "string \<Rightarrow> string \<Rightarrow> string list \<Rightarrow> tx option" where
  "call_of c sig args =
     (let k = address_of c in
      case args of
        [a, n] \<Rightarrow>
          if sig = ''mint(address,uint256)'' then map_option (Mint k (address_of a)) (uint_text n)
          else if sig = ''approve(address,uint256)'' then map_option (Approve k (address_of a)) (uint_text n)
          else if sig = ''transfer(address,uint256)'' then map_option (Transfer k (address_of a)) (uint_text n)
          else if sig = ''seedLiquidity(uint256,uint256)'' then two_uints (Seed k) a n
          else if sig = ''swapExactAForB(uint256,uint256)'' then two_uints (SwapAB k) a n
          else None
      | [p1, p2, n, a, b, m] \<Rightarrow>
          if sig = ''executeBackrun(address,address,uint256,uint256,uint256,uint256)''
          then Option.bind (uint_text n) (\<lambda>n'. Option.bind (uint_text a) (\<lambda>a'.
                 two_uints (Backrun k (address_of p1) (address_of p2) n' a') b m))
          else None
      | _ \<Rightarrow> None)"

definition value_of :: "chain \<Rightarrow> string \<Rightarrow> string \<Rightarrow> string list \<Rightarrow> int option" where
  "value_of ch c sig args =
     (case args of
        [] \<Rightarrow>
          if sig = ''reserveA()(uint256)'' then map_option (\<lambda>d. uint (reserveA d)) (pools ch (address_of c))
          else if sig = ''reserveB()(uint256)'' then map_option (\<lambda>d. uint (reserveB d)) (pools ch (address_of c))
          else None
      | [a] \<Rightarrow>
          if sig = ''balanceOf(address)(uint256)''
          then map_option (\<lambda>t. uint (balanceOf t (address_of a))) (tokens ch (address_of c))
          else if sig = ''getAmountOutAForB(uint256)(uint256)''
          then Option.bind (pools ch (address_of c)) (\<lambda>d. Option.bind (uint_text a) (\<lambda>n.
                 map_option uint (SandboxDex_getAmountOut n (reserveA d) (reserveB d))))
          else None
      | _ \<Rightarrow> None)"

text \<open>The accounts that send transactions through the service: the node holds their keys and has funded them.\<close>

definition senders :: "string set" where
  "senders = {deployer_text, victim_text, bot_text}"

lemma sender_roles: "deployer_text \<in> senders" "victim_text \<in> senders" "bot_text \<in> senders"
  by (simp_all add: senders_def)

lemma sender_named: "frm \<in> senders \<Longrightarrow> frm \<noteq> ''''"
  by (auto simp: senders_def deployer_text_def victim_text_def bot_text_def)

section \<open>Fees and gas\<close>

text \<open>
  The fees a transaction offers: gas price, maximal fee and maximal priority fee.  The scripts
  offer the same for every transaction.  Offered fees that cover the configured base fee cover the
  base fee of every block of the sandbox: it does not rise while no block uses more than half of
  the gas it may (EIP-1559), and the laws below are about nodes whose blocks are no fuller.
\<close>

type_synonym fees = "json \<times> json \<times> json"

definition fees_of :: "dict \<Rightarrow> fees" where
  "fees_of ps = (dict_get ps ''gasPrice'', dict_get ps ''maxFeePerGas'', dict_get ps ''maxPriorityFeePerGas'')"

definition script_fees :: fees where
  "script_fees = (JNull, JStr (py_hex 2000000000), JStr (py_hex 1))"

definition covers :: "fees \<Rightarrow> bool" where
  "covers fs =
     (case fs of
        (JNull, JStr m, JStr p) \<Rightarrow>
          (case (py_int 16 m, py_int 16 p) of
             (Inr f, Inr q) \<Rightarrow> 0 \<le> q \<and> q \<le> f \<and> base_fee_wei \<le> f
           | _ \<Rightarrow> False)
      | _ \<Rightarrow> False)"

lemma script_fees_cover: "covers script_fees"
  by (simp add: covers_def script_fees_def int_of_hex base_fee_wei_def)

text \<open>The gas a transaction of the scenarios is sent with, which is enough for it.\<close>

definition gas_of :: "tx \<Rightarrow> int" where
  "gas_of x = (case x of Transfer _ _ _ \<Rightarrow> transfer_gas | Backrun _ _ _ _ _ _ _ \<Rightarrow> 700000 | _ \<Rightarrow> default_gas)"

section \<open>What the node shows\<close>

text \<open>
  A view of the node: the contracts at the latest block, its number, the number of transactions
  mined of each account, the transactions that wait for a block with their hashes, in the order
  in which the node is going to include them, the outcome, block and index of the mined ones by
  hash, and whether it mines by itself.
\<close>

record chain_view =
  cv_chain :: chain
  cv_height :: int
  cv_nonce :: "address \<Rightarrow> int"
  cv_pool :: "(json \<times> address \<times> tx) list"
  cv_mined :: "json \<Rightarrow> (bool \<times> int \<times> int) option"
  cv_automine :: bool

text \<open>The chain after a transaction, which leaves it as it was when it reverts.\<close>

definition after_call :: "address \<Rightarrow> tx \<Rightarrow> chain \<Rightarrow> chain" where
  "after_call a x c = (case exec_tx a x c of None \<Rightarrow> c | Some c' \<Rightarrow> c')"

text \<open>Including a transaction in a block, and mining a block of those that wait.\<close>

definition include_tx :: "int \<Rightarrow> int \<Rightarrow> json \<times> address \<times> tx \<Rightarrow> chain_view \<Rightarrow> chain_view" where
  "include_tx b i = (\<lambda>(h, a, x) v.
     (let after = exec_tx a x (cv_chain v) in
      v\<lparr>cv_chain := after_call a x (cv_chain v),
        cv_nonce := (cv_nonce v)(a := cv_nonce v a + 1),
        cv_mined := (cv_mined v)(h \<mapsto> (after \<noteq> None, b, i))\<rparr>))"

fun include_all :: "int \<Rightarrow> int \<Rightarrow> (json \<times> address \<times> tx) list \<Rightarrow> chain_view \<Rightarrow> chain_view" where
  "include_all b i [] v = v"
| "include_all b i (p # ps) v = include_all b (i + 1) ps (include_tx b i p v)"

definition block_mined :: "chain_view \<Rightarrow> chain_view" where
  "block_mined v =
     (include_all (cv_height v + 1) 0 (cv_pool v) v)\<lparr>cv_pool := [], cv_height := cv_height v + 1\<rparr>"

text \<open>The gas the waiting transactions may use.\<close>

definition pool_gas :: "(json \<times> address \<times> tx) list \<Rightarrow> int" where
  "pool_gas ps = sum_list (map (\<lambda>(h, a, x). gas_of x) ps)"

definition accepted_tx :: "json \<Rightarrow> address \<Rightarrow> tx \<Rightarrow> chain_view \<Rightarrow> chain_view" where
  "accepted_tx h a x v = v\<lparr>cv_pool := cv_pool v @ [(h, a, x)]\<rparr>"

text \<open>The nonce the next transaction of an account must have: those that wait count.\<close>

definition next_nonce :: "chain_view \<Rightarrow> address \<Rightarrow> int" where
  "next_nonce v a = cv_nonce v a + int (length (filter (\<lambda>(_, b, _). b = a) (cv_pool v)))"

text \<open>
  The parameters: the service's environment, whose \<^verbatim>\<open>node\<close> is the node; the command line tool; the
  view, the fees of the waiting transactions and the saved snapshots of a state of the node; the
  account of a private key; the call data of a call; the transaction that request parameters stand
  for; and the block header of a view.
\<close>

record 'n sandbox =
  sb_env :: "'n env"
  sb_cast :: "json list \<Rightarrow> 'n \<Rightarrow> process_end \<times> 'n"
  sb_view :: "'n \<Rightarrow> chain_view"
  sb_fees :: "'n \<Rightarrow> json \<Rightarrow> fees"
  sb_saved :: "'n \<Rightarrow> json \<Rightarrow> chain_view option"
  sb_signer :: "string \<Rightarrow> address"
  sb_calldata :: "string \<Rightarrow> string list \<Rightarrow> string"
  sb_reads :: "dict \<Rightarrow> (address \<times> tx) option"
  sb_header :: "chain_view \<Rightarrow> dict"

text \<open>A reply without an error member and with this result.\<close>

definition answers :: "transport \<Rightarrow> json \<Rightarrow> bool" where
  "answers reply v \<longleftrightarrow> (\<exists>d. reply = Reply (JObj d) \<and> map_of d ''error'' = None \<and> dict_get d ''result'' = v)"

definition rpc_call :: "'n sandbox \<Rightarrow> int \<Rightarrow> string \<Rightarrow> json list \<Rightarrow> 'n \<Rightarrow> transport \<times> 'n" where
  "rpc_call sb i method params = node (sb_env sb) rpc_url_text (rpc_body i method (JList params))"

text \<open>A step after which the view is the given one and the snapshots are the same.\<close>

definition shows_view :: "'n sandbox \<Rightarrow> 'n \<Rightarrow> 'n \<Rightarrow> chain_view \<Rightarrow> bool" where
  "shows_view sb w w' v \<longleftrightarrow> sb_view sb w' = v \<and> sb_saved sb w' = sb_saved sb w"

section \<open>The laws of the node\<close>

text \<open>Requests that only look, and the passing of time.\<close>

definition law_reading :: "'n sandbox \<Rightarrow> bool" where
  "law_reading sb \<longleftrightarrow> (\<forall>w i.
     (\<exists>r. answers (fst (rpc_call sb i ''eth_blockNumber'' [] w)) r) \<and>
     shows_view sb w (snd (rpc_call sb i ''eth_blockNumber'' [] w)) (sb_view sb w) \<and>
     answers (fst (rpc_call sb i ''eth_getBlockByNumber'' [JStr ''latest'', JBool False] w))
       (JObj (sb_header sb (sb_view sb w))) \<and>
     dict_get (sb_header sb (sb_view sb w)) ''number'' = JStr (py_hex (cv_height (sb_view sb w))) \<and>
     (\<forall>k \<in> {''hash'', ''parentHash'', ''timestamp'', ''baseFeePerGas''}. is_str (dict_get (sb_header sb (sb_view sb w)) k)) \<and>
     shows_view sb w (snd (rpc_call sb i ''eth_getBlockByNumber'' [JStr ''latest'', JBool False] w)) (sb_view sb w) \<and>
     shows_view sb w (snd (uuid_hex (sb_env sb) w)) (sb_view sb w) \<and>
     shows_view sb w (snd (clock (sb_env sb) w)) (sb_view sb w))"

text \<open>A receipt of a mined transaction has its outcome, its block and its index.\<close>

definition receipt_of :: "bool \<times> int \<times> int \<Rightarrow> dict \<Rightarrow> bool" where
  "receipt_of m d \<longleftrightarrow> (case m of (ok, b, i) \<Rightarrow>
     dict_get d ''status'' = JStr (if ok then ''0x1'' else ''0x0'') \<and>
     dict_get d ''blockNumber'' = JStr (py_hex b) \<and> dict_get d ''transactionIndex'' = JStr (py_hex i))"

definition law_receipts :: "'n sandbox \<Rightarrow> bool" where
  "law_receipts sb \<longleftrightarrow> (\<forall>w i h m. cv_mined (sb_view sb w) h = Some m \<longrightarrow>
     (\<exists>d. receipt_of m d \<and> answers (fst (rpc_call sb i ''eth_getTransactionReceipt'' [h] w)) (JObj d)) \<and>
     shows_view sb w (snd (rpc_call sb i ''eth_getTransactionReceipt'' [h] w)) (sb_view sb w))"

text \<open>
  Mining: a block takes all that wait, when their fees cover the base fee and their gas fills it no
  more than half.  And the switch of automatic mining, which changes nothing else while nothing
  waits.
\<close>

definition law_mining :: "'n sandbox \<Rightarrow> bool" where
  "law_mining sb \<longleftrightarrow> (\<forall>w i b.
     (pool_gas (cv_pool (sb_view sb w)) \<le> block_gas_limit div 2 \<longrightarrow>
      (\<forall>p \<in> set (cv_pool (sb_view sb w)). covers (sb_fees sb w (fst p))) \<longrightarrow>
        (\<exists>r. answers (fst (rpc_call sb i ''evm_mine'' [] w)) r) \<and>
        shows_view sb w (snd (rpc_call sb i ''evm_mine'' [] w)) (block_mined (sb_view sb w))) \<and>
     (cv_pool (sb_view sb w) = [] \<longrightarrow>
        (\<exists>r. answers (fst (rpc_call sb i ''evm_setAutomine'' [JBool b] w)) r) \<and>
        shows_view sb w (snd (rpc_call sb i ''evm_setAutomine'' [JBool b] w))
          ((sb_view sb w)\<lparr>cv_automine := b\<rparr>)))"

text \<open>
  While it does not mine by itself, the node takes a transaction it can read, of an account whose
  key it holds, that moves no ether, has the next nonce of its sender, the gas for it and fees that
  cover the base fee, and answers with a new hash.  The node orders what waits by fees, and by
  arrival where they are equal (the default, \<^verbatim>\<open>--order fees\<close>: \<^verbatim>\<open>deploy-local.zsh\<close> does not ask for
  another); so the law says that a transaction comes last only if all that wait offer the same fees.
  What becomes of one that outbids another is left open.
\<close>

definition law_sending :: "'n sandbox \<Rightarrow> bool" where
  "law_sending sb \<longleftrightarrow> (\<forall>w i ps a x n g. \<not> cv_automine (sb_view sb w) \<longrightarrow> sb_reads sb ps = Some (a, x) \<longrightarrow>
     a \<in> address_of ` senders \<longrightarrow> dict_get ps ''value'' = JStr ''0x0'' \<longrightarrow> covers (fees_of ps) \<longrightarrow>
     (\<forall>p \<in> set (cv_pool (sb_view sb w)). sb_fees sb w (fst p) = fees_of ps) \<longrightarrow>
     dict_get ps ''nonce'' = JStr n \<longrightarrow> py_int 16 n = Inr (next_nonce (sb_view sb w) a) \<longrightarrow>
     dict_get ps ''gas'' = JStr g \<longrightarrow> py_int 16 g = Inr (gas_of x) \<longrightarrow>
     (\<exists>h. cv_mined (sb_view sb w) (JStr h) = None \<and> JStr h \<notin> fst ` set (cv_pool (sb_view sb w)) \<and>
        answers (fst (rpc_call sb i ''eth_sendTransaction'' [JObj ps] w)) (JStr h) \<and>
        shows_view sb w (snd (rpc_call sb i ''eth_sendTransaction'' [JObj ps] w))
          (accepted_tx (JStr h) a x (sb_view sb w)) \<and>
        sb_fees sb (snd (rpc_call sb i ''eth_sendTransaction'' [JObj ps] w)) = (sb_fees sb w)(JStr h := fees_of ps)))"

text \<open>A snapshot saves the view under the id it answers; a revert to it brings the view back.\<close>

definition law_snapshots :: "'n sandbox \<Rightarrow> bool" where
  "law_snapshots sb \<longleftrightarrow> (\<forall>w i.
     (\<exists>k. answers (fst (rpc_call sb i ''evm_snapshot'' [] w)) k \<and>
        sb_view sb (snd (rpc_call sb i ''evm_snapshot'' [] w)) = sb_view sb w \<and>
        sb_saved sb (snd (rpc_call sb i ''evm_snapshot'' [] w)) = (sb_saved sb w)(k \<mapsto> sb_view sb w)) \<and>
     (\<forall>k v. sb_saved sb w k = Some v \<longrightarrow>
        answers (fst (rpc_call sb i ''evm_revert'' [k] w)) (JBool True) \<and>
        sb_view sb (snd (rpc_call sb i ''evm_revert'' [k] w)) = v))"

section \<open>The laws of the command line tool\<close>

text \<open>Output that begins with a number: \<^verbatim>\<open>cast\<close> may print a rounded amount after a large one.\<close>

definition prints_number :: "process_end \<Rightarrow> int \<Rightarrow> bool" where
  "prints_number e n \<longleftrightarrow> (\<exists>post. e = Completed (dec n @ post) \<and> (post = [] \<or> is_space (hd post)))"

definition law_cast_reading :: "'n sandbox \<Rightarrow> bool" where
  "law_cast_reading sb \<longleftrightarrow> (\<forall>w.
     (\<forall>c sig args n. value_of (cv_chain (sb_view sb w)) c sig args = Some n \<longrightarrow>
        (let command = strs ([''cast'', ''call'', c, sig] @ args @ [''--rpc-url'', rpc_url_text]) in
         prints_number (fst (sb_cast sb command w)) n \<and>
         shows_view sb w (snd (sb_cast sb command w)) (sb_view sb w))) \<and>
     (\<forall>a. (let command = strs [''cast'', ''nonce'', a, ''--rpc-url'', rpc_url_text] in
        prints_number (fst (sb_cast sb command w)) (cv_nonce (sb_view sb w) (address_of a)) \<and>
        shows_view sb w (snd (sb_cast sb command w)) (sb_view sb w))))"

text \<open>
  The call data of a call: the tool prints it, and the node reads it, from parameters that carry
  it, as the call it encodes.
\<close>

definition law_calldata :: "'n sandbox \<Rightarrow> bool" where
  "law_calldata sb \<longleftrightarrow> (\<forall>c sig args x. call_of c sig args = Some x \<longrightarrow>
     (let data = sb_calldata sb sig args in
      data \<noteq> '''' \<and>
      (\<forall>w. \<exists>out w'. sb_cast sb (strs ([''cast'', ''calldata'', sig] @ args)) w = (Completed out, w') \<and>
         py_strip out = data \<and> shows_view sb w w' (sb_view sb w)) \<and>
      (\<forall>ps a. dict_get ps ''from'' = JStr a \<longrightarrow> dict_get ps ''to'' = JStr c \<longrightarrow> dict_get ps ''data'' = JStr data \<longrightarrow>
         sb_reads sb ps = Some (address_of a, x))))"

text \<open>
  While the node mines by itself, a call that does not revert is sent and mined in a block of its
  own before the command ends.
\<close>

definition cast_send :: "string \<Rightarrow> string \<Rightarrow> string list \<Rightarrow> string \<Rightarrow> json list" where
  "cast_send c sig args key =
     strs ([''cast'', ''send'', c, sig] @ args @ [''--private-key'', key, ''--rpc-url'', rpc_url_text])"

definition law_cast_send :: "'n sandbox \<Rightarrow> bool" where
  "law_cast_send sb \<longleftrightarrow> (\<forall>w c sig args key x. call_of c sig args = Some x \<longrightarrow>
     (let v = sb_view sb w; a = sb_signer sb key in
      cv_automine v \<longrightarrow> cv_pool v = [] \<longrightarrow> exec_tx a x (cv_chain v) \<noteq> None \<longrightarrow>
      (\<exists>out w' h. sb_cast sb (cast_send c sig args key) w = (Completed out, w') \<and>
         cv_mined v h = None \<and> shows_view sb w w' (block_mined (accepted_tx h a x v)))))"

definition sandbox_laws :: "'n sandbox \<Rightarrow> bool" where
  "sandbox_laws sb \<longleftrightarrow> law_reading sb \<and> law_receipts sb \<and> law_mining sb \<and> law_sending sb \<and>
     law_snapshots sb \<and> law_cast_reading sb \<and> law_calldata sb \<and> law_cast_send sb"

section \<open>The machine\<close>

text \<open>
  The scripts' outside: the builder's scripts start and stop the service, any other command is
  \<^verbatim>\<open>cast\<close>, the builder's URL leads to the service, the node's URL to the node, and the deployment
  file is there.
\<close>

definition machine_view :: "'n sandbox \<Rightarrow> 'n machine \<Rightarrow> chain_view" where
  "machine_view sb l = sb_view sb (machine_world l)"

definition put_world :: "'n \<Rightarrow> 'n machine \<Rightarrow> 'n machine" where
  "put_world w l = (case l of Stopped _ \<Rightarrow> Stopped w | Running s \<Rightarrow> Running (s\<lparr>world := w\<rparr>))"

definition on_node :: "('n \<Rightarrow> 'a \<times> 'n) \<Rightarrow> 'n machine \<Rightarrow> 'a \<times> 'n machine" where
  "on_node f l = (case f (machine_world l) of (r, w) \<Rightarrow> (r, put_world w l))"

definition node_http :: "transport \<Rightarrow> http_end" where
  "node_http reply =
     (case reply of
        Reply v \<Rightarrow> HttpReply v
      | HttpErr m \<Rightarrow> HttpStatus m ''''
      | UrlErr m \<Rightarrow> HttpUnreachable m
      | BadBody m \<Rightarrow> HttpRaises (ValueError [Txt m])
      | LibErr m \<Rightarrow> HttpRaises (OtherError m))"

definition sandbox_host ::
  "'n sandbox \<Rightarrow> (response \<Rightarrow> string \<times> string) \<Rightarrow> string \<Rightarrow> string \<Rightarrow> json \<Rightarrow> 'n machine host" where
  "sandbox_host sb page base rdir deployment =
     \<lparr>run_process = (\<lambda>command cwd l.
        if command = [JStr (rdir @ ''/services/block-builder/bin/start-local.zsh'')]
        then (Completed '''', started l)
        else if command = [JStr (rdir @ ''/services/block-builder/bin/cleanup-local.zsh'')]
        then (Completed '''', stopped l)
        else on_node (sb_cast sb command) l),
      http = (\<lambda>method url body l.
        case url of
          Txt b # path \<Rightarrow> if b = base then serve (sb_env sb) page method path body l
                           else (HttpUnreachable ''connection refused'', l)
        | [Val (JStr u)] \<Rightarrow>
            (case body of
               Some v \<Rightarrow> (case on_node (node (sb_env sb) u v) l of (r, l') \<Rightarrow> (node_http r, l'))
             | None \<Rightarrow> (HttpUnreachable ''connection refused'', l))
        | _ \<Rightarrow> (HttpUnreachable ''connection refused'', l)),
      file_exists = (\<lambda>p l. p = rdir @ ''/blockchain/deployments/local.json''),
      file_json = (\<lambda>p l. Inr deployment),
      file_lines = (\<lambda>p l. Inl (OtherError ''no such file'')),
      pause = (\<lambda>d l. l),
      builder_url = base, repo_root = rdir\<rparr>"

end
