(* ===== verification/Sandbox_Example.thy ===== *)
theory Sandbox_Example
  imports Sandbox_Node
begin

text \<open>
  A concrete node and tool that obey the laws of the sandbox: the node keeps the view, the hashes
  it knows and its snapshots, answers the methods the service and the scripts use, and reads the
  call data the tool writes.
\<close>

section \<open>Its state\<close>

text \<open>
  A view is kept with the hashes of its mined transactions, so that a new hash can be found; the
  snapshots are kept with their ids.
\<close>

type_synonym held = "chain_view \<times> json list"

definition seen :: "held \<Rightarrow> chain_view" where
  "seen q = (fst q)\<lparr>cv_mined := cv_mined (fst q) |` set (snd q)\<rparr>"

record small_node =
  sn_held :: held
  sn_fees :: "json \<Rightarrow> fees"
  sn_saves :: "(json \<times> held) list"

definition pool_names :: "chain_view \<Rightarrow> json list" where
  "pool_names v = map fst (cv_pool v)"

text \<open>A hash longer than all of these.\<close>

definition text_size :: "json \<Rightarrow> nat" where
  "text_size j = (case j of JStr s \<Rightarrow> length s | _ \<Rightarrow> 0)"

definition new_name :: "json list \<Rightarrow> string" where
  "new_name ks = replicate (Suc (sum_list (map text_size ks))) (CHR ''a'')"

lemma new_name: "JStr (new_name ks) \<notin> set ks"
proof
  assume "JStr (new_name ks) \<in> set ks"
  then have "text_size (JStr (new_name ks)) \<le> sum_list (map text_size ks)" by (intro member_le_sum_list) auto
  then show False by (simp add: new_name_def text_size_def)
qed

section \<open>Call data\<close>

text \<open>Every character is marked, so that a signature and its arguments can be read again.\<close>

definition marked :: "string \<Rightarrow> string" where
  "marked s = concat (map (\<lambda>c. [CHR ''x'', c]) s) @ ''.''"

fun unmarked :: "string \<Rightarrow> string \<Rightarrow> string list" where
  "unmarked s (m # c # r) = (if m = CHR ''.'' then s # unmarked [] (c # r) else unmarked (s @ [c]) r)"
| "unmarked s [m] = [s]"
| "unmarked s [] = []"

lemma unmarked_marked: "unmarked s (marked t @ r) = (s @ t) # unmarked [] r"
proof (induction t arbitrary: s)
  case Nil
  then show ?case by (cases r) (simp_all add: marked_def)
next
  case (Cons c t)
  then show ?case using Cons.IH [of "s @ [c]"] by (simp add: marked_def)
qed

definition small_calldata :: "string \<Rightarrow> string list \<Rightarrow> string" where
  "small_calldata sig args = ''0x'' @ concat (map marked (sig # args))"

lemma unmarked_all: "unmarked [] (concat (map marked ss)) = ss"
  by (induction ss) (simp_all add: unmarked_marked)

lemma calldata_kept: "py_strip (small_calldata sig args) = small_calldata sig args"
proof -
  have "concat (map marked ss) = [] \<or> last (concat (map marked ss)) = CHR ''.''" for ss
    by (induction ss) (auto simp: marked_def)
  from this [of "sig # args"] have "last (small_calldata sig args) = CHR ''.''"
    by (simp add: small_calldata_def marked_def)
  moreover have "hd (small_calldata sig args) = CHR ''0''" "small_calldata sig args \<noteq> []"
    by (simp_all add: small_calldata_def)
  ultimately show ?thesis by (simp add: py_strip_def strip_id is_space_def)
qed

definition small_reads :: "dict \<Rightarrow> (address \<times> tx) option" where
  "small_reads ps =
     (case (dict_get ps ''from'', dict_get ps ''to'', dict_get ps ''data'') of
        (JStr a, JStr c, JStr d) \<Rightarrow>
          (case unmarked [] (drop 2 d) of
             sig # args \<Rightarrow> map_option (Pair (address_of a)) (call_of c sig args)
           | [] \<Rightarrow> None)
      | _ \<Rightarrow> None)"

section \<open>The node\<close>

definition small_header :: "chain_view \<Rightarrow> dict" where
  "small_header v =
     [(''number'', JStr (py_hex (cv_height v))), (''hash'', JStr ''0xb1''), (''parentHash'', JStr ''0xb0''),
      (''timestamp'', JStr ''0x1''), (''baseFeePerGas'', JStr ''0x3b9aca00'')]"

definition small_receipt :: "bool \<times> int \<times> int \<Rightarrow> dict" where
  "small_receipt = (\<lambda>(ok, b, i).
     [(''status'', JStr (if ok then ''0x1'' else ''0x0'')), (''blockNumber'', JStr (py_hex b)),
      (''transactionIndex'', JStr (py_hex i))])"

definition small_mined :: "held \<Rightarrow> held" where
  "small_mined q = (block_mined (seen q), pool_names (seen q) @ snd q)"

text \<open>A transaction is taken when the node can read it and it has the next nonce and gas enough.\<close>

definition small_send :: "dict \<Rightarrow> held \<Rightarrow> json \<times> held" where
  "small_send ps q =
     (case (small_reads ps, dict_get ps ''nonce'', dict_get ps ''gas'') of
        (Some (a, x), JStr n, JStr g) \<Rightarrow>
          if cv_automine (seen q) \<or> py_int 16 n \<noteq> Inr (next_nonce (seen q) a) \<or> py_int 16 g \<noteq> Inr (gas_of x)
          then (JNull, q)
          else (let h = new_name (pool_names (seen q) @ snd q) in
                (JStr h, (accepted_tx (JStr h) a x (seen q), snd q)))
      | _ \<Rightarrow> (JNull, q))"

definition small_call :: "string \<Rightarrow> json list \<Rightarrow> small_node \<Rightarrow> json \<times> small_node" where
  "small_call method params w =
     (let q = sn_held w; v = seen q in
      if method = ''eth_blockNumber'' then (JStr (py_hex (cv_height v)), w)
      else if method = ''eth_getBlockByNumber'' then (JObj (small_header v), w)
      else if method = ''eth_getTransactionReceipt'' then
        (case params of
           [h] \<Rightarrow> (case cv_mined v h of None \<Rightarrow> JNull | Some m \<Rightarrow> JObj (small_receipt m), w)
         | _ \<Rightarrow> (JNull, w))
      else if method = ''evm_mine'' then (JStr ''0x0'', w\<lparr>sn_held := small_mined q\<rparr>)
      else if method = ''evm_setAutomine'' then
        (case params of
           [JBool b] \<Rightarrow> (JBool True, w\<lparr>sn_held := (v\<lparr>cv_automine := b\<rparr>, snd q)\<rparr>)
         | _ \<Rightarrow> (JNull, w))
      else if method = ''eth_sendTransaction'' then
        (case params of
           [JObj ps] \<Rightarrow> (case small_send ps q of (r, q') \<Rightarrow>
               (r, w\<lparr>sn_held := q', sn_fees := (sn_fees w)(r := fees_of ps)\<rparr>))
         | _ \<Rightarrow> (JNull, w))
      else if method = ''evm_snapshot'' then
        (let k = JInt (int (length (sn_saves w))) in (k, w\<lparr>sn_saves := (k, q) # sn_saves w\<rparr>))
      else if method = ''evm_revert'' then
        (case params of
           [k] \<Rightarrow> (case map_of (sn_saves w) k of
                None \<Rightarrow> (JBool False, w)
              | Some q' \<Rightarrow> (JBool True, w\<lparr>sn_held := q'\<rparr>))
         | _ \<Rightarrow> (JNull, w))
      else (JNull, w))"

definition small_env :: "small_node env" where
  "small_env =
     \<lparr>node = (\<lambda>url body w.
        case body of
          JObj d \<Rightarrow>
            (case (dict_get d ''method'', dict_get d ''params'') of
               (JStr m, JList ps) \<Rightarrow> (case small_call m ps w of (r, w') \<Rightarrow> (Reply (JObj [(''result'', r)]), w'))
             | _ \<Rightarrow> (HttpErr ''bad request'', w))
        | _ \<Rightarrow> (HttpErr ''bad request'', w)),
      sleep = (\<lambda>_ w. w),
      uuid_hex = (\<lambda>w. (''a1'', w)),
      clock = (\<lambda>w. (''2024-01-01T00:00:00+00:00'', w)),
      ws_accept = (\<lambda>c w. (True, w)),
      ws_send = (\<lambda>c m w. (True, w)),
      ws_order = (\<lambda>S. filter (\<lambda>c. c \<in> S) [0..<10])\<rparr>"

section \<open>The tool\<close>

definition json_texts :: "json list \<Rightarrow> string list" where
  "json_texts = map (\<lambda>j. case j of JStr s \<Rightarrow> s | _ \<Rightarrow> [])"

lemma json_texts_strs [simp]: "json_texts (strs ss) = ss"
  by (induction ss) (simp_all add: json_texts_def strs_def)

definition small_signer :: "string \<Rightarrow> address" where
  "small_signer key = (if key = deployer_key_text then address_of deployer_text else address_of victim_text)"

definition small_sent :: "string \<Rightarrow> tx \<Rightarrow> held \<Rightarrow> held" where
  "small_sent key x q =
     (let h = new_name (pool_names (seen q) @ snd q);
          q' = (accepted_tx (JStr h) (small_signer key) x (seen q), snd q) in
      small_mined q')"

definition small_command :: "string list \<Rightarrow> small_node \<Rightarrow> process_end \<times> small_node" where
  "small_command cs w =
     (let q = sn_held w; v = seen q in
      case cs of
        _ # kind # rest \<Rightarrow>
          if kind = ''nonce'' then (Completed (dec (cv_nonce v (address_of (hd rest)))), w)
          else if kind = ''calldata'' then (Completed (small_calldata (hd rest) (tl rest)), w)
          else (case rest of
              c # sig # others \<Rightarrow>
                if kind = ''call'' then
                  (case value_of (cv_chain v) c sig (take (length others - 2) others) of
                     Some n \<Rightarrow> (Completed (dec n), w)
                   | None \<Rightarrow> (Failed ''execution reverted'' '''', w))
                else (case call_of c sig (take (length others - 4) others) of
                     Some x \<Rightarrow> (Completed ''sent'', w\<lparr>sn_held := small_sent (others ! (length others - 3)) x q\<rparr>)
                   | None \<Rightarrow> (Failed ''bad arguments'' '''', w))
            | _ \<Rightarrow> (Failed ''bad arguments'' '''', w))
      | _ \<Rightarrow> (Failed ''bad arguments'' '''', w))"

definition small_sandbox :: "small_node sandbox" where
  "small_sandbox =
     \<lparr>sb_env = small_env,
      sb_cast = (\<lambda>command. small_command (json_texts command)),
      sb_view = (\<lambda>w. seen (sn_held w)),
      sb_fees = sn_fees,
      sb_saved = (\<lambda>w k. map_option seen (map_of (sn_saves w) k)),
      sb_signer = small_signer,
      sb_calldata = small_calldata,
      sb_reads = small_reads,
      sb_header = small_header\<rparr>"

section \<open>It obeys the laws\<close>

lemma small_fields [simp]:
  "sb_env small_sandbox = small_env" "sb_cast small_sandbox c = small_command (json_texts c)"
  "sb_view small_sandbox w = seen (sn_held w)" "sb_fees small_sandbox = sn_fees" "sb_signer small_sandbox = small_signer"
  "sb_calldata small_sandbox = small_calldata" "sb_reads small_sandbox = small_reads"
  "sb_header small_sandbox = small_header"
  by (simp_all add: small_sandbox_def)

lemma small_saved: "sb_saved small_sandbox w k = map_option seen (map_of (sn_saves w) k)"
  by (simp add: small_sandbox_def)

lemma small_rpc [simp]:
  "rpc_call small_sandbox i m ps w =
     (Reply (JObj [(''result'', fst (small_call m ps w))]), snd (small_call m ps w))"
  by (simp add: rpc_call_def rpc_body_def small_env_def split: prod.split)

lemma small_answers [simp]: "answers (Reply (JObj [(''result'', r)])) v \<longleftrightarrow> r = v"
  by (auto simp: answers_def)

lemma include_names:
  "cv_mined (include_all b i ps v) k \<noteq> None \<Longrightarrow> k \<in> fst ` set ps \<or> cv_mined v k \<noteq> None"
  by (induction b i ps v rule: include_all.induct) (auto simp: include_tx_def Let_def split: if_splits)

lemma seen_id: "(\<And>k. cv_mined v k \<noteq> None \<Longrightarrow> k \<in> set ks) \<Longrightarrow> seen (v, ks) = v"
proof -
  assume known: "\<And>k. cv_mined v k \<noteq> None \<Longrightarrow> k \<in> set ks"
  then have "cv_mined v |` set ks = cv_mined v" by (intro ext) (metis restrict_in restrict_out)
  then show ?thesis by (simp add: seen_def)
qed

lemma seen_known: "cv_mined (seen q) k \<noteq> None \<Longrightarrow> k \<in> set (snd q)"
  by (simp add: seen_def restrict_map_def split: if_splits)

lemma seen_mined: "seen (small_mined q) = block_mined (seen q)"
proof -
  have "k \<in> set (pool_names (seen q) @ snd q)" if "cv_mined (block_mined (seen q)) k \<noteq> None" for k
    using include_names [of "cv_height (seen q) + 1" 0 "cv_pool (seen q)" "seen q" k] seen_known [of q k] that
    by (auto simp: block_mined_def pool_names_def)
  then show ?thesis unfolding small_mined_def by (rule seen_id)
qed

lemma seen_keeps:
  "seen ((seen q)\<lparr>cv_automine := b\<rparr>, snd q) = (seen q)\<lparr>cv_automine := b\<rparr>"
  "seen (accepted_tx h a x (seen q), snd q) = accepted_tx h a x (seen q)"
  by (rule seen_id; use seen_known [of q] in \<open>simp add: accepted_tx_def\<close>)+

lemma fresh_name:
  "cv_mined (seen q) (JStr (new_name (pool_names (seen q) @ snd q))) = None"
  "JStr (new_name (pool_names (seen q) @ snd q)) \<notin> fst ` set (cv_pool (seen q))"
  using new_name [of "pool_names (seen q) @ snd q"] seen_known [of q "JStr (new_name (pool_names (seen q) @ snd q))"]
  by (auto simp: pool_names_def)

lemma small_reading: "law_reading small_sandbox"
  by (simp add: law_reading_def small_call_def Let_def shows_view_def small_env_def small_header_def is_str_def)

lemma small_receipts: "law_receipts small_sandbox"
  by (auto simp: law_receipts_def small_call_def Let_def shows_view_def receipt_of_def small_receipt_def)

lemma small_mining: "law_mining small_sandbox"
  by (simp add: law_mining_def small_call_def Let_def shows_view_def seen_mined seen_keeps small_saved fun_eq_iff)

lemma small_sending: "law_sending small_sandbox"
  using fresh_name
  by (auto simp: law_sending_def small_call_def small_send_def Let_def shows_view_def seen_keeps small_saved fun_eq_iff)

lemma small_snapshots: "law_snapshots small_sandbox"
  by (auto simp: law_snapshots_def small_call_def Let_def small_saved fun_eq_iff)

lemma small_calldata_law: "law_calldata small_sandbox"
  unfolding law_calldata_def Let_def
proof (intro allI impI conjI)
  fix c sig args x w
  show "sb_calldata small_sandbox sig args \<noteq> ''''" by (simp add: small_calldata_def)
  show "\<exists>out w'. sb_cast small_sandbox (strs ([''cast'', ''calldata'', sig] @ args)) w = (Completed out, w') \<and>
      py_strip out = sb_calldata small_sandbox sig args \<and> shows_view small_sandbox w w' (sb_view small_sandbox w)"
    by (simp add: small_command_def Let_def calldata_kept shows_view_def)
next
  fix c sig args x ps a
  assume "call_of c sig args = Some x" "dict_get ps ''from'' = JStr a" "dict_get ps ''to'' = JStr c"
    "dict_get ps ''data'' = JStr (sb_calldata small_sandbox sig args)"
  then show "sb_reads small_sandbox ps = Some (address_of a, x)"
    using unmarked_all [of "sig # args"] by (simp add: small_reads_def small_calldata_def)
qed

lemma small_cast_reading: "law_cast_reading small_sandbox"
  by (auto simp: law_cast_reading_def Let_def small_command_def prints_number_def shows_view_def)

lemma small_cast_send: "law_cast_send small_sandbox"
  unfolding law_cast_send_def Let_def
proof (intro allI impI)
  fix w c sig args key x
  assume "call_of c sig args = Some x"
  then have "sb_cast small_sandbox (cast_send c sig args key) w = (Completed ''sent'', w\<lparr>sn_held := small_sent key x (sn_held w)\<rparr>)"
    by (simp add: cast_send_def small_command_def Let_def nth_append)
  then show "\<exists>out w' h. sb_cast small_sandbox (cast_send c sig args key) w = (Completed out, w') \<and>
      cv_mined (sb_view small_sandbox w) h = None \<and>
      shows_view small_sandbox w w' (block_mined (accepted_tx h (sb_signer small_sandbox key) x (sb_view small_sandbox w)))"
    using fresh_name [of "sn_held w"]
    by (auto simp: shows_view_def small_sent_def Let_def seen_mined seen_keeps small_saved fun_eq_iff)
qed

lemma small_laws: "sandbox_laws small_sandbox"
  by (simp add: sandbox_laws_def small_reading small_receipts small_mining small_sending small_snapshots
      small_cast_reading small_calldata_law small_cast_send)

end
