(* ===== verification/Sandbox_Service.thy ===== *)
theory Sandbox_Service
  imports Sandbox_Node
begin

text \<open>
  The service on a node that obeys the laws: what a bundle of one transaction does to the node and
  to the mempool, mined or simulated, and what the handlers answer.
\<close>

section \<open>Requests of the service\<close>

lemma answers_outcome: "answers r v \<Longrightarrow> rpc_outcome r = Inr v"
  by (auto simp: answers_def)

text \<open>A step of the client: its own state, the URL apart, and the view after it.\<close>

definition node_step :: "'n sandbox \<Rightarrow> ('n, 'z) anvil_state_scheme \<Rightarrow> ('n, 'z) anvil_state_scheme \<Rightarrow> chain_view \<Rightarrow> bool"
  where
  "node_step sb s t v \<longleftrightarrow> anvil_frame s t \<and> shows_view sb (world s) (world t) v"

lemma node_step_trans: "node_step sb s t v \<Longrightarrow> node_step sb t u v' \<Longrightarrow> node_step sb s u v'"
  using anvil_frame.step_trans by (auto simp: node_step_def shows_view_def)

lemma node_stepD:
  assumes "node_step sb s t v"
  shows "rpcUrl t = rpcUrl s" "sb_view sb (world t) = v" "sb_saved sb (world t) = sb_saved sb (world s)"
  using assms by (simp_all add: node_step_def anvil_frame_def shows_view_def)

lemma rpc_step_to:
  assumes "rpcUrl s = rpc_url_text" and "answers (fst (rpc_call sb (requestId s + 1) m ps (world s))) r"
    and "shows_view sb (world s) (snd (rpc_call sb (requestId s + 1) m ps (world s))) v"
  shows "\<exists>t. anvil_rpc (sb_env sb) m (JList ps) s = (Inr r, t) \<and> node_step sb s t v \<and>
    world t = snd (rpc_call sb (requestId s + 1) m ps (world s))"
  using assms answers_outcome [OF assms(2)]
  by (simp add: anvil_rpc_run Let_def rpc_call_def node_step_def anvil_frame_def)

lemma rpc_step:
  assumes "rpcUrl s = rpc_url_text" and "answers (fst (rpc_call sb (requestId s + 1) m ps (world s))) r"
    and "shows_view sb (world s) (snd (rpc_call sb (requestId s + 1) m ps (world s))) v"
  shows "\<exists>t. anvil_rpc (sb_env sb) m (JList ps) s = (Inr r, t) \<and> node_step sb s t v"
  using rpc_step_to [OF assms] by blast

section \<open>A block\<close>

text \<open>Which of a sequence of calls go through, and the chain after all of them.\<close>

fun outcomes :: "(address \<times> tx) list \<Rightarrow> chain \<Rightarrow> bool list" where
  "outcomes [] c = []"
| "outcomes ((a, x) # xs) c = (exec_tx a x c \<noteq> None) # outcomes xs (after_call a x c)"

fun after_calls :: "(address \<times> tx) list \<Rightarrow> chain \<Rightarrow> chain" where
  "after_calls [] c = c"
| "after_calls ((a, x) # xs) c = after_calls xs (after_call a x c)"

lemma outcomes_length [simp]: "length (outcomes xs c) = length xs"
  by (induction xs c rule: outcomes.induct) simp_all

lemma include_all_frame:
  "cv_automine (include_all b i ps v) = cv_automine v" "cv_height (include_all b i ps v) = cv_height v"
  "cv_chain (include_all b i ps v) = after_calls (map snd ps) (cv_chain v)"
  "h \<notin> fst ` set ps \<Longrightarrow> cv_mined (include_all b i ps v) h = cv_mined v h"
  by (induction b i ps v rule: include_all.induct) (auto simp: include_tx_def Let_def)

lemma include_all_mined:
  assumes "distinct (map fst ps)" and "j < length ps"
  shows "cv_mined (include_all b i ps v) (fst (ps ! j)) =
    Some (outcomes (map snd ps) (cv_chain v) ! j, b, i + int j)"
  using assms
proof (induction b i ps v arbitrary: j rule: include_all.induct)
  case (2 b i p ps v)
  obtain h a x where p: "p = (h, a, x)" by (cases p)
  show ?case
  proof (cases j)
    case 0
    have "h \<notin> fst ` set ps" using 2(2) p by simp
    then show ?thesis using 0 p by (simp add: include_all_frame(4)) (simp add: include_tx_def Let_def)
  next
    case (Suc m)
    have "cv_mined (include_all b (i + 1) ps (include_tx b i p v)) (fst (ps ! m)) =
        Some (outcomes (map snd ps) (cv_chain (include_tx b i p v)) ! m, b, i + 1 + int m)"
      using 2(1)[of m] 2(2,3) Suc by simp
    then show ?thesis using Suc p by (simp add: include_tx_def Let_def)
  qed
qed simp

text \<open>One transaction in a block of its own.\<close>

lemma one_block:
  assumes "cv_pool v = []"
  shows "block_mined (accepted_tx h a x v) =
    v\<lparr>cv_chain := after_call a x (cv_chain v),
      cv_nonce := (cv_nonce v)(a := cv_nonce v a + 1),
      cv_mined := (cv_mined v)(h \<mapsto> (exec_tx a x (cv_chain v) \<noteq> None, cv_height v + 1, 0)),
      cv_height := cv_height v + 1\<rparr>"
  using assms by (cases v) (simp add: block_mined_def accepted_tx_def include_tx_def Let_def)

section \<open>Bundles\<close>

text \<open>
  A transaction the node takes: it reads it as the call of one of the accounts, the nonce is the
  next one, it moves no ether and its fees cover the base fee.
\<close>

abbreviation tx_fees :: "Transaction \<Rightarrow> fees" where
  "tx_fees t \<equiv> fees_of (Transaction_toRpcParams t)"

definition takes_next :: "'n sandbox \<Rightarrow> chain_view \<Rightarrow> Transaction \<Rightarrow> address \<Rightarrow> tx \<Rightarrow> bool" where
  "takes_next sb v t a x \<longleftrightarrow>
     sb_reads sb (Transaction_toRpcParams t) = Some (a, x) \<and> a \<in> address_of ` senders \<and>
     tx_value t = ''0x0'' \<and> covers (tx_fees t) \<and>
     py_int 16 (tx_nonce t) = Inr (next_nonce v a) \<and> py_int 16 (tx_gas t) = Inr (gas_of x)"

text \<open>The transactions of a bundle, which the node takes one after the other, each with those before it waiting.\<close>

fun takes_all :: "'n sandbox \<Rightarrow> chain_view \<Rightarrow> BundleItem list \<Rightarrow> (address \<times> tx) list \<Rightarrow> bool" where
  "takes_all sb v [] [] = True"
| "takes_all sb v (it # its) ((a, x) # xs) =
     (takes_next sb v (bi_transaction it) a x \<and> takes_all sb (accepted_tx JNull a x v) its xs)"
| "takes_all sb v _ _ = False"

lemma takes_all_nonces:
  "takes_all sb v its xs \<Longrightarrow> next_nonce v = next_nonce w \<Longrightarrow> takes_all sb w its xs"
proof (induction sb v its xs arbitrary: w rule: takes_all.induct)
  case (2 sb v it its a x xs)
  have "next_nonce (accepted_tx JNull a x v) = next_nonce (accepted_tx JNull a x w)"
    using fun_cong [OF 2(3)] by (auto simp: next_nonce_def accepted_tx_def fun_eq_iff split: if_splits)
  then show ?case using 2 by (simp add: takes_next_def)
qed simp_all

text \<open>The answer of the service to a bundle: an entry for each transaction, by its index in the block.\<close>

definition bundle_entry :: "int \<Rightarrow> int \<Rightarrow> string option \<times> json \<times> bool \<times> dict \<Rightarrow> json" where
  "bundle_entry b i = (\<lambda>(k, h, ok, d).
     JObj [(''mempoolTxId'', opt_json k), (''chainTxHash'', h),
           (''status'', JStr (if ok then ''included'' else ''reverted'')),
           (''blockNumber'', JStr (py_hex b)), (''transactionIndex'', JStr (py_hex i)),
           (''receipt'', JObj d)])"

fun bundle_entries :: "int \<Rightarrow> int \<Rightarrow> (string option \<times> json \<times> bool \<times> dict) list \<Rightarrow> json list" where
  "bundle_entries b i [] = []"
| "bundle_entries b i (e # es) = bundle_entry b i e # bundle_entries b (i + 1) es"

definition bundle_answer :: "int \<Rightarrow> (string option \<times> json \<times> bool \<times> dict) list \<Rightarrow> dict" where
  "bundle_answer b es =
     [(''status'', JStr (if list_all (\<lambda>(k, h, ok, d). ok) es then ''included'' else ''failed'')),
      (''transactions'', JList (bundle_entries b 0 es))]"

definition one_entry :: "string option \<Rightarrow> json \<Rightarrow> bool \<Rightarrow> int \<Rightarrow> dict \<Rightarrow> json" where
  "one_entry k h ok b d = bundle_entry b 0 (k, h, ok, d)"

definition one_result :: "string option \<Rightarrow> json \<Rightarrow> bool \<Rightarrow> int \<Rightarrow> dict \<Rightarrow> dict" where
  "one_result k h ok b d =
     [(''status'', JStr (if ok then ''included'' else ''failed'')),
      (''transactions'', JList [one_entry k h ok b d])]"

lemma params_fields:
  "dict_get (Transaction_toRpcParams t) ''nonce'' = JStr (tx_nonce t)"
  "dict_get (Transaction_toRpcParams t) ''gas'' = JStr (tx_gas t)"
  "dict_get (Transaction_toRpcParams t) ''from'' = JStr (tx_fromAddress t)"
  "dict_get (Transaction_toRpcParams t) ''to'' = opt_json (tx_toAddress t)"
  "dict_get (Transaction_toRpcParams t) ''data'' = JStr (tx_input t)"
  "dict_get (Transaction_toRpcParams t) ''value'' = JStr (tx_value t)"
  "tx_fees t = (opt_json (tx_gasPrice t), opt_json (tx_maxFeePerGas t), opt_json (tx_maxPriorityFeePerGas t))"
  by (simp_all add: Transaction_toRpcParams_def set_if_some_def fees_of_def split: option.split)

text \<open>The gas a sequence of calls may use.\<close>

definition calls_gas :: "(address \<times> tx) list \<Rightarrow> int" where
  "calls_gas xs = sum_list (map (\<lambda>(a, x). gas_of x) xs)"

lemma calls_pool_gas: "length hs = length xs \<Longrightarrow> pool_gas (zip hs xs) = calls_gas xs"
  by (induction hs xs rule: list_induct2) (auto simp: pool_gas_def calls_gas_def)

lemma gas_small: "gas_of x \<le> 700000"
  by (simp add: gas_of_def default_gas_def transfer_gas_def split: tx.split)

text \<open>The three kinds of request of an execution.\<close>

lemma send_step:
  assumes laws: "sandbox_laws sb" and url: "rpcUrl s = rpc_url_text"
    and v: "sb_view sb (world s) = v" "\<not> cv_automine v" and tx: "takes_next sb v t a x"
    and fees: "\<forall>p \<in> set (cv_pool v). sb_fees sb (world s) (fst p) = tx_fees t"
  shows "\<exists>n s1. anvil_sendTransaction (sb_env sb) t s = (Inr (JStr n), s1) \<and>
    node_step sb s s1 (accepted_tx (JStr n) a x v) \<and> cv_mined v (JStr n) = None \<and> JStr n \<notin> fst ` set (cv_pool v) \<and>
    (\<forall>p \<in> set (cv_pool (accepted_tx (JStr n) a x v)). sb_fees sb (world s1) (fst p) = tx_fees t)"
proof -
  have send: "law_sending sb" using laws by (simp add: sandbox_laws_def)
  obtain n where n: "cv_mined v (JStr n) = None" "JStr n \<notin> fst ` set (cv_pool v)"
      "answers (fst (rpc_call sb (requestId s + 1) ''eth_sendTransaction'' [JObj (Transaction_toRpcParams t)] (world s))) (JStr n)"
      "shows_view sb (world s) (snd (rpc_call sb (requestId s + 1) ''eth_sendTransaction''
         [JObj (Transaction_toRpcParams t)] (world s))) (accepted_tx (JStr n) a x v)"
      "sb_fees sb (snd (rpc_call sb (requestId s + 1) ''eth_sendTransaction''
         [JObj (Transaction_toRpcParams t)] (world s))) = (sb_fees sb (world s))(JStr n := tx_fees t)"
    using send [unfolded law_sending_def, rule_format, of "world s" "Transaction_toRpcParams t"
        a x "tx_nonce t" "tx_gas t" "requestId s + 1"] v tx fees
    unfolding takes_next_def params_fields(1-6) by auto
  obtain s1 where s1: "anvil_sendTransaction (sb_env sb) t s = (Inr (JStr n), s1)"
    "node_step sb s s1 (accepted_tx (JStr n) a x v)"
    "world s1 = snd (rpc_call sb (requestId s + 1) ''eth_sendTransaction'' [JObj (Transaction_toRpcParams t)] (world s))"
    using rpc_step_to [OF url n(3,4)] by (auto simp: anvil_sendTransaction_def)
  have "\<forall>p \<in> set (cv_pool (accepted_tx (JStr n) a x v)). sb_fees sb (world s1) (fst p) = tx_fees t"
    using n(2,5) fees by (auto simp: s1(3) accepted_tx_def)
  then show ?thesis using s1(1,2) n(1,2) by blast
qed

lemma mine_step:
  assumes laws: "sandbox_laws sb" and url: "rpcUrl s = rpc_url_text" and v: "sb_view sb (world s) = v"
    and gas: "pool_gas (cv_pool v) \<le> block_gas_limit div 2"
    and fees: "\<forall>p \<in> set (cv_pool v). covers (sb_fees sb (world s) (fst p))"
  shows "\<exists>t. anvil_mineBlock (sb_env sb) s = (Inr (), t) \<and> node_step sb s t (block_mined v)"
proof -
  have mine: "law_mining sb" using laws by (simp add: sandbox_laws_def)
  obtain r where r: "answers (fst (rpc_call sb (requestId s + 1) ''evm_mine'' [] (world s))) r"
    "shows_view sb (world s) (snd (rpc_call sb (requestId s + 1) ''evm_mine'' [] (world s))) (block_mined v)"
    using mine v gas fees unfolding law_mining_def by metis
  obtain t where "anvil_rpc (sb_env sb) ''evm_mine'' (JList []) s = (Inr r, t)" "node_step sb s t (block_mined v)"
    using rpc_step [OF url r] by auto
  then show ?thesis by (simp add: anvil_mineBlock_def pbind_def)
qed

lemma receipt_step:
  assumes laws: "sandbox_laws sb" and url: "rpcUrl s = rpc_url_text" and v: "sb_view sb (world s) = v"
    and m: "cv_mined v h = Some m"
  shows "\<exists>d t. anvil_waitForReceipt (sb_env sb) h receipt_attempts receipt_delay s = (Inr (JObj d), t) \<and>
    node_step sb s t v \<and> receipt_of m d"
proof -
  have rec: "law_receipts sb" using laws by (simp add: sandbox_laws_def)
  obtain d where d: "receipt_of m d"
    "answers (fst (rpc_call sb (requestId s + 1) ''eth_getTransactionReceipt'' [h] (world s))) (JObj d)"
    "shows_view sb (world s) (snd (rpc_call sb (requestId s + 1) ''eth_getTransactionReceipt'' [h] (world s))) v"
    using rec [unfolded law_receipts_def, rule_format, of "world s" h m] m v by metis
  obtain t where "anvil_getReceipt (sb_env sb) h s = (Inr (JObj d), t)" "node_step sb s t v"
    using rpc_step [OF url d(2,3)] by (auto simp: anvil_getReceipt_def)
  then show ?thesis using d(1) by (auto simp: receipt_attempts_def numeral_eq_Suc pbind_def)
qed

lemma receipt_read:
  assumes "receipt_of (ok, b, i) d"
  shows "statusFromReceipt (JObj d) = Inr (JStr (if ok then ''included'' else ''reverted''))"
    "txResult it h (JObj d) = Inr (bundle_entry b i (bi_mempoolTxId it, h, ok, d))"
  using assms by (auto simp: statusFromReceipt_def txResult_def receipt_of_def bundle_entry_def)

text \<open>All transactions of a bundle sent, and all receipts read.\<close>

lemma node_step_refl: "sb_view sb (world s) = v \<Longrightarrow> node_step sb s s v"
  by (simp add: node_step_def shows_view_def anvil_frame_def)

lemma send_all:
  assumes laws: "sandbox_laws sb"
  shows "rpcUrl s = rpc_url_text \<Longrightarrow> sb_view sb (world s) = v \<Longrightarrow> \<not> cv_automine v \<Longrightarrow> takes_all sb v its xs \<Longrightarrow>
    distinct (map fst (cv_pool v)) \<Longrightarrow> \<forall>it \<in> set its. tx_fees (bi_transaction it) = fs \<Longrightarrow>
    \<forall>p \<in> set (cv_pool v). sb_fees sb (world s) (fst p) = fs \<Longrightarrow>
    \<exists>hs t. pmap (\<lambda>it. anvil_sendTransaction (sb_env sb) (bi_transaction it)) its s = (Inr hs, t) \<and> length hs = length xs \<and>
      node_step sb s t (v\<lparr>cv_pool := cv_pool v @ zip hs xs\<rparr>) \<and> distinct (map fst (cv_pool v) @ hs) \<and>
      (\<forall>p \<in> set (cv_pool v @ zip hs xs). sb_fees sb (world t) (fst p) = fs)"
proof (induction its arbitrary: xs s v)
  case Nil
  then have "xs = []" by (cases xs) auto
  then show ?case using Nil by (simp add: node_step_refl)
next
  case (Cons it its)
  obtain a x ys where xs: "xs = (a, x) # ys" and tx: "takes_next sb v (bi_transaction it) a x"
    and rest: "takes_all sb (accepted_tx JNull a x v) its ys"
    using Cons.prems(4) by (cases xs) auto
  obtain n s1 where s1: "anvil_sendTransaction (sb_env sb) (bi_transaction it) s = (Inr (JStr n), s1)"
    "node_step sb s s1 (accepted_tx (JStr n) a x v)" "JStr n \<notin> fst ` set (cv_pool v)"
    "\<forall>p \<in> set (cv_pool (accepted_tx (JStr n) a x v)). sb_fees sb (world s1) (fst p) = fs"
    using send_step [OF laws Cons.prems(1,2,3) tx] Cons.prems(6,7) by auto
  let ?v = "accepted_tx (JStr n) a x v"
  note d1 = node_stepD [OF s1(2)]
  have "next_nonce (accepted_tx JNull a x v) = next_nonce ?v"
    by (simp add: next_nonce_def accepted_tx_def fun_eq_iff)
  note rest' = takes_all_nonces [OF rest this]
  have pool: "cv_pool ?v = cv_pool v @ [(JStr n, a, x)]" "\<not> cv_automine ?v"
    using Cons.prems(3) by (simp_all add: accepted_tx_def)
  have "distinct (map fst (cv_pool ?v))" using pool s1(3) Cons.prems(5) by simp
  from Cons.IH [OF _ d1(2) pool(2) rest' this _ s1(4)] obtain hs t where
    t: "pmap (\<lambda>it. anvil_sendTransaction (sb_env sb) (bi_transaction it)) its s1 = (Inr hs, t)" "length hs = length ys"
      "node_step sb s1 t (?v\<lparr>cv_pool := cv_pool ?v @ zip hs ys\<rparr>)" "distinct (map fst (cv_pool ?v) @ hs)"
      "\<forall>p \<in> set (cv_pool ?v @ zip hs ys). sb_fees sb (world t) (fst p) = fs"
    using d1(1) Cons.prems(1,6) by auto
  have "?v\<lparr>cv_pool := cv_pool ?v @ zip hs ys\<rparr> = v\<lparr>cv_pool := cv_pool v @ zip (JStr n # hs) xs\<rparr>"
    by (simp add: accepted_tx_def xs)
  with t show ?case
    using s1(1) node_step_trans [OF s1(2) t(3)] pool(1) xs
    by (intro exI [of _ "JStr n # hs"] exI [of _ t]) (simp add: pbind_def)
qed

lemma receipts_all:
  assumes laws: "sandbox_laws sb"
  shows "rpcUrl s = rpc_url_text \<Longrightarrow> sb_view sb (world s) = v \<Longrightarrow> length oks = length hs \<Longrightarrow> length its = length hs \<Longrightarrow>
    \<forall>j < length hs. cv_mined v (hs ! j) = Some (oks ! j, b, i + int j) \<Longrightarrow>
    \<exists>ds t. pmap (\<lambda>h. anvil_waitForReceipt (sb_env sb) h receipt_attempts receipt_delay) hs s = (Inr (map JObj ds), t) \<and>
      node_step sb s t v \<and> length ds = length hs \<and> all_included (map JObj ds) = Inr (list_all (\<lambda>ok. ok) oks) \<and>
      rmap (\<lambda>(item, h, r). txResult item h r) (zip its (zip hs (map JObj ds))) =
        Inr (bundle_entries b i (zip (map bi_mempoolTxId its) (zip hs (zip oks ds))))"
proof (induction hs arbitrary: oks its i s)
  case Nil
  then show ?case by (simp add: node_step_refl)
next
  case (Cons h hs)
  obtain ok oks' it its' where o': "oks = ok # oks'" "its = it # its'"
    using Cons.prems(3,4) by (cases oks; cases its) auto
  have m: "cv_mined v h = Some (ok, b, i)" using Cons.prems(5) o' by (auto dest: spec [of _ 0])
  obtain d s1 where s1: "anvil_waitForReceipt (sb_env sb) h receipt_attempts receipt_delay s = (Inr (JObj d), s1)"
    "node_step sb s s1 v" "receipt_of (ok, b, i) d"
    using receipt_step [OF laws Cons.prems(1,2) m] by blast
  note d1 = node_stepD [OF s1(2)]
  have pre: "rpcUrl s1 = rpc_url_text" "length oks' = length hs" "length its' = length hs"
    using d1(1) Cons.prems(1,3,4) o' by simp_all
  have "\<forall>j < length hs. cv_mined v (hs ! j) = Some (oks' ! j, b, (i + 1) + int j)"
  proof (intro allI impI)
    fix j
    assume "j < length hs"
    then show "cv_mined v (hs ! j) = Some (oks' ! j, b, (i + 1) + int j)"
      using Cons.prems(5) [THEN spec, of "Suc j"] o' by (simp add: add.assoc)
  qed
  from Cons.IH [OF pre(1) d1(2) pre(2,3) this] obtain ds t where
    t: "pmap (\<lambda>h. anvil_waitForReceipt (sb_env sb) h receipt_attempts receipt_delay) hs s1 = (Inr (map JObj ds), t)"
      "node_step sb s1 t v" "length ds = length hs" "all_included (map JObj ds) = Inr (list_all (\<lambda>ok. ok) oks')"
      "rmap (\<lambda>(item, h, r). txResult item h r) (zip its' (zip hs (map JObj ds))) =
        Inr (bundle_entries b (i + 1) (zip (map bi_mempoolTxId its') (zip hs (zip oks' ds))))"
    by blast
  show ?case
    using s1(1) t(1,3-5) node_step_trans [OF s1(2) t(2)] receipt_read [OF s1(3)] o'
    by (intro exI [of _ "d # ds"] exI [of _ t]) (simp add: pbind_def)
qed

text \<open>
  An executed bundle: the transactions take effect one after the other in one block, and the answer
  tells of each whether it went through.
\<close>

lemma execute_all:
  assumes laws: "sandbox_laws sb" and url: "rpcUrl s = rpc_url_text"
    and v: "sb_view sb (world s) = v" "cv_pool v = []" "\<not> cv_automine v" and tx: "takes_all sb v its xs"
    and fees: "\<forall>it \<in> set its. tx_fees (bi_transaction it) = fs" and gas: "calls_gas xs \<le> block_gas_limit div 2"
  shows "\<exists>hs ds t. BundleBuilder_executeBundle (sb_env sb) \<lparr>bundle_items = its\<rparr> s =
        (Inr (bundle_answer (cv_height v + 1) (zip (map bi_mempoolTxId its) (zip hs (zip (outcomes xs (cv_chain v)) ds)))), t) \<and>
      length hs = length xs \<and> length ds = length xs \<and> length its = length xs \<and>
      node_step sb s t (block_mined (v\<lparr>cv_pool := zip hs xs\<rparr>))"
proof -
  let ?env = "sb_env sb"
  obtain hs s1 where s1: "pmap (\<lambda>it. anvil_sendTransaction ?env (bi_transaction it)) its s = (Inr hs, s1)"
    "length hs = length xs" "node_step sb s s1 (v\<lparr>cv_pool := zip hs xs\<rparr>)" "distinct hs"
    "\<forall>p \<in> set (zip hs xs). sb_fees sb (world s1) (fst p) = fs"
    using send_all [OF laws url v(1,3) tx _ fees] v(2) by auto
  let ?w = "v\<lparr>cv_pool := zip hs xs\<rparr>"
  have its: "length its = length hs" using pmap_length [OF s1(1)] by simp
  note d1 = node_stepD [OF s1(3)]
  have "xs = [] \<or> covers fs"
    using tx fees by (cases its; cases xs) (auto simp: takes_next_def)
  then have "\<forall>p \<in> set (cv_pool ?w). covers (sb_fees sb (world s1) (fst p))" using s1(5) by auto
  moreover have "pool_gas (cv_pool ?w) \<le> block_gas_limit div 2" using gas calls_pool_gas [OF s1(2)] by simp
  ultimately obtain s2 where s2: "anvil_mineBlock ?env s1 = (Inr (), s2)" "node_step sb s1 s2 (block_mined ?w)"
    using mine_step [OF laws _ d1(2)] d1(1) url by auto
  note d2 = node_stepD [OF s2(2)]
  have url2: "rpcUrl s2 = rpc_url_text" using d1(1) d2(1) url by simp
  have mined: "cv_mined (block_mined ?w) (hs ! j) = Some (outcomes xs (cv_chain v) ! j, cv_height v + 1, 0 + int j)"
    if "j < length hs" for j
  proof -
    have "distinct (map fst (zip hs xs))" using s1(2,4) by simp
    from include_all_mined [OF this, of j "cv_height v + 1" 0 ?w] show ?thesis
      using that s1(2) by (simp add: block_mined_def)
  qed
  have lens: "length (outcomes xs (cv_chain v)) = length hs" using s1(2) by simp
  obtain ds s3 where s3: "pmap (\<lambda>h. anvil_waitForReceipt ?env h receipt_attempts receipt_delay) hs s2 = (Inr (map JObj ds), s3)"
    "node_step sb s2 s3 (block_mined ?w)" "length ds = length hs"
    "all_included (map JObj ds) = Inr (list_all (\<lambda>ok. ok) (outcomes xs (cv_chain v)))"
    "rmap (\<lambda>(item, h, r). txResult item h r) (zip its (zip hs (map JObj ds))) =
      Inr (bundle_entries (cv_height v + 1) 0 (zip (map bi_mempoolTxId its) (zip hs (zip (outcomes xs (cv_chain v)) ds))))"
    using receipts_all [OF laws url2 d2(2) lens its, of "cv_height v + 1" 0] mined by auto
  have all: "list_all (\<lambda>(k, h, ok, d). ok) (zip (map bi_mempoolTxId its) (zip hs (zip (outcomes xs (cv_chain v)) ds))) =
      list_all (\<lambda>ok. ok) (outcomes xs (cv_chain v))"
    using its lens s3(3) by (auto simp: list_all_length)
  have "BundleBuilder_executeBundle ?env \<lparr>bundle_items = its\<rparr> s =
      (Inr (bundle_answer (cv_height v + 1) (zip (map bi_mempoolTxId its) (zip hs (zip (outcomes xs (cv_chain v)) ds)))), s3)"
    using s1(1) s2(1) s3(1,4,5) all
    by (simp add: BundleBuilder_executeBundle_def pbind_def bundle_answer_def)
  moreover have "node_step sb s s3 (block_mined ?w)"
    by (rule node_step_trans [OF node_step_trans [OF s1(3) s2(2)] s3(2)])
  ultimately show ?thesis using s1(2) s3(3) its by (intro exI conjI) (assumption+, simp_all)
qed


lemma execute_one:
  assumes laws: "sandbox_laws sb" and url: "rpcUrl s = rpc_url_text"
    and v: "v = sb_view sb (world s)" "cv_pool v = []" "\<not> cv_automine v"
    and tx: "takes_next sb v (bi_transaction it) a x"
  shows "\<exists>h d t. BundleBuilder_executeBundle (sb_env sb) \<lparr>bundle_items = [it]\<rparr> s =
        (Inr (one_result (bi_mempoolTxId it) h (exec_tx a x (cv_chain v) \<noteq> None) (cv_height v + 1) d), t) \<and>
      node_step sb s t (block_mined (accepted_tx h a x v))"
proof -
  obtain hs ds t where r: "BundleBuilder_executeBundle (sb_env sb) \<lparr>bundle_items = [it]\<rparr> s =
      (Inr (bundle_answer (cv_height v + 1) (zip (map bi_mempoolTxId [it]) (zip hs (zip (outcomes [(a, x)] (cv_chain v)) ds)))), t)"
    "length hs = 1" "length ds = 1" "node_step sb s t (block_mined (v\<lparr>cv_pool := zip hs [(a, x)]\<rparr>))"
    using execute_all [OF laws url v(1) [symmetric] v(2,3), of "[it]" "[(a, x)]" "tx_fees (bi_transaction it)"]
      tx gas_small [of x] by (auto simp: calls_gas_def block_gas_limit_def)
  obtain h d where hd: "hs = [h]" "ds = [d]" using r(2,3) by (auto simp: length_Suc_conv)
  have "v\<lparr>cv_pool := zip hs [(a, x)]\<rparr> = accepted_tx h a x v" using v(2) hd by (simp add: accepted_tx_def)
  then show ?thesis
    using r(1,4) hd by (auto simp: bundle_answer_def one_result_def one_entry_def)
qed

text \<open>A simulation of it: the same answer, and the node shows what it showed before.\<close>

lemma simulate_one:
  assumes laws: "sandbox_laws sb" and url: "rpcUrl s = rpc_url_text"
    and v: "v = sb_view sb (world s)" "cv_pool v = []" "\<not> cv_automine v"
    and tx: "takes_next sb v (bi_transaction it) a x"
  shows "\<exists>h d t. BundleBuilder_simulateBundle (sb_env sb) \<lparr>bundle_items = [it]\<rparr> s =
        (Inr (dict_set (one_result (bi_mempoolTxId it) h (exec_tx a x (cv_chain v) \<noteq> None) (cv_height v + 1) d)
           ''simulated'' (JBool True)), t) \<and>
      anvil_frame s t \<and> sb_view sb (world t) = v"
proof -
  let ?env = "sb_env sb"
  have snap: "law_snapshots sb" using laws by (simp add: sandbox_laws_def)
  let ?c = "rpc_call sb (requestId s + 1) ''evm_snapshot'' [] (world s)"
  obtain k where k: "answers (fst ?c) k" "sb_view sb (snd ?c) = v" "sb_saved sb (snd ?c) = (sb_saved sb (world s))(k \<mapsto> v)"
    using snap v(1) unfolding law_snapshots_def by metis
  define s1 where "s1 = s\<lparr>requestId := requestId s + 1, world := snd ?c\<rparr>"
  have s1: "anvil_snapshot ?env s = (Inr k, s1)"
    using answers_outcome [OF k(1)] url by (simp add: anvil_snapshot_def anvil_rpc_run Let_def rpc_call_def s1_def)
  have v1: "sb_view sb (world s1) = v" "rpcUrl s1 = rpc_url_text" "anvil_frame s s1"
    using k(2) url by (simp_all add: s1_def anvil_frame_def)
  obtain h d s2 where s2: "BundleBuilder_executeBundle ?env \<lparr>bundle_items = [it]\<rparr> s1 =
      (Inr (one_result (bi_mempoolTxId it) h (exec_tx a x (cv_chain v) \<noteq> None) (cv_height v + 1) d), s2)"
    "node_step sb s1 s2 (block_mined (accepted_tx h a x v))"
    using execute_one [OF laws v1(2) v1(1) [symmetric] v(2,3) tx] by blast
  let ?r = "rpc_call sb (requestId s2 + 1) ''evm_revert'' [k] (world s2)"
  have "sb_saved sb (world s2) k = Some v"
    using node_stepD(3) [OF s2(2)] k(3) by (simp add: s1_def)
  then have r: "answers (fst ?r) (JBool True)" "sb_view sb (snd ?r) = v"
    using snap unfolding law_snapshots_def by blast+
  define s3 where "s3 = s2\<lparr>requestId := requestId s2 + 1, world := snd ?r\<rparr>"
  have s3: "anvil_revert ?env k s2 = (Inr (), s3)"
    using answers_outcome [OF r(1)] node_stepD(1) [OF s2(2)] v1(2)
    by (simp add: anvil_revert_def anvil_rpc_run pbind_def Let_def rpc_call_def s3_def)
  have "BundleBuilder_simulateBundle ?env \<lparr>bundle_items = [it]\<rparr> s =
      (Inr (dict_set (one_result (bi_mempoolTxId it) h (exec_tx a x (cv_chain v) \<noteq> None) (cv_height v + 1) d)
         ''simulated'' (JBool True)), s3)"
    using s1 s2(1) s3 by (simp add: BundleBuilder_simulateBundle_def pbind_def pfinally_def)
  moreover have "anvil_frame s2 s3" by (simp add: s3_def anvil_frame_def)
  then have "anvil_frame s s3"
    using v1(3) s2(2) anvil_frame.step_trans unfolding node_step_def by blast
  moreover have "sb_view sb (world s3) = v" using r(2) by (simp add: s3_def)
  ultimately show ?thesis by blast
qed

section \<open>The handlers\<close>

text \<open>The service serves on the node, with nobody connected to its websocket.\<close>

definition serving :: "'n sandbox \<Rightarrow> 'n app_state \<Rightarrow> chain_view \<Rightarrow> bool" where
  "serving sb s v \<longleftrightarrow> mempool_inv s \<and> rpcUrl s = rpc_url_text \<and>
     ws_order (sb_env sb) (subscribers s) = [] \<and> sb_view sb (world s) = v"

lemma servingD:
  assumes "serving sb s v"
  shows "mempool_inv s" "\<not> mp_lock s" "rpcUrl s = rpc_url_text" "sb_view sb (world s) = v"
    "ws_order (sb_env sb) (subscribers s) = []"
  using assms mempool_invD(1) by (auto simp: serving_def)

lemma frame_serving:
  assumes "serving sb s v" and "anvil_frame s t" and "sb_view sb (world t) = v'"
  shows "serving sb t v'" and "pool_lookup t = pool_lookup s"
  using assms frame_subscribers [OF assms(2)] same_pool_inv [OF frame_same_pool [OF assms(2)]]
    same_pool_lookup [OF frame_same_pool [OF assms(2)]]
  by (simp_all add: serving_def anvil_frame_def)

lemma world_serving:
  "serving sb s v \<Longrightarrow> sb_view sb w = v' \<Longrightarrow> serving sb (s\<lparr>world := w\<rparr>) v'"
  "pool_lookup (s\<lparr>world := w\<rparr>) = pool_lookup s"
  by (simp_all add: serving_def mempool_inv_def pool_lookup_def fun_eq_iff)

lemma submit_served:
  assumes laws: "sandbox_laws sb" and s: "serving sb s v" and t: "Transaction_fromJson d = Inr tx"
  shows "\<exists>r s'. app_handle (sb_env sb) (Post_public_tx d) s = (Ok200 (MempoolRecord_toJson r), s') \<and>
    serving sb s' v \<and> pool_lookup s' (mr_mempoolTxId r) = Some r \<and> is_pending r \<and>
    mr_transaction r = tx \<and> mr_mempoolTxId r \<noteq> ''''"
proof -
  let ?env = "sb_env sb" and ?r = "submitted (sb_env sb) tx s"
  note S = servingD [OF s]
  define s' where "s' = snd (Mempool_addTransaction ?env tx s)"
  have run: "s' = s\<lparr>world := snd (clock ?env (snd (uuid_hex ?env (world s)))),
       mp_lastSeqNum := mp_lastSeqNum s + 1, mp_heap := mp_heap s @ [?r],
       mp_transactions := AList.update (next_id ?env s) (length (mp_heap s)) (mp_transactions s)\<rparr>"
    using S(2) by (simp add: s'_def addTransaction_run submitted_def)
  have view: "sb_view sb (world s') = v"
    using laws S(4) by (simp add: run sandbox_laws_def law_reading_def shows_view_def)
  have "snd (Broadcaster_broadcast ?env m s') = s'" for m
    using S(5) by (simp add: broadcast_run Let_def failed_def run)
  then have "app_handle ?env (Post_public_tx d) s = (Ok200 (MempoolRecord_toJson ?r), s')"
    using submit_run [OF S(1), of ?env d] t by (simp add: s'_def)
  moreover have "serving sb s' v"
    using add_inv [OF S(1), of ?env tx] S(3,5) view by (simp add: serving_def flip: s'_def) (simp add: run)
  moreover have "pool_lookup s' (mr_mempoolTxId ?r) = Some ?r"
    by (simp add: run pool_lookup_def submitted_def update_Some_unfold)
  moreover have "is_pending ?r" "mr_transaction ?r = tx" "mr_mempoolTxId ?r \<noteq> ''''"
    by (simp_all add: submitted_def next_id_def)
  ultimately show ?thesis by blast
qed

lemma lookup_served:
  assumes "serving sb s v" and "pool_lookup s k = Some r"
  shows "app_handle env (Get_public_tx k) s = (Ok200 (MempoolRecord_toJson r), s)"
  using assms(2) servingD(2) [OF assms(1)]
  by (auto simp: get_public_tx_def getTransaction_run pool_lookup_def)

lemma pending_served:
  assumes "serving sb s v"
  shows "\<exists>n l. app_handle env Get_public_pending s =
    (Ok200 (JObj [(''snapshotSeq'', JInt n), (''transactions'', JList l)]), s)"
  using servingD(2) [OF assms] by (auto simp: get_pending_transactions_def pendingSnapshot_run)

text \<open>The head of the chain as the service answers it.\<close>

definition head_doc :: "'n sandbox \<Rightarrow> chain_view \<Rightarrow> json" where
  "head_doc sb v =
     (let h = dict_get (sb_header sb v) in
      JObj [(''blockNumber'', h ''number''), (''blockHash'', h ''hash''), (''parentHash'', h ''parentHash''),
            (''timestamp'', h ''timestamp''), (''baseFeePerGas'', h ''baseFeePerGas'')])"

lemma head_served:
  assumes laws: "sandbox_laws sb" and s: "serving sb s v"
  shows "\<exists>t. app_handle (sb_env sb) Get_chain_head s = (Ok200 (head_doc sb v), t) \<and> serving sb t v"
proof -
  note S = servingD [OF s]
  have "\<exists>t. anvil_rpc (sb_env sb) ''eth_getBlockByNumber'' (JList [JStr ''latest'', JBool False]) s =
      (Inr (JObj (sb_header sb v)), t) \<and> node_step sb s t v"
    using laws S(4) by (intro rpc_step [OF S(3)]) (auto simp: sandbox_laws_def law_reading_def)
  then obtain t where t: "anvil_getLatestBlock (sb_env sb) s = (Inr (JObj (sb_header sb v)), t)" "node_step sb s t v"
    by (auto simp: anvil_getLatestBlock_def)
  have "serving sb t v"
    using frame_serving(1) [OF s] t(2) by (simp add: node_step_def shows_view_def)
  then show ?thesis using t(1) by (simp add: chain_head_def pbind_def head_doc_def Let_def answer_Inr)
qed

section \<open>Bundles over the service\<close>

text \<open>A bundle of one record that is pending, and one of a transaction of its own.\<close>

definition bundle_of :: "dict \<Rightarrow> dict" where
  "bundle_of d = [(''transactions'', JList [JObj d])]"

text \<open>A record marked with what became of its transaction.\<close>

lemma mark_served:
  assumes laws: "sandbox_laws sb" and t: "serving sb t v" and r: "pool_lookup t k = Some r"
  shows "\<exists>ref r' u. Mempool_markMined (sb_env sb) k h (JStr (if ok then ''included'' else ''reverted'')) (JObj d) t = (Inr ref, u) \<and>
      serving sb u v \<and> pool_lookup u k = Some r' \<and> mr_status r' = JStr (if ok then ''included'' else ''reverted'')"
proof -
  let ?env = "sb_env sb" and ?st = "JStr (if ok then ''included'' else ''reverted'')"
  note T = servingD [OF t]
  obtain ref where ref: "map_of (mp_transactions t) k = Some ref" using r by (auto simp: pool_lookup_def)
  have in_heap: "ref < length (mp_heap t)"
    using mempool_invD(6) [OF T(1) map_of_SomeD [OF ref]] .
  define u where "u = snd (Mempool_markMined ?env k h ?st (JObj d) t)"
  have mark: "Mempool_markMined ?env k h ?st (JObj d) t = (Inr ref, u)"
    "u = t\<lparr>world := snd (clock ?env (world t)),
       mp_heap := (mp_heap t)[ref := settle h ?st (JObj d) (fst (clock ?env (world t))) (mp_heap t ! ref)]\<rparr>"
    using T(2) ref by (simp_all add: markMined_run u_def)
  have "mempool_inv u"
    unfolding u_def by (rule mark_inv [OF T(1)]) (simp add: final_status_def)
  moreover have "sb_view sb (world u) = v"
    using laws T(4) by (simp add: mark(2) sandbox_laws_def law_reading_def shows_view_def)
  ultimately have u: "serving sb u v"
    using T(3,5) by (simp add: serving_def) (simp add: mark(2))
  have "pool_lookup u k = Some (settle h ?st (JObj d) (fst (clock ?env (world t))) (mp_heap t ! ref))"
    using ref in_heap by (simp add: mark(2) pool_lookup_def)
  then show ?thesis using mark(1) u by (intro exI conjI) (assumption+, simp)
qed

lemma mine_record:
  assumes laws: "sandbox_laws sb" and s: "serving sb s v" and v: "cv_pool v = []" "\<not> cv_automine v"
    and r: "pool_lookup s k = Some r" "is_pending r" "k \<noteq> ''''"
    and tx: "takes_next sb v (mr_transaction r) a x"
  shows "\<exists>h d t r'. app_handle (sb_env sb) (Post_bundle (bundle_of [(''mempoolTxId'', JStr k)])) s =
        (Ok200 (JObj (one_result (Some k) h (exec_tx a x (cv_chain v) \<noteq> None) (cv_height v + 1) d)), t) \<and>
      serving sb t (block_mined (accepted_tx h a x v)) \<and> pool_lookup t k = Some r' \<and>
      mr_status r' = JStr (if exec_tx a x (cv_chain v) = None then ''reverted'' else ''included'')"
proof -
  let ?env = "sb_env sb" and ?ok = "exec_tx a x (cv_chain v) \<noteq> None"
  let ?it = "\<lparr>bi_mempoolTxId = Some k, bi_transaction = mr_transaction r\<rparr>"
  note S = servingD [OF s]
  obtain c cs where k: "k = c # cs" using r(3) by (cases k) auto
  have read: "Bundle_fromJson (bundle_of [(''mempoolTxId'', JStr k)]) s = (Inr \<lparr>bundle_items = [?it]\<rparr>, s)"
    unfolding bundle_reading_run [OF S(2)]
    using r(1,2) by (simp add: read_bundle_def bundle_of_def k)
  obtain h d t where ex: "BundleBuilder_executeBundle ?env \<lparr>bundle_items = [?it]\<rparr> s =
      (Inr (one_result (Some k) h ?ok (cv_height v + 1) d), t)"
    and step: "node_step sb s t (block_mined (accepted_tx h a x v))"
    using execute_one [OF laws S(3) S(4) [symmetric] v, of ?it a x] tx by auto
  have t: "serving sb t (block_mined (accepted_tx h a x v))" "pool_lookup t = pool_lookup s"
    using frame_serving [OF s, of t] step by (simp_all add: node_step_def shows_view_def)
  obtain ref r' u where u: "Mempool_markMined ?env k h (JStr (if ?ok then ''included'' else ''reverted'')) (JObj d) t = (Inr ref, u)"
    "serving sb u (block_mined (accepted_tx h a x v))" "pool_lookup u k = Some r'"
    "mr_status r' = JStr (if ?ok then ''included'' else ''reverted'')"
    using mark_served [OF laws t(1), of k r h ?ok d] r(1) t(2) by auto
  have "app_handle ?env (Post_bundle (bundle_of [(''mempoolTxId'', JStr k)])) s =
      (Ok200 (JObj (one_result (Some k) h ?ok (cv_height v + 1) d)), u)"
    using u(1)
    by (simp add: submit_private_bundle_def BundleBuilder_mineBundle_def answer_Inr pbind_def read ex
        one_result_def one_entry_def bundle_entry_def mark_result_of_def)
  then show ?thesis using u by (intro exI conjI) (assumption+, simp)
qed

text \<open>A bundle of a pending record and, behind it, a transaction of its own, as the backrun sends it.\<close>

definition pair_bundle :: "string \<Rightarrow> dict \<Rightarrow> dict" where
  "pair_bundle k d = [(''transactions'', JList [JObj [(''mempoolTxId'', JStr k)], JObj d])]"

lemma mine_pair:
  assumes laws: "sandbox_laws sb" and s: "serving sb s v" and v: "cv_pool v = []" "\<not> cv_automine v"
    and r: "pool_lookup s k = Some r" "is_pending r" "k \<noteq> ''''"
    and d: "Transaction_fromJson d = Inr tx" "dict_get d ''mempoolTxId'' = JNull"
    and takes: "takes_next sb v (mr_transaction r) a x" "takes_next sb (accepted_tx JNull a x v) tx b y"
    and fees: "tx_fees (mr_transaction r) = tx_fees tx"
    and oks: "outcomes [(a, x), (b, y)] (cv_chain v) = [ok, ok']"
  shows "\<exists>h h' rd rd' t r'. app_handle (sb_env sb) (Post_bundle (pair_bundle k d)) s =
        (Ok200 (JObj (bundle_answer (cv_height v + 1) [(Some k, h, ok, rd), (None, h', ok', rd')])), t) \<and>
      serving sb t (block_mined (v\<lparr>cv_pool := [(h, a, x), (h', b, y)]\<rparr>)) \<and> pool_lookup t k = Some r' \<and>
      mr_status r' = JStr (if ok then ''included'' else ''reverted'')"
proof -
  let ?env = "sb_env sb"
  let ?its = "[\<lparr>bi_mempoolTxId = Some k, bi_transaction = mr_transaction r\<rparr>, \<lparr>bi_mempoolTxId = None, bi_transaction = tx\<rparr>]"
  note S = servingD [OF s]
  obtain c cs where k: "k = c # cs" using r(3) by (cases k) auto
  have read: "Bundle_fromJson (pair_bundle k d) s = (Inr \<lparr>bundle_items = ?its\<rparr>, s)"
    unfolding bundle_reading_run [OF S(2)]
    using r(1,2) d by (simp add: read_bundle_def pair_bundle_def k)
  obtain hs ds t where ex: "BundleBuilder_executeBundle ?env \<lparr>bundle_items = ?its\<rparr> s =
      (Inr (bundle_answer (cv_height v + 1) (zip (map bi_mempoolTxId ?its) (zip hs (zip [ok, ok'] ds)))), t)"
    "length hs = 2" "length ds = 2" "node_step sb s t (block_mined (v\<lparr>cv_pool := zip hs [(a, x), (b, y)]\<rparr>))"
    using execute_all [OF laws S(3) S(4) v, of ?its "[(a, x), (b, y)]" "tx_fees tx"] takes fees
      gas_small [of x] gas_small [of y] unfolding oks by (auto simp: calls_gas_def block_gas_limit_def)
  obtain h h' rd rd' where hd: "hs = [h, h']" "ds = [rd, rd']" using ex(2,3) by (auto simp: numeral_eq_Suc length_Suc_conv)
  let ?w = "block_mined (v\<lparr>cv_pool := [(h, a, x), (h', b, y)]\<rparr>)"
  have t: "serving sb t ?w" "pool_lookup t = pool_lookup s"
    using frame_serving [OF s, of t] ex(4) by (simp_all add: node_step_def shows_view_def hd)
  obtain ref r' u where u: "Mempool_markMined ?env k h (JStr (if ok then ''included'' else ''reverted'')) (JObj rd) t = (Inr ref, u)"
    "serving sb u ?w" "pool_lookup u k = Some r'" "mr_status r' = JStr (if ok then ''included'' else ''reverted'')"
    using mark_served [OF laws t(1), of k r h ok rd] r(1) t(2) by auto
  have "app_handle ?env (Post_bundle (pair_bundle k d)) s =
      (Ok200 (JObj (bundle_answer (cv_height v + 1) [(Some k, h, ok, rd), (None, h', ok', rd')])), u)"
    using u(1)
    by (simp add: submit_private_bundle_def BundleBuilder_mineBundle_def answer_Inr pbind_def read ex(1) hd
        bundle_answer_def bundle_entry_def mark_result_of_def)
  then show ?thesis using u by blast
qed

lemma raw_read:
  assumes "serving sb s v" and "Transaction_fromJson d = Inr tx" and "dict_get d ''mempoolTxId'' = JNull"
  shows "Bundle_fromJson (bundle_of d) s =
    (Inr \<lparr>bundle_items = [\<lparr>bi_mempoolTxId = None, bi_transaction = tx\<rparr>]\<rparr>, s)"
  unfolding bundle_reading_run [OF servingD(2) [OF assms(1)]]
  using assms(2,3) by (simp add: read_bundle_def bundle_of_def)

lemma mine_raw:
  assumes laws: "sandbox_laws sb" and s: "serving sb s v" and v: "cv_pool v = []" "\<not> cv_automine v"
    and d: "Transaction_fromJson d = Inr tx" "dict_get d ''mempoolTxId'' = JNull"
    and tx: "takes_next sb v tx a x"
  shows "\<exists>h rd t. app_handle (sb_env sb) (Post_bundle (bundle_of d)) s =
        (Ok200 (JObj (one_result None h (exec_tx a x (cv_chain v) \<noteq> None) (cv_height v + 1) rd)), t) \<and>
      serving sb t (block_mined (accepted_tx h a x v))"
proof -
  let ?it = "\<lparr>bi_mempoolTxId = None, bi_transaction = tx\<rparr>"
  note S = servingD [OF s]
  obtain h rd t where ex: "BundleBuilder_executeBundle (sb_env sb) \<lparr>bundle_items = [?it]\<rparr> s =
      (Inr (one_result None h (exec_tx a x (cv_chain v) \<noteq> None) (cv_height v + 1) rd), t)"
    and step: "node_step sb s t (block_mined (accepted_tx h a x v))"
    using execute_one [OF laws S(3) S(4) [symmetric] v, of ?it a x] tx by auto
  have "serving sb t (block_mined (accepted_tx h a x v))"
    using frame_serving [OF s, of t] step by (simp add: node_step_def shows_view_def)
  moreover have "app_handle (sb_env sb) (Post_bundle (bundle_of d)) s =
      (Ok200 (JObj (one_result None h (exec_tx a x (cv_chain v) \<noteq> None) (cv_height v + 1) rd)), t)"
    by (simp add: submit_private_bundle_def BundleBuilder_mineBundle_def answer_Inr pbind_def
        raw_read [OF s d] ex one_result_def mark_result_of_def)
  ultimately show ?thesis by blast
qed

lemma simulate_raw:
  assumes laws: "sandbox_laws sb" and s: "serving sb s v" and v: "cv_pool v = []" "\<not> cv_automine v"
    and d: "Transaction_fromJson d = Inr tx" "dict_get d ''mempoolTxId'' = JNull"
    and tx: "takes_next sb v tx a x"
  shows "\<exists>h rd t. app_handle (sb_env sb) (Post_bundle_simulate (bundle_of d)) s =
        (Ok200 (JObj (dict_set (one_result None h (exec_tx a x (cv_chain v) \<noteq> None) (cv_height v + 1) rd)
           ''simulated'' (JBool True))), t) \<and>
      serving sb t v"
proof -
  let ?it = "\<lparr>bi_mempoolTxId = None, bi_transaction = tx\<rparr>"
  note S = servingD [OF s]
  obtain h rd t where ex: "BundleBuilder_simulateBundle (sb_env sb) \<lparr>bundle_items = [?it]\<rparr> s =
      (Inr (dict_set (one_result None h (exec_tx a x (cv_chain v) \<noteq> None) (cv_height v + 1) rd)
         ''simulated'' (JBool True)), t)"
    and step: "anvil_frame s t" "sb_view sb (world t) = v"
    using simulate_one [OF laws S(3) S(4) [symmetric] v, of ?it a x] tx by auto
  have "serving sb t v" using frame_serving(1) [OF s step] .
  moreover have "app_handle (sb_env sb) (Post_bundle_simulate (bundle_of d)) s =
      (Ok200 (JObj (dict_set (one_result None h (exec_tx a x (cv_chain v) \<noteq> None) (cv_height v + 1) rd)
         ''simulated'' (JBool True))), t)"
    by (simp add: simulate_private_bundle_def answer_Inr pbind_def raw_read [OF s d] ex)
  ultimately show ?thesis by blast
qed

end
