(* ===== verification/Sandbox_Steps.thy ===== *)
theory Sandbox_Steps
  imports Sandbox_Service
begin

text \<open>
  The functions the scenarios share, run on the machine of the sandbox: each goes through, with
  the value the node and the service give it, and leaves the service serving on the view it should.
\<close>

section \<open>Steps of the scripts\<close>

text \<open>The service serves on a view, with the records it had.\<close>

definition served :: "'n sandbox \<Rightarrow> 'n app_state \<Rightarrow> 'n app_state \<Rightarrow> chain_view \<Rightarrow> bool" where
  "served sb s t v \<longleftrightarrow> serving sb t v \<and> pool_lookup t = pool_lookup s"

lemma served_trans: "served sb s t v \<Longrightarrow> served sb t u v' \<Longrightarrow> served sb s u v'"
  by (simp add: served_def)

lemma passes_finally:
  assumes "passes m w v w1" and "passes fin w1 () w2"
  shows "passes (pfinally m fin) w v w2"
  unfolding passes_def
proof
  fix p
  obtain q where m: "m \<lparr>world = w, printed = p\<rparr> = (Inr v, \<lparr>world = w1, printed = q\<rparr>)"
    using assms(1) by (auto simp: passes_def)
  obtain r where "fin \<lparr>world = w1, printed = q\<rparr> = (Inr (), \<lparr>world = w2, printed = r\<rparr>)"
    using assms(2) by (auto simp: passes_def)
  then show "\<exists>q. pfinally m fin \<lparr>world = w, printed = p\<rparr> = (Inr v, \<lparr>world = w2, printed = q\<rparr>)"
    using m by (auto simp: pfinally_def)
qed

lemma passes_try:
  assumes "passes m w v w1"
  shows "passes (pcatch_scenario m handler) w v w1"
  unfolding passes_def
proof
  fix p
  obtain q where "m \<lparr>world = w, printed = p\<rparr> = (Inr v, \<lparr>world = w1, printed = q\<rparr>)"
    using assms by (auto simp: passes_def)
  then show "\<exists>q. pcatch_scenario m handler \<lparr>world = w, printed = p\<rparr> = (Inr v, \<lparr>world = w1, printed = q\<rparr>)"
    by (auto simp: pcatch_scenario_def)
qed

text \<open>Commands of the node's tool, requests to the node and requests to the service.\<close>

lemma run_passes:
  assumes "sb_cast sb (JStr c # d # cs) (machine_world l) = (Completed out, w)"
  shows "passes (run (sandbox_host sb page base rdir dp) (JStr c # d # cs) cwd) l out (put_world w l)"
  by (rule passesI [where f = id])
    (use assms in \<open>simp add: run_def sandbox_host_def on_node_def split: process_end.splits\<close>)

lemma served_command:
  assumes "serving sb s v" and "sb_cast sb (JStr c # d # cs) (world s) = (Completed out, w)" and "sb_view sb w = v'"
  shows "\<exists>s'. passes (run (sandbox_host sb page base rdir dp) (JStr c # d # cs) cwd) (Running s) out (Running s') \<and>
    served sb s s' v'"
proof -
  have "passes (run (sandbox_host sb page base rdir dp) (JStr c # d # cs) cwd) (Running s) out (put_world w (Running s))"
    by (rule run_passes) (use assms(2) in \<open>simp add: machine_world_def\<close>)
  then show ?thesis
    using world_serving(1) [OF assms(1,3)] world_serving(2) [where s = s and w = w]
    by (auto simp: put_world_def served_def)
qed

lemma rpc_passes:
  assumes "answers (fst (rpc_call sb 1 m ps (machine_world l))) r"
  shows "passes (rpc (sandbox_host sb page base rdir dp) (JStr rpc_url_text) m ps) l r
    (put_world (snd (rpc_call sb 1 m ps (machine_world l))) l)"
proof -
  have body: "rpc_request m ps = rpc_body 1 m (JList ps)" by (simp add: rpc_request_def rpc_body_def)
  show ?thesis
    by (rule passesI [where f = id])
      (use assms in \<open>auto simp: rpc_def body sandbox_host_def on_node_def rpc_call_def answers_def node_http_def
        split: prod.splits\<close>)
qed

lemma served_rpc:
  assumes "serving sb s v" and "answers (fst (rpc_call sb 1 m ps (world s))) r"
    and "sb_view sb (snd (rpc_call sb 1 m ps (world s))) = v'"
  shows "\<exists>s'. passes (rpc (sandbox_host sb page base rdir dp) (JStr rpc_url_text) m ps) (Running s) r (Running s') \<and>
    served sb s s' v'"
proof -
  have "answers (fst (rpc_call sb 1 m ps (machine_world (Running s)))) r"
    using assms(2) by (simp add: machine_world_def)
  from rpc_passes [OF this, of page base rdir dp] show ?thesis
    using world_serving(1) [OF assms(1,3)] world_serving(2) [where s = s and w = "snd (rpc_call sb 1 m ps (world s))"]
    by (auto simp: put_world_def served_def machine_world_def)
qed

lemma builder_passes:
  assumes "app_handle (sb_env sb) e s = (Ok200 r, t)" and "route m p b = Some e"
  shows "passes (builder_request (sandbox_host sb page base rdir dp) m p b) (Running s) r (Running t)"
  by (rule passesI [where f = id])
    (use assms in \<open>simp add: builder_request_def sandbox_host_def serve_def respond_def\<close>)

lemma more_routes [simp]:
  "route ''GET'' [Txt ''/chain/head''] b = Some Get_chain_head"
  "route ''GET'' [Txt ''/public/tx/'', Val (JStr k)] b = Some (Get_public_tx k)"
  "route ''POST'' [Txt ''/private/bundle''] (Some (JObj d)) = Some (Post_bundle d)"
  "route ''POST'' [Txt ''/private/bundle/simulate''] (Some (JObj d)) = Some (Post_bundle_simulate d)"
  by (simp_all add: route_def)

section \<open>The shared functions\<close>

lemma cast_int_passes:
  assumes "serving sb s v" and "prints_number (fst (sb_cast sb (JStr c # d # cs) (world s))) n"
    and "shows_view sb (world s) (snd (sb_cast sb (JStr c # d # cs) (world s))) v"
  shows "\<exists>s'. passes (cast_int (sandbox_host sb page base rdir dp) (JStr c # d # cs) cwd) (Running s) n (Running s') \<and>
    served sb s s' v"
proof -
  obtain post where post: "sb_cast sb (JStr c # d # cs) (world s) =
      (Completed (dec n @ post), snd (sb_cast sb (JStr c # d # cs) (world s)))" "post = [] \<or> is_space (hd post)"
    using assms(2) unfolding prints_number_def by (metis prod.collapse)
  have "sb_view sb (snd (sb_cast sb (JStr c # d # cs) (world s))) = v"
    using assms(3) by (simp add: shows_view_def)
  from served_command [OF assms(1) post(1) this, of page base rdir dp cwd] obtain s' where
    s': "passes (run (sandbox_host sb page base rdir dp) (JStr c # d # cs) cwd) (Running s) (dec n @ post) (Running s')"
      "served sb s s' v"
    by blast
  have word: "first_word (py_strip (dec n @ post)) = Inr (dec n)"
    using first_word_number [of "[]" "dec n" post] post(2) number_no_space by simp
  have "passes (cast_int (sandbox_host sb page base rdir dp) (JStr c # d # cs) cwd) (Running s) n (Running s')"
    unfolding cast_int_def
    by (rule passes_bind [OF s'(1)], rule passes_bind [OF passes_lift [OF word]], rule passes_lift)
      (simp add: int_of_dec)
  then show ?thesis using s'(2) by blast
qed

lemma value_passes:
  assumes laws: "sandbox_laws sb" and s: "serving sb s v" and n: "value_of (cv_chain v) c sig args = Some n"
  shows "\<exists>s'. passes (cast_int (sandbox_host sb page base rdir dp)
        (strs ([''cast'', ''call'', c, sig] @ args @ [''--rpc-url'', rpc_url_text])) cwd)
      (Running s) n (Running s') \<and> served sb s s' v"
proof -
  note S = servingD [OF s]
  have "prints_number (fst (sb_cast sb (strs ([''cast'', ''call'', c, sig] @ args @ [''--rpc-url'', rpc_url_text])) (world s))) n"
    "shows_view sb (world s) (snd (sb_cast sb (strs ([''cast'', ''call'', c, sig] @ args @ [''--rpc-url'', rpc_url_text])) (world s))) v"
    using laws n S(4) unfolding sandbox_laws_def law_cast_reading_def Let_def by blast+
  from cast_int_passes [OF s this [unfolded strs_def list.map append.simps], of page base rdir dp cwd]
  show ?thesis by (simp add: strs_def)
qed

lemma balance_passes:
  assumes laws: "sandbox_laws sb" and s: "serving sb s v"
    and t: "tokens (cv_chain v) (address_of tok) = Some t"
  shows "\<exists>s'. passes (token_balance (sandbox_host sb page base rdir dp) (JStr rpc_url_text) (JStr tok) (JStr a))
      (Running s) (uint (balanceOf t (address_of a))) (Running s') \<and> served sb s s' v"
proof -
  have "value_of (cv_chain v) tok ''balanceOf(address)(uint256)'' [a] = Some (uint (balanceOf t (address_of a)))"
    using t by (simp add: value_of_def)
  from value_passes [OF laws s this] show ?thesis by (simp add: token_balance_def strs_def)
qed

lemma nonce_passes:
  assumes laws: "sandbox_laws sb" and s: "serving sb s v"
  shows "\<exists>s'. passes (account_nonce (sandbox_host sb page base rdir dp) (JStr rpc_url_text) (JStr a))
      (Running s) (cv_nonce v (address_of a)) (Running s') \<and> served sb s s' v"
proof -
  note S = servingD [OF s]
  have "prints_number (fst (sb_cast sb (strs [''cast'', ''nonce'', a, ''--rpc-url'', rpc_url_text]) (world s)))
      (cv_nonce v (address_of a))"
    "shows_view sb (world s) (snd (sb_cast sb (strs [''cast'', ''nonce'', a, ''--rpc-url'', rpc_url_text]) (world s))) v"
    using laws S(4) by (auto simp: sandbox_laws_def law_cast_reading_def Let_def)
  from cast_int_passes [OF s this [unfolded strs_def list.map], of page base rdir dp]
  show ?thesis by (simp add: account_nonce_def strs_def)
qed

text \<open>The payload of a call, and what the service reads in it.\<close>

lemma payload_passes:
  assumes laws: "sandbox_laws sb" and s: "serving sb s v" and x: "call_of c sig args = Some x"
  shows "\<exists>s'. passes (contract_transaction_payload (sandbox_host sb page base rdir dp) (JStr rpc_url_text) chain_id
        (JStr frm) (JStr c) sig (strs args) gas) (Running s)
      (public_transaction_payload chain_id (cv_nonce v (address_of frm)) (JStr frm) (JStr c)
         (sb_calldata sb sig args) gas) (Running s') \<and> served sb s s' v"
proof -
  let ?h = "sandbox_host sb page base rdir dp"
  obtain s1 where s1: "passes (account_nonce ?h (JStr rpc_url_text) (JStr frm)) (Running s)
      (cv_nonce v (address_of frm)) (Running s1)" "served sb s s1 v"
    using nonce_passes [OF laws s] by blast
  then have sv: "serving sb s1 v" by (simp add: served_def)
  have law: "law_calldata sb" using laws by (simp add: sandbox_laws_def)
  obtain out w where out: "sb_cast sb (strs ([''cast'', ''calldata'', sig] @ args)) (world s1) = (Completed out, w)"
    "py_strip out = sb_calldata sb sig args" "sb_view sb w = v"
    using law x servingD(4) [OF sv] unfolding law_calldata_def Let_def shows_view_def by metis
  obtain s2 where s2: "passes (run ?h (strs ([''cast'', ''calldata'', sig] @ args)) (BLOCKCHAIN_DIR ?h)) (Running s1) out (Running s2)"
    "served sb s1 s2 v"
    using served_command [OF sv out(1) [unfolded strs_def list.map append.simps] out(3), of page base rdir dp "BLOCKCHAIN_DIR ?h"]
    by (auto simp: strs_def)
  have cd: "passes (contract_calldata ?h sig (strs args)) (Running s1) (sb_calldata sb sig args) (Running s2)"
    unfolding contract_calldata_def out(2) [symmetric]
    by (rule passes_bind [OF _ passes_pret]) (use s2(1) in \<open>simp add: strs_def\<close>)
  have "passes (contract_transaction_payload ?h (JStr rpc_url_text) chain_id (JStr frm) (JStr c) sig (strs args) gas)
      (Running s) (public_transaction_payload chain_id (cv_nonce v (address_of frm)) (JStr frm) (JStr c)
         (sb_calldata sb sig args) gas) (Running s2)"
    unfolding contract_transaction_payload_def
    by (rule passes_bind [OF s1(1)], rule passes_bind [OF cd], rule passes_pret)
  then show ?thesis using served_trans [OF s1(2) s2(2)] by blast
qed

lemma payload_parses:
  assumes "frm \<noteq> ''''" and "data \<noteq> ''''"
  shows "\<exists>t. Transaction_fromJson (public_transaction_payload chain_id nonce (JStr frm) (JStr to) data gas) = Inr t \<and>
    tx_nonce t = py_hex nonce \<and> tx_gas t = py_hex gas \<and> tx_fromAddress t = frm \<and> tx_toAddress t = Some to \<and>
    tx_input t = data \<and> tx_value t = ''0x0'' \<and> tx_fees t = script_fees"
  using assms number_no_space(4)
  by (simp add: Transaction_fromJson_def public_transaction_payload_def optional_str_def required_str_def str_or_def
      params_fields(7) script_fees_def)

lemma payload_taken:
  assumes laws: "sandbox_laws sb" and frm: "frm \<in> senders" and x: "call_of c sig args = Some x"
    and v: "next_nonce v (address_of frm) = nonce"
  shows "\<exists>t. Transaction_fromJson (public_transaction_payload chain_id nonce (JStr frm) (JStr c)
        (sb_calldata sb sig args) (gas_of x)) = Inr t \<and> takes_next sb v t (address_of frm) x \<and>
      tx_fees t = script_fees"
proof -
  have law: "law_calldata sb" using laws by (simp add: sandbox_laws_def)
  then have "sb_calldata sb sig args \<noteq> ''''" using x by (auto simp: law_calldata_def Let_def)
  from payload_parses [OF sender_named [OF frm] this] obtain t where
    t: "Transaction_fromJson (public_transaction_payload chain_id nonce (JStr frm) (JStr c)
        (sb_calldata sb sig args) (gas_of x)) = Inr t"
      "tx_nonce t = py_hex nonce" "tx_gas t = py_hex (gas_of x)"
      "tx_fromAddress t = frm" "tx_toAddress t = Some c" "tx_input t = sb_calldata sb sig args"
      "tx_value t = ''0x0''" "tx_fees t = script_fees"
    by blast
  have "sb_reads sb (Transaction_toRpcParams t) = Some (address_of frm, x)"
    using law x t(4-6) unfolding law_calldata_def Let_def by (simp add: params_fields)
  then show ?thesis
    using t(1-3,7) v frm script_fees_cover
    by (intro exI [of _ t]) (simp add: takes_next_def int_of_hex t(8))
qed

section \<open>Transactions the scripts send themselves\<close>

text \<open>The view with automatic mining on or off, and after a call mined in a block of its own.\<close>

definition mining :: "bool \<Rightarrow> chain_view \<Rightarrow> chain_view" where
  "mining b v = v\<lparr>cv_automine := b\<rparr>"

lemma mining_simps [simp]:
  "cv_chain (mining b v) = cv_chain v" "cv_pool (mining b v) = cv_pool v" "cv_automine (mining b v) = b"
  "cv_height (mining b v) = cv_height v" "mining b (mining b' v) = mining b v"
  by (simp_all add: mining_def)

lemma own_block:
  assumes "cv_pool v = []" and "exec_tx a x (cv_chain v) = Some c"
  shows "cv_chain (block_mined (accepted_tx h a x v)) = c" "cv_pool (block_mined (accepted_tx h a x v)) = []"
    "cv_automine (block_mined (accepted_tx h a x v)) = cv_automine v"
    "cv_height (block_mined (accepted_tx h a x v)) = cv_height v + 1"
  using assms by (simp_all add: one_block after_call_def)

lemma switch_passes:
  assumes laws: "sandbox_laws sb" and s: "serving sb s v" and v: "cv_pool v = []"
  shows "\<exists>s'. passes (pwhen True (set_automine (sandbox_host sb page base rdir dp) (JStr rpc_url_text) b)) (Running s) ()
    (Running s') \<and> served sb s s' (mining b v)"
proof -
  note S = servingD [OF s]
  have law: "law_mining sb" using laws by (simp add: sandbox_laws_def)
  obtain r where r: "answers (fst (rpc_call sb 1 ''evm_setAutomine'' [JBool b] (world s))) r"
    "sb_view sb (snd (rpc_call sb 1 ''evm_setAutomine'' [JBool b] (world s))) = mining b v"
    using law v S(4) unfolding law_mining_def shows_view_def mining_def by metis
  obtain s' where "passes (rpc (sandbox_host sb page base rdir dp) (JStr rpc_url_text) ''evm_setAutomine'' [JBool b])
      (Running s) r (Running s')" "served sb s s' (mining b v)"
    using served_rpc [OF s r] by blast
  then show ?thesis
    unfolding set_automine_def pwhen_simps by (intro exI conjI passes_bind [OF _ passes_pret])
qed

text \<open>
  A body that goes from one view to another, both with nothing under way, run with automatic
  mining switched on before and off after it.
\<close>

lemma automine_passes:
  assumes laws: "sandbox_laws sb" and s: "serving sb s v" and v: "cv_pool v = []"
    and body: "\<And>t. served sb s t (mining True v) \<Longrightarrow>
      \<exists>u. passes m (Running t) () (Running u) \<and> served sb t u w" and w: "cv_pool w = []"
  shows "\<exists>s'. passes (with_automine (sandbox_host sb page base rdir dp) (JStr rpc_url_text) True m) (Running s) () (Running s') \<and>
    served sb s s' (mining False w)"
proof -
  let ?h = "sandbox_host sb page base rdir dp"
  obtain t where t: "passes (pwhen True (set_automine ?h (JStr rpc_url_text) True)) (Running s) () (Running t)"
    "served sb s t (mining True v)"
    using switch_passes [OF laws s v] by blast
  obtain u where u: "passes m (Running t) () (Running u)" "served sb t u w"
    using body [OF t(2)] by blast
  obtain s' where s': "passes (pwhen True (set_automine ?h (JStr rpc_url_text) False)) (Running u) () (Running s')"
    "served sb u s' (mining False w)"
    using switch_passes [OF laws _ w, of u page base rdir dp False] u(2) unfolding served_def by blast
  have "passes (with_automine ?h (JStr rpc_url_text) True m) (Running s) () (Running s')"
    unfolding with_automine_def by (rule passes_bind [OF t(1)], rule passes_finally [OF u(1) s'(1)])
  then show ?thesis using served_trans [OF served_trans [OF t(2) u(2)] s'(2)] by blast
qed

lemma send_passes:
  assumes laws: "sandbox_laws sb" and s: "serving sb s v" and v: "cv_pool v = []" "cv_automine v"
    and x: "call_of c sig args = Some x" "exec_tx (sb_signer sb key) x (cv_chain v) \<noteq> None"
  shows "\<exists>h s'. passes (send_contract_transaction (sandbox_host sb page base rdir dp) (JStr rpc_url_text) (JStr key) (JStr c)
      sig (strs args)) (Running s) () (Running s') \<and> served sb s s' (block_mined (accepted_tx h (sb_signer sb key) x v))"
proof -
  let ?h = "sandbox_host sb page base rdir dp"
  have law: "law_cast_send sb" using laws by (simp add: sandbox_laws_def)
  obtain out w k where out: "sb_cast sb (cast_send c sig args key) (world s) = (Completed out, w)"
    "sb_view sb w = block_mined (accepted_tx k (sb_signer sb key) x v)"
    using law [unfolded law_cast_send_def Let_def, rule_format, of c sig args x "world s" key]
      servingD(4) [OF s] v x by (auto simp: shows_view_def)
  obtain s' where "passes (run ?h (cast_send c sig args key) (BLOCKCHAIN_DIR ?h)) (Running s) out (Running s')"
    "served sb s s' (block_mined (accepted_tx k (sb_signer sb key) x v))"
    using served_command [OF s out(1) [unfolded cast_send_def strs_def list.map append.simps] out(2), of page base rdir dp "BLOCKCHAIN_DIR ?h"]
    by (auto simp: cast_send_def strs_def)
  then show ?thesis
    unfolding send_contract_transaction_def
    by (intro exI conjI, intro passes_bind [OF _ passes_pret]) (auto simp: strs_def cast_send_def)
qed

text \<open>A mint between the switches of automatic mining.\<close>

definition minted_view :: "json \<Rightarrow> address \<Rightarrow> tx \<Rightarrow> chain_view \<Rightarrow> chain_view" where
  "minted_view h a x v = mining False (block_mined (accepted_tx h a x (mining True v)))"

lemma minted_view_simps:
  assumes "cv_pool v = []" and "exec_tx a x (cv_chain v) = Some c"
  shows "cv_chain (minted_view h a x v) = c" "cv_pool (minted_view h a x v) = []"
    "\<not> cv_automine (minted_view h a x v)" "cv_height (minted_view h a x v) = cv_height v + 1"
  using assms own_block [of "mining True v" a x c h] by (simp_all add: minted_view_def)

lemma uint_text_dec: "0 \<le> n \<Longrightarrow> n < 2 ^ 256 \<Longrightarrow> uint_text (dec n) = Some (word_of_int n)"
  by (simp add: uint_text_def int_of_dec)

lemma mint_passes:
  assumes laws: "sandbox_laws sb" and s: "serving sb s v" and v: "cv_pool v = []" and n: "0 \<le> n" "n < 2 ^ 256"
    and x: "exec_tx (sb_signer sb key) (Mint (address_of tok) (address_of to) (word_of_int n)) (cv_chain v) \<noteq> None"
  shows "\<exists>h s'. passes (mint_token (sandbox_host sb page base rdir dp) (JStr rpc_url_text) (JStr key) (JStr tok)
        (JStr to) n True) (Running s) () (Running s') \<and>
    served sb s s' (minted_view h (sb_signer sb key) (Mint (address_of tok) (address_of to) (word_of_int n)) v)"
proof -
  let ?h = "sandbox_host sb page base rdir dp" and ?a = "sb_signer sb key"
    and ?x = "Mint (address_of tok) (address_of to) (word_of_int n)"
  have call: "call_of tok ''mint(address,uint256)'' [to, dec n] = Some ?x"
    using n by (simp add: call_of_def uint_text_dec)
  obtain s1 where s1: "passes (pwhen True (set_automine ?h (JStr rpc_url_text) True)) (Running s) () (Running s1)"
    "served sb s s1 (mining True v)"
    using switch_passes [OF laws s v] by blast
  then have sv1: "serving sb s1 (mining True v)" by (simp add: served_def)
  obtain k s2 where s2: "passes (send_contract_transaction ?h (JStr rpc_url_text) (JStr key) (JStr tok) ''mint(address,uint256)''
      (strs [to, dec n])) (Running s1) () (Running s2)"
    "served sb s1 s2 (block_mined (accepted_tx k ?a ?x (mining True v)))"
    using send_passes [OF laws sv1 _ _ call, of key page base rdir dp] v x by auto
  have "cv_pool (block_mined (accepted_tx k ?a ?x (mining True v))) = []" by (simp add: block_mined_def)
  then obtain s3 where s3: "passes (pwhen True (set_automine ?h (JStr rpc_url_text) False)) (Running s2) () (Running s3)"
    "served sb s2 s3 (minted_view k ?a ?x v)"
    using switch_passes [OF laws, of s2 _ page base rdir dp False] s2(2) unfolding served_def minted_view_def by blast
  have "passes (mint_token ?h (JStr rpc_url_text) (JStr key) (JStr tok) (JStr to) n True) (Running s) () (Running s3)"
    unfolding mint_token_def with_automine_def
    by (rule passes_bind [OF s1(1)], rule passes_finally [OF s2(1) [unfolded strs_def list.map] s3(1)])
  then show ?thesis using served_trans [OF served_trans [OF s1(2) s2(2)] s3(2)] by blast
qed

section \<open>Starting\<close>

lemma start_passes:
  "\<exists>s. started l = Running s \<and> passes (start_block_builder (sandbox_host sb page base rdir dp)) l () (Running s)"
proof -
  let ?h = "sandbox_host sb page base rdir dp"
  obtain s where s: "started l = Running s" by (cases l) (simp_all add: service_main_def)
  have r: "passes (run ?h [JStr (SERVICE_DIR ?h @ ''/bin/start-local.zsh'')] (repo_root ?h)) l '''' (Running s)"
    by (rule passesI [where f = id])
      (use s in \<open>simp add: run_def SERVICE_DIR_def sandbox_host_def\<close>)
  have "passes (builder_request ?h ''GET'' [Txt ''/health''] None) (Running s) (JObj [(''status'', JStr ''ok'')]) (Running s)"
    by (rule builder_passes [where e = Get_health]) simp_all
  then have w: "passes (wait_for_builder ?h (Suc n)) (Running s) () (Running s)" for n
    unfolding wait_for_builder.simps(2)
    by (intro passes_bind [where u = True] passes_try passes_bind [OF _ passes_pret]) (simp_all del: pure_Pair, rule passes_pret)
  have "passes (start_block_builder ?h) l () (Running s)"
    unfolding start_block_builder_def
    using passes_bind [OF r] w [of 29] by (simp add: health_attempts_def)
  then show ?thesis using s by blast
qed

lemma deployment_passes:
  assumes laws: "sandbox_laws sb" and dp: "json_item dp ''rpcUrl'' = Inr (JStr rpc_url_text)"
  shows "\<exists>w. passes (ensure_deployment (sandbox_host sb page base rdir dp)) l dp (put_world w l) \<and>
    sb_view sb w = sb_view sb (machine_world l)"
proof -
  let ?h = "sandbox_host sb page base rdir dp"
  let ?c = "rpc_call sb 1 ''eth_blockNumber'' [] (machine_world l)"
  obtain r where r: "answers (fst ?c) r" "sb_view sb (snd ?c) = sb_view sb (machine_world l)"
    using laws unfolding sandbox_laws_def law_reading_def shows_view_def by metis
  have "passes (rpc ?h (JStr rpc_url_text) ''eth_blockNumber'' []) l r (put_world (snd ?c) l)"
    by (rule rpc_passes [OF r(1)])
  then have ready: "passes (rpc_is_ready ?h (JStr rpc_url_text)) l True (put_world (snd ?c) l)"
    unfolding rpc_is_ready_def by (intro passes_try passes_bind [OF _ passes_pret])
  have here: "passes (pread (\<lambda>s. file_exists ?h (DEPLOYMENT_FILE ?h) (world s))) l True l"
    "passes (read_json ?h (DEPLOYMENT_FILE ?h)) l dp l"
    by (rule passesI [where f = id], simp add: sandbox_host_def DEPLOYMENT_FILE_def BLOCKCHAIN_DIR_def read_json_def)+
  have "passes (ensure_deployment ?h) l dp (put_world (snd ?c) l)"
    unfolding ensure_deployment_def
    by (rule passes_bind here ready passes_print passes_pret passes_lift [OF dp] | simp only: if_True)+
  then show ?thesis using r(2) by blast
qed

end
