(* ===== verification/Sandbox_Scenarios.thy ===== *)
theory Sandbox_Scenarios
  imports Sandbox_Steps
begin

text \<open>
  The token-transfer and the bundle-simulation scenario against everything they use: run with the
  model of the service, the model of the contracts, a node that obeys its laws and the deployment
  as the deployment script writes it, they pass, with the balances the contracts compute.
\<close>

section \<open>The token's calls\<close>

lemma mint_goes:
  assumes "tokens c k = Some t" and "supply_ok t" and "minter t = s" and "to \<noteq> 0"
    and n: "0 \<le> n" "uint (totalSupply t) + n < 2 ^ 256"
  shows "\<exists>t'. exec_tx s (Mint k to (word_of_int n)) c = Some (c\<lparr>tokens := (tokens c)(k := Some t')\<rparr>) \<and> supply_ok t' \<and>
    (\<forall>a. uint (balanceOf t' a) = uint (balanceOf t a) + (if a = to then n else 0))"
proof -
  have n': "uint (word_of_int n :: uint256) = n"
    by (rule uint_of_amount) (use n uint_ge_0 [of "totalSupply t"] in linarith)+
  have "uint (balanceOf t to) \<le> uint (totalSupply t)"
    by (rule balance_le_supply) (rule assms(2))
  then obtain t' where t': "SandboxERC20_mint s to (word_of_int n) t = Some t'"
    using assms(3,4) n n' by (auto simp: SandboxERC20_mint_def checked_add_def)
  then show ?thesis
    using assms(1) mint_SomeD [OF assms(2) t'] n' by (auto simp: on_token_def)
qed

lemma transfer_goes:
  assumes "tokens c k = Some t" and "supply_ok t" and "to \<noteq> 0" and n: "0 \<le> n" "n \<le> uint (balanceOf t s)"
  shows "\<exists>t'. exec_tx s (Transfer k to (word_of_int n)) c = Some (c\<lparr>tokens := (tokens c)(k := Some t')\<rparr>) \<and>
    supply_ok t' \<and> moved s to n t t'"
proof -
  have "uint (balanceOf t s) < 2 ^ 256" by (rule uint_max)
  then have n': "uint (word_of_int n :: uint256) = n"
    using n by (intro uint_of_amount) auto
  obtain t' where t': "SandboxERC20_move s to (word_of_int n) t = Some t'" "moved s to n t t'"
    using move_Some [OF assms(2,3), of "word_of_int n" s] n n' by auto
  then show ?thesis
    using assms(1) moved_supply [OF assms(2)] by (auto simp: on_token_def SandboxERC20_transfer_def)
qed

section \<open>The sandbox, ready for a scenario\<close>

text \<open>
  The chain is deployed and nothing is under way: the deployer's key signs for the deployer, who
  mints the token, and the token has room for what the scenario mints; the builder is stopped, or
  runs with nobody connected to its websocket, on the node of the deployment.
\<close>

definition token_ready :: "chain_view \<Rightarrow> string \<Rightarrow> int \<Rightarrow> bool" where
  "token_ready v tok n \<longleftrightarrow> cv_pool v = [] \<and> \<not> cv_automine v \<and>
     (case tokens (cv_chain v) (address_of tok) of
        None \<Rightarrow> False
      | Some t \<Rightarrow> supply_ok t \<and> minter t = address_of deployer_text \<and> uint (totalSupply t) + n < 2 ^ 256)"

definition sandbox_ready :: "'n sandbox \<Rightarrow> string \<Rightarrow> int \<Rightarrow> 'n machine \<Rightarrow> bool" where
  "sandbox_ready sb tok n l \<longleftrightarrow> token_ready (machine_view sb l) tok n \<and>
     sb_signer sb deployer_key_text = address_of deployer_text \<and> ws_order (sb_env sb) {} = [] \<and>
     (case l of
        Stopped w \<Rightarrow> True
      | Running s \<Rightarrow> mempool_inv s \<and> rpcUrl s = rpc_url_text \<and> ws_order (sb_env sb) (subscribers s) = [])"

definition token_bal :: "chain_view \<Rightarrow> string \<Rightarrow> string \<Rightarrow> int" where
  "token_bal v tok a = bal (cv_chain v) (address_of tok) (address_of a)"

lemma started_serving:
  assumes "sandbox_ready sb tok n l" and "started (put_world w l) = Running s" and "sb_view sb w = machine_view sb l"
  shows "serving sb s (machine_view sb l)"
proof (cases l)
  case (Stopped x)
  then show ?thesis
    using assms empty_pool_inv [of "create_app w"]
    by (auto simp: sandbox_ready_def serving_def put_world_def service_main_def create_app_def empty_pool_def
        rpc_url_text_def)
next
  case (Running x)
  then show ?thesis
    using assms by (auto simp: sandbox_ready_def serving_def put_world_def mempool_inv_def)
qed

text \<open>The deployment as the scenarios read it.\<close>

lemma deployed_items:
  "json_item (deployed_with assigned) ''rpcUrl'' = Inr (JStr rpc_url_text)"
  "rbind (json_item (deployed_with assigned) ''chainId'') json_int = Inr 31337"
  "json_item (deployed_with assigned) ''contracts'' = Inr (JObj
     [(''tokenA'', JStr (env_get assigned ''TOKEN_A_ADDRESS'')), (''tokenB'', JStr (env_get assigned ''TOKEN_B_ADDRESS'')),
      (''pool1'', JStr (env_get assigned ''POOL_1_ADDRESS'')), (''pool2'', JStr (env_get assigned ''POOL_2_ADDRESS'')),
      (''backrun'', JStr (env_get assigned ''BACKRUN_ADDRESS''))])"
  "json_get (deployed_with assigned) ''roles'' = Inr (JObj
     [(''deployer'', JObj [(''address'', JStr deployer_text), (''privateKey'', JStr deployer_key_text)]),
      (''victim'', JObj [(''address'', JStr victim_text), (''privateKey'', JStr victim_key_text)]),
      (''bot'', JObj [(''address'', JStr bot_text), (''privateKey'', JStr bot_key_text)]),
      (''treasury'', JObj [(''address'', JStr treasury_text)])])"
proof -
  let ?e = "\<lambda>k. env_get (env_values local_anvil_env [] @ assigned) k"
  have "?e ''RPC_URL'' = rpc_url_text" "?e ''CHAIN_ID'' = ''31337''" "?e ''DEPLOYER_ADDRESS'' = deployer_text"
    "?e ''DEPLOYER_PRIVATE_KEY'' = deployer_key_text" "?e ''VICTIM_ADDRESS'' = victim_text"
    "?e ''VICTIM_PRIVATE_KEY'' = victim_key_text" "?e ''BOT_ADDRESS'' = bot_text"
    "?e ''BOT_PRIVATE_KEY'' = bot_key_text" "?e ''TREASURY_ADDRESS'' = treasury_text"
    using env_file_values by (simp_all add: env_get_def map_add_def)
  moreover have "?e ''TOKEN_A_ADDRESS'' = env_get assigned ''TOKEN_A_ADDRESS''"
    "?e ''TOKEN_B_ADDRESS'' = env_get assigned ''TOKEN_B_ADDRESS''"
    "?e ''POOL_1_ADDRESS'' = env_get assigned ''POOL_1_ADDRESS''"
    "?e ''POOL_2_ADDRESS'' = env_get assigned ''POOL_2_ADDRESS''"
    "?e ''BACKRUN_ADDRESS'' = env_get assigned ''BACKRUN_ADDRESS''"
    using env_file_contracts by (simp_all add: env_get_def map_add_def)
  moreover have "py_int 10 ''31337'' = Inr 31337" by code_simp
  ultimately show
    "json_item (deployed_with assigned) ''rpcUrl'' = Inr (JStr rpc_url_text)"
    "rbind (json_item (deployed_with assigned) ''chainId'') json_int = Inr 31337"
    "json_item (deployed_with assigned) ''contracts'' = Inr (JObj
       [(''tokenA'', JStr (env_get assigned ''TOKEN_A_ADDRESS'')), (''tokenB'', JStr (env_get assigned ''TOKEN_B_ADDRESS'')),
        (''pool1'', JStr (env_get assigned ''POOL_1_ADDRESS'')), (''pool2'', JStr (env_get assigned ''POOL_2_ADDRESS'')),
        (''backrun'', JStr (env_get assigned ''BACKRUN_ADDRESS''))])"
    "json_get (deployed_with assigned) ''roles'' = Inr (JObj
       [(''deployer'', JObj [(''address'', JStr deployer_text), (''privateKey'', JStr deployer_key_text)]),
        (''victim'', JObj [(''address'', JStr victim_text), (''privateKey'', JStr victim_key_text)]),
        (''bot'', JObj [(''address'', JStr bot_text), (''privateKey'', JStr bot_key_text)]),
        (''treasury'', JObj [(''address'', JStr treasury_text)])])"
    by (simp_all add: deployed_with_def local_deployment_def Let_def json_int_def)
qed

lemma deployed_token:
  "rbind (json_item (deployed_with assigned) ''contracts'') (\<lambda>c. json_item c ''tokenA'') =
     Inr (JStr (env_get assigned ''TOKEN_A_ADDRESS''))"
  by (simp add: deployed_items(3))

lemma deployed_roles:
  "passes (deployment_role h (deployed_with assigned) ''deployer'') l
     (JObj [(''address'', JStr deployer_text), (''privateKey'', JStr deployer_key_text)]) l"
  "passes (deployment_role h (deployed_with assigned) ''victim'') l
     (JObj [(''address'', JStr victim_text), (''privateKey'', JStr victim_key_text)]) l"
  "passes (deployment_role h (deployed_with assigned) ''bot'') l
     (JObj [(''address'', JStr bot_text), (''privateKey'', JStr bot_key_text)]) l"
  by (rule passesI [where f = id], simp add: deployment_role_def deployed_items is_str_def)+

text \<open>The addresses of the roles as numbers.\<close>

lemma hex_chars:
  "digit_char 0 = CHR ''0''" "digit_char (Suc 0) = CHR ''1''" "digit_char 1 = CHR ''1''" "digit_char 2 = CHR ''2''" "digit_char 3 = CHR ''3''"
  "digit_char 4 = CHR ''4''" "digit_char 5 = CHR ''5''" "digit_char 6 = CHR ''6''" "digit_char 7 = CHR ''7''"
  "digit_char 8 = CHR ''8''" "digit_char 9 = CHR ''9''" "digit_char 10 = CHR ''a''" "digit_char 11 = CHR ''b''"
  "digit_char 12 = CHR ''c''" "digit_char 13 = CHR ''d''" "digit_char 14 = CHR ''e''" "digit_char 15 = CHR ''f''"
  by code_simp+

lemma role_numbers:
  "py_int 16 deployer_text = Inr 0xf39fd6e51aad88f6f4ce6ab8827279cfffb92266"
  "py_int 16 victim_text = Inr 0x70997970c51812dc3a010c7d01b50e0d17dc79c8"
  "py_int 16 bot_text = Inr 0x3c44cdddb6a900fa2b585dd299e03d12fa4293bc"
proof -
  have shown: "deployer_text = py_hex 0xf39fd6e51aad88f6f4ce6ab8827279cfffb92266"
    "victim_text = py_hex 0x70997970c51812dc3a010c7d01b50e0d17dc79c8"
    "bot_text = py_hex 0x3c44cdddb6a900fa2b585dd299e03d12fa4293bc"
    by (simp_all add: deployer_text_def victim_text_def bot_text_def py_hex_def numeral_digits.simps hex_chars)
  show "py_int 16 deployer_text = Inr 0xf39fd6e51aad88f6f4ce6ab8827279cfffb92266"
    "py_int 16 victim_text = Inr 0x70997970c51812dc3a010c7d01b50e0d17dc79c8"
    "py_int 16 bot_text = Inr 0x3c44cdddb6a900fa2b585dd299e03d12fa4293bc"
    unfolding shown by (rule int_of_hex, simp)+
qed

lemma roles_differ:
  "address_of deployer_text \<noteq> 0" "address_of victim_text \<noteq> 0" "address_of deployer_text \<noteq> address_of victim_text"
  "deployer_text \<noteq> ''''"
  by (simp_all add: address_of_def role_numbers) (simp add: deployer_text_def)

section \<open>A mint and a transfer\<close>

text \<open>What a mint by the deployer to the deployer makes of a view that is ready.\<close>

lemma mint_ready:
  assumes "token_ready v tok n" and "0 \<le> n" and "v' = minted_view h (address_of deployer_text)
    (Mint (address_of tok) (address_of deployer_text) (word_of_int n)) v"
  shows "\<exists>t t'. tokens (cv_chain v) (address_of tok) = Some t \<and> tokens (cv_chain v') (address_of tok) = Some t' \<and>
    exec_tx (address_of deployer_text) (Mint (address_of tok) (address_of deployer_text) (word_of_int n)) (cv_chain v) \<noteq> None \<and>
    supply_ok t' \<and>
    (\<forall>a. uint (balanceOf t' a) = uint (balanceOf t a) + (if a = address_of deployer_text then n else 0)) \<and>
    cv_pool v' = [] \<and> \<not> cv_automine v' \<and> cv_height v' = cv_height v + 1"
proof -
  obtain t where t: "tokens (cv_chain v) (address_of tok) = Some t" "supply_ok t" "minter t = address_of deployer_text"
      "uint (totalSupply t) + n < 2 ^ 256" and v: "cv_pool v = []"
    using assms(1) by (auto simp: token_ready_def split: option.splits)
  obtain t' where t': "exec_tx (address_of deployer_text) (Mint (address_of tok) (address_of deployer_text) (word_of_int n))
        (cv_chain v) = Some ((cv_chain v)\<lparr>tokens := (tokens (cv_chain v))(address_of tok := Some t')\<rparr>)" "supply_ok t'"
      "\<forall>a. uint (balanceOf t' a) = uint (balanceOf t a) + (if a = address_of deployer_text then n else 0)"
    using mint_goes [OF t(1-3) roles_differ(1) assms(2) t(4)] by blast
  from minted_view_simps [OF v t'(1), of h] show ?thesis
    unfolding assms(3) using t(1) t' by (intro exI [of _ t] exI [of _ t'] conjI) simp_all
qed

text \<open>What a transfer of the deployer to the victim makes of a view when it is mined.\<close>

abbreviation to_victim :: "string \<Rightarrow> int \<Rightarrow> tx" where
  "to_victim tok n \<equiv> Transfer (address_of tok) (address_of victim_text) (word_of_int n)"

lemma transfer_ready:
  assumes "tokens (cv_chain v) (address_of tok) = Some t" and "supply_ok t" and "cv_pool v = []" and "\<not> cv_automine v"
    and "0 \<le> n" and "n \<le> uint (balanceOf t (address_of deployer_text))"
    and "v' = block_mined (accepted_tx h (address_of deployer_text) (to_victim tok n) v)"
  shows "\<exists>t'. exec_tx (address_of deployer_text) (to_victim tok n) (cv_chain v) \<noteq> None \<and>
    tokens (cv_chain v') (address_of tok) = Some t' \<and> supply_ok t' \<and>
    moved (address_of deployer_text) (address_of victim_text) n t t' \<and>
    cv_pool v' = [] \<and> \<not> cv_automine v' \<and> cv_height v' = cv_height v + 1"
proof -
  obtain t' where t': "exec_tx (address_of deployer_text) (to_victim tok n) (cv_chain v) =
      Some ((cv_chain v)\<lparr>tokens := (tokens (cv_chain v))(address_of tok := Some t')\<rparr>)" "supply_ok t'"
      "moved (address_of deployer_text) (address_of victim_text) n t t'"
    using transfer_goes [OF assms(1,2) roles_differ(2) assms(5,6)] by blast
  then show ?thesis
    unfolding assms(7) one_block [OF assms(3)] using assms(3,4) by (intro exI [of _ t'] conjI) (simp_all add: after_call_def)
qed

section \<open>The token-transfer scenario\<close>

lemma record_json [simp]:
  "json_item (MempoolRecord_toJson r) ''mempoolTxId'' = Inr (JStr (mr_mempoolTxId r))"
  "json_item (MempoolRecord_toJson r) ''status'' = Inr (mr_status r)"
  by (simp_all add: MempoolRecord_toJson_def)

lemma result_json [simp]:
  "dict_item (one_result k h ok b d) ''status'' = Inr (JStr (if ok then ''included'' else ''failed''))"
  "rbind (dict_item (one_result k h ok b d) ''transactions'') (\<lambda>ts. json_nth ts 0) = Inr (one_entry k h ok b d)"
  "json_item (one_entry k h ok b d) ''status'' = Inr (JStr (if ok then ''included'' else ''reverted''))"
  "json_item (one_entry k h ok b d) ''chainTxHash'' = Inr h"
  "rbind (json_item (one_entry k h ok b d) ''blockNumber'') json_int16 = Inr b"
  by (simp_all add: one_result_def one_entry_def bundle_entry_def json_nth_def json_int16_def int_of_hex)

lemma sandbox_url [simp]: "builder_url (sandbox_host sb page base rdir dp) = base"
  by (simp add: sandbox_host_def)

text \<open>The first steps of both scenarios: the deployment, the builder, and the mint.\<close>

lemma prepared:
  assumes laws: "sandbox_laws sb" and ready: "sandbox_ready sb tok n l" and n: "0 \<le> n"
  shows "\<exists>l1 s0 s v t t'.
    passes (ensure_deployment (sandbox_host sb page base rdir (deployed_with assigned))) l (deployed_with assigned) l1 \<and>
    passes (start_block_builder (sandbox_host sb page base rdir (deployed_with assigned))) l1 () (Running s0) \<and>
    passes (mint_token (sandbox_host sb page base rdir (deployed_with assigned)) (JStr rpc_url_text)
      (JStr deployer_key_text) (JStr tok) (JStr deployer_text) n True) (Running s0) () (Running s) \<and>
    serving sb s v \<and> tokens (cv_chain (machine_view sb l)) (address_of tok) = Some t \<and>
    tokens (cv_chain v) (address_of tok) = Some t' \<and> supply_ok t' \<and>
    (\<forall>a. uint (balanceOf t' a) = uint (balanceOf t a) + (if a = address_of deployer_text then n else 0)) \<and>
    cv_pool v = [] \<and> \<not> cv_automine v \<and> cv_height v = cv_height (machine_view sb l) + 1"
proof -
  let ?h = "sandbox_host sb page base rdir (deployed_with assigned)" and ?D = "address_of deployer_text"
  let ?v0 = "machine_view sb l"
  obtain w where w: "passes (ensure_deployment ?h) l (deployed_with assigned) (put_world w l)" "sb_view sb w = ?v0"
    using deployment_passes [OF laws deployed_items(1)] unfolding machine_view_def by blast
  obtain s0 where s0: "started (put_world w l) = Running s0" "passes (start_block_builder ?h) (put_world w l) () (Running s0)"
    using start_passes by blast
  have sv0: "serving sb s0 ?v0" using started_serving [OF ready s0(1) w(2)] .
  have v0: "token_ready ?v0 tok n" "sb_signer sb deployer_key_text = ?D" "cv_pool ?v0 = []"
    using ready by (simp_all add: sandbox_ready_def token_ready_def)
  note mint = mint_ready [OF v0(1) n refl]
  have small: "n < 2 ^ 256"
  proof -
    obtain t :: token where "uint (totalSupply t) + n < 2 ^ 256"
      using v0(1) unfolding token_ready_def by (cases "tokens (cv_chain ?v0) (address_of tok)") (simp_all, blast)
    then show ?thesis using uint_ge_0 [of "totalSupply t"] by linarith
  qed
  obtain h s where m: "passes (mint_token ?h (JStr rpc_url_text) (JStr deployer_key_text) (JStr tok) (JStr deployer_text) n True)
      (Running s0) () (Running s)"
    "served sb s0 s (minted_view h ?D (Mint (address_of tok) ?D (word_of_int n)) ?v0)"
    using mint_passes [OF laws sv0 v0(3) n small, of deployer_key_text tok deployer_text page base rdir "deployed_with assigned"]
      mint v0(2) by auto
  from m(2) have sv: "serving sb s (minted_view h ?D (Mint (address_of tok) ?D (word_of_int n)) ?v0)"
    by (simp add: served_def)
  from mint [of h] obtain t t' where
    "tokens (cv_chain ?v0) (address_of tok) = Some t"
    "tokens (cv_chain (minted_view h ?D (Mint (address_of tok) ?D (word_of_int n)) ?v0)) (address_of tok) = Some t'" "supply_ok t'"
    "\<forall>a. uint (balanceOf t' a) = uint (balanceOf t a) + (if a = ?D then n else 0)"
    "cv_pool (minted_view h ?D (Mint (address_of tok) ?D (word_of_int n)) ?v0) = []"
    "\<not> cv_automine (minted_view h ?D (Mint (address_of tok) ?D (word_of_int n)) ?v0)"
    "cv_height (minted_view h ?D (Mint (address_of tok) ?D (word_of_int n)) ?v0) = cv_height ?v0 + 1"
    by blast
  then show ?thesis using w(1) s0(2) m(1) sv by (intro exI conjI)
qed

text \<open>Both balances, one after the other.\<close>

lemma balances_pass:
  assumes laws: "sandbox_laws sb" and s: "serving sb s v" and t: "tokens (cv_chain v) (address_of tok) = Some t"
  shows "\<exists>s1 s2. passes (token_balance (sandbox_host sb page base rdir dp) (JStr rpc_url_text) (JStr tok) (JStr deployer_text))
        (Running s) (uint (balanceOf t (address_of deployer_text))) (Running s1) \<and>
      passes (token_balance (sandbox_host sb page base rdir dp) (JStr rpc_url_text) (JStr tok) (JStr victim_text))
        (Running s1) (uint (balanceOf t (address_of victim_text))) (Running s2) \<and> serving sb s2 v"
proof -
  obtain s1 where "passes (token_balance (sandbox_host sb page base rdir dp) (JStr rpc_url_text) (JStr tok) (JStr deployer_text))
        (Running s) (uint (balanceOf t (address_of deployer_text))) (Running s1)" and s1: "serving sb s1 v"
    using balance_passes [OF laws s t] unfolding served_def by blast
  moreover obtain s2 where "passes (token_balance (sandbox_host sb page base rdir dp) (JStr rpc_url_text) (JStr tok)
        (JStr victim_text)) (Running s1) (uint (balanceOf t (address_of victim_text))) (Running s2)" "serving sb s2 v"
    using balance_passes [OF laws s1 t] unfolding served_def by blast
  ultimately show ?thesis by blast
qed

text \<open>The payload of a transfer to the victim, which the service and the node take.\<close>

lemma transfer_payload_passes:
  assumes laws: "sandbox_laws sb" and s: "serving sb s v" and v: "cv_pool v = []" and n: "0 \<le> n" "n < 2 ^ 256"
  shows "\<exists>pl tx s'. passes (token_transfer_payload (sandbox_host sb page base rdir dp) (JStr rpc_url_text) 31337
        (JStr deployer_text) (JStr tok) (JStr victim_text) n transfer_gas) (Running s) pl (Running s') \<and> serving sb s' v \<and>
      Transaction_fromJson pl = Inr tx \<and> takes_next sb v tx (address_of deployer_text) (to_victim tok n) \<and>
      dict_get pl ''mempoolTxId'' = JNull"
proof -
  let ?pl = "public_transaction_payload 31337 (cv_nonce v (address_of deployer_text)) (JStr deployer_text) (JStr tok)
      (sb_calldata sb ''transfer(address,uint256)'' [victim_text, dec n]) transfer_gas"
  have call: "call_of tok ''transfer(address,uint256)'' [victim_text, dec n] = Some (to_victim tok n)"
    using n by (simp add: call_of_def uint_text_dec)
  obtain s' where "passes (token_transfer_payload (sandbox_host sb page base rdir dp) (JStr rpc_url_text) 31337
      (JStr deployer_text) (JStr tok) (JStr victim_text) n transfer_gas) (Running s) ?pl (Running s')" "serving sb s' v"
    using payload_passes [OF laws s call, of page base rdir dp 31337 deployer_text transfer_gas]
    unfolding served_def token_transfer_payload_def strs_def list.map by blast
  moreover have "dict_get ?pl ''mempoolTxId'' = JNull" by (simp add: public_transaction_payload_def)
  moreover have "next_nonce v (address_of deployer_text) = cv_nonce v (address_of deployer_text)"
    using v by (simp add: next_nonce_def)
  ultimately show ?thesis
    using payload_taken [OF laws sender_roles(1) call, of v _ 31337] by (auto simp: gas_of_def)
qed

lemma amounts:
  "MINT_AMOUNT = 100000000000000000000" "TRANSFER_AMOUNT = 1000000000000000000"
  "SIM_MINT_AMOUNT = 3000000000000000000" "REAL_TRANSFER_AMOUNT = 1000000000000000000"
  "SIMULATED_TRANSFER_AMOUNT = 1000000000000000000"
  by (simp_all add: MINT_AMOUNT_def TRANSFER_AMOUNT_def SIM_MINT_AMOUNT_def REAL_TRANSFER_AMOUNT_def
      SIMULATED_TRANSFER_AMOUNT_def TOKEN_DECIMALS_def DEFAULT_TOKEN_DECIMALS_def)

text \<open>Submitting the transfer, listing what is pending, mining it by its id, and looking it up again.\<close>

lemma transfer_through_mempool:
  assumes laws: "sandbox_laws sb" and s: "serving sb s v" and v: "cv_pool v = []" "\<not> cv_automine v"
    and tx: "Transaction_fromJson pl = Inr tx" "takes_next sb v tx a x" "exec_tx a x (cv_chain v) \<noteq> None"
  shows "\<exists>r s1 n ls h d s2 r'.
    passes (submit_public_transaction (sandbox_host sb page base rdir dp) (JObj pl)) (Running s)
      (MempoolRecord_toJson r) (Running s1) \<and>
    passes (pending_public_transactions (sandbox_host sb page base rdir dp)) (Running s1)
      (JObj [(''snapshotSeq'', JInt n), (''transactions'', JList ls)]) (Running s1) \<and>
    passes (mine_bundle (sandbox_host sb page base rdir dp) [JObj [(''mempoolTxId'', JStr (mr_mempoolTxId r))]]) (Running s1)
      (JObj (one_result (Some (mr_mempoolTxId r)) h True (cv_height v + 1) d)) (Running s2) \<and>
    passes (public_transaction (sandbox_host sb page base rdir dp) (JStr (mr_mempoolTxId r))) (Running s2)
      (MempoolRecord_toJson r') (Running s2) \<and>
    serving sb s2 (block_mined (accepted_tx h a x v)) \<and> mr_status r' = JStr ''included''"
proof -
  let ?h = "sandbox_host sb page base rdir dp"
  obtain r s1 where sub: "app_handle (sb_env sb) (Post_public_tx pl) s = (Ok200 (MempoolRecord_toJson r), s1)"
    and s1: "serving sb s1 v" "pool_lookup s1 (mr_mempoolTxId r) = Some r" "is_pending r" "mr_transaction r = tx"
      "mr_mempoolTxId r \<noteq> ''''"
    using submit_served [OF laws s tx(1)] by blast
  obtain n ls where pend: "app_handle (sb_env sb) Get_public_pending s1 =
      (Ok200 (JObj [(''snapshotSeq'', JInt n), (''transactions'', JList ls)]), s1)"
    using pending_served [OF s1(1)] by blast
  obtain h d s2 r' where mine: "app_handle (sb_env sb) (Post_bundle (bundle_of [(''mempoolTxId'', JStr (mr_mempoolTxId r))])) s1 =
      (Ok200 (JObj (one_result (Some (mr_mempoolTxId r)) h True (cv_height v + 1) d)), s2)"
    and s2: "serving sb s2 (block_mined (accepted_tx h a x v))"
      "pool_lookup s2 (mr_mempoolTxId r) = Some r'" "mr_status r' = JStr ''included''"
    using mine_record [OF laws s1(1) v s1(2,3,5), of a x] tx(2,3) s1(4) by auto
  have "passes (submit_public_transaction ?h (JObj pl)) (Running s) (MempoolRecord_toJson r) (Running s1)"
    unfolding submit_public_transaction_def by (rule builder_passes [OF sub]) simp
  moreover have "passes (pending_public_transactions ?h) (Running s1)
      (JObj [(''snapshotSeq'', JInt n), (''transactions'', JList ls)]) (Running s1)"
    unfolding pending_public_transactions_def by (rule builder_passes [OF pend]) simp
  moreover have "passes (mine_bundle ?h [JObj [(''mempoolTxId'', JStr (mr_mempoolTxId r))]]) (Running s1)
      (JObj (one_result (Some (mr_mempoolTxId r)) h True (cv_height v + 1) d)) (Running s2)"
    unfolding mine_bundle_def by (rule builder_passes [OF mine]) (simp add: bundle_of_def)
  moreover have "passes (public_transaction ?h (JStr (mr_mempoolTxId r))) (Running s2) (MempoolRecord_toJson r') (Running s2)"
    unfolding public_transaction_def by (rule builder_passes [OF lookup_served [OF s2(1,2)]]) simp
  ultimately show ?thesis using s2(1,3) by blast
qed

text \<open>
  C8. The token-transfer scenario succeeds on the whole sandbox: with the deployment document the
  deployment script writes, a node that obeys its laws, the model of the service, stopped or
  running, and the model of the contracts, its main program ends with 0, all of its checks having passed,
  the victim has exactly the transferred amount more, the deployer what was minted less the
  transfer, and the chain is two blocks longer.
\<close>

theorem token_transfer_passes:
  assumes laws: "sandbox_laws sb" and tok: "tok = env_get assigned ''TOKEN_A_ADDRESS''"
    and ready: "sandbox_ready sb tok MINT_AMOUNT l"
  shows "\<exists>l'. passes (token_transfer_main (sandbox_host sb page base rdir (deployed_with assigned))) l 0 l' \<and>
    token_bal (machine_view sb l') tok victim_text = token_bal (machine_view sb l) tok victim_text + TRANSFER_AMOUNT \<and>
    token_bal (machine_view sb l') tok deployer_text =
      token_bal (machine_view sb l) tok deployer_text + MINT_AMOUNT - TRANSFER_AMOUNT \<and>
    cv_height (machine_view sb l') = cv_height (machine_view sb l) + 2"
proof -
  let ?h = "sandbox_host sb page base rdir (deployed_with assigned)"
    and ?D = "address_of deployer_text" and ?V = "address_of victim_text"
  obtain l1 s0 s1 v t0 t where
    p: "passes (ensure_deployment ?h) l (deployed_with assigned) l1" "passes (start_block_builder ?h) l1 () (Running s0)"
      "passes (mint_token ?h (JStr rpc_url_text) (JStr deployer_key_text) (JStr tok) (JStr deployer_text) MINT_AMOUNT True)
        (Running s0) () (Running s1)" and
    s1: "serving sb s1 v" and t0: "tokens (cv_chain (machine_view sb l)) (address_of tok) = Some t0" and
    t: "tokens (cv_chain v) (address_of tok) = Some t" "supply_ok t"
      "\<forall>a. uint (balanceOf t a) = uint (balanceOf t0 a) + (if a = ?D then MINT_AMOUNT else 0)" and
    v: "cv_pool v = []" "\<not> cv_automine v" "cv_height v = cv_height (machine_view sb l) + 1"
    using prepared [OF laws ready, of page base rdir assigned] amounts by auto
  obtain s2 s3 where b: "passes (token_balance ?h (JStr rpc_url_text) (JStr tok) (JStr deployer_text)) (Running s1)
        (uint (balanceOf t ?D)) (Running s2)"
      "passes (token_balance ?h (JStr rpc_url_text) (JStr tok) (JStr victim_text)) (Running s2) (uint (balanceOf t ?V)) (Running s3)"
    and s3: "serving sb s3 v"
    using balances_pass [OF laws s1 t(1)] by blast
  obtain pl tx s4 where pl: "passes (token_transfer_payload ?h (JStr rpc_url_text) 31337 (JStr deployer_text) (JStr tok)
        (JStr victim_text) TRANSFER_AMOUNT transfer_gas) (Running s3) pl (Running s4)"
    and s4: "serving sb s4 v" and tx: "Transaction_fromJson pl = Inr tx" "takes_next sb v tx ?D (to_victim tok TRANSFER_AMOUNT)"
    using transfer_payload_passes [OF laws s3 v(1), of TRANSFER_AMOUNT page base rdir "deployed_with assigned" tok] amounts by auto
  have "TRANSFER_AMOUNT \<le> uint (balanceOf t ?D)"
    unfolding t(3) [rule_format] amounts using uint_ge_0 [of "balanceOf t0 ?D"] by (simp del: uint_ge_0)
  note move = transfer_ready [OF t(1,2) v(1,2) _ this refl]
  have ok: "exec_tx ?D (to_victim tok TRANSFER_AMOUNT) (cv_chain v) \<noteq> None" using move amounts by auto
  obtain r s5 n ls h d s6 r' where
    q: "passes (submit_public_transaction ?h (JObj pl)) (Running s4) (MempoolRecord_toJson r) (Running s5)"
      "passes (pending_public_transactions ?h) (Running s5) (JObj [(''snapshotSeq'', JInt n), (''transactions'', JList ls)]) (Running s5)"
      "passes (mine_bundle ?h [JObj [(''mempoolTxId'', JStr (mr_mempoolTxId r))]]) (Running s5)
        (JObj (one_result (Some (mr_mempoolTxId r)) h True (cv_height v + 1) d)) (Running s6)"
      "passes (public_transaction ?h (JStr (mr_mempoolTxId r))) (Running s6) (MempoolRecord_toJson r') (Running s6)" and
    s6: "serving sb s6 (block_mined (accepted_tx h ?D (to_victim tok TRANSFER_AMOUNT) v))" "mr_status r' = JStr ''included''"
    using transfer_through_mempool [OF laws s4 v(1,2) tx ok] by blast
  obtain t' where t': "tokens (cv_chain (block_mined (accepted_tx h ?D (to_victim tok TRANSFER_AMOUNT) v))) (address_of tok) = Some t'"
      "moved ?D ?V TRANSFER_AMOUNT t t'"
      "cv_height (block_mined (accepted_tx h ?D (to_victim tok TRANSFER_AMOUNT) v)) = cv_height v + 1"
    using move [of h] amounts by auto
  obtain s7 s8 where c: "passes (token_balance ?h (JStr rpc_url_text) (JStr tok) (JStr deployer_text)) (Running s6)
        (uint (balanceOf t' ?D)) (Running s7)"
      "passes (token_balance ?h (JStr rpc_url_text) (JStr tok) (JStr victim_text)) (Running s7) (uint (balanceOf t' ?V)) (Running s8)"
    and s8: "serving sb s8 (block_mined (accepted_tx h ?D (to_victim tok TRANSFER_AMOUNT) v))"
    using balances_pass [OF laws s6(1) t'(1)] by blast
  have bals: "uint (balanceOf t' ?V) = uint (balanceOf t ?V) + TRANSFER_AMOUNT"
    "uint (balanceOf t' ?D) = uint (balanceOf t ?D) - TRANSFER_AMOUNT"
    using t'(2) roles_differ(3) by (simp_all add: moved_def)
  have checks: "passes (token_transfer_checks (JObj (one_result (Some (mr_mempoolTxId r)) h True (cv_height v + 1) d))
      (MempoolRecord_toJson r') (uint (balanceOf t ?V)) (uint (balanceOf t' ?V))) (Running s8) () (Running s8)"
    by (rule passesI [where f = id]) (use s6(2) bals in \<open>simp add: token_transfer_checks_def fail_if_def\<close>)
  have "passes (token_transfer_main ?h) l 0 (Running s8)"
    unfolding token_transfer_main_def print_step_def
    by (rule passes_bind passes_print p deployed_roles b pl q c checks passes_pret
        passes_lift [OF deployed_items(1)] passes_lift [OF deployed_items(2)]
        passes_lift [OF deployed_token [of assigned, folded tok]]
      | (rule passes_lift, simp add: json_len_def; fail))+
  moreover have "machine_view sb (Running s8) = block_mined (accepted_tx h ?D (to_victim tok TRANSFER_AMOUNT) v)"
    using servingD(4) [OF s8] by (simp add: machine_view_def machine_world_def)
  ultimately show ?thesis
    using t0 t(1,3) t'(1,3) bals roles_differ(3) v(3)
    by (intro exI [of _ "Running s8"]) (simp add: token_bal_def bal_def)
qed

end
