(* ===== verification/Sandbox_Simulation.thy ===== *)
theory Sandbox_Simulation
  imports Sandbox_Scenarios
begin

text \<open>
  The bundle-simulation scenario on the whole sandbox: a transfer that is mined and one that is
  only simulated, with the head of the chain and the balances the scenario compares.
\<close>

section \<open>The head of the chain\<close>

lemma head_laws:
  assumes "sandbox_laws sb" and "serving sb s v"
  shows "dict_get (sb_header sb v) ''number'' = JStr (py_hex (cv_height v))"
    "\<forall>k \<in> {''hash'', ''parentHash'', ''timestamp'', ''baseFeePerGas''}. is_str (dict_get (sb_header sb v) k)"
  using assms(1) servingD(4) [OF assms(2)] unfolding sandbox_laws_def law_reading_def by blast+

lemma head_number:
  assumes "sandbox_laws sb" and "serving sb s v"
  shows "block_number (head_doc sb v) = Inr (cv_height v)"
    "\<exists>m. chain_head_label (head_doc sb v) = Inr m"
    "json_eq (head_doc sb v) (head_doc sb v)"
proof -
  note laws = head_laws [OF assms]
  have str: "\<exists>t. dict_get (sb_header sb v) k = JStr t" if "k \<in> {''hash'', ''parentHash'', ''timestamp'', ''baseFeePerGas''}" for k
    using laws(2) that by (auto simp: is_str_def split: json.splits)
  show n: "block_number (head_doc sb v) = Inr (cv_height v)"
    using laws(1) by (simp add: block_number_def head_doc_def Let_def int_of_hex)
  then show "\<exists>m. chain_head_label (head_doc sb v) = Inr m"
    by (simp add: chain_head_label_def Let_def) (simp add: head_doc_def Let_def)
  obtain a b c d where "dict_get (sb_header sb v) ''hash'' = JStr a" "dict_get (sb_header sb v) ''parentHash'' = JStr b"
    "dict_get (sb_header sb v) ''timestamp'' = JStr c" "dict_get (sb_header sb v) ''baseFeePerGas'' = JStr d"
    using str by (metis insertCI)
  then show "json_eq (head_doc sb v) (head_doc sb v)"
    using laws(1) by (simp add: head_doc_def Let_def)
qed

lemma head_passes:
  assumes laws: "sandbox_laws sb" and s: "serving sb s v"
  shows "\<exists>s'. passes (chain_head_request (sandbox_host sb page base rdir dp)) (Running s) (head_doc sb v) (Running s') \<and>
    serving sb s' v"
proof -
  obtain t where "app_handle (sb_env sb) Get_chain_head s = (Ok200 (head_doc sb v), t)" "serving sb t v"
    using head_served [OF laws s] by blast
  moreover from this(1) have "passes (chain_head_request (sandbox_host sb page base rdir dp)) (Running s) (head_doc sb v) (Running t)"
    unfolding chain_head_request_def by (rule builder_passes) simp
  ultimately show ?thesis by blast
qed

lemma label_passes:
  assumes "sandbox_laws sb" and "serving sb s v"
  shows "passes (plift (chain_head_label (head_doc sb v))) l (projr (chain_head_label (head_doc sb v))) l"
proof (rule passes_lift)
  show "chain_head_label (head_doc sb v) = Inr (projr (chain_head_label (head_doc sb v)))"
    using head_number(2) [OF assms] by auto
qed

section \<open>A transfer mined and a transfer simulated\<close>

lemma transfer_bundle:
  assumes laws: "sandbox_laws sb" and s: "serving sb s v" and v: "cv_pool v = []" "\<not> cv_automine v"
    and tx: "Transaction_fromJson pl = Inr tx" "takes_next sb v tx a x" "exec_tx a x (cv_chain v) \<noteq> None"
      "dict_get pl ''mempoolTxId'' = JNull"
  shows "\<exists>h d s'. passes (mine_bundle (sandbox_host sb page base rdir dp) [JObj pl]) (Running s)
      (JObj (one_result None h True (cv_height v + 1) d)) (Running s') \<and>
    serving sb s' (block_mined (accepted_tx h a x v))"
proof -
  obtain h d s' where m: "app_handle (sb_env sb) (Post_bundle (bundle_of pl)) s =
      (Ok200 (JObj (one_result None h True (cv_height v + 1) d)), s')" "serving sb s' (block_mined (accepted_tx h a x v))"
    using mine_raw [OF laws s v tx(1,4,2)] tx(3) by auto
  have "passes (mine_bundle (sandbox_host sb page base rdir dp) [JObj pl]) (Running s)
      (JObj (one_result None h True (cv_height v + 1) d)) (Running s')"
    unfolding mine_bundle_def by (rule builder_passes [OF m(1)]) (simp add: bundle_of_def)
  then show ?thesis using m(2) by blast
qed

definition simulated_result :: "json \<Rightarrow> int \<Rightarrow> dict \<Rightarrow> dict" where
  "simulated_result h b d = dict_set (one_result None h True b d) ''simulated'' (JBool True)"

lemma simulated_json [simp]:
  "dict_item (simulated_result h b d) ''status'' = Inr (JStr ''included'')"
  "dict_get (simulated_result h b d) ''simulated'' = JBool True"
  "rbind (dict_item (simulated_result h b d) ''transactions'') (\<lambda>ts. json_nth ts 0) = Inr (one_entry None h True b d)"
  by (simp_all add: simulated_result_def one_result_def json_nth_def)

lemma transfer_simulated:
  assumes laws: "sandbox_laws sb" and s: "serving sb s v" and v: "cv_pool v = []" "\<not> cv_automine v"
    and tx: "Transaction_fromJson pl = Inr tx" "takes_next sb v tx a x" "exec_tx a x (cv_chain v) \<noteq> None"
      "dict_get pl ''mempoolTxId'' = JNull"
  shows "\<exists>h d s'. passes (simulate_bundle (sandbox_host sb page base rdir dp) [JObj pl]) (Running s)
      (JObj (simulated_result h (cv_height v + 1) d)) (Running s') \<and> serving sb s' v"
proof -
  obtain h d s' where m: "app_handle (sb_env sb) (Post_bundle_simulate (bundle_of pl)) s =
      (Ok200 (JObj (simulated_result h (cv_height v + 1) d)), s')" "serving sb s' v"
    using simulate_raw [OF laws s v tx(1,4,2)] tx(3) by (auto simp: simulated_result_def)
  have "passes (simulate_bundle (sandbox_host sb page base rdir dp) [JObj pl]) (Running s)
      (JObj (simulated_result h (cv_height v + 1) d)) (Running s')"
    unfolding simulate_bundle_def by (rule builder_passes [OF m(1)]) (simp add: bundle_of_def)
  then show ?thesis using m(2) by blast
qed

section \<open>The scenario\<close>

text \<open>
  C9. The bundle-simulation scenario succeeds on the whole sandbox: its main program ends with 0,
  the mined transfer having advanced the chain, and the simulated one, although it was included in
  the simulation, having left the head of the chain and both balances as they were; in the end
  the victim has exactly one transfer more and the chain is two blocks longer.
\<close>

theorem bundle_simulation_passes:
  assumes laws: "sandbox_laws sb" and tok: "tok = env_get assigned ''TOKEN_A_ADDRESS''"
    and ready: "sandbox_ready sb tok SIM_MINT_AMOUNT l"
  shows "\<exists>l'. passes (bundle_simulation_main (sandbox_host sb page base rdir (deployed_with assigned))) l 0 l' \<and>
    token_bal (machine_view sb l') tok victim_text = token_bal (machine_view sb l) tok victim_text + REAL_TRANSFER_AMOUNT \<and>
    token_bal (machine_view sb l') tok deployer_text =
      token_bal (machine_view sb l) tok deployer_text + SIM_MINT_AMOUNT - REAL_TRANSFER_AMOUNT \<and>
    cv_height (machine_view sb l') = cv_height (machine_view sb l) + 2"
proof -
  let ?h = "sandbox_host sb page base rdir (deployed_with assigned)"
    and ?D = "address_of deployer_text" and ?V = "address_of victim_text"
  obtain l1 s0 s1 v t0 t where
    p: "passes (ensure_deployment ?h) l (deployed_with assigned) l1" "passes (start_block_builder ?h) l1 () (Running s0)"
      "passes (mint_token ?h (JStr rpc_url_text) (JStr deployer_key_text) (JStr tok) (JStr deployer_text) SIM_MINT_AMOUNT True)
        (Running s0) () (Running s1)" and
    s1: "serving sb s1 v" and t0: "tokens (cv_chain (machine_view sb l)) (address_of tok) = Some t0" and
    t: "tokens (cv_chain v) (address_of tok) = Some t" "supply_ok t"
      "\<forall>a. uint (balanceOf t a) = uint (balanceOf t0 a) + (if a = ?D then SIM_MINT_AMOUNT else 0)" and
    v: "cv_pool v = []" "\<not> cv_automine v" "cv_height v = cv_height (machine_view sb l) + 1"
    using prepared [OF laws ready, of page base rdir assigned] amounts by auto
  obtain s2 where h1: "passes (chain_head_request ?h) (Running s1) (head_doc sb v) (Running s2)" and s2: "serving sb s2 v"
    using head_passes [OF laws s1] by blast
  obtain pl tx s3 where pl: "passes (token_transfer_payload ?h (JStr rpc_url_text) 31337 (JStr deployer_text) (JStr tok)
        (JStr victim_text) REAL_TRANSFER_AMOUNT transfer_gas) (Running s2) pl (Running s3)"
    and s3: "serving sb s3 v" and tx: "Transaction_fromJson pl = Inr tx" "takes_next sb v tx ?D (to_victim tok REAL_TRANSFER_AMOUNT)"
      "dict_get pl ''mempoolTxId'' = JNull"
    using transfer_payload_passes [OF laws s2 v(1), of REAL_TRANSFER_AMOUNT page base rdir "deployed_with assigned" tok] amounts by auto
  have enough: "REAL_TRANSFER_AMOUNT \<le> uint (balanceOf t ?D)"
    unfolding t(3) [rule_format] amounts using uint_ge_0 [of "balanceOf t0 ?D"] by (simp del: uint_ge_0)
  note move = transfer_ready [OF t(1,2) v(1,2) _ enough refl]
  have ok: "exec_tx ?D (to_victim tok REAL_TRANSFER_AMOUNT) (cv_chain v) \<noteq> None" using move amounts by auto
  obtain k d s4 where real: "passes (mine_bundle ?h [JObj pl]) (Running s3) (JObj (one_result None k True (cv_height v + 1) d)) (Running s4)"
    and s4: "serving sb s4 (block_mined (accepted_tx k ?D (to_victim tok REAL_TRANSFER_AMOUNT) v))"
    using transfer_bundle [OF laws s3 v(1,2) tx(1,2) ok tx(3)] by blast
  define w where "w = block_mined (accepted_tx k ?D (to_victim tok REAL_TRANSFER_AMOUNT) v)"
  obtain t' where t': "tokens (cv_chain w) (address_of tok) = Some t'" "supply_ok t'" "moved ?D ?V REAL_TRANSFER_AMOUNT t t'"
    and w: "cv_pool w = []" "\<not> cv_automine w" "cv_height w = cv_height v + 1"
    using move [of k] amounts unfolding w_def by auto
  have s4': "serving sb s4 w" using s4 by (simp add: w_def)
  obtain s5 where h2: "passes (chain_head_request ?h) (Running s4) (head_doc sb w) (Running s5)" and s5: "serving sb s5 w"
    using head_passes [OF laws s4'] by blast
  have bals: "uint (balanceOf t' ?V) = uint (balanceOf t ?V) + REAL_TRANSFER_AMOUNT"
    "uint (balanceOf t' ?D) = uint (balanceOf t ?D) - REAL_TRANSFER_AMOUNT"
    using t'(3) roles_differ(3) by (simp_all add: moved_def)
  obtain s6 s7 where b: "passes (token_balance ?h (JStr rpc_url_text) (JStr tok) (JStr deployer_text)) (Running s5)
        (uint (balanceOf t' ?D)) (Running s6)"
      "passes (token_balance ?h (JStr rpc_url_text) (JStr tok) (JStr victim_text)) (Running s6) (uint (balanceOf t' ?V)) (Running s7)"
    and s7: "serving sb s7 w"
    using balances_pass [OF laws s5 t'(1)] by blast
  obtain s8 where h3: "passes (chain_head_request ?h) (Running s7) (head_doc sb w) (Running s8)" and s8: "serving sb s8 w"
    using head_passes [OF laws s7] by blast
  obtain pl' tx' s9 where pl': "passes (token_transfer_payload ?h (JStr rpc_url_text) 31337 (JStr deployer_text) (JStr tok)
        (JStr victim_text) SIMULATED_TRANSFER_AMOUNT transfer_gas) (Running s8) pl' (Running s9)"
    and s9: "serving sb s9 w" and tx': "Transaction_fromJson pl' = Inr tx'"
      "takes_next sb w tx' ?D (to_victim tok SIMULATED_TRANSFER_AMOUNT)" "dict_get pl' ''mempoolTxId'' = JNull"
    using transfer_payload_passes [OF laws s8 w(1), of SIMULATED_TRANSFER_AMOUNT page base rdir "deployed_with assigned" tok] amounts
    by auto
  have "SIMULATED_TRANSFER_AMOUNT \<le> uint (balanceOf t' ?D)"
    unfolding bals(2) t(3) [rule_format] amounts using uint_ge_0 [of "balanceOf t0 ?D"] by (simp del: uint_ge_0)
  then have ok': "exec_tx ?D (to_victim tok SIMULATED_TRANSFER_AMOUNT) (cv_chain w) \<noteq> None"
    using transfer_ready [OF t'(1,2) w(1,2) _ _ refl, of SIMULATED_TRANSFER_AMOUNT] amounts by auto
  obtain k' d' s10 where sim: "passes (simulate_bundle ?h [JObj pl']) (Running s9)
      (JObj (simulated_result k' (cv_height w + 1) d')) (Running s10)" and s10: "serving sb s10 w"
    using transfer_simulated [OF laws s9 w(1,2) tx'(1,2) ok' tx'(3)] by blast
  obtain s11 where h4: "passes (chain_head_request ?h) (Running s10) (head_doc sb w) (Running s11)" and s11: "serving sb s11 w"
    using head_passes [OF laws s10] by blast
  obtain s12 s13 where c: "passes (token_balance ?h (JStr rpc_url_text) (JStr tok) (JStr deployer_text)) (Running s11)
        (uint (balanceOf t' ?D)) (Running s12)"
      "passes (token_balance ?h (JStr rpc_url_text) (JStr tok) (JStr victim_text)) (Running s12) (uint (balanceOf t' ?V)) (Running s13)"
    and s13: "serving sb s13 w"
    using balances_pass [OF laws s11 t'(1)] by blast
  have real_ok: "passes (real_bundle_checks (JObj (one_result None k True (cv_height v + 1) d)) (one_entry None k True (cv_height v + 1) d)
      (head_doc sb v) (head_doc sb w)) (Running s5) () (Running s5)"
    by (rule passesI [where f = id])
      (simp add: real_bundle_checks_def fail_if_def head_number(1) [OF laws s1] head_number(1) [OF laws s5] w(3))
  have sim_ok: "passes (simulation_checks (JObj (simulated_result k' (cv_height w + 1) d')) (one_entry None k' True (cv_height w + 1) d')
      (head_doc sb w) (head_doc sb w) (uint (balanceOf t' ?D)) (uint (balanceOf t' ?D)) (uint (balanceOf t' ?V)) (uint (balanceOf t' ?V)))
      (Running s13) () (Running s13)"
    by (rule passesI [where f = id])
      (simp add: simulation_checks_def fail_if_def head_number(3) [OF laws s5])
  have "passes (bundle_simulation_main ?h) l 0 (Running s13)"
    unfolding bundle_simulation_main_def print_step_def
    by (rule passes_bind passes_print p deployed_roles h1 pl real h2 label_passes [OF laws s1] label_passes [OF laws s5] real_ok
        b h3 pl' sim h4 c sim_ok passes_pret
        passes_lift [OF deployed_items(1)] passes_lift [OF deployed_items(2)]
        passes_lift [OF deployed_token [of assigned, folded tok]]
      | (rule passes_lift, simp; fail))+
  moreover have "machine_view sb (Running s13) = w"
    using servingD(4) [OF s13] by (simp add: machine_view_def machine_world_def)
  ultimately show ?thesis
    using t0 t(1,3) t'(1) bals roles_differ(3) v(3) w(3)
    by (intro exI [of _ "Running s13"]) (simp add: token_bal_def bal_def)
qed

end
