(* ===== verification/Sandbox_Logic.thy ===== *)
theory Sandbox_Logic
  imports Sandbox_Steps
begin

text \<open>
  Total correctness of scripts on the machine of the sandbox: triples of a script with the value it
  ends with, and the triples of the functions that send transactions of their own.
\<close>

section \<open>Triples\<close>

text \<open>From every machine the first predicate holds of, the script goes through, with the value, to one of the second.\<close>

definition does :: "('w \<Rightarrow> bool) \<Rightarrow> ('w, 'a) script \<Rightarrow> 'a \<Rightarrow> ('w \<Rightarrow> bool) \<Rightarrow> bool" where
  "does P m v Q \<longleftrightarrow> (\<forall>l. P l \<longrightarrow> (\<exists>l'. passes m l v l' \<and> Q l'))"

lemma doesI: "(\<And>l. P l \<Longrightarrow> \<exists>l'. passes m l v l' \<and> Q l') \<Longrightarrow> does P m v Q"
  by (simp add: does_def)

lemma doesD: "does P m v Q \<Longrightarrow> P l \<Longrightarrow> \<exists>l'. passes m l v l' \<and> Q l'"
  by (simp add: does_def)

lemma does_stay: "(\<And>l. passes m l v l) \<Longrightarrow> does P m v P"
  unfolding does_def by blast

lemma does_bind: "does P m u R \<Longrightarrow> does R (k u) v Q \<Longrightarrow> does P (pbind m k) v Q"
  unfolding does_def by (meson passes_bind)

lemmas does_pret = does_stay [OF passes_pret]
lemmas does_print = does_stay [OF passes_print]
lemmas does_lift = does_stay [OF passes_lift]

lemma does_fail_if: "\<not> b \<Longrightarrow> does P (fail_if b m) () P"
  by (rule does_stay) (simp add: fail_if_def passes_pret del: pure_Pair)

lemma does_finally: "does P m v R \<Longrightarrow> does R fin () Q \<Longrightarrow> does P (pfinally m fin) v Q"
  unfolding does_def by (meson passes_finally)

section \<open>A quiet machine\<close>

text \<open>
  Nothing waits at the node, which mines by itself or not, stands at a chain and has a height; and
  the service, if it is to be up, serves.
\<close>

definition stands :: "'n sandbox \<Rightarrow> bool \<Rightarrow> bool \<Rightarrow> chain \<Rightarrow> int \<Rightarrow> 'n machine \<Rightarrow> bool" where
  "stands sb up b c n l \<longleftrightarrow>
     (let v = machine_view sb l in cv_pool v = [] \<and> cv_automine v = b \<and> cv_chain v = c \<and> cv_height v = n) \<and>
     (up \<longrightarrow> (\<exists>s. l = Running s \<and> serving sb s (machine_view sb l)))"

lemma standsD:
  assumes "stands sb up b c n l"
  shows "cv_pool (machine_view sb l) = []" "cv_automine (machine_view sb l) = b"
    "cv_chain (machine_view sb l) = c" "cv_height (machine_view sb l) = n"
  using assms by (simp_all add: stands_def Let_def)

lemma machine_put [simp]: "machine_world (put_world w l) = w" "machine_view sb (put_world w l) = sb_view sb w"
  by (simp_all add: machine_view_def machine_world_def put_world_def split: machine.split)

lemma stands_put:
  assumes "stands sb up b c n l" and "sb_view sb w = v" and "cv_pool v = []"
  shows "stands sb up (cv_automine v) (cv_chain v) (cv_height v) (put_world w l)"
proof -
  have "\<exists>t. put_world w l = Running t \<and> serving sb t v" if up: up
  proof -
    obtain s where s: "l = Running s" "serving sb s (machine_view sb l)"
      using assms(1) up unfolding stands_def by blast
    show ?thesis using s(1) world_serving(1) [OF s(2) assms(2)] by (simp add: put_world_def)
  qed
  then show ?thesis using assms(2,3) by (simp add: stands_def Let_def)
qed

lemma stands_same:
  assumes "stands sb up b c n l" and "sb_view sb w = machine_view sb l"
  shows "stands sb up b c n (put_world w l)"
  using stands_put [OF assms] standsD [OF assms(1)] by simp

section \<open>Reading the chain\<close>

lemma does_cast_int:
  assumes "\<And>l. P l \<Longrightarrow> prints_number (fst (sb_cast sb (JStr c # d # cs) (machine_world l))) n"
    and "\<And>l. P l \<Longrightarrow> Q (put_world (snd (sb_cast sb (JStr c # d # cs) (machine_world l))) l)"
  shows "does P (cast_int (sandbox_host sb page base rdir dp) (JStr c # d # cs) cwd) n Q"
proof (rule doesI)
  fix l
  assume l: "P l"
  let ?c = "sb_cast sb (JStr c # d # cs) (machine_world l)"
  obtain post where post: "?c = (Completed (dec n @ post), snd ?c)" "post = [] \<or> is_space (hd post)"
    using assms(1) [OF l] unfolding prints_number_def by (metis prod.collapse)
  have word: "first_word (py_strip (dec n @ post)) = Inr (dec n)"
    using first_word_number [of "[]" "dec n" post] post(2) number_no_space by simp
  have "passes (cast_int (sandbox_host sb page base rdir dp) (JStr c # d # cs) cwd) l n (put_world (snd ?c) l)"
    unfolding cast_int_def
    by (rule passes_bind [OF run_passes [OF post(1)]], rule passes_bind [OF passes_lift [OF word]], rule passes_lift)
      (simp add: int_of_dec)
  then show "\<exists>l'. passes (cast_int (sandbox_host sb page base rdir dp) (JStr c # d # cs) cwd) l n l' \<and> Q l'"
    using assms(2) [OF l] by blast
qed

lemma does_value:
  assumes laws: "sandbox_laws sb" and n: "value_of c k sig args = Some x"
  shows "does (stands sb up b c n) (cast_int (sandbox_host sb page base rdir dp)
      (strs ([''cast'', ''call'', k, sig] @ args @ [''--rpc-url'', rpc_url_text])) cwd) x (stands sb up b c n)"
proof -
  let ?cs = "strs ([''cast'', ''call'', k, sig] @ args @ [''--rpc-url'', rpc_url_text])"
  have law: "law_cast_reading sb" using laws by (simp add: sandbox_laws_def)
  have l: "prints_number (fst (sb_cast sb ?cs (machine_world l))) x"
    "stands sb up b c n (put_world (snd (sb_cast sb ?cs (machine_world l))) l)" if "stands sb up b c n l" for l
  proof -
    have "cv_chain (sb_view sb (machine_world l)) = c" using standsD(3) [OF that] by (simp add: machine_view_def)
    then have "prints_number (fst (sb_cast sb ?cs (machine_world l))) x"
      "sb_view sb (snd (sb_cast sb ?cs (machine_world l))) = sb_view sb (machine_world l)"
      using law n unfolding law_cast_reading_def Let_def shows_view_def by blast+
    then show "prints_number (fst (sb_cast sb ?cs (machine_world l))) x"
      "stands sb up b c n (put_world (snd (sb_cast sb ?cs (machine_world l))) l)"
      using stands_same [OF that] by (simp_all add: machine_view_def)
  qed
  show ?thesis
    unfolding strs_def list.map append.simps
    by (rule does_cast_int; rule l [unfolded strs_def list.map append.simps]; assumption)
qed

lemma does_balance:
  assumes "sandbox_laws sb" and "address_of tok \<in> dom (tokens c)"
  shows "does (stands sb up b c n) (token_balance (sandbox_host sb page base rdir dp) (JStr rpc_url_text) (JStr tok) (JStr a))
    (bal c (address_of tok) (address_of a)) (stands sb up b c n)"
proof -
  have "value_of c tok ''balanceOf(address)(uint256)'' [a] = Some (bal c (address_of tok) (address_of a))"
    using assms(2) by (auto simp: value_of_def bal_def)
  from does_value [OF assms(1) this] show ?thesis by (simp add: token_balance_def strs_def)
qed

lemma does_reserves:
  assumes "sandbox_laws sb" and "pools c (address_of p) = Some d"
  shows "does (stands sb up b c n) (pool_reserves (sandbox_host sb page base rdir dp) (JStr rpc_url_text) (JStr p))
    (uint (reserveA d), uint (reserveB d)) (stands sb up b c n)"
proof -
  let ?h = "sandbox_host sb page base rdir dp"
  have v: "value_of c p ''reserveA()(uint256)'' [] = Some (uint (reserveA d))"
    "value_of c p ''reserveB()(uint256)'' [] = Some (uint (reserveB d))"
    using assms(2) by (simp_all add: value_of_def)
  have r: "does (stands sb up b c n) (cast_int ?h (strs [''cast'', ''call''] @ [JStr p, JStr ''reserveA()(uint256)'',
        JStr ''--rpc-url'', JStr rpc_url_text]) (BLOCKCHAIN_DIR ?h)) (uint (reserveA d)) (stands sb up b c n)"
    "does (stands sb up b c n) (cast_int ?h (strs [''cast'', ''call''] @ [JStr p, JStr ''reserveB()(uint256)'',
        JStr ''--rpc-url'', JStr rpc_url_text]) (BLOCKCHAIN_DIR ?h)) (uint (reserveB d)) (stands sb up b c n)"
    using does_value [OF assms(1) v(1), of up b n page base rdir dp "BLOCKCHAIN_DIR ?h"]
      does_value [OF assms(1) v(2), of up b n page base rdir dp "BLOCKCHAIN_DIR ?h"]
    by (simp_all add: strs_def)
  show ?thesis
    unfolding pool_reserves_def
    by (rule does_bind, rule r(1), rule does_bind, rule r(2), rule does_pret)
qed

lemma does_quote:
  assumes laws: "sandbox_laws sb" and d: "pools c (address_of p) = Some d" and n: "0 \<le> n" "n < 2 ^ 256"
    and q: "SandboxDex_getAmountOut (word_of_int n) (reserveA d) (reserveB d) = Some w"
  shows "does (stands sb up b c k) (quote_amount_out_a_for_b (sandbox_host sb page base rdir dp) (JStr rpc_url_text) (JStr p) n)
    (uint w) (stands sb up b c k)"
proof -
  have "value_of c p ''getAmountOutAForB(uint256)(uint256)'' [dec n] = Some (uint w)"
    using d n q by (simp add: value_of_def uint_text_dec)
  from does_value [OF laws this] show ?thesis by (simp add: quote_amount_out_a_for_b_def strs_def)
qed

section \<open>Sending transactions\<close>

lemma does_switch:
  assumes "sandbox_laws sb"
  shows "does (stands sb up a c n) (pwhen True (set_automine (sandbox_host sb page base rdir dp) (JStr rpc_url_text) b)) ()
    (stands sb up b c n)"
proof (rule doesI)
  fix l
  assume l: "stands sb up a c n l"
  let ?h = "sandbox_host sb page base rdir dp" and ?c = "rpc_call sb 1 ''evm_setAutomine'' [JBool b] (machine_world l)"
  note D = standsD [OF l, unfolded machine_view_def]
  have law: "law_mining sb" using assms by (simp add: sandbox_laws_def)
  obtain r where r: "answers (fst ?c) r" "sb_view sb (snd ?c) = (sb_view sb (machine_world l))\<lparr>cv_automine := b\<rparr>"
    using law D(1) unfolding law_mining_def shows_view_def by metis
  have "passes (pwhen True (set_automine ?h (JStr rpc_url_text) b)) l () (put_world (snd ?c) l)"
    unfolding set_automine_def pwhen_simps by (rule passes_bind [OF rpc_passes [OF r(1)] passes_pret])
  moreover have "stands sb up b c n (put_world (snd ?c) l)"
    using stands_put [OF l r(2)] D by simp
  ultimately show "\<exists>l'. passes (pwhen True (set_automine ?h (JStr rpc_url_text) b)) l () l' \<and> stands sb up b c n l'"
    by blast
qed

lemma does_automine:
  assumes "sandbox_laws sb"
    and "does (stands sb up True c n) m () (stands sb up True c' n')"
  shows "does (stands sb up False c n) (with_automine (sandbox_host sb page base rdir dp) (JStr rpc_url_text) True m) ()
    (stands sb up False c' n')"
  unfolding with_automine_def
  by (rule does_bind, rule does_switch [OF assms(1)], rule does_finally, rule assms(2), rule does_switch [OF assms(1)])

lemma does_no_automine: "does P m () Q \<Longrightarrow> does P (with_automine h u False m) () Q"
  unfolding with_automine_def pwhen_simps
  by (rule does_bind, rule does_pret, rule does_finally, assumption, rule does_pret)

text \<open>Automatic mining is on in the body, switched by the function itself or already before.\<close>

lemma does_manage:
  assumes "sandbox_laws sb" and "does (stands sb up True c n) m () (stands sb up True c' n')"
  shows "does (stands sb up (\<not> manage) c n) (with_automine (sandbox_host sb page base rdir dp) (JStr rpc_url_text) manage m) ()
    (stands sb up (\<not> manage) c' n')"
  using does_automine [OF assms] does_no_automine [OF assms(2)] by (cases manage) simp_all

lemma does_send:
  assumes laws: "sandbox_laws sb" and x: "call_of k sig args = Some x" "exec_tx (sb_signer sb key) x c = Some c'"
  shows "does (stands sb up True c n) (send_contract_transaction (sandbox_host sb page base rdir dp) (JStr rpc_url_text)
      (JStr key) (JStr k) sig (strs args)) () (stands sb up True c' (n + 1))"
proof (rule doesI)
  fix l
  assume l: "stands sb up True c n l"
  let ?h = "sandbox_host sb page base rdir dp" and ?a = "sb_signer sb key"
  note D = standsD [OF l, unfolded machine_view_def]
  define v where "v = sb_view sb (machine_world l)"
  have law: "law_cast_send sb" using laws by (simp add: sandbox_laws_def)
  obtain out w h where out: "sb_cast sb (cast_send k sig args key) (machine_world l) = (Completed out, w)"
    "sb_view sb w = block_mined (accepted_tx h ?a x v)"
    using law [unfolded law_cast_send_def Let_def, rule_format, of k sig args x "machine_world l" key] x D
    by (auto simp: shows_view_def v_def)
  have own: "cv_chain (sb_view sb w) = c'" "cv_pool (sb_view sb w) = []" "cv_automine (sb_view sb w)"
    "cv_height (sb_view sb w) = n + 1"
    using own_block [of v ?a x c' h] D x(2) unfolding out(2) by (simp_all add: v_def)
  have "passes (run ?h (cast_send k sig args key) (BLOCKCHAIN_DIR ?h)) l out (put_world w l)"
    using run_passes [OF out(1) [unfolded cast_send_def strs_def list.map append.simps]]
    by (simp add: cast_send_def strs_def)
  then have "passes (send_contract_transaction ?h (JStr rpc_url_text) (JStr key) (JStr k) sig (strs args)) l () (put_world w l)"
    unfolding send_contract_transaction_def
    by (intro passes_bind [OF _ passes_pret]) (simp add: strs_def cast_send_def)
  moreover have "stands sb up True c' (n + 1) (put_world w l)"
    using stands_put [OF l refl, of w] own by simp
  ultimately show "\<exists>l'. passes (send_contract_transaction ?h (JStr rpc_url_text) (JStr key) (JStr k) sig (strs args)) l () l' \<and>
      stands sb up True c' (n + 1) l'"
    by blast
qed

text \<open>The functions that mint and approve and that seed a pool, when the chain takes their transactions.\<close>

lemma two_texts: "strs [a, b] = [JStr a, JStr b]"
  by (simp add: strs_def)

lemma does_mint:
  assumes laws: "sandbox_laws sb" and n: "0 \<le> n" "n < 2 ^ 256"
    and m: "exec_tx (sb_signer sb key) (Mint (address_of tok) (address_of to) (word_of_int n)) c = Some c'"
  shows "does (stands sb up (\<not> manage) c k) (mint_token (sandbox_host sb page base rdir dp) (JStr rpc_url_text) (JStr key)
      (JStr tok) (JStr to) n manage) () (stands sb up (\<not> manage) c' (k + 1))"
proof -
  have "call_of tok ''mint(address,uint256)'' [to, dec n] = Some (Mint (address_of tok) (address_of to) (word_of_int n))"
    using n by (simp add: call_of_def uint_text_dec)
  from does_send [OF laws this m, of up k page base rdir dp, unfolded two_texts] show ?thesis
    unfolding mint_token_def by (rule does_manage [OF laws])
qed

lemma does_mint_and_approve:
  assumes laws: "sandbox_laws sb" and n: "0 \<le> n" "n < 2 ^ 256"
    and m: "exec_tx (sb_signer sb key) (Mint (address_of tok) (address_of owner) (word_of_int n)) c = Some c1"
    and a: "exec_tx (sb_signer sb okey) (Approve (address_of tok) (address_of sp) (word_of_int n)) c1 = Some c2"
  shows "does (stands sb up (\<not> manage) c k) (mint_and_approve (sandbox_host sb page base rdir dp) (JStr rpc_url_text) (JStr key)
      (JStr okey) (JStr owner) (JStr tok) (JStr sp) n manage) () (stands sb up (\<not> manage) c2 (k + 2))"
proof -
  let ?h = "sandbox_host sb page base rdir dp"
  have x: "call_of tok ''mint(address,uint256)'' [owner, dec n] = Some (Mint (address_of tok) (address_of owner) (word_of_int n))"
    "call_of tok ''approve(address,uint256)'' [sp, dec n] = Some (Approve (address_of tok) (address_of sp) (word_of_int n))"
    using n by (simp_all add: call_of_def uint_text_dec)
  note one = does_send [OF laws x(1) m, of up k page base rdir dp, unfolded two_texts]
  note two = does_send [OF laws x(2) a, of up "k + 1" page base rdir dp, unfolded two_texts]
  have "k + 1 + 1 = k + 2" by simp
  then show ?thesis
    unfolding mint_and_approve_def
    by (intro does_manage [OF laws] does_bind [OF one]) (use two in \<open>simp add: add.commute\<close>)
qed

lemma does_add_liquidity:
  assumes laws: "sandbox_laws sb" and n: "0 \<le> n" "n < 2 ^ 256" and key: "sb_signer sb key = s" "s = address_of who"
    and go: "exec_tx s (Mint (address_of ta) s (word_of_int n)) c = Some c1"
      "exec_tx s (Approve (address_of ta) (address_of p) (word_of_int n)) c1 = Some c2"
      "exec_tx s (Mint (address_of tb) s (word_of_int n)) c2 = Some c3"
      "exec_tx s (Approve (address_of tb) (address_of p) (word_of_int n)) c3 = Some c4"
      "exec_tx s (Seed (address_of p) (word_of_int n) (word_of_int n)) c4 = Some c5"
  shows "does (stands sb up (\<not> manage) c k) (add_pool_liquidity (sandbox_host sb page base rdir dp) (JStr rpc_url_text) (JStr key)
      (JStr who) (JStr ta) (JStr tb) (JStr p) n manage) () (stands sb up (\<not> manage) c5 (k + 5))"
proof -
  let ?h = "sandbox_host sb page base rdir dp"
  have x: "call_of p ''seedLiquidity(uint256,uint256)'' [dec n, dec n] = Some (Seed (address_of p) (word_of_int n) (word_of_int n))"
    using n by (simp add: call_of_def uint_text_dec two_uints_def)
  note one = does_mint_and_approve [OF laws n, of key ta who c c1 key p c2 up False k page base rdir dp, simplified not_False_eq_True]
  note two = does_mint_and_approve [OF laws n, of key tb who c2 c3 key p c4 up False "k + 2" page base rdir dp, simplified not_False_eq_True]
  note three = does_send [OF laws x, of key c4 c5 up "k + 4" page base rdir dp, unfolded two_texts]
  show ?thesis
    unfolding add_pool_liquidity_def
    by (rule does_manage [OF laws], rule does_bind, rule one; (rule does_bind, rule two)?)
      (use go key three in \<open>simp_all add: add.commute\<close>)
qed

end
