(* ===== verification/Sandbox_Trades.thy ===== *)
theory Sandbox_Trades
  imports Sandbox_Logic Sandbox_Scenarios
begin

text \<open>
  The scenarios that trade, on the whole sandbox: starting from a quiet machine, and a call sent
  through the mempool and mined by its id, whether it goes through or reverts.
\<close>

section \<open>Starting\<close>

definition can_start :: "'n sandbox \<Rightarrow> 'n machine \<Rightarrow> bool" where
  "can_start sb l \<longleftrightarrow> ws_order (sb_env sb) {} = [] \<and>
     (case l of
        Stopped w \<Rightarrow> True
      | Running s \<Rightarrow> mempool_inv s \<and> rpcUrl s = rpc_url_text \<and> ws_order (sb_env sb) (subscribers s) = [])"

lemma can_start_put: "can_start sb l \<Longrightarrow> can_start sb (put_world w l)"
  by (auto simp: can_start_def put_world_def mempool_inv_def split: machine.splits)

lemma can_start_serving:
  assumes "can_start sb l" and "started l = Running s"
  shows "serving sb s (machine_view sb l)"
proof (cases l)
  case (Stopped x)
  then show ?thesis
    using assms empty_pool_inv [of "create_app x"]
    by (auto simp: can_start_def serving_def service_main_def create_app_def empty_pool_def rpc_url_text_def
        machine_view_def machine_world_def)
next
  case (Running x)
  then show ?thesis
    using assms by (auto simp: can_start_def serving_def machine_view_def machine_world_def)
qed

abbreviation rests :: "'n sandbox \<Rightarrow> chain \<Rightarrow> int \<Rightarrow> 'n machine \<Rightarrow> bool" where
  "rests sb c n l \<equiv> stands sb False False c n l \<and> can_start sb l"

lemma does_deployment:
  assumes "sandbox_laws sb"
  shows "does (rests sb c n) (ensure_deployment (sandbox_host sb page base rdir (deployed_with assigned)))
    (deployed_with assigned) (rests sb c n)"
proof (rule doesI)
  fix l
  assume l: "rests sb c n l"
  let ?h = "sandbox_host sb page base rdir (deployed_with assigned)"
  obtain w where w: "passes (ensure_deployment ?h) l (deployed_with assigned) (put_world w l)"
    "sb_view sb w = sb_view sb (machine_world l)"
    using deployment_passes [OF assms deployed_items(1)] by blast
  have "rests sb c n (put_world w l)"
    using l stands_same [of sb False False c n l w] can_start_put [of sb l w] w(2) by (simp add: machine_view_def)
  then show "\<exists>l'. passes (ensure_deployment ?h) l (deployed_with assigned) l' \<and> rests sb c n l'"
    using w(1) by blast
qed

lemma does_start:
  "does (rests sb c n) (start_block_builder (sandbox_host sb page base rdir dp)) () (stands sb True False c n)"
proof (rule doesI)
  fix l
  assume l: "rests sb c n l"
  obtain s where s: "started l = Running s" "passes (start_block_builder (sandbox_host sb page base rdir dp)) l () (Running s)"
    using start_passes by blast
  have "serving sb s (machine_view sb l)" using can_start_serving l s(1) by blast
  moreover from this have "machine_view sb (Running s) = machine_view sb l"
    using servingD(4) by (simp add: machine_view_def machine_world_def)
  ultimately have "stands sb True False c n (Running s)" using l by (simp add: stands_def)
  then show "\<exists>l'. passes (start_block_builder (sandbox_host sb page base rdir dp)) l () l' \<and> stands sb True False c n l'"
    using s(2) by blast
qed

section \<open>A call through the mempool\<close>

text \<open>
  The payload of a call is built, submitted, mined by its mempool id and looked up: the answers say
  whether the call went through, and the chain is the one after it.
\<close>

lemma serving_stands:
  assumes "serving sb s v" and "cv_pool v = []"
  shows "stands sb True (cv_automine v) (cv_chain v) (cv_height v) (Running s)"
proof -
  have "machine_view sb (Running s) = v"
    using servingD(4) [OF assms(1)] by (simp add: machine_view_def machine_world_def)
  then show ?thesis using assms by (simp add: stands_def)
qed

lemma call_through_mempool:
  assumes laws: "sandbox_laws sb" and l: "stands sb True False c n l"
    and x: "call_of k sig args = Some x" and frm: "frm \<in> senders" "a = address_of frm" and gas: "gas = gas_of x"
  shows "\<exists>pl l1 r l2 h d l3 r'.
    passes (contract_transaction_payload (sandbox_host sb page base rdir dp) (JStr rpc_url_text) chain_id (JStr frm) (JStr k)
      sig (strs args) gas) l pl l1 \<and>
    passes (submit_public_transaction (sandbox_host sb page base rdir dp) (JObj pl)) l1 (MempoolRecord_toJson r) l2 \<and>
    passes (mine_bundle (sandbox_host sb page base rdir dp) [JObj [(''mempoolTxId'', JStr (mr_mempoolTxId r))]]) l2
      (JObj (one_result (Some (mr_mempoolTxId r)) h (exec_tx a x c \<noteq> None) (n + 1) d)) l3 \<and>
    passes (public_transaction (sandbox_host sb page base rdir dp) (JStr (mr_mempoolTxId r))) l3 (MempoolRecord_toJson r') l3 \<and>
    mr_status r' = JStr (if exec_tx a x c = None then ''reverted'' else ''included'') \<and>
    stands sb True False (after_call a x c) (n + 1) l3"
proof -
  let ?h = "sandbox_host sb page base rdir dp"
  obtain s where s: "l = Running s" "serving sb s (machine_view sb l)" using l by (auto simp: stands_def)
  define v where "v = machine_view sb l"
  have v: "cv_pool v = []" "\<not> cv_automine v" "cv_chain v = c" "cv_height v = n" "serving sb s v"
    using standsD [OF l] s(2) by (simp_all add: v_def)
  obtain s1 where s1: "passes (contract_transaction_payload ?h (JStr rpc_url_text) chain_id (JStr frm) (JStr k) sig (strs args) gas)
      (Running s) (public_transaction_payload chain_id (cv_nonce v a) (JStr frm) (JStr k) (sb_calldata sb sig args) gas) (Running s1)"
    "serving sb s1 v"
    using payload_passes [OF laws v(5) x, of page base rdir dp chain_id frm gas] unfolding served_def frm(2) by blast
  have "next_nonce v (address_of frm) = cv_nonce v a" using v(1) frm(2) by (simp add: next_nonce_def)
  from payload_taken [OF laws frm(1) x this, of chain_id] obtain tx where
    tx: "Transaction_fromJson (public_transaction_payload chain_id (cv_nonce v a) (JStr frm) (JStr k) (sb_calldata sb sig args) gas)
        = Inr tx" "takes_next sb v tx a x"
    unfolding frm(2) gas by blast
  obtain r s2 where sub: "app_handle (sb_env sb) (Post_public_tx (public_transaction_payload chain_id (cv_nonce v a) (JStr frm)
        (JStr k) (sb_calldata sb sig args) gas)) s1 = (Ok200 (MempoolRecord_toJson r), s2)"
    and s2: "serving sb s2 v" "pool_lookup s2 (mr_mempoolTxId r) = Some r" "is_pending r" "mr_transaction r = tx"
      "mr_mempoolTxId r \<noteq> ''''"
    using submit_served [OF laws s1(2) tx(1)] by blast
  obtain h d s3 r' where mine: "app_handle (sb_env sb) (Post_bundle (bundle_of [(''mempoolTxId'', JStr (mr_mempoolTxId r))])) s2 =
      (Ok200 (JObj (one_result (Some (mr_mempoolTxId r)) h (exec_tx a x c \<noteq> None) (n + 1) d)), s3)"
    and s3: "serving sb s3 (block_mined (accepted_tx h a x v))" "pool_lookup s3 (mr_mempoolTxId r) = Some r'"
      "mr_status r' = JStr (if exec_tx a x c = None then ''reverted'' else ''included'')"
    using mine_record [OF laws s2(1) v(1,2) s2(2,3,5), of a x] tx(2) s2(4) unfolding v(3,4) by auto
  have "passes (submit_public_transaction ?h (JObj (public_transaction_payload chain_id (cv_nonce v a) (JStr frm)
        (JStr k) (sb_calldata sb sig args) gas))) (Running s1) (MempoolRecord_toJson r) (Running s2)"
    unfolding submit_public_transaction_def by (rule builder_passes [OF sub]) simp
  moreover have "passes (mine_bundle ?h [JObj [(''mempoolTxId'', JStr (mr_mempoolTxId r))]]) (Running s2)
      (JObj (one_result (Some (mr_mempoolTxId r)) h (exec_tx a x c \<noteq> None) (n + 1) d)) (Running s3)"
    unfolding mine_bundle_def by (rule builder_passes [OF mine]) (simp add: bundle_of_def)
  moreover have "passes (public_transaction ?h (JStr (mr_mempoolTxId r))) (Running s3) (MempoolRecord_toJson r') (Running s3)"
    unfolding public_transaction_def by (rule builder_passes [OF lookup_served [OF s3(1,2)]]) simp
  moreover have "stands sb True False (after_call a x c) (n + 1) (Running s3)"
    using serving_stands [OF s3(1)] v unfolding one_block [OF v(1)] by (simp add: after_call_def split: option.splits)
  ultimately show ?thesis using s1(1) s3(3) s(1) by blast
qed

section \<open>A pool with liquidity\<close>

text \<open>
  A pool is empty, or seeded on both sides with amounts that leave room for calculations; and the
  reserves it has after it is made sure that it has liquidity.
\<close>

definition pool_usable :: "dex \<Rightarrow> bool" where
  "pool_usable d \<longleftrightarrow> (reserveA d = 0 \<and> reserveB d = 0) \<or>
     (0 < reserveA d \<and> 0 < reserveB d \<and> small (uint (reserveA d)) \<and> small (uint (reserveB d)))"

definition seeded_reserves :: "int \<Rightarrow> dex \<Rightarrow> int \<times> int" where
  "seeded_reserves n d = (if reserveA d = 0 then (n, n) else (uint (reserveA d), uint (reserveB d)))"

text \<open>The deployer can prepare the market of a pool: it mints both tokens, with room for the amounts.\<close>

definition market :: "chain \<Rightarrow> address \<Rightarrow> address \<Rightarrow> dex \<Rightarrow> int \<Rightarrow> int \<Rightarrow> bool" where
  "market c s p d n m \<longleftrightarrow> chain_inv c \<and> pools c p = Some d \<and> p \<noteq> 0 \<and> pools c s = None \<and>
     mints s c (dex_tokenA d) \<and> mints s c (dex_tokenB d) \<and>
     supplied c (dex_tokenA d) + n < 2 ^ 256 \<and> supplied c (dex_tokenB d) + m < 2 ^ 256"

text \<open>From one chain to another the reserves of a pool have changed, and balances of its minter and of itself.\<close>

definition reseeded :: "address \<Rightarrow> address \<Rightarrow> dex \<Rightarrow> chain \<Rightarrow> chain \<Rightarrow> bool" where
  "reseeded s p d' c c' \<longleftrightarrow> same_market c c' \<and> pools c' = (pools c)(p := Some d') \<and>
     (\<forall>k x. x \<noteq> s \<longrightarrow> x \<noteq> p \<longrightarrow> bal c' k x = bal c k x)"

text \<open>Seeding one pool, with automatic mining switched on or on already.\<close>

lemma does_seeding:
  assumes laws: "sandbox_laws sb" and key: "sb_signer sb key = s" "s = address_of who" "s \<noteq> 0" and n: "0 < n" "small n"
    and mk: "market c s (address_of p) d (n + m) (n + m')" "0 \<le> m" "0 \<le> m'"
    and fits: "small (uint (reserveA d))" "small (uint (reserveB d))"
    and tok: "dex_tokenA d = address_of ta" "dex_tokenB d = address_of tb"
  shows "\<exists>c' d'. (\<forall>up manage k. does (stands sb up (\<not> manage) c k)
      (add_pool_liquidity (sandbox_host sb page base rdir dp) (JStr rpc_url_text) (JStr key) (JStr who) (JStr ta) (JStr tb)
        (JStr p) n manage) () (stands sb up (\<not> manage) c' (k + 5))) \<and>
    reseeded s (address_of p) d' c c' \<and> market c' s (address_of p) d' m m' \<and>
    dex_tokenA d' = dex_tokenA d \<and> dex_tokenB d' = dex_tokenB d \<and>
    uint (reserveA d') = uint (reserveA d) + n \<and> uint (reserveB d') = uint (reserveB d) + n \<and>
    (\<forall>j. supplied c' j \<le> supplied c j + n)"
proof -
  let ?p = "address_of p"
  note M = mk(1) [unfolded market_def]
  have room: "supplied c (dex_tokenA d) + n < 2 ^ 256" "supplied c (dex_tokenB d) + n < 2 ^ 256"
    using M mk(2,3) by linarith+
  have parts: "chain_inv c" "pools c ?p = Some d" "?p \<noteq> 0" "pools c s = None" "mints s c (dex_tokenA d)"
    "mints s c (dex_tokenB d)"
    using M by simp_all
  obtain c1 c2 c3 c4 c5 a b where
    go: "exec_tx s (Mint (dex_tokenA d) s (word_of_int n)) c = Some c1"
      "exec_tx s (Approve (dex_tokenA d) ?p (word_of_int n)) c1 = Some c2"
      "exec_tx s (Mint (dex_tokenB d) s (word_of_int n)) c2 = Some c3"
      "exec_tx s (Approve (dex_tokenB d) ?p (word_of_int n)) c3 = Some c4"
      "exec_tx s (Seed ?p (word_of_int n) (word_of_int n)) c4 = Some c5" and
    c5: "same_market c c5" "pools c5 = (pools c)(?p := Some (d\<lparr>reserveA := a, reserveB := b\<rparr>))"
      "uint a = uint (reserveA d) + n" "uint b = uint (reserveB d) + n"
      "\<forall>k. supplied c5 k = supplied c k + (if k = dex_tokenA d \<or> k = dex_tokenB d then n else 0)"
      "\<forall>k x. x \<noteq> s \<longrightarrow> x \<noteq> ?p \<longrightarrow> bal c5 k x = bal c k x"
    using liquidity_goes [OF parts(1-3) key(3) parts(4-6) n fits room] by blast
  have "0 \<le> n" "n < 2 ^ 256" using n small_max by simp_all
  note add = does_add_liquidity [OF laws this key(1,2), of ta c c1 p c2 tb c3 c4 c5, folded tok, OF go]
  have "reseeded s ?p (d\<lparr>reserveA := a, reserveB := b\<rparr>) c c5" using c5(1,2,6) by (simp add: reseeded_def)
  moreover have "market c5 s ?p (d\<lparr>reserveA := a, reserveB := b\<rparr>) m m'"
    using M c5(1,2,5) n(1) key by (auto simp: market_def same_market_def)
  moreover have "supplied c5 j \<le> supplied c j + n" for j using c5(5) n(1) by simp
  ultimately show ?thesis
    using add c5(3,4) by (intro exI [of _ c5] exI [of _ "d\<lparr>reserveA := a, reserveB := b\<rparr>"]) simp
qed

lemma does_ensure_liquidity:
  assumes laws: "sandbox_laws sb" and key: "sb_signer sb key = s" "s = address_of who" "s \<noteq> 0" and n: "0 < n" "small n"
    and mk: "market c s (address_of p) d (n + m) (n + m')" "0 \<le> m" "0 \<le> m'" and d: "pool_usable d"
    and tok: "dex_tokenA d = address_of ta" "dex_tokenB d = address_of tb"
  shows "\<exists>c' k' d'. does (stands sb up False c k) (ensure_pool_liquidity (sandbox_host sb page base rdir dp) (JStr rpc_url_text)
      (JStr key) (JStr who) (JStr ta) (JStr tb) (JStr p) n) () (stands sb up False c' k') \<and>
    reseeded s (address_of p) d' c c' \<and> market c' s (address_of p) d' m m' \<and>
    dex_tokenA d' = dex_tokenA d \<and> dex_tokenB d' = dex_tokenB d \<and>
    (uint (reserveA d'), uint (reserveB d')) = seeded_reserves n d \<and> (\<forall>j. supplied c' j \<le> supplied c j + n)"
proof -
  let ?h = "sandbox_host sb page base rdir dp" and ?p = "address_of p"
  note M = mk(1) [unfolded market_def]
  have p: "pools c ?p = Some d" using M by simp
  have reserves: "does (stands sb up False c k) (pool_reserves ?h (JStr rpc_url_text) (JStr p))
      (uint (reserveA d), uint (reserveB d)) (stands sb up False c k)"
    by (rule does_reserves [OF laws p])
  show ?thesis
  proof (cases "reserveA d = 0")
    case False
    then have pos: "0 < uint (reserveA d)" "0 < uint (reserveB d)"
      using d by (simp_all add: pool_usable_def word_less_def)
    have "does (stands sb up False c k) (ensure_pool_liquidity ?h (JStr rpc_url_text) (JStr key) (JStr who) (JStr ta) (JStr tb)
        (JStr p) n) () (stands sb up False c k)"
      unfolding ensure_pool_liquidity_def
      by (rule does_bind, rule reserves) (use pos in \<open>simp add: does_print\<close>)
    moreover have "reseeded s ?p d c c" using p M by (simp add: reseeded_def same_market_def fun_upd_idem)
    moreover have "market c s ?p d m m'" using M mk(2,3) n(1) by (simp add: market_def)
    ultimately show ?thesis using False by (intro exI conjI) (assumption+, use n(1) in \<open>simp_all add: seeded_reserves_def\<close>)
  next
    case True
    then have zero: "uint (reserveA d) = 0" "uint (reserveB d) = 0" using d by (auto simp: pool_usable_def)
    then have "small (uint (reserveA d))" "small (uint (reserveB d))" by (simp_all add: small_def)
    from does_seeding [OF laws key n mk this tok, of page base rdir dp]
    obtain c5 d5 where add: "\<And>up manage k. does (stands sb up (\<not> manage) c k)
        (add_pool_liquidity ?h (JStr rpc_url_text) (JStr key) (JStr who) (JStr ta) (JStr tb) (JStr p) n manage) ()
        (stands sb up (\<not> manage) c5 (k + 5))" and
      c5: "reseeded s ?p d5 c c5" "market c5 s ?p d5 m m'" "dex_tokenA d5 = dex_tokenA d" "dex_tokenB d5 = dex_tokenB d"
        "uint (reserveA d5) = uint (reserveA d) + n" "uint (reserveB d5) = uint (reserveB d) + n"
        "\<forall>j. supplied c5 j \<le> supplied c j + n"
      by blast
    have "does (stands sb up False c k) (ensure_pool_liquidity ?h (JStr rpc_url_text) (JStr key) (JStr who) (JStr ta) (JStr tb)
        (JStr p) n) () (stands sb up False c5 (k + 5))"
      unfolding ensure_pool_liquidity_def print_step_def
      by (rule does_bind, rule reserves, simp only: zero prod.case less_irrefl simp_thms if_False,
        rule does_bind, rule does_print, rule add [where manage = True, simplified not_True_eq_False])
    then show ?thesis using True zero c5 by (intro exI conjI) (assumption+, simp_all add: seeded_reserves_def)
  qed
qed

end
