(* ===== verification/Sandbox_Swaps.thy ===== *)
theory Sandbox_Swaps
  imports Sandbox_Trades
begin

text \<open>
  The victim-swap and the victim-swap-revert scenario on the whole sandbox: the swap that is quoted
  is mined and pays the quote, and the swap that asks for more reverts and changes no balance.
\<close>

section \<open>The preparation\<close>

abbreviation deployer :: address where "deployer \<equiv> address_of deployer_text"
abbreviation victim :: address where "victim \<equiv> address_of victim_text"

definition token_a_of :: "(string \<times> string) list \<Rightarrow> string" where "token_a_of assigned = env_get assigned ''TOKEN_A_ADDRESS''"
definition token_b_of :: "(string \<times> string) list \<Rightarrow> string" where "token_b_of assigned = env_get assigned ''TOKEN_B_ADDRESS''"
definition pool_of :: "(string \<times> string) list \<Rightarrow> string" where "pool_of assigned = env_get assigned ''POOL_1_ADDRESS''"

text \<open>The keys sign for their accounts.\<close>

definition keys_sign :: "'n sandbox \<Rightarrow> bool" where
  "keys_sign sb \<longleftrightarrow> sb_signer sb deployer_key_text = deployer \<and> sb_signer sb victim_key_text = victim"

text \<open>The pool of the deployment, which the deployer can seed, with an account of the victim.\<close>

definition swap_market :: "(string \<times> string) list \<Rightarrow> chain \<Rightarrow> dex \<Rightarrow> bool" where
  "swap_market assigned c d \<longleftrightarrow>
     market c deployer (address_of (pool_of assigned)) d (SWAP_POOL_SEED_AMOUNT + SWAP_AMOUNT_A) SWAP_POOL_SEED_AMOUNT \<and>
     pool_usable d \<and> pools c victim = None \<and>
     dex_tokenA d = address_of (token_a_of assigned) \<and> dex_tokenB d = address_of (token_b_of assigned)"

lemma swap_amounts:
  "SWAP_POOL_SEED_AMOUNT = 100000000000000000000000" "SWAP_AMOUNT_A = 100000000000000000000"
  by (simp_all add: SWAP_POOL_SEED_AMOUNT_def SWAP_AMOUNT_A_def TOKEN_DECIMALS_def DEFAULT_TOKEN_DECIMALS_def)

text \<open>After it: the pool has its reserves, and the victim the input of the swap, which the pool may take.\<close>

definition swap_prepared :: "(string \<times> string) list \<Rightarrow> chain \<Rightarrow> dex \<Rightarrow> chain \<Rightarrow> dex \<Rightarrow> bool" where
  "swap_prepared assigned c d c' d' \<longleftrightarrow> chain_inv c' \<and> pools c' (address_of (pool_of assigned)) = Some d' \<and>
     pools c' victim = None \<and> dex_tokenA d' = dex_tokenA d \<and> dex_tokenB d' = dex_tokenB d \<and>
     dex_tokenA d \<in> dom (tokens c') \<and> dex_tokenB d \<in> dom (tokens c') \<and>
     (uint (reserveA d'), uint (reserveB d')) = seeded_reserves SWAP_POOL_SEED_AMOUNT d \<and>
     bal c' (dex_tokenA d) victim = bal c (dex_tokenA d) victim + SWAP_AMOUNT_A \<and>
     bal c' (dex_tokenB d) victim = bal c (dex_tokenB d) victim \<and>
     allowed c' (dex_tokenA d) victim (address_of (pool_of assigned)) = SWAP_AMOUNT_A"

abbreviation swap_of :: "(string \<times> string) list \<Rightarrow> swap_setup" where
  "swap_of assigned \<equiv> \<lparr>sw_rpc_url = JStr rpc_url_text, sw_chain_id = 31337, sw_token_a = JStr (token_a_of assigned),
     sw_token_b = JStr (token_b_of assigned), sw_pool = JStr (pool_of assigned), sw_victim = JStr victim_text\<rparr>"

lemma does_swap_prepare:
  assumes laws: "sandbox_laws sb" and keys: "keys_sign sb" and mk: "swap_market assigned c d"
  shows "\<exists>c' n' d'. does (rests sb c n) (swap_prepare (sandbox_host sb page base rdir (deployed_with assigned)))
      (swap_of assigned) (stands sb True False c' n') \<and> swap_prepared assigned c d c' d'"
proof -
  let ?h = "sandbox_host sb page base rdir (deployed_with assigned)" and ?p = "address_of (pool_of assigned)"
  note M = mk [unfolded swap_market_def]
  have key: "sb_signer sb deployer_key_text = deployer" "sb_signer sb victim_key_text = victim"
    using keys by (simp_all add: keys_sign_def)
  have n: "0 < SWAP_POOL_SEED_AMOUNT" "small SWAP_POOL_SEED_AMOUNT" "0 \<le> SWAP_AMOUNT_A" "SWAP_AMOUNT_A < 2 ^ 256"
    by (simp_all add: swap_amounts small_def)
  have mk': "market c deployer ?p d (SWAP_POOL_SEED_AMOUNT + SWAP_AMOUNT_A) (SWAP_POOL_SEED_AMOUNT + 0)" using M by simp
  obtain c1 n1 d' where
    seed: "does (stands sb True False c n) (ensure_pool_liquidity ?h (JStr rpc_url_text) (JStr deployer_key_text)
        (JStr deployer_text) (JStr (token_a_of assigned)) (JStr (token_b_of assigned)) (JStr (pool_of assigned))
        SWAP_POOL_SEED_AMOUNT) () (stands sb True False c1 n1)" and
    c1: "reseeded deployer ?p d' c c1" "market c1 deployer ?p d' SWAP_AMOUNT_A 0" "dex_tokenA d' = dex_tokenA d"
      "dex_tokenB d' = dex_tokenB d" "(uint (reserveA d'), uint (reserveB d')) = seeded_reserves SWAP_POOL_SEED_AMOUNT d"
    using does_ensure_liquidity [OF laws key(1) refl roles_differ(1) n(1,2) mk' n(3) order_refl, of "token_a_of assigned"
        "token_b_of assigned" True n page base rdir "deployed_with assigned"] M by blast
  have vp: "victim \<noteq> ?p" using M by (auto simp: market_def)
  have v: "pools c1 victim = None" using c1(1) M vp by (simp add: reseeded_def)
  obtain c2 c3 where go: "exec_tx deployer (Mint (dex_tokenA d) victim (word_of_int SWAP_AMOUNT_A)) c1 = Some c2"
      "exec_tx victim (Approve (dex_tokenA d) ?p (word_of_int SWAP_AMOUNT_A)) c2 = Some c3" and
    c3: "same_market c1 c3" "pools c3 = pools c1"
      "\<forall>j a. bal c3 j a = bal c1 j a + (if j = dex_tokenA d \<and> a = victim then SWAP_AMOUNT_A else 0)"
      "allowed c3 (dex_tokenA d) victim ?p = SWAP_AMOUNT_A"
    using mint_and_approve_goes [of c1 deployer "dex_tokenA d" victim SWAP_AMOUNT_A ?p] c1(2,3) roles_differ(2) v n(3)
    by (auto simp: market_def)
  have fund: "does (stands sb True False c1 n1) (mint_and_approve ?h (JStr rpc_url_text) (JStr deployer_key_text)
      (JStr victim_key_text) (JStr victim_text) (JStr (token_a_of assigned)) (JStr (pool_of assigned)) SWAP_AMOUNT_A True) ()
      (stands sb True False c3 (n1 + 2))"
    using does_mint_and_approve [OF laws n(3,4), of deployer_key_text "token_a_of assigned" victim_text c1 c2 victim_key_text
        "pool_of assigned" c3 True True n1 page base rdir "deployed_with assigned"] go key M by simp
  have "does (rests sb c n) (swap_prepare ?h) (swap_of assigned) (stands sb True False c3 (n1 + 2))"
    unfolding swap_prepare_def print_step_def token_a_of_def token_b_of_def pool_of_def
    by (rule does_bind does_print does_deployment [OF laws] does_start seed [unfolded token_a_of_def token_b_of_def pool_of_def]
        fund [unfolded token_a_of_def pool_of_def] does_stay [OF deployed_roles(1)] does_stay [OF deployed_roles(2)]
        does_lift [OF deployed_items(1)] does_lift [OF deployed_items(2)] does_lift [OF deployed_items(3)]
        does_pret
      | (rule does_lift, simp; fail))+
  moreover have "swap_prepared assigned c d c3 d'"
  proof -
    have "pool_ok c ?p d" using M by (simp add: market_def chain_inv_def)
    then have ne: "dex_tokenA d \<noteq> dex_tokenB d" by (simp add: pool_ok_def)
    have "chain_inv c3" "dom (tokens c3) = dom (tokens c1)" using c3(1) by (simp_all add: same_market_def)
    moreover have "dex_tokenA d \<in> dom (tokens c1)" "dex_tokenB d \<in> dom (tokens c1)" "pools c1 ?p = Some d'"
      using c1(2-4) mints_dom by (auto simp: market_def)
    moreover have "bal c1 k victim = bal c k victim" for k using c1(1) vp roles_differ(3) by (simp add: reseeded_def)
    ultimately show ?thesis using c1(3-5) c3(2-4) v ne by (simp add: swap_prepared_def)
  qed
  ultimately show ?thesis by blast
qed

section \<open>The swap\<close>

lemma swap_executes:
  assumes laws: "sandbox_laws sb" and l: "stands sb True False c n l" and m: "0 \<le> m" "m < 2 ^ 256"
    and x: "x = SwapAB (address_of (pool_of assigned)) (word_of_int SWAP_AMOUNT_A) (word_of_int m)"
    and c': "c' = after_call victim x c"
    and toks: "address_of (token_a_of assigned) \<in> dom (tokens c)" "address_of (token_b_of assigned) \<in> dom (tokens c)"
      "dom (tokens c') = dom (tokens c)"
  shows "\<exists>out l'. passes (swap_execute (sandbox_host sb page base rdir dp) (swap_of assigned) m s1 s2) l out l' \<and>
    stands sb True False c' (n + 1) l' \<and>
    json_item (so_bundle out) ''status'' = Inr (JStr (if exec_tx victim x c = None then ''failed'' else ''included'')) \<and>
    json_item (so_tx out) ''status'' = Inr (JStr (if exec_tx victim x c = None then ''reverted'' else ''included'')) \<and>
    json_item (so_record out) ''status'' = Inr (JStr (if exec_tx victim x c = None then ''reverted'' else ''included'')) \<and>
    so_a_before out = bal c (address_of (token_a_of assigned)) victim \<and>
    so_a_after out = bal c' (address_of (token_a_of assigned)) victim \<and>
    so_b_before out = bal c (address_of (token_b_of assigned)) victim \<and>
    so_b_after out = bal c' (address_of (token_b_of assigned)) victim"
proof -
  let ?h = "sandbox_host sb page base rdir dp"
  let ?bal = "\<lambda>t. token_balance ?h (JStr rpc_url_text) (JStr t) (JStr victim_text)"
  note B = does_balance [OF laws, of _ _ True False _ page base rdir dp victim_text, THEN doesD]
  obtain l1 where l1: "passes (?bal (token_a_of assigned)) l (bal c (address_of (token_a_of assigned)) victim) l1"
    "stands sb True False c n l1" using B [OF toks(1) l] by blast
  obtain l2 where l2: "passes (?bal (token_b_of assigned)) l1 (bal c (address_of (token_b_of assigned)) victim) l2"
    "stands sb True False c n l2" using B [OF toks(2) l1(2)] by blast
  have call: "call_of (pool_of assigned) ''swapExactAForB(uint256,uint256)'' [dec SWAP_AMOUNT_A, dec m] = Some x"
    using m by (simp add: x call_of_def two_uints_def uint_text_dec swap_amounts)
  define ok where "ok \<longleftrightarrow> exec_tx victim x c \<noteq> None"
  have gas: "default_gas = gas_of x" by (simp add: x gas_of_def)
  obtain pl l3 r l4 h d l5 r' where
    p: "passes (contract_transaction_payload ?h (JStr rpc_url_text) 31337 (JStr victim_text) (JStr (pool_of assigned))
        ''swapExactAForB(uint256,uint256)'' [JStr (dec SWAP_AMOUNT_A), JStr (dec m)] default_gas) l2 pl l3"
      "passes (submit_public_transaction ?h (JObj pl)) l3 (MempoolRecord_toJson r) l4"
      "passes (mine_bundle ?h [JObj [(''mempoolTxId'', JStr (mr_mempoolTxId r))]]) l4
        (JObj (one_result (Some (mr_mempoolTxId r)) h ok (n + 1) d)) l5"
      "passes (public_transaction ?h (JStr (mr_mempoolTxId r))) l5 (MempoolRecord_toJson r') l5" and
    r: "mr_status r' = JStr (if exec_tx victim x c = None then ''reverted'' else ''included'')"
      "stands sb True False c' (n + 1) l5"
    using call_through_mempool [where frm = victim_text and gas = default_gas and a = victim and chain_id = 31337 and page = page
        and base = base and rdir = rdir and dp = dp, OF laws l2(2) call sender_roles(2) refl]
    unfolding two_texts c' gas ok_def by blast
  obtain l6 where l6: "passes (?bal (token_a_of assigned)) l5 (bal c' (address_of (token_a_of assigned)) victim) l6"
    "stands sb True False c' (n + 1) l6" using B [OF _ r(2), of "token_a_of assigned"] toks by auto
  obtain l7 where l7: "passes (?bal (token_b_of assigned)) l6 (bal c' (address_of (token_b_of assigned)) victim) l7"
    "stands sb True False c' (n + 1) l7" using B [OF _ l6(2), of "token_b_of assigned"] toks by auto
  have "passes (swap_execute ?h (swap_of assigned) m s1 s2) l
      \<lparr>so_bundle = JObj (one_result (Some (mr_mempoolTxId r)) h ok (n + 1) d),
       so_tx = one_entry (Some (mr_mempoolTxId r)) h ok (n + 1) d,
       so_record = MempoolRecord_toJson r', so_a_before = bal c (address_of (token_a_of assigned)) victim,
       so_a_after = bal c' (address_of (token_a_of assigned)) victim,
       so_b_before = bal c (address_of (token_b_of assigned)) victim,
       so_b_after = bal c' (address_of (token_b_of assigned)) victim\<rparr> l7"
    unfolding swap_execute_def print_step_def swap_setup.simps
    by (rule passes_bind passes_print l1(1) l2(1) p l6(1) l7(1) passes_pret | (rule passes_lift, simp; fail))+
  then show ?thesis using l7(2) r(1) by (intro exI conjI) (assumption+, simp_all add: ok_def)
qed

section \<open>The scenarios\<close>

text \<open>
  Ready for a swap: nothing is under way, the keys sign, the pool's market can be prepared, and the
  quote, on the reserves the pool will then have, is a positive amount.
\<close>

definition swap_ready :: "'n sandbox \<Rightarrow> (string \<times> string) list \<Rightarrow> dex \<Rightarrow> int \<Rightarrow> 'n machine \<Rightarrow> bool" where
  "swap_ready sb assigned d q l \<longleftrightarrow> can_start sb l \<and> keys_sign sb \<and>
     cv_pool (machine_view sb l) = [] \<and> \<not> cv_automine (machine_view sb l) \<and>
     swap_market assigned (cv_chain (machine_view sb l)) d \<and>
     sandbox_amount_out SWAP_AMOUNT_A (fst (seeded_reserves SWAP_POOL_SEED_AMOUNT d))
       (snd (seeded_reserves SWAP_POOL_SEED_AMOUNT d)) = Inr q \<and> 0 < q"

definition victim_bal :: "'n sandbox \<Rightarrow> 'n machine \<Rightarrow> string \<Rightarrow> int" where
  "victim_bal sb l tok = bal (cv_chain (machine_view sb l)) (address_of tok) victim"

text \<open>The prepared swap on the chain: up to the quote it goes through, above it it reverts.\<close>

lemma prepared_swap:
  assumes prep: "swap_prepared assigned c d c' d'" and mk: "swap_market assigned c d"
    and q: "sandbox_amount_out SWAP_AMOUNT_A (fst (seeded_reserves SWAP_POOL_SEED_AMOUNT d))
       (snd (seeded_reserves SWAP_POOL_SEED_AMOUNT d)) = Inr q" "0 < q"
    and x: "x = (\<lambda>m. SwapAB (address_of (pool_of assigned)) (word_of_int SWAP_AMOUNT_A) (word_of_int m))"
  shows "\<exists>w. SandboxDex_getAmountOut (word_of_int SWAP_AMOUNT_A) (reserveA d') (reserveB d') = Some w \<and> uint w = q"
    and "0 \<le> m \<Longrightarrow> m \<le> q \<Longrightarrow> \<exists>c2. exec_tx victim (x m) c' = Some c2 \<and> dom (tokens c2) = dom (tokens c') \<and>
      bal c' (dex_tokenA d) victim - bal c2 (dex_tokenA d) victim = SWAP_AMOUNT_A \<and>
      bal c2 (dex_tokenB d) victim - bal c' (dex_tokenB d) victim = q"
    and "exec_tx victim (x (q + 1)) c' = None" and "q + 1 < 2 ^ 256"
proof -
  let ?n = "word_of_int SWAP_AMOUNT_A :: uint256" and ?p = "address_of (pool_of assigned)"
  note P = prep [unfolded swap_prepared_def] and M = mk [unfolded swap_market_def]
  have n: "uint ?n = SWAP_AMOUNT_A" "small (uint ?n)" by (simp_all add: swap_amounts small_def)
  have seeded: "seeded_reserves SWAP_POOL_SEED_AMOUNT d = (uint (reserveA d'), uint (reserveB d'))" using P by simp
  have fits: "small (uint (reserveA d'))" "small (uint (reserveB d'))"
    using M seeded by (auto simp: pool_usable_def seeded_reserves_def small_def swap_amounts split: if_splits)
  have q': "sandbox_amount_out (uint ?n) (uint (reserveA d')) (uint (reserveB d')) = Inr q" using q(1) seeded n(1) by simp
  show "\<exists>w. SandboxDex_getAmountOut ?n (reserveA d') (reserveB d') = Some w \<and> uint w = q"
    by (rule quote_fits [OF q' n(2) fits])
  have "q < uint (reserveB d')" using sandbox.quote_bounds [OF q'] by simp
  then have big: "q + 1 < 2 ^ 256" using fits(2) by (simp add: small_def)
  then show "q + 1 < 2 ^ 256" .
  have vp: "victim \<noteq> ?p" using P by auto
  have inv: "chain_inv c'" "pools c' ?p = Some d'" "?p \<noteq> 0" using P M by (simp_all add: market_def)
  have has: "dex_tokenA d' \<in> dom (tokens c')" "dex_tokenB d' \<in> dom (tokens c')" "uint ?n \<le> bal c' (dex_tokenA d') victim"
    "uint ?n \<le> allowed c' (dex_tokenA d') victim ?p"
    using P n(1) bal_nonneg [of c] by simp_all
  show "\<exists>c2. exec_tx victim (x m) c' = Some c2 \<and> dom (tokens c2) = dom (tokens c') \<and>
      bal c' (dex_tokenA d) victim - bal c2 (dex_tokenA d) victim = SWAP_AMOUNT_A \<and>
      bal c2 (dex_tokenB d) victim - bal c' (dex_tokenB d) victim = q" if m: "0 \<le> m" "m \<le> q"
  proof -
    have "uint (word_of_int m :: uint256) \<le> q" using uint_of_amount [of m] m big by simp
    from swap_goes [OF inv roles_differ(2) vp has(1,2) q' q(2) this n(2) fits has(3,4)] show ?thesis
      using P n(1) unfolding x by simp
  qed
  show "exec_tx victim (x (q + 1)) c' = None"
    unfolding x by (rule swap_reverts [OF inv(1,2) q']) (use uint_of_amount [of "q + 1"] q(2) big in simp)
qed

lemma swap_quoted:
  assumes laws: "sandbox_laws sb" and ready: "swap_ready sb assigned d q l"
  shows "\<exists>c' n' d' l1 l2. passes (swap_prepare (sandbox_host sb page base rdir (deployed_with assigned))) l (swap_of assigned) l1 \<and>
    passes (quote_amount_out_a_for_b (sandbox_host sb page base rdir (deployed_with assigned)) (JStr rpc_url_text)
      (JStr (pool_of assigned)) SWAP_AMOUNT_A) l1 q l2 \<and>
    stands sb True False c' n' l2 \<and> swap_prepared assigned (cv_chain (machine_view sb l)) d c' d'"
proof -
  let ?h = "sandbox_host sb page base rdir (deployed_with assigned)" and ?c = "cv_chain (machine_view sb l)"
  note R = ready [unfolded swap_ready_def]
  have rests: "rests sb ?c (cv_height (machine_view sb l)) l" using R by (simp add: stands_def)
  obtain c' n' d' where
    prep: "does (rests sb ?c (cv_height (machine_view sb l))) (swap_prepare ?h) (swap_of assigned) (stands sb True False c' n')"
      "swap_prepared assigned ?c d c' d'"
    using does_swap_prepare [OF laws, of assigned ?c d] R by metis
  obtain l1 where l1: "passes (swap_prepare ?h) l (swap_of assigned) l1" "stands sb True False c' n' l1"
    using doesD [OF prep(1) rests] by blast
  obtain w where w: "SandboxDex_getAmountOut (word_of_int SWAP_AMOUNT_A) (reserveA d') (reserveB d') = Some w" "uint w = q"
    using prepared_swap(1) [OF prep(2)] R by blast
  have "pools c' (address_of (pool_of assigned)) = Some d'" "0 \<le> SWAP_AMOUNT_A" "SWAP_AMOUNT_A < 2 ^ 256"
    using prep(2) by (simp_all add: swap_prepared_def swap_amounts)
  from doesD [OF does_quote [OF laws this w(1)] l1(2)] show ?thesis
    using l1(1) prep(2) unfolding w(2) by blast
qed

text \<open>
  C10. The victim-swap scenario succeeds on the whole sandbox: when the deployer can prepare the
  market and the quote is a positive amount, the main program ends with 0, all of its checks having
  passed; the victim has spent exactly the input that was minted for it, and has exactly the quote
  of TokenB more.
\<close>

theorem victim_swap_succeeds:
  assumes laws: "sandbox_laws sb" and ready: "swap_ready sb assigned d q l"
  shows "\<exists>l'. passes (victim_swap_main (sandbox_host sb page base rdir (deployed_with assigned))) l 0 l' \<and>
    victim_bal sb l' (token_a_of assigned) = victim_bal sb l (token_a_of assigned) \<and>
    victim_bal sb l' (token_b_of assigned) = victim_bal sb l (token_b_of assigned) + q"
proof -
  let ?h = "sandbox_host sb page base rdir (deployed_with assigned)" and ?c = "cv_chain (machine_view sb l)"
  let ?m = "q * 99 div 100" and ?x = "\<lambda>m. SwapAB (address_of (pool_of assigned)) (word_of_int SWAP_AMOUNT_A) (word_of_int m)"
  note R = ready [unfolded swap_ready_def]
  obtain c' n' d' l1 l2 where
    p: "passes (swap_prepare ?h) l (swap_of assigned) l1"
      "passes (quote_amount_out_a_for_b ?h (JStr rpc_url_text) (JStr (pool_of assigned)) SWAP_AMOUNT_A) l1 q l2" and
    l2: "stands sb True False c' n' l2" and prep: "swap_prepared assigned ?c d c' d'"
    using swap_quoted [OF laws ready] by blast
  have "0 < q" using R by simp
  then have m: "0 \<le> ?m" "?m \<le> q" using zdiv_mono1 [of "q * 99" "q * 100" 100] by simp_all
  have fits: "?m < 2 ^ 256" using prepared_swap(4) [OF prep _ _ _ refl] R m(2) by fastforce
  obtain c2 where c2: "exec_tx victim (?x ?m) c' = Some c2" "dom (tokens c2) = dom (tokens c')"
    "bal c' (dex_tokenA d) victim - bal c2 (dex_tokenA d) victim = SWAP_AMOUNT_A"
    "bal c2 (dex_tokenB d) victim - bal c' (dex_tokenB d) victim = q"
    using prepared_swap(2) [OF prep _ _ _ refl m] R by blast
  have toks: "dex_tokenA d = address_of (token_a_of assigned)" "dex_tokenB d = address_of (token_b_of assigned)"
    using R by (simp_all add: swap_market_def)
  note P = prep [unfolded swap_prepared_def toks]
  obtain out l3 where out: "passes (swap_execute ?h (swap_of assigned) ?m ''Submitting victim swap to the public mempool''
      ''Mining the victim swap through the private bundle endpoint'') l2 out l3" "stands sb True False c2 (n' + 1) l3"
    "json_item (so_bundle out) ''status'' = Inr (JStr ''included'')"
    "json_item (so_tx out) ''status'' = Inr (JStr ''included'')"
    "json_item (so_record out) ''status'' = Inr (JStr ''included'')"
    "so_a_before out - so_a_after out = SWAP_AMOUNT_A" "so_b_after out - so_b_before out = q"
    using swap_executes [where page = page and base = base and rdir = rdir and dp = "deployed_with assigned" and
        assigned = assigned and c' = c2 and ?s1.0 = "''Submitting victim swap to the public mempool''" and
        ?s2.0 = "''Mining the victim swap through the private bundle endpoint''", OF laws l2 m(1) fits refl] c2 P
    by (auto simp: after_call_def toks simp del: exec_tx.simps)
  have checks: "passes (victim_swap_checks out ?m) l3 () l3"
    by (rule passesI [where f = id]) (use out m(2) in \<open>simp add: victim_swap_checks_def fail_if_def\<close>)
  have "passes (victim_swap_main ?h) l 0 l3"
    unfolding victim_swap_main_def print_step_def Let_def
    by (rule passes_bind passes_print p(1) p(2) [folded swap_setup.simps] out(1) checks passes_pret
      | simp only: swap_setup.simps)+
  moreover have "cv_chain (machine_view sb l3) = c2" by (rule standsD [OF out(2)])
  ultimately show ?thesis
    using c2(3,4) P by (intro exI [of _ l3]) (simp add: victim_bal_def toks)
qed

text \<open>
  C11. The victim-swap-revert scenario succeeds on the whole sandbox: asked for one unit more than
  the quote the swap reverts, the bundle is reported failed and the transaction and its record
  reverted, the main program ends with 0, and the victim still has the input that was minted for
  it and no TokenB more.
\<close>

theorem victim_swap_revert_succeeds:
  assumes laws: "sandbox_laws sb" and ready: "swap_ready sb assigned d q l"
  shows "\<exists>l'. passes (victim_swap_revert_main (sandbox_host sb page base rdir (deployed_with assigned))) l 0 l' \<and>
    victim_bal sb l' (token_a_of assigned) = victim_bal sb l (token_a_of assigned) + SWAP_AMOUNT_A \<and>
    victim_bal sb l' (token_b_of assigned) = victim_bal sb l (token_b_of assigned)"
proof -
  let ?h = "sandbox_host sb page base rdir (deployed_with assigned)" and ?c = "cv_chain (machine_view sb l)"
  let ?x = "\<lambda>m. SwapAB (address_of (pool_of assigned)) (word_of_int SWAP_AMOUNT_A) (word_of_int m)"
  note R = ready [unfolded swap_ready_def]
  obtain c' n' d' l1 l2 where
    p: "passes (swap_prepare ?h) l (swap_of assigned) l1"
      "passes (quote_amount_out_a_for_b ?h (JStr rpc_url_text) (JStr (pool_of assigned)) SWAP_AMOUNT_A) l1 q l2" and
    l2: "stands sb True False c' n' l2" and prep: "swap_prepared assigned ?c d c' d'"
    using swap_quoted [OF laws ready] by blast
  have m: "0 \<le> q + 1" "q + 1 < 2 ^ 256" "exec_tx victim (?x (q + 1)) c' = None"
    using prepared_swap(3,4) [OF prep _ _ _ refl] R by auto
  have toks: "dex_tokenA d = address_of (token_a_of assigned)" "dex_tokenB d = address_of (token_b_of assigned)"
    using R by (simp_all add: swap_market_def)
  note P = prep [unfolded swap_prepared_def toks]
  obtain out l3 where out: "passes (swap_execute ?h (swap_of assigned) (q + 1)
      ''Submitting impossible victim swap to the public mempool''
      ''Mining the impossible swap through the private bundle endpoint'') l2 out l3" "stands sb True False c' (n' + 1) l3"
    "json_item (so_bundle out) ''status'' = Inr (JStr ''failed'')"
    "json_item (so_tx out) ''status'' = Inr (JStr ''reverted'')"
    "json_item (so_record out) ''status'' = Inr (JStr ''reverted'')"
    "so_a_after out = so_a_before out" "so_b_after out = so_b_before out"
    using swap_executes [where page = page and base = base and rdir = rdir and dp = "deployed_with assigned" and
        assigned = assigned and c' = c' and ?s1.0 = "''Submitting impossible victim swap to the public mempool''" and
        ?s2.0 = "''Mining the impossible swap through the private bundle endpoint''", OF laws l2 m(1,2) refl] m(3) P
    by (auto simp: after_call_def simp del: exec_tx.simps)
  have checks: "passes (victim_swap_revert_checks out) l3 () l3"
    by (rule passesI [where f = id]) (use out in \<open>simp add: victim_swap_revert_checks_def fail_if_def\<close>)
  have "passes (victim_swap_revert_main ?h) l 0 l3"
    unfolding victim_swap_revert_main_def print_step_def Let_def
    by (rule passes_bind passes_print p(1) p(2) [folded swap_setup.simps] out(1) checks passes_pret passes_lift [OF out(5)]
      | simp only: swap_setup.simps)+
  moreover have "cv_chain (machine_view sb l3) = c'" by (rule standsD [OF out(2)])
  ultimately show ?thesis
    using P by (intro exI [of _ l3]) (simp add: victim_bal_def)
qed

end
