(* ===== verification/Sandbox_Pools.thy ===== *)
theory Sandbox_Pools
  imports Sandbox_Swaps
begin

text \<open>
  The seed-pools scenario on the whole sandbox: both pools are seeded in one stretch of automatic
  mining, and each reserve has grown by exactly the amount.  The scenario does not use the service.
\<close>

section \<open>Seeding both pools\<close>

definition pool2_of :: "(string \<times> string) list \<Rightarrow> string" where "pool2_of assigned = env_get assigned ''POOL_2_ADDRESS''"

lemma pool_amount: "0 < POOL_TOKEN_AMOUNT" "small POOL_TOKEN_AMOUNT"
  by (simp_all add: POOL_TOKEN_AMOUNT_def TOKEN_DECIMALS_def DEFAULT_TOKEN_DECIMALS_def small_def)

lemma does_for_two:
  "does P (f x) () R \<Longrightarrow> does R (f y) () Q \<Longrightarrow> does P (pfor f [x, y]) () Q"
  unfolding pfor.simps by (rule does_bind, assumption, rule does_bind, assumption, rule does_pret)

text \<open>The deployer can prepare both markets, one after the other.\<close>

definition both_markets :: "(string \<times> string) list \<Rightarrow> chain \<Rightarrow> dex \<Rightarrow> dex \<Rightarrow> int \<Rightarrow> int \<Rightarrow> bool" where
  "both_markets assigned c d1 d2 n m \<longleftrightarrow>
     market c deployer (address_of (pool_of assigned)) d1 (n + m) (n + m) \<and>
     market c deployer (address_of (pool2_of assigned)) d2 (n + m) (n + m) \<and>
     address_of (pool_of assigned) \<noteq> address_of (pool2_of assigned) \<and>
     dex_tokenA d1 = address_of (token_a_of assigned) \<and> dex_tokenB d1 = address_of (token_b_of assigned) \<and>
     dex_tokenA d2 = address_of (token_a_of assigned) \<and> dex_tokenB d2 = address_of (token_b_of assigned)"

text \<open>After the first is seeded the second can still be.\<close>

lemma second_market:
  assumes mk: "market c s p2 d2 (n + m) (n + m')" and re: "reseeded s p1 d1 c c'" and sup: "\<forall>j. supplied c' j \<le> supplied c j + n"
    and p: "p1 \<noteq> p2" "s \<noteq> p1"
  shows "market c' s p2 d2 m m'"
proof -
  note M = mk [unfolded market_def] and R = re [unfolded reseeded_def]
  have "supplied c' (dex_tokenA d2) + m < 2 ^ 256" "supplied c' (dex_tokenB d2) + m' < 2 ^ 256"
    using M sup [THEN spec, of "dex_tokenA d2"] sup [THEN spec, of "dex_tokenB d2"] by linarith+
  then show ?thesis using M R p by (simp add: market_def same_market_def)
qed

lemma seeding_both:
  assumes laws: "sandbox_laws sb" and key: "sb_signer sb deployer_key_text = deployer"
    and mk: "both_markets assigned c d1 d2 POOL_TOKEN_AMOUNT POOL_TOKEN_AMOUNT"
    and fits: "small (uint (reserveA d1))" "small (uint (reserveB d1))" "small (uint (reserveA d2))" "small (uint (reserveB d2))"
    and h: "h = sandbox_host sb page base rdir dp"
    and seed: "seed = seed_pool h (JStr rpc_url_text) (JStr deployer_key_text) (JStr deployer_text)
      (JStr (token_a_of assigned)) (JStr (token_b_of assigned))"
  shows "\<exists>c' e1 e2. does (stands sb up False c k)
      (with_automine h (JStr rpc_url_text) True (pfor seed [(''Pool1'', JStr (pool_of assigned)), (''Pool2'', JStr (pool2_of assigned))])) ()
      (stands sb up False c' (k + 10)) \<and>
    pools c' (address_of (pool_of assigned)) = Some e1 \<and> pools c' (address_of (pool2_of assigned)) = Some e2 \<and>
    uint (reserveA e1) = uint (reserveA d1) + POOL_TOKEN_AMOUNT \<and> uint (reserveB e1) = uint (reserveB d1) + POOL_TOKEN_AMOUNT \<and>
    uint (reserveA e2) = uint (reserveA d2) + POOL_TOKEN_AMOUNT \<and> uint (reserveB e2) = uint (reserveB d2) + POOL_TOKEN_AMOUNT"
proof -
  let ?n = POOL_TOKEN_AMOUNT and ?p1 = "address_of (pool_of assigned)" and ?p2 = "address_of (pool2_of assigned)"
  note M = mk [unfolded both_markets_def]
  have n0: "0 \<le> ?n" using pool_amount(1) by simp
  have s: "deployer \<noteq> ?p1" using M by (auto simp: market_def)
  obtain c1 e1 where one: "\<forall>up manage k. does (stands sb up (\<not> manage) c k)
      (add_pool_liquidity h (JStr rpc_url_text) (JStr deployer_key_text) (JStr deployer_text) (JStr (token_a_of assigned))
        (JStr (token_b_of assigned)) (JStr (pool_of assigned)) ?n manage) () (stands sb up (\<not> manage) c1 (k + 5))" and
    c1: "reseeded deployer ?p1 e1 c c1" "uint (reserveA e1) = uint (reserveA d1) + ?n"
      "uint (reserveB e1) = uint (reserveB d1) + ?n" "\<forall>j. supplied c1 j \<le> supplied c j + ?n"
    using does_seeding [OF laws key refl roles_differ(1) pool_amount, of c "pool_of assigned" d1 ?n ?n "token_a_of assigned"
        "token_b_of assigned" page base rdir dp] M fits n0 unfolding h by blast
  have mk2: "market c1 deployer ?p2 d2 (?n + 0) (?n + 0)"
    using second_market [OF _ c1(1,4), of ?p2 d2 ?n ?n] M s by simp
  obtain c2 e2 where two: "\<forall>up manage k. does (stands sb up (\<not> manage) c1 k)
      (add_pool_liquidity h (JStr rpc_url_text) (JStr deployer_key_text) (JStr deployer_text) (JStr (token_a_of assigned))
        (JStr (token_b_of assigned)) (JStr (pool2_of assigned)) ?n manage) () (stands sb up (\<not> manage) c2 (k + 5))" and
    c2: "reseeded deployer ?p2 e2 c1 c2" "uint (reserveA e2) = uint (reserveA d2) + ?n"
      "uint (reserveB e2) = uint (reserveB d2) + ?n"
    using does_seeding [OF laws key refl roles_differ(1) pool_amount mk2 order_refl order_refl fits(3,4), of "token_a_of assigned"
        "token_b_of assigned" page base rdir dp] M unfolding h by blast
  have step: "does (stands sb up True a j) (seed (l, JStr p)) () (stands sb up True b (j + 5))"
    if "\<forall>up manage k. does (stands sb up (\<not> manage) a k)
      (add_pool_liquidity h (JStr rpc_url_text) (JStr deployer_key_text) (JStr deployer_text) (JStr (token_a_of assigned))
        (JStr (token_b_of assigned)) (JStr p) ?n manage) () (stands sb up (\<not> manage) b (k + 5))" for a b j l p
    unfolding seed seed_pool_def prod.case
    by (rule does_bind, rule that [rule_format, of up False, simplified not_False_eq_True], rule does_print)
  have "does (stands sb up True c k) (pfor seed [(''Pool1'', JStr (pool_of assigned)), (''Pool2'', JStr (pool2_of assigned))]) ()
      (stands sb up True c2 (k + 5 + 5))"
    by (rule does_for_two, rule step [OF one], rule step [OF two])
  from does_automine [OF laws this, of page base rdir dp]
  have "does (stands sb up False c k)
      (with_automine h (JStr rpc_url_text) True (pfor seed [(''Pool1'', JStr (pool_of assigned)), (''Pool2'', JStr (pool2_of assigned))])) ()
      (stands sb up False c2 (k + 10))"
    unfolding h add.assoc by simp_all
  then show ?thesis using c1 c2 M by (intro exI conjI) (assumption+, simp_all add: reseeded_def)
qed

section \<open>The scenario\<close>

definition pools_ready :: "'n sandbox \<Rightarrow> (string \<times> string) list \<Rightarrow> dex \<Rightarrow> dex \<Rightarrow> 'n machine \<Rightarrow> bool" where
  "pools_ready sb assigned d1 d2 l \<longleftrightarrow> cv_pool (machine_view sb l) = [] \<and> \<not> cv_automine (machine_view sb l) \<and>
     sb_signer sb deployer_key_text = deployer \<and>
     both_markets assigned (cv_chain (machine_view sb l)) d1 d2 POOL_TOKEN_AMOUNT POOL_TOKEN_AMOUNT \<and>
     small (uint (reserveA d1)) \<and> small (uint (reserveB d1)) \<and> small (uint (reserveA d2)) \<and> small (uint (reserveB d2))"

definition reserves_of :: "'n sandbox \<Rightarrow> 'n machine \<Rightarrow> string \<Rightarrow> (int \<times> int) option" where
  "reserves_of sb l p = map_option (\<lambda>d. (uint (reserveA d), uint (reserveB d))) (pools (cv_chain (machine_view sb l)) (address_of p))"

lemma deployment_stands:
  assumes "sandbox_laws sb"
  shows "does (stands sb up b c n) (ensure_deployment (sandbox_host sb page base rdir (deployed_with assigned)))
    (deployed_with assigned) (stands sb up b c n)"
proof (rule doesI)
  fix l
  assume l: "stands sb up b c n l"
  obtain w where "passes (ensure_deployment (sandbox_host sb page base rdir (deployed_with assigned))) l (deployed_with assigned)
      (put_world w l)" "sb_view sb w = sb_view sb (machine_world l)"
    using deployment_passes [OF assms deployed_items(1)] by blast
  then show "\<exists>l'. passes (ensure_deployment (sandbox_host sb page base rdir (deployed_with assigned))) l (deployed_with assigned) l' \<and>
      stands sb up b c n l'"
    using stands_same [OF l, of w] by (auto simp: machine_view_def)
qed

lemma does_check_reserves:
  assumes laws: "sandbox_laws sb" and d: "pools c (address_of p) = Some d"
    and old: "map_of before label = Some (uint (reserveA d) - POOL_TOKEN_AMOUNT, uint (reserveB d) - POOL_TOKEN_AMOUNT)"
  shows "does (stands sb up b c n) (check_reserves (sandbox_host sb page base rdir dp) (JStr rpc_url_text) before (label, JStr p)) ()
    (stands sb up b c n)"
  unfolding check_reserves_def prod.case Let_def
  by (rule does_bind does_print does_reserves [OF laws d] | (rule does_lift, simp add: old; fail)
    | (rule does_fail_if, simp; fail) | (simp only: prod.case))+

text \<open>
  C12. The seed-pools scenario succeeds on the whole sandbox, with the service stopped or running:
  when the deployer can prepare both markets the main program ends with 0, its checks having
  passed, and each of the four reserves has grown by exactly the amount of the scenario.
\<close>

theorem seed_pools_succeeds:
  assumes laws: "sandbox_laws sb" and ready: "pools_ready sb assigned d1 d2 l"
  shows "\<exists>l'. passes (seed_pools_main (sandbox_host sb page base rdir (deployed_with assigned))) l 0 l' \<and>
    reserves_of sb l' (pool_of assigned) =
      Some (uint (reserveA d1) + POOL_TOKEN_AMOUNT, uint (reserveB d1) + POOL_TOKEN_AMOUNT) \<and>
    reserves_of sb l' (pool2_of assigned) =
      Some (uint (reserveA d2) + POOL_TOKEN_AMOUNT, uint (reserveB d2) + POOL_TOKEN_AMOUNT)"
proof -
  let ?h = "sandbox_host sb page base rdir (deployed_with assigned)" and ?v = "machine_view sb l"
  let ?c = "cv_chain ?v" and ?k = "cv_height ?v"
  note R = ready [unfolded pools_ready_def] and names = token_a_of_def token_b_of_def pool_of_def pool2_of_def
  have l: "stands sb False False ?c ?k l" using R by (simp add: stands_def)
  have pools: "pools ?c (address_of (pool_of assigned)) = Some d1" "pools ?c (address_of (pool2_of assigned)) = Some d2"
    using R by (simp_all add: both_markets_def market_def)
  let ?seed = "seed_pool ?h (JStr rpc_url_text) (JStr deployer_key_text) (JStr deployer_text) (JStr (token_a_of assigned))
    (JStr (token_b_of assigned))"
  obtain c' e1 e2 where
    seed: "does (stands sb False False ?c ?k) (with_automine ?h (JStr rpc_url_text) True
      (pfor ?seed [(''Pool1'', JStr (pool_of assigned)), (''Pool2'', JStr (pool2_of assigned))])) () (stands sb False False c' (?k + 10))" and
    e: "pools c' (address_of (pool_of assigned)) = Some e1" "pools c' (address_of (pool2_of assigned)) = Some e2"
      "uint (reserveA e1) = uint (reserveA d1) + POOL_TOKEN_AMOUNT" "uint (reserveB e1) = uint (reserveB d1) + POOL_TOKEN_AMOUNT"
      "uint (reserveA e2) = uint (reserveA d2) + POOL_TOKEN_AMOUNT" "uint (reserveB e2) = uint (reserveB d2) + POOL_TOKEN_AMOUNT"
    using seeding_both [OF laws _ _ _ _ _ _ refl refl, of assigned ?c d1 d2 False ?k page base rdir "deployed_with assigned"] R by blast
  let ?before = "[(''Pool1'', uint (reserveA d1), uint (reserveB d1)), (''Pool2'', uint (reserveA d2), uint (reserveB d2))]"
  have before: "does (stands sb False False ?c ?k) (read_reserves ?h (JStr rpc_url_text)
      [(''Pool1'', JStr (pool_of assigned)), (''Pool2'', JStr (pool2_of assigned))]) ?before (stands sb False False ?c ?k)"
    unfolding read_reserves.simps
    by (rule does_bind does_reserves [OF laws pools(1)] does_reserves [OF laws pools(2)] does_pret)+
  have check: "does (stands sb False False c' (?k + 10)) (pfor (check_reserves ?h (JStr rpc_url_text) ?before)
      [(''Pool1'', JStr (pool_of assigned)), (''Pool2'', JStr (pool2_of assigned))]) () (stands sb False False c' (?k + 10))"
    by (rule does_for_two; rule does_check_reserves [OF laws e(1)] does_check_reserves [OF laws e(2)]; simp add: e)
  have "does (stands sb False False ?c ?k) (seed_pools_main ?h) 0 (stands sb False False c' (?k + 10))"
    unfolding seed_pools_main_def print_step_def Let_def
    by (rule does_bind does_print deployment_stands [OF laws] before [unfolded names] seed [unfolded names]
        check [unfolded names] does_pret does_stay [OF deployed_roles(1)] does_lift [OF deployed_items(1)]
        does_lift [OF deployed_items(3)]
      | (rule does_lift, simp; fail))+
  from doesD [OF this l] obtain l' where l': "passes (seed_pools_main ?h) l 0 l'" "stands sb False False c' (?k + 10) l'"
    by blast
  then show ?thesis
    using e standsD(3) [OF l'(2)] by (intro exI [of _ l']) (simp add: reserves_of_def)
qed

end
