(* ===== verification/Sandbox_Backrun.thy ===== *)
theory Sandbox_Backrun
  imports Sandbox_Pools
begin

text \<open>
  The backrun scenario on the whole sandbox: both pools are seeded to the amount they must have, the
  victim and the backrun contract are funded, and the bundle of the victim's swap, by its mempool
  id, and the bot's backrun is mined: both go through and the contract has made the profit of the
  route.
\<close>

section \<open>Pools with exact reserves\<close>

definition exact_pool :: "int \<Rightarrow> dex \<Rightarrow> bool" where
  "exact_pool n d \<longleftrightarrow> (reserveA d = 0 \<and> reserveB d = 0) \<or> (uint (reserveA d) = n \<and> uint (reserveB d) = n)"

lemma exact_usable:
  assumes "exact_pool n d" and "0 < n" and "small n"
  shows "pool_usable d" "seeded_reserves n d = (n, n)"
  using assms by (auto simp: exact_pool_def pool_usable_def seeded_reserves_def word_less_def)

lemma does_exact_liquidity:
  assumes laws: "sandbox_laws sb" and key: "sb_signer sb key = s" "s = address_of who" "s \<noteq> 0" and n: "0 < n" "small n"
    and mk: "market c s (address_of p) d (n + m) (n + m')" "0 \<le> m" "0 \<le> m'" and d: "exact_pool n d"
    and tok: "dex_tokenA d = address_of ta" "dex_tokenB d = address_of tb"
  shows "\<exists>c' k' d'. does (stands sb up False c k) (ensure_exact_pool_liquidity (sandbox_host sb page base rdir dp)
      (JStr rpc_url_text) (JStr key) (JStr who) (JStr ta) (JStr tb) (JStr p) n label) (n, n) (stands sb up False c' k') \<and>
    reseeded s (address_of p) d' c c' \<and> market c' s (address_of p) d' m m' \<and>
    dex_tokenA d' = dex_tokenA d \<and> dex_tokenB d' = dex_tokenB d \<and>
    uint (reserveA d') = n \<and> uint (reserveB d') = n \<and> (\<forall>j. supplied c' j \<le> supplied c j + n)"
proof -
  let ?h = "sandbox_host sb page base rdir dp" and ?p = "address_of p"
  have p: "pools c ?p = Some d" using mk(1) by (simp add: market_def)
  note usable = exact_usable [OF d n]
  obtain c1 k1 d1 where
    ens: "does (stands sb up False c k) (ensure_pool_liquidity ?h (JStr rpc_url_text) (JStr key) (JStr who) (JStr ta) (JStr tb)
        (JStr p) n) () (stands sb up False c1 k1)" and
    c1: "reseeded s ?p d1 c c1" "market c1 s ?p d1 m m'" "dex_tokenA d1 = dex_tokenA d" "dex_tokenB d1 = dex_tokenB d"
      "(uint (reserveA d1), uint (reserveB d1)) = (n, n)" "\<forall>j. supplied c1 j \<le> supplied c j + n"
    using does_ensure_liquidity [OF laws key n mk usable(1) tok, of up k page base rdir dp] unfolding usable(2) by blast
  show ?thesis
  proof (cases "reserveA d = 0")
    case True
    then have zero: "(uint (reserveA d), uint (reserveB d)) = (0, 0)" using d n(1) by (auto simp: exact_pool_def)
    have p1: "pools c1 ?p = Some d1" using c1(2) by (simp add: market_def)
    have read: "does (stands sb up False c k) (pool_reserves ?h (JStr rpc_url_text) (JStr p)) (0, 0) (stands sb up False c k)"
      "does (stands sb up False c1 k1) (pool_reserves ?h (JStr rpc_url_text) (JStr p)) (n, n) (stands sb up False c1 k1)"
      using does_reserves [OF laws p, of up False k page base rdir dp] does_reserves [OF laws p1, of up False k1 page base rdir dp]
      unfolding zero c1(5) .
    have "does (stands sb up False c k) (ensure_exact_pool_liquidity ?h (JStr rpc_url_text) (JStr key) (JStr who) (JStr ta)
        (JStr tb) (JStr p) n label) (n, n) (stands sb up False c1 k1)"
      unfolding ensure_exact_pool_liquidity_def
      by (rule does_bind, rule read(1), rule does_bind, simp only: simp_thms if_True, rule does_bind, rule ens, rule read(2))
        (simp add: does_pret del: pure_Pair)
    then show ?thesis using c1 by (intro exI conjI) (assumption+, simp_all)
  next
    case False
    then have full: "(uint (reserveA d), uint (reserveB d)) = (n, n)" using d by (auto simp: exact_pool_def)
    have "does (stands sb up False c k) (ensure_exact_pool_liquidity ?h (JStr rpc_url_text) (JStr key) (JStr who) (JStr ta)
        (JStr tb) (JStr p) n label) (n, n) (stands sb up False c k)"
      unfolding ensure_exact_pool_liquidity_def
      by (rule does_bind, rule does_reserves [OF laws p, of up False k page base rdir dp, unfolded full],
          rule does_bind [where u = "(n, n)" and R = "stands sb up False c k"])
        (use n(1) in \<open>simp_all add: does_pret del: pure_Pair\<close>)
    moreover have "reseeded s ?p d c c" "market c s ?p d m m'"
      using p mk n(1) by (simp_all add: reseeded_def same_market_def market_def fun_upd_idem)
    ultimately show ?thesis using full n(1) by (intro exI conjI) (assumption+, simp_all)
  qed
qed

section \<open>Pools, victim and backrun contract\<close>

definition backrun_of :: "(string \<times> string) list \<Rightarrow> string" where "backrun_of assigned = env_get assigned ''BACKRUN_ADDRESS''"

abbreviation the_bot :: address where "the_bot \<equiv> address_of bot_text"

lemma backrun_amounts:
  "POOL_SEED_AMOUNT = 1000000000000000000000" "VICTIM_SWAP_AMOUNT_A = 100000000000000000000"
  "BACKRUN_AMOUNT_B = 42000000000000000000" "MIN_PROFIT_B = 4000000000000000000"
  by (simp_all add: POOL_SEED_AMOUNT_def VICTIM_SWAP_AMOUNT_A_def BACKRUN_AMOUNT_B_def MIN_PROFIT_B_def TOKEN_DECIMALS_def
      DEFAULT_TOKEN_DECIMALS_def)

lemma bot_differs: "the_bot \<noteq> victim"
  by (simp add: address_of_def role_numbers)

text \<open>
  The deployment before the scenario: pools of the same two tokens that are empty or hold exactly
  what the scenario wants, tokens the deployer can mint, and the bot's backrun contract, which holds
  nothing.
\<close>

definition backrun_market :: "(string \<times> string) list \<Rightarrow> chain \<Rightarrow> dex \<Rightarrow> dex \<Rightarrow> bool" where
  "backrun_market assigned c d1 d2 \<longleftrightarrow>
     (let n = POOL_SEED_AMOUNT + VICTIM_SWAP_AMOUNT_A; m = POOL_SEED_AMOUNT + BACKRUN_AMOUNT_B;
          k = address_of (backrun_of assigned) in
      market c deployer (address_of (pool_of assigned)) d1 (POOL_SEED_AMOUNT + n) (POOL_SEED_AMOUNT + m) \<and>
      market c deployer (address_of (pool2_of assigned)) d2 (POOL_SEED_AMOUNT + n) (POOL_SEED_AMOUNT + m) \<and>
      address_of (pool_of assigned) \<noteq> address_of (pool2_of assigned) \<and>
      exact_pool POOL_SEED_AMOUNT d1 \<and> exact_pool POOL_SEED_AMOUNT d2 \<and>
      dex_tokenA d1 = address_of (token_a_of assigned) \<and> dex_tokenB d1 = address_of (token_b_of assigned) \<and>
      dex_tokenA d2 = address_of (token_a_of assigned) \<and> dex_tokenB d2 = address_of (token_b_of assigned) \<and>
      external c deployer \<and> external c victim \<and> backrun_of assigned \<noteq> '''' \<and> k \<noteq> 0 \<and> operators c k = Some the_bot \<and>
      bal c (dex_tokenA d1) k = 0 \<and> bal c (dex_tokenB d1) k = 0)"

lemma same_external:
  assumes "same_market c c'" and "external c a"
  shows "external c' a"
proof -
  have d: "dom (tokens c') = dom (tokens c)" "dom (pools c') = dom (pools c)" "operators c' = operators c"
    using assms(1) by (simp_all add: same_market_def)
  have "a \<notin> dom (tokens c')" "a \<notin> dom (pools c')" using assms(2) unfolding d by (simp_all add: external_def domIff)
  then show ?thesis using assms(2) d(3) by (simp add: external_def domIff)
qed

text \<open>The mints after the pools have their reserves: the victim's, with its approval, and the contract's.\<close>

lemma funding_goes:
  assumes mk: "market c deployer p2 d2 VICTIM_SWAP_AMOUNT_A BACKRUN_AMOUNT_B" and p1: "pools c p1 = Some d1"
    and same: "dex_tokenA d2 = dex_tokenA d1" "dex_tokenB d2 = dex_tokenB d1" and ps: "p1 \<noteq> p2" "p1 \<noteq> 0"
    and v: "external c victim" and k: "k \<noteq> 0" "operators c k = Some the_bot"
    and zero: "bal c (dex_tokenA d1) k = 0" "bal c (dex_tokenB d1) k = 0"
  shows "\<exists>c1 c2 c3. exec_tx deployer (Mint (dex_tokenA d1) victim (word_of_int VICTIM_SWAP_AMOUNT_A)) c = Some c1 \<and>
    exec_tx victim (Approve (dex_tokenA d1) p1 (word_of_int VICTIM_SWAP_AMOUNT_A)) c1 = Some c2 \<and>
    exec_tx deployer (Mint (dex_tokenB d1) k (word_of_int BACKRUN_AMOUNT_B)) c2 = Some c3 \<and>
    ready_for_backrun c3 p1 p2 k the_bot victim d1 d2 \<and>
    bal c3 (dex_tokenA d1) victim = bal c (dex_tokenA d1) victim + VICTIM_SWAP_AMOUNT_A \<and>
    bal c3 (dex_tokenB d1) victim = bal c (dex_tokenB d1) victim"
proof -
  note M = mk [unfolded market_def same]
  have ne: "dex_tokenA d1 \<noteq> dex_tokenB d1" using M p1 by (auto simp: chain_inv_def pool_ok_def)
  have n: "0 \<le> VICTIM_SWAP_AMOUNT_A" "0 \<le> BACKRUN_AMOUNT_B" by (simp_all add: backrun_amounts)
  have vk: "victim \<noteq> k" using v k by (auto simp: external_def)
  have pv: "pools c victim = None" "victim \<noteq> 0" using v by (simp_all add: external_def)
  obtain c1 c2 where A: "exec_tx deployer (Mint (dex_tokenA d1) victim (word_of_int VICTIM_SWAP_AMOUNT_A)) c = Some c1"
    "exec_tx victim (Approve (dex_tokenA d1) p1 (word_of_int VICTIM_SWAP_AMOUNT_A)) c1 = Some c2"
    "same_market c c2" "pools c2 = pools c"
    "\<forall>j a. bal c2 j a = bal c j a + (if j = dex_tokenA d1 \<and> a = victim then VICTIM_SWAP_AMOUNT_A else 0)"
    "allowed c2 (dex_tokenA d1) victim p1 = VICTIM_SWAP_AMOUNT_A"
    "\<forall>j. supplied c2 j = supplied c j + (if j = dex_tokenA d1 then VICTIM_SWAP_AMOUNT_A else 0)"
    using mint_and_approve_goes [of c deployer "dex_tokenA d1" victim VICTIM_SWAP_AMOUNT_A p1] M pv n by blast
  have "chain_inv c2" "mints deployer c2 (dex_tokenB d1)" "supplied c2 (dex_tokenB d1) + BACKRUN_AMOUNT_B < 2 ^ 256"
    using A(3,7) M ne by (simp_all add: same_market_def)
  from mint_run [OF this(1,2) k(1) n(2) this(3)] obtain c3 where
    B: "exec_tx deployer (Mint (dex_tokenB d1) k (word_of_int BACKRUN_AMOUNT_B)) c2 = Some c3" "same_market c2 c3"
      "pools c3 = pools c2" "\<forall>j a. bal c3 j a = bal c2 j a + (if j = dex_tokenB d1 \<and> a = k then BACKRUN_AMOUNT_B else 0)"
      "allowed c3 = allowed c2"
    by blast
  note AB = same_market_trans [OF A(3) B(2), unfolded same_market_def]
  have toks: "dex_tokenA d1 \<in> dom (tokens c3)" "dex_tokenB d1 \<in> dom (tokens c3)"
    using AB M mints_dom [of deployer c] by simp_all
  have "external c3 victim" by (rule same_external [OF same_market_trans [OF A(3) B(2)] v])
  then have "ready_for_backrun c3 p1 p2 k the_bot victim d1 d2"
    using AB A B M p1 ps k zero toks vk ne same bal_nonneg [of c "dex_tokenA d1" victim]
    by (simp add: ready_for_backrun_def del: exec_tx.simps)
  then show ?thesis
    using A(1,2) B(1) A(5) B(4) vk ne by (intro exI conjI) (assumption+, simp_all)
qed

section \<open>The preparation\<close>

abbreviation parties_of :: "(string \<times> string) list \<Rightarrow> backrun_parties" where
  "parties_of assigned \<equiv>
     \<lparr>bp_rpc_url = JStr rpc_url_text, bp_chain_id = 31337, bp_token_a = JStr (token_a_of assigned),
      bp_token_b = JStr (token_b_of assigned), bp_pool1 = JStr (pool_of assigned), bp_pool2 = JStr (pool2_of assigned),
      bp_backrun = JStr (backrun_of assigned),
      bp_deployer_role = JObj [(''address'', JStr deployer_text), (''privateKey'', JStr deployer_key_text)],
      bp_victim_role = JObj [(''address'', JStr victim_text), (''privateKey'', JStr victim_key_text)],
      bp_deployer = JStr deployer_text, bp_victim = JStr victim_text, bp_bot = JStr bot_text\<rparr>"

lemma does_backrun_prepare:
  assumes laws: "sandbox_laws sb" and k: "backrun_of assigned \<noteq> ''''"
  shows "does (rests sb c n) (backrun_prepare (sandbox_host sb page base rdir (deployed_with assigned))) (parties_of assigned)
    (stands sb True False c n)"
  using k unfolding backrun_prepare_def print_step_def token_a_of_def token_b_of_def pool_of_def pool2_of_def backrun_of_def
  by - (rule does_bind does_print does_deployment [OF laws] does_start does_stay [OF deployed_roles(1)]
      does_stay [OF deployed_roles(2)] does_stay [OF deployed_roles(3)] does_lift [OF deployed_items(1)]
      does_lift [OF deployed_items(2)] does_lift [OF deployed_items(3)] does_pret
    | (rule does_lift, simp add: backrun_contract_def json_get_def; fail))+

text \<open>The balances and reserves the scenario has read when everything is funded.\<close>

abbreviation before_of :: "chain \<Rightarrow> dex \<Rightarrow> backrun_before" where
  "before_of c d \<equiv>
     \<lparr>bb_pool1 = (POOL_SEED_AMOUNT, POOL_SEED_AMOUNT), bb_pool2 = (POOL_SEED_AMOUNT, POOL_SEED_AMOUNT),
      bb_victim_a = bal c (dex_tokenA d) victim + VICTIM_SWAP_AMOUNT_A, bb_victim_b = bal c (dex_tokenB d) victim,
      bb_backrun_b = BACKRUN_AMOUNT_B\<rparr>"

definition backrun_funded :: "(string \<times> string) list \<Rightarrow> chain \<Rightarrow> dex \<Rightarrow> chain \<Rightarrow> dex \<Rightarrow> dex \<Rightarrow> bool" where
  "backrun_funded assigned c d c' e1 e2 \<longleftrightarrow>
     ready_for_backrun c' (address_of (pool_of assigned)) (address_of (pool2_of assigned)) (address_of (backrun_of assigned))
       the_bot victim e1 e2 \<and>
     uint (reserveA e1) = POOL_SEED_AMOUNT \<and> uint (reserveB e1) = POOL_SEED_AMOUNT \<and>
     uint (reserveA e2) = POOL_SEED_AMOUNT \<and> uint (reserveB e2) = POOL_SEED_AMOUNT \<and>
     dex_tokenA e1 = dex_tokenA d \<and> dex_tokenB e1 = dex_tokenB d \<and>
     bal c' (dex_tokenA d) victim = bal c (dex_tokenA d) victim + VICTIM_SWAP_AMOUNT_A \<and>
     bal c' (dex_tokenB d) victim = bal c (dex_tokenB d) victim"

lemma does_backrun_fund:
  assumes laws: "sandbox_laws sb" and keys: "keys_sign sb" and mk: "backrun_market assigned c d1 d2"
  shows "\<exists>c' n' e1 e2. does (stands sb True False c n)
      (backrun_fund (sandbox_host sb page base rdir dp) (parties_of assigned)) (before_of c d1) (stands sb True False c' n') \<and>
    backrun_funded assigned c d1 c' e1 e2"
proof -
  let ?h = "sandbox_host sb page base rdir dp" and ?N = POOL_SEED_AMOUNT and ?V = VICTIM_SWAP_AMOUNT_A and ?B = BACKRUN_AMOUNT_B
  let ?p1 = "address_of (pool_of assigned)" and ?p2 = "address_of (pool2_of assigned)" and ?k = "address_of (backrun_of assigned)"
  note M = mk [unfolded backrun_market_def Let_def]
  have key: "sb_signer sb deployer_key_text = deployer" "sb_signer sb victim_key_text = victim"
    using keys by (simp_all add: keys_sign_def)
  have n: "0 < ?N" "small ?N" "0 \<le> ?N + ?V" "0 \<le> ?N + ?B" "0 \<le> ?V" "0 \<le> ?B" "?V < 2 ^ 256" "?B < 2 ^ 256"
    by (simp_all add: backrun_amounts small_def)
  let ?ens = "\<lambda>p label. ensure_exact_pool_liquidity ?h (JStr rpc_url_text) (JStr deployer_key_text) (JStr deployer_text)
    (JStr (token_a_of assigned)) (JStr (token_b_of assigned)) (JStr p) ?N label"
  obtain c1 n1 e1 where
    one: "does (stands sb True False c n) (?ens (pool_of assigned) ''Pool1'') (?N, ?N) (stands sb True False c1 n1)" and
    c1: "reseeded deployer ?p1 e1 c c1" "market c1 deployer ?p1 e1 (?N + ?V) (?N + ?B)" "dex_tokenA e1 = dex_tokenA d1"
      "dex_tokenB e1 = dex_tokenB d1" "uint (reserveA e1) = ?N" "uint (reserveB e1) = ?N" "\<forall>j. supplied c1 j \<le> supplied c j + ?N"
    using does_exact_liquidity [OF laws key(1) refl roles_differ(1) n(1,2) _ n(3,4), of c "pool_of assigned" d1
        "token_a_of assigned" "token_b_of assigned" True n page base rdir dp "''Pool1''"] M by blast
  have s: "deployer \<noteq> ?p1" "deployer \<noteq> ?p2" "victim \<noteq> ?p1" "victim \<noteq> ?p2"
    using M by (auto simp: market_def external_def)
  have mk2: "market c1 deployer ?p2 d2 (?N + ?V) (?N + ?B)"
    using second_market [OF _ c1(1,7), of ?p2 d2 "?N + ?V" "?N + ?B"] M s by simp
  obtain c2 n2 e2 where
    two: "does (stands sb True False c1 n1) (?ens (pool2_of assigned) ''Pool2'') (?N, ?N) (stands sb True False c2 n2)" and
    c2: "reseeded deployer ?p2 e2 c1 c2" "market c2 deployer ?p2 e2 ?V ?B" "dex_tokenA e2 = dex_tokenA d2"
      "dex_tokenB e2 = dex_tokenB d2" "uint (reserveA e2) = ?N" "uint (reserveB e2) = ?N"
    using does_exact_liquidity [OF laws key(1) refl roles_differ(1) n(1,2) mk2 n(5,6), of
        "token_a_of assigned" "token_b_of assigned" True n1 page base rdir dp "''Pool2''"] M by blast
  have inv: "chain_inv c" and kp: "pools c ?k = None"
    using M by (auto simp: market_def chain_inv_def pool_ok_def) (metis not_None_eq option.distinct(1))
  have k: "?k \<noteq> deployer" "?k \<noteq> ?p1" "?k \<noteq> ?p2" "?k \<noteq> victim"
    using M kp by (auto simp: external_def market_def)
  have two_steps: "same_market c c2" using same_market_trans c1(1) c2(1) unfolding reseeded_def by blast
  have bal2: "bal c2 j victim = bal c j victim" "bal c2 j ?k = bal c j ?k" for j
    using c1(1) c2(1) s k roles_differ(3) by (simp_all add: reseeded_def)
  have p1: "pools c2 ?p1 = Some e1" using c1(2) c2(1) M by (simp add: reseeded_def market_def)
  have ext: "external c2 victim" using same_external [OF two_steps] M by blast
  have ops: "operators c2 ?k = Some the_bot" "?k \<noteq> 0" "?p1 \<noteq> 0" using two_steps M by (simp_all add: same_market_def market_def)
  have names: "dex_tokenA e1 = address_of (token_a_of assigned)" "dex_tokenB e1 = address_of (token_b_of assigned)"
    "dex_tokenA e2 = dex_tokenA e1" "dex_tokenB e2 = dex_tokenB e1"
    using c1(3,4) c2(3,4) M by simp_all
  have zero: "bal c2 (dex_tokenA e1) ?k = 0" "bal c2 (dex_tokenB e1) ?k = 0" using bal2(2) c1(3,4) M by metis+
  have "?p1 \<noteq> ?p2" using M by blast
  from funding_goes [OF c2(2) p1 names(3,4) this ops(3) ext ops(2,1) zero] obtain c3 c4 c5 where
    go: "exec_tx deployer (Mint (dex_tokenA e1) victim (word_of_int ?V)) c2 = Some c3"
      "exec_tx victim (Approve (dex_tokenA e1) ?p1 (word_of_int ?V)) c3 = Some c4"
      "exec_tx deployer (Mint (dex_tokenB e1) ?k (word_of_int ?B)) c4 = Some c5" and
    c5: "ready_for_backrun c5 ?p1 ?p2 ?k the_bot victim e1 e2"
      "bal c5 (dex_tokenA e1) victim = bal c2 (dex_tokenA e1) victim + ?V"
      "bal c5 (dex_tokenB e1) victim = bal c2 (dex_tokenB e1) victim"
    by blast
  have toks: "address_of (token_a_of assigned) \<in> dom (tokens c2)" "address_of (token_b_of assigned) \<in> dom (tokens c2)"
    "address_of (token_a_of assigned) \<in> dom (tokens c5)" "address_of (token_b_of assigned) \<in> dom (tokens c5)"
    using c2(2-4) names mints_dom [of deployer c2] c5(1) by (auto simp: market_def ready_for_backrun_def)
  let ?at = "\<lambda>c' n'. stands sb True False c' n'"
  have fund: "does (?at c2 n2) (mint_and_approve ?h (JStr rpc_url_text) (JStr deployer_key_text) (JStr victim_key_text)
      (JStr victim_text) (JStr (token_a_of assigned)) (JStr (pool_of assigned)) ?V True) () (?at c4 (n2 + 2))"
    using does_mint_and_approve [OF laws n(5,7), of deployer_key_text "token_a_of assigned" victim_text c2 c3 victim_key_text
        "pool_of assigned" c4 True True n2 page base rdir dp] go(1,2) key names by simp
  have mint: "does (?at c4 (n2 + 2)) (mint_token ?h (JStr rpc_url_text) (JStr deployer_key_text) (JStr (token_b_of assigned))
      (JStr (backrun_of assigned)) ?B True) () (?at c5 (n2 + 3))"
    using does_mint [OF laws n(6,8), of deployer_key_text "token_b_of assigned" "backrun_of assigned" c4 c5 True True "n2 + 2"
        page base rdir dp] go(3) key names by (simp add: add.assoc)
  note B = does_balance [OF laws, of _ _ True False _ page base rdir dp]
  have reads: "does (?at c2 n2) (token_balance ?h (JStr rpc_url_text) (JStr (token_a_of assigned)) (JStr (backrun_of assigned))) 0 (?at c2 n2)"
    "does (?at c2 n2) (token_balance ?h (JStr rpc_url_text) (JStr (token_b_of assigned)) (JStr (backrun_of assigned))) 0 (?at c2 n2)"
    "does (?at c5 (n2 + 3)) (token_balance ?h (JStr rpc_url_text) (JStr (token_a_of assigned)) (JStr victim_text))
      (bal c (dex_tokenA d1) victim + ?V) (?at c5 (n2 + 3))"
    "does (?at c5 (n2 + 3)) (token_balance ?h (JStr rpc_url_text) (JStr (token_b_of assigned)) (JStr victim_text))
      (bal c (dex_tokenB d1) victim) (?at c5 (n2 + 3))"
    "does (?at c5 (n2 + 3)) (token_balance ?h (JStr rpc_url_text) (JStr (token_b_of assigned)) (JStr (backrun_of assigned))) ?B
      (?at c5 (n2 + 3))"
    using B [OF toks(1), of n2 "backrun_of assigned"] B [OF toks(2), of n2 "backrun_of assigned"]
      B [OF toks(3), of "n2 + 3" victim_text] B [OF toks(4), of "n2 + 3" victim_text] B [OF toks(4), of "n2 + 3" "backrun_of assigned"]
      zero c5 names c1(3,4) bal2 by (simp_all add: ready_for_backrun_def)
  have "does (?at c n) (backrun_fund ?h (parties_of assigned)) (before_of c d1) (?at c5 (n2 + 3))"
    unfolding backrun_fund_def print_step_def backrun_parties.simps
    by (rule does_bind does_print one two fund mint reads does_pret
      | (rule does_lift, simp; fail) | (rule does_fail_if, simp; fail))+
  moreover have "backrun_funded assigned c d1 c5 e1 e2"
    using c5 c1(3-6) c2(5,6) bal2 by (simp add: backrun_funded_def)
  ultimately show ?thesis by blast
qed

section \<open>The bundle\<close>

text \<open>
  A call submitted to the mempool, and a bundle of it by its id and a second call behind it, of
  another account: both go through, in this order.
\<close>

lemma pair_through_service:
  assumes laws: "sandbox_laws sb" and l: "stands sb True False c n l"
    and x: "call_of k sig args = Some x" "frm \<in> senders" "gas = gas_of x"
    and y: "call_of k' sig' args' = Some y" "frm' \<in> senders" "gas' = gas_of y" and ne: "address_of frm \<noteq> address_of frm'"
    and go: "exec_tx (address_of frm) x c = Some c1" "exec_tx (address_of frm') y c1 = Some c2"
  shows "\<exists>pl l1 r l2 pl' l3 h h' rd rd' l4 r'.
    passes (contract_transaction_payload (sandbox_host sb page base rdir dp) (JStr rpc_url_text) chain_id (JStr frm) (JStr k)
      sig (strs args) gas) l pl l1 \<and>
    passes (submit_public_transaction (sandbox_host sb page base rdir dp) (JObj pl)) l1 (MempoolRecord_toJson r) l2 \<and>
    passes (contract_transaction_payload (sandbox_host sb page base rdir dp) (JStr rpc_url_text) chain_id (JStr frm') (JStr k')
      sig' (strs args') gas') l2 pl' l3 \<and>
    passes (mine_bundle (sandbox_host sb page base rdir dp) [JObj [(''mempoolTxId'', JStr (mr_mempoolTxId r))], JObj pl']) l3
      (JObj (bundle_answer (n + 1) [(Some (mr_mempoolTxId r), h, True, rd), (None, h', True, rd')])) l4 \<and>
    passes (public_transaction (sandbox_host sb page base rdir dp) (JStr (mr_mempoolTxId r))) l4 (MempoolRecord_toJson r') l4 \<and>
    mr_status r' = JStr ''included'' \<and> stands sb True False c2 (n + 1) l4"
proof -
  let ?h = "sandbox_host sb page base rdir dp" and ?a = "address_of frm" and ?b = "address_of frm'"
  obtain s where s: "l = Running s" "serving sb s (machine_view sb l)" using l by (auto simp: stands_def)
  define v where "v = machine_view sb l"
  have v: "cv_pool v = []" "\<not> cv_automine v" "cv_chain v = c" "cv_height v = n" "serving sb s v"
    using standsD [OF l] s(2) by (simp_all add: v_def)
  let ?pl = "public_transaction_payload chain_id (cv_nonce v ?a) (JStr frm) (JStr k) (sb_calldata sb sig args) gas"
  let ?pl' = "public_transaction_payload chain_id (cv_nonce v ?b) (JStr frm') (JStr k') (sb_calldata sb sig' args') gas'"
  obtain s1 where s1: "passes (contract_transaction_payload ?h (JStr rpc_url_text) chain_id (JStr frm) (JStr k) sig (strs args) gas)
      (Running s) ?pl (Running s1)" "serving sb s1 v"
    using payload_passes [OF laws v(5) x(1), of page base rdir dp chain_id frm gas] unfolding served_def by blast
  have "next_nonce v ?a = cv_nonce v ?a" using v(1) by (simp add: next_nonce_def)
  from payload_taken [OF laws x(2,1) this, of chain_id] obtain tx where
    tx: "Transaction_fromJson ?pl = Inr tx" "takes_next sb v tx ?a x" "tx_fees tx = script_fees"
    unfolding x(3) by blast
  have "next_nonce (accepted_tx JNull ?a x v) ?b = cv_nonce v ?b" using v(1) ne by (simp add: next_nonce_def accepted_tx_def)
  from payload_taken [OF laws y(2,1) this, of chain_id] obtain tx' where
    tx': "Transaction_fromJson ?pl' = Inr tx'" "takes_next sb (accepted_tx JNull ?a x v) tx' ?b y"
      "tx_fees tx' = script_fees"
    unfolding y(3) by blast
  obtain r s2 where sub: "app_handle (sb_env sb) (Post_public_tx ?pl) s1 = (Ok200 (MempoolRecord_toJson r), s2)"
    and s2: "serving sb s2 v" "pool_lookup s2 (mr_mempoolTxId r) = Some r" "is_pending r" "mr_transaction r = tx"
      "mr_mempoolTxId r \<noteq> ''''"
    using submit_served [OF laws s1(2) tx(1)] by blast
  obtain s3 where s3: "passes (contract_transaction_payload ?h (JStr rpc_url_text) chain_id (JStr frm') (JStr k') sig' (strs args')
      gas') (Running s2) ?pl' (Running s3)" "serving sb s3 v" "pool_lookup s3 = pool_lookup s2"
    using payload_passes [OF laws s2(1) y(1), of page base rdir dp chain_id frm' gas'] unfolding served_def by blast
  have raw: "dict_get ?pl' ''mempoolTxId'' = JNull" by (simp add: public_transaction_payload_def)
  have oks: "outcomes [(?a, x), (?b, y)] (cv_chain v) = [True, True]" using go v(3) by (simp add: after_call_def)
  obtain h h' rd rd' s4 r' where
    mine: "app_handle (sb_env sb) (Post_bundle (pair_bundle (mr_mempoolTxId r) ?pl')) s3 =
      (Ok200 (JObj (bundle_answer (n + 1) [(Some (mr_mempoolTxId r), h, True, rd), (None, h', True, rd')])), s4)"
    and s4: "serving sb s4 (block_mined (v\<lparr>cv_pool := [(h, ?a, x), (h', ?b, y)]\<rparr>))" "pool_lookup s4 (mr_mempoolTxId r) = Some r'"
      "mr_status r' = JStr ''included''"
    using mine_pair [OF laws s3(2) v(1,2) _ s2(3,5) tx'(1) raw _ tx'(2) _ oks] s2(2,4) s3(3) tx(2,3) tx'(3) unfolding v(4) by auto
  have "passes (submit_public_transaction ?h (JObj ?pl)) (Running s1) (MempoolRecord_toJson r) (Running s2)"
    unfolding submit_public_transaction_def by (rule builder_passes [OF sub]) simp
  moreover have "passes (mine_bundle ?h [JObj [(''mempoolTxId'', JStr (mr_mempoolTxId r))], JObj ?pl']) (Running s3)
      (JObj (bundle_answer (n + 1) [(Some (mr_mempoolTxId r), h, True, rd), (None, h', True, rd')])) (Running s4)"
    unfolding mine_bundle_def by (rule builder_passes [OF mine]) (simp add: pair_bundle_def)
  moreover have "passes (public_transaction ?h (JStr (mr_mempoolTxId r))) (Running s4) (MempoolRecord_toJson r') (Running s4)"
    unfolding public_transaction_def by (rule builder_passes [OF lookup_served [OF s4(1,2)]]) simp
  moreover have "stands sb True False c2 (n + 1) (Running s4)"
    using serving_stands [OF s4(1)] v go by (simp add: block_mined_def include_all_frame after_call_def del: include_all.simps)
  ultimately show ?thesis using s1(1) s3(1) s4(3) s(1) by blast
qed

lemma pair_json [simp]:
  "dict_item (bundle_answer b [(k, h, True, d), (k', h', True, d')]) ''status'' = Inr (JStr ''included'')"
  "rbind (json_item (JObj (bundle_answer b [e, e'])) ''transactions'') (\<lambda>ts. json_nth ts 0) = Inr (bundle_entry b 0 e)"
  "rbind (json_item (JObj (bundle_answer b [e, e'])) ''transactions'') (\<lambda>ts. json_nth ts 1) = Inr (bundle_entry b 1 e')"
  "json_item (bundle_entry b i (k, h, ok, d)) ''status'' = Inr (JStr (if ok then ''included'' else ''reverted''))"
  "json_item (bundle_entry b i (k, h, ok, d)) ''chainTxHash'' = Inr h"
  by (simp_all add: bundle_answer_def bundle_entry_def json_nth_def)

text \<open>The route from the exact reserves.\<close>

definition planned_route :: backrun_route where
  "planned_route =
     \<lparr>br_victim_out = 90661089388014913158, br_victim_min = 89754478494134764026,
      br_out_a = 48423859144600256062, br_out_b = 46055111818329587586, br_profit = 4055111818329587586,
      br_min_a = 47939620553154253501, br_min_b = 45594560700146291710\<rparr>"

lemma planned: "calculate_route (POOL_SEED_AMOUNT, POOL_SEED_AMOUNT) (POOL_SEED_AMOUNT, POOL_SEED_AMOUNT) = Inr planned_route"
  unfolding planned_route_def by (rule route_on_seeded_pools)

lemma planned_calls:
  "call_of p ''swapExactAForB(uint256,uint256)'' [dec VICTIM_SWAP_AMOUNT_A, dec (br_victim_min planned_route)] =
     Some (victim_tx (address_of p) planned_route)"
  "call_of k ''executeBackrun(address,address,uint256,uint256,uint256,uint256)''
      [p, q, dec BACKRUN_AMOUNT_B, dec (br_min_a planned_route), dec (br_min_b planned_route), dec MIN_PROFIT_B] =
     Some (backrun_tx (address_of k) (address_of p) (address_of q) planned_route)"
  "gas_of (victim_tx a planned_route) = default_gas" "gas_of (backrun_tx a b c planned_route) = 700000"
  by (simp_all add: call_of_def two_uints_def uint_text_dec planned_route_def backrun_amounts victim_tx_def backrun_tx_def gas_of_def)

lemma backrun_submits:
  assumes laws: "sandbox_laws sb" and l: "stands sb True False c n l"
    and go: "exec_tx victim (victim_tx (address_of (pool_of assigned)) planned_route) c = Some c1"
      "exec_tx the_bot (backrun_tx (address_of (backrun_of assigned)) (address_of (pool_of assigned))
         (address_of (pool2_of assigned)) planned_route) c1 = Some c2"
  shows "\<exists>u l' r. passes (backrun_submit (sandbox_host sb page base rdir dp) (parties_of assigned) planned_route) l u l' \<and>
    passes (public_transaction (sandbox_host sb page base rdir dp) (bu_id u)) l' (MempoolRecord_toJson r) l' \<and>
    mr_status r = JStr ''included'' \<and> json_item (bu_result u) ''status'' = Inr (JStr ''included'') \<and>
    json_item (bu_victim_tx u) ''status'' = Inr (JStr ''included'') \<and>
    json_item (bu_backrun_tx u) ''status'' = Inr (JStr ''included'') \<and> stands sb True False c2 (n + 1) l'"
proof -
  let ?h = "sandbox_host sb page base rdir dp"
  obtain pl l1 r l2 pl' l3 h h' rd rd' l4 r' where
    p: "passes (contract_transaction_payload ?h (JStr rpc_url_text) 31337 (JStr victim_text) (JStr (pool_of assigned))
        ''swapExactAForB(uint256,uint256)'' (strs [dec VICTIM_SWAP_AMOUNT_A, dec (br_victim_min planned_route)]) default_gas) l pl l1"
      "passes (submit_public_transaction ?h (JObj pl)) l1 (MempoolRecord_toJson r) l2"
      "passes (contract_transaction_payload ?h (JStr rpc_url_text) 31337 (JStr bot_text) (JStr (backrun_of assigned))
        ''executeBackrun(address,address,uint256,uint256,uint256,uint256)''
        (strs [pool_of assigned, pool2_of assigned, dec BACKRUN_AMOUNT_B, dec (br_min_a planned_route),
          dec (br_min_b planned_route), dec MIN_PROFIT_B]) 700000) l2 pl' l3"
      "passes (mine_bundle ?h [JObj [(''mempoolTxId'', JStr (mr_mempoolTxId r))], JObj pl']) l3
        (JObj (bundle_answer (n + 1) [(Some (mr_mempoolTxId r), h, True, rd), (None, h', True, rd')])) l4" and
    r': "passes (public_transaction ?h (JStr (mr_mempoolTxId r))) l4 (MempoolRecord_toJson r') l4"
      "mr_status r' = JStr ''included''" "stands sb True False c2 (n + 1) l4"
    using pair_through_service [OF laws l planned_calls(1) sender_roles(2) planned_calls(3) [symmetric] planned_calls(2)
        sender_roles(3) planned_calls(4) [symmetric] bot_differs [symmetric] go, of page base rdir dp 31337] by blast
  let ?u = "\<lparr>bu_id = JStr (mr_mempoolTxId r),
    bu_result = JObj (bundle_answer (n + 1) [(Some (mr_mempoolTxId r), h, True, rd), (None, h', True, rd')]),
    bu_victim_tx = bundle_entry (n + 1) 0 (Some (mr_mempoolTxId r), h, True, rd),
    bu_backrun_tx = bundle_entry (n + 1) 1 (None, h', True, rd')\<rparr>"
  have "passes (backrun_submit ?h (parties_of assigned) planned_route) l ?u l4"
    unfolding backrun_submit_def print_step_def backrun_parties.simps
    by (rule passes_bind passes_print p [unfolded strs_def list.map] passes_lift [OF pair_json(2)]
        passes_lift [OF pair_json(3)] passes_pret | (rule passes_lift, simp; fail))+
  then show ?thesis using r' by (intro exI [of _ ?u] exI [of _ l4] exI [of _ r']) simp
qed

section \<open>The scenario\<close>

definition backrun_ready :: "'n sandbox \<Rightarrow> (string \<times> string) list \<Rightarrow> dex \<Rightarrow> dex \<Rightarrow> 'n machine \<Rightarrow> bool" where
  "backrun_ready sb assigned d1 d2 l \<longleftrightarrow> can_start sb l \<and> keys_sign sb \<and>
     cv_pool (machine_view sb l) = [] \<and> \<not> cv_automine (machine_view sb l) \<and>
     backrun_market assigned (cv_chain (machine_view sb l)) d1 d2"

definition holds :: "'n sandbox \<Rightarrow> 'n machine \<Rightarrow> string \<Rightarrow> string \<Rightarrow> int" where
  "holds sb l tok a = bal (cv_chain (machine_view sb l)) (address_of tok) (address_of a)"

text \<open>The funded chain takes the two transactions.\<close>

lemma funded_goes:
  assumes "backrun_funded assigned c d c' e1 e2"
  shows "\<exists>c1 c2. exec_tx victim (victim_tx (address_of (pool_of assigned)) planned_route) c' = Some c1 \<and>
    exec_tx the_bot (backrun_tx (address_of (backrun_of assigned)) (address_of (pool_of assigned))
      (address_of (pool2_of assigned)) planned_route) c1 = Some c2 \<and>
    bal c2 (dex_tokenA d) victim = bal c (dex_tokenA d) victim \<and>
    bal c2 (dex_tokenB d) victim = bal c (dex_tokenB d) victim + br_victim_out planned_route \<and>
    bal c2 (dex_tokenA d) (address_of (backrun_of assigned)) = 0 \<and>
    bal c2 (dex_tokenB d) (address_of (backrun_of assigned)) = BACKRUN_AMOUNT_B + br_profit planned_route \<and>
    dex_tokenA d \<in> dom (tokens c2) \<and> dex_tokenB d \<in> dom (tokens c2)"
proof -
  note F = assms [unfolded backrun_funded_def]
  have ready: "ready_for_backrun c' (address_of (pool_of assigned)) (address_of (pool2_of assigned))
      (address_of (backrun_of assigned)) the_bot victim e1 e2" using F by blast
  have route: "calculate_route (uint (reserveA e1), uint (reserveB e1)) (uint (reserveA e2), uint (reserveB e2)) = Inr planned_route"
    using F planned by simp
  have "0 < br_victim_out planned_route" by (simp add: planned_route_def)
  moreover have "max (max (uint (reserveA e1)) (uint (reserveB e1))) (max (uint (reserveA e2)) (uint (reserveB e2))) < 2 ^ 110"
    using F by (simp add: backrun_amounts)
  ultimately obtain c1 c2 where
    "exec_tx victim (victim_tx (address_of (pool_of assigned)) planned_route) c' = Some c1"
    "exec_tx the_bot (backrun_tx (address_of (backrun_of assigned)) (address_of (pool_of assigned))
      (address_of (pool2_of assigned)) planned_route) c1 = Some c2"
    "bal c2 (dex_tokenA e1) victim = bal c' (dex_tokenA e1) victim - VICTIM_SWAP_AMOUNT_A"
    "bal c2 (dex_tokenB e1) victim = bal c' (dex_tokenB e1) victim + br_victim_out planned_route"
    "bal c2 (dex_tokenA e1) (address_of (backrun_of assigned)) = bal c' (dex_tokenA e1) (address_of (backrun_of assigned))"
    "bal c2 (dex_tokenB e1) (address_of (backrun_of assigned)) =
      bal c' (dex_tokenB e1) (address_of (backrun_of assigned)) + br_profit planned_route"
    "dom (tokens c2) = dom (tokens c')"
    using backrun_goes [OF ready route] by blast
  then show ?thesis
    using F ready by (intro exI conjI) (assumption+, simp_all add: ready_for_backrun_def)
qed

text \<open>
  C7. The backrun scenario succeeds on the whole sandbox: from a deployment that holds nothing yet,
  or pools with exactly the reserves it wants, the main program ends with 0 and all of its checks
  have passed.  The bundle of the victim's swap, by its mempool id, and the bot's backrun behind it
  was mined with both included: the victim has spent its input and has the quoted output, and the
  backrun contract holds no TokenA and its input and the profit of the route in TokenB.
\<close>

theorem backrun_succeeds:
  assumes laws: "sandbox_laws sb" and ready: "backrun_ready sb assigned d1 d2 l"
  shows "\<exists>l'. passes (backrun_main (sandbox_host sb page base rdir (deployed_with assigned))) l 0 l' \<and>
    holds sb l' (token_a_of assigned) victim_text = holds sb l (token_a_of assigned) victim_text \<and>
    holds sb l' (token_b_of assigned) victim_text =
      holds sb l (token_b_of assigned) victim_text + br_victim_out planned_route \<and>
    holds sb l' (token_a_of assigned) (backrun_of assigned) = 0 \<and>
    holds sb l' (token_b_of assigned) (backrun_of assigned) = BACKRUN_AMOUNT_B + br_profit planned_route"
proof -
  let ?h = "sandbox_host sb page base rdir (deployed_with assigned)" and ?c = "cv_chain (machine_view sb l)"
  let ?n = "cv_height (machine_view sb l)"
  note R = ready [unfolded backrun_ready_def]
  note M = conjunct2 [OF conjunct2 [OF conjunct2 [OF conjunct2 [OF R]]], unfolded backrun_market_def Let_def]
  have rests: "rests sb ?c ?n l" using R by (simp add: stands_def)
  have k: "backrun_of assigned \<noteq> ''''" using M by blast
  have toks: "dex_tokenA d1 = address_of (token_a_of assigned)" "dex_tokenB d1 = address_of (token_b_of assigned)"
    using M by blast+
  obtain l1 where l1: "passes (backrun_prepare ?h) l (parties_of assigned) l1" "stands sb True False ?c ?n l1"
    using doesD [OF does_backrun_prepare [OF laws k] rests] by blast
  obtain c' n' e1 e2 where
    fund: "does (stands sb True False ?c ?n) (backrun_fund ?h (parties_of assigned)) (before_of ?c d1) (stands sb True False c' n')"
      "backrun_funded assigned ?c d1 c' e1 e2"
    using does_backrun_fund [OF laws] R by blast
  obtain l2 where l2: "passes (backrun_fund ?h (parties_of assigned)) l1 (before_of ?c d1) l2" "stands sb True False c' n' l2"
    using doesD [OF fund(1) l1(2)] by blast
  obtain c1 c2 where
    go: "exec_tx victim (victim_tx (address_of (pool_of assigned)) planned_route) c' = Some c1"
      "exec_tx the_bot (backrun_tx (address_of (backrun_of assigned)) (address_of (pool_of assigned))
        (address_of (pool2_of assigned)) planned_route) c1 = Some c2" and
    c2: "bal c2 (dex_tokenA d1) victim = bal ?c (dex_tokenA d1) victim"
      "bal c2 (dex_tokenB d1) victim = bal ?c (dex_tokenB d1) victim + br_victim_out planned_route"
      "bal c2 (dex_tokenA d1) (address_of (backrun_of assigned)) = 0"
      "bal c2 (dex_tokenB d1) (address_of (backrun_of assigned)) = BACKRUN_AMOUNT_B + br_profit planned_route"
      "dex_tokenA d1 \<in> dom (tokens c2)" "dex_tokenB d1 \<in> dom (tokens c2)"
    using funded_goes [OF fund(2)] by blast
  obtain u l3 r where u: "passes (backrun_submit ?h (parties_of assigned) planned_route) l2 u l3"
    "passes (public_transaction ?h (bu_id u)) l3 (MempoolRecord_toJson r) l3" "mr_status r = JStr ''included''"
    "json_item (bu_result u) ''status'' = Inr (JStr ''included'')" "json_item (bu_victim_tx u) ''status'' = Inr (JStr ''included'')"
    "json_item (bu_backrun_tx u) ''status'' = Inr (JStr ''included'')" "stands sb True False c2 (n' + 1) l3"
    using backrun_submits [OF laws l2(2) go, of page base rdir "deployed_with assigned"] by blast
  note B = does_balance [OF laws, of _ c2 True False "n' + 1" page base rdir "deployed_with assigned"]
  note b = B [OF c2(5) [unfolded toks], of victim_text] B [OF c2(6) [unfolded toks], of victim_text]
    B [OF c2(5) [unfolded toks], of "backrun_of assigned"] B [OF c2(6) [unfolded toks], of "backrun_of assigned"]
  have out: "MIN_PROFIT_B \<le> br_profit planned_route" "br_victim_min planned_route \<le> br_victim_out planned_route"
    by (simp_all add: planned_route_def backrun_amounts)
  have checks: "passes (backrun_checks (bu_result u) (bu_victim_tx u) (bu_backrun_tx u) (MempoolRecord_toJson r)
      (bal ?c (dex_tokenA d1) victim + VICTIM_SWAP_AMOUNT_A - bal c2 (dex_tokenA d1) victim)
      (bal c2 (dex_tokenB d1) victim - bal ?c (dex_tokenB d1) victim) (br_victim_min planned_route)
      (bal c2 (dex_tokenA d1) (address_of (backrun_of assigned)))
      (bal c2 (dex_tokenB d1) (address_of (backrun_of assigned)) - BACKRUN_AMOUNT_B)) x () x" for x
    by (rule passesI [where f = id]) (use u(3-6) c2 out in \<open>simp add: backrun_checks_def fail_if_def\<close>)
  obtain l4 where l4: "passes (token_balance ?h (JStr rpc_url_text) (JStr (token_a_of assigned)) (JStr victim_text)) l3
      (bal c2 (dex_tokenA d1) victim) l4" "stands sb True False c2 (n' + 1) l4"
    using doesD [OF b(1) u(7)] unfolding toks by blast
  obtain l5 where l5: "passes (token_balance ?h (JStr rpc_url_text) (JStr (token_b_of assigned)) (JStr victim_text)) l4
      (bal c2 (dex_tokenB d1) victim) l5" "stands sb True False c2 (n' + 1) l5"
    using doesD [OF b(2) l4(2)] unfolding toks by blast
  obtain l6 where l6: "passes (token_balance ?h (JStr rpc_url_text) (JStr (token_a_of assigned)) (JStr (backrun_of assigned))) l5
      (bal c2 (dex_tokenA d1) (address_of (backrun_of assigned))) l6" "stands sb True False c2 (n' + 1) l6"
    using doesD [OF b(3) l5(2)] unfolding toks by blast
  obtain l7 where l7: "passes (token_balance ?h (JStr rpc_url_text) (JStr (token_b_of assigned)) (JStr (backrun_of assigned))) l6
      (bal c2 (dex_tokenB d1) (address_of (backrun_of assigned))) l7" "stands sb True False c2 (n' + 1) l7"
    using doesD [OF b(4) l6(2)] unfolding toks by blast
  have "passes (backrun_main ?h) l 0 l7"
    unfolding backrun_main_def print_step_def route_prints_def Let_def
    by (rule passes_bind passes_print l1(1) l2(1) passes_lift [OF planned] u(1,2) l4(1) l5(1) l6(1) l7(1) checks passes_pret
      | simp only: backrun_parties.simps backrun_before.simps)+
  moreover have "cv_chain (machine_view sb l7) = c2" by (rule standsD [OF l7(2)])
  ultimately show ?thesis
    using c2(1-4) by (intro exI [of _ l7]) (simp add: holds_def toks)
qed

end
