(* ===== verification/Sandbox_Witness.thy ===== *)
theory Sandbox_Witness
  imports Sandbox_Example Sandbox_Simulation Sandbox_Backrun
begin

text \<open>
  The sandbox just deployed, on the concrete node: the end-to-end properties applied to it.
\<close>

section \<open>The deployed chain\<close>

definition small_assigned :: "(string \<times> string) list" where
  "small_assigned =
     [(''TOKEN_A_ADDRESS'', ''0xa''), (''TOKEN_B_ADDRESS'', ''0xb''), (''POOL_1_ADDRESS'', ''0xc''),
      (''POOL_2_ADDRESS'', ''0xd''), (''BACKRUN_ADDRESS'', ''0xe'')]"

definition small_token :: token where
  "small_token = \<lparr>totalSupply = 0, minter = address_of deployer_text, balanceOf = (\<lambda>_. 0), allowance = (\<lambda>_ _. 0)\<rparr>"

definition small_dex :: dex where
  "small_dex = \<lparr>dex_tokenA = 10, dex_tokenB = 11, reserveA = 0, reserveB = 0\<rparr>"

definition small_chain :: chain where
  "small_chain =
     \<lparr>tokens = (\<lambda>_. None)(10 := Some small_token, 11 := Some small_token),
      pools = (\<lambda>_. None)(12 := Some small_dex, 13 := Some small_dex),
      operators = (\<lambda>_. None)(14 := Some 0x3c44cdddb6a900fa2b585dd299e03d12fa4293bc)\<rparr>"

definition small_view :: chain_view where
  "small_view = \<lparr>cv_chain = small_chain, cv_height = 5, cv_nonce = (\<lambda>a. if a = address_of deployer_text then 5 else 0),
     cv_pool = [], cv_mined = (\<lambda>_. None), cv_automine = False\<rparr>"

definition small_machine :: "small_node machine" where
  "small_machine = Stopped \<lparr>sn_held = (small_view, []), sn_fees = (\<lambda>_. script_fees), sn_saves = []\<rparr>"

definition small_host :: "small_node machine host" where
  "small_host = sandbox_host small_sandbox (\<lambda>r. ('''', '''')) ''http://127.0.0.1:8550'' ''/sandbox''
     (deployed_with small_assigned)"

lemma small_addresses: "address_of ''0xa'' = 10" "address_of ''0xb'' = 11" "address_of ''0xc'' = 12"
  "address_of ''0xd'' = 13" "address_of ''0xe'' = 14"
  by code_simp+

lemma small_machine_view: "machine_view small_sandbox small_machine = small_view"
  by (simp add: machine_view_def machine_world_def small_machine_def seen_def small_view_def)

lemma small_token_ok: "supply_ok small_token"
  by (simp add: supply_ok_def small_token_def)

lemma small_ready:
  assumes "n < 2 ^ 256"
  shows "sandbox_ready small_sandbox ''0xa'' n small_machine"
  using assms small_token_ok
  by (simp add: sandbox_ready_def small_machine_view token_ready_def small_addresses small_signer_def)
    (simp add: small_view_def small_chain_def small_token_def small_machine_def small_env_def)

lemma small_token_a: "''0xa'' = env_get small_assigned ''TOKEN_A_ADDRESS''"
  by (simp add: small_assigned_def env_get_def)

lemma small_bal: "token_bal small_view ''0xa'' a = 0"
  by (simp add: token_bal_def bal_def small_addresses small_view_def small_chain_def small_token_def)

section \<open>The scenarios\<close>

theorem token_transfer_passes_witness:
  "\<exists>l'. passes (token_transfer_main small_host) small_machine 0 l' \<and>
    token_bal (machine_view small_sandbox l') ''0xa'' victim_text = 1000000000000000000 \<and>
    token_bal (machine_view small_sandbox l') ''0xa'' deployer_text = 99000000000000000000 \<and>
    cv_height (machine_view small_sandbox l') = 7"
proof -
  have "MINT_AMOUNT < 2 ^ 256" by (simp add: amounts)
  from token_transfer_passes [OF small_laws small_token_a small_ready [OF this],
      of "\<lambda>r. ('''', '''')" "''http://127.0.0.1:8550''" "''/sandbox''"]
  show ?thesis
    by (simp only: small_host_def [symmetric] small_machine_view small_bal amounts) (simp add: small_view_def)
qed

theorem bundle_simulation_passes_witness:
  "\<exists>l'. passes (bundle_simulation_main small_host) small_machine 0 l' \<and>
    token_bal (machine_view small_sandbox l') ''0xa'' victim_text = 1000000000000000000 \<and>
    token_bal (machine_view small_sandbox l') ''0xa'' deployer_text = 2000000000000000000 \<and>
    cv_height (machine_view small_sandbox l') = 7"
proof -
  have "SIM_MINT_AMOUNT < 2 ^ 256" by (simp add: amounts)
  from bundle_simulation_passes [OF small_laws small_token_a small_ready [OF this],
      of "\<lambda>r. ('''', '''')" "''http://127.0.0.1:8550''" "''/sandbox''"]
  show ?thesis
    by (simp only: small_host_def [symmetric] small_machine_view small_bal amounts) (simp add: small_view_def)
qed

section \<open>The swaps\<close>

lemma small_roles: "deployer = 0xf39fd6e51aad88f6f4ce6ab8827279cfffb92266" "victim = 0x70997970c51812dc3a010c7d01b50e0d17dc79c8"
  by (simp_all add: address_of_def role_numbers)

lemma small_chain_inv: "chain_inv small_chain"
  using small_token_ok
  by (auto simp: chain_inv_def supplies_ok_def pool_ok_def small_chain_def small_dex_def allowed_def small_token_def
      bal_def split: if_splits)

lemma small_places: "token_a_of small_assigned = ''0xa''" "token_b_of small_assigned = ''0xb''" "pool_of small_assigned = ''0xc''"
  by (simp_all add: token_a_of_def token_b_of_def pool_of_def small_assigned_def env_get_def)

lemma small_market: "swap_market small_assigned small_chain small_dex"
proof -
  have "market small_chain deployer 12 small_dex (SWAP_POOL_SEED_AMOUNT + SWAP_AMOUNT_A) SWAP_POOL_SEED_AMOUNT"
    using small_chain_inv
    by (simp add: market_def) (simp add: small_chain_def small_dex_def mints_def supplied_def small_token_def swap_amounts small_roles)
  then show ?thesis
    by (simp add: swap_market_def small_places small_addresses)
      (simp add: small_chain_def small_dex_def pool_usable_def small_roles)
qed

lemma small_swap_ready:
  "swap_ready small_sandbox small_assigned small_dex 99600698103990321649 small_machine"
  using small_market
  by (simp add: swap_ready_def small_machine_view keys_sign_def small_signer_def)
    (simp add: can_start_def small_machine_def small_env_def small_view_def seeded_reserves_def small_dex_def swap_amounts
      sandbox_amount_out_def deployer_key_text_def victim_key_text_def)

lemma small_victim: "victim_bal small_sandbox small_machine ''0xa'' = 0" "victim_bal small_sandbox small_machine ''0xb'' = 0"
  by (simp_all add: victim_bal_def small_machine_view small_addresses)
    (simp_all add: small_view_def small_chain_def small_token_def bal_def)

theorem victim_swap_succeeds_witness:
  "\<exists>l'. passes (victim_swap_main small_host) small_machine 0 l' \<and>
    victim_bal small_sandbox l' ''0xa'' = 0 \<and> victim_bal small_sandbox l' ''0xb'' = 99600698103990321649"
  using victim_swap_succeeds [OF small_laws small_swap_ready, of "\<lambda>r. ('''', '''')" "''http://127.0.0.1:8550''" "''/sandbox''"]
  by (simp add: small_host_def small_places small_victim)

theorem victim_swap_revert_succeeds_witness:
  "\<exists>l'. passes (victim_swap_revert_main small_host) small_machine 0 l' \<and>
    victim_bal small_sandbox l' ''0xa'' = 100000000000000000000 \<and> victim_bal small_sandbox l' ''0xb'' = 0"
  using victim_swap_revert_succeeds [OF small_laws small_swap_ready, of "\<lambda>r. ('''', '''')" "''http://127.0.0.1:8550''" "''/sandbox''"]
  by (simp add: small_host_def small_places small_victim swap_amounts)

section \<open>The pools\<close>

lemma small_places2: "pool2_of small_assigned = ''0xd''"
  by (simp add: pool2_of_def small_assigned_def env_get_def)

lemma small_both: "both_markets small_assigned small_chain small_dex small_dex POOL_TOKEN_AMOUNT POOL_TOKEN_AMOUNT"
proof -
  have "market small_chain deployer 12 small_dex (POOL_TOKEN_AMOUNT + POOL_TOKEN_AMOUNT) (POOL_TOKEN_AMOUNT + POOL_TOKEN_AMOUNT)"
    "market small_chain deployer 13 small_dex (POOL_TOKEN_AMOUNT + POOL_TOKEN_AMOUNT) (POOL_TOKEN_AMOUNT + POOL_TOKEN_AMOUNT)"
    using small_chain_inv
    by (simp_all add: market_def)
      (simp_all add: small_chain_def small_dex_def mints_def supplied_def small_token_def POOL_TOKEN_AMOUNT_def
        TOKEN_DECIMALS_def DEFAULT_TOKEN_DECIMALS_def small_roles)
  then show ?thesis
    by (simp add: both_markets_def small_places small_places2 small_addresses) (simp add: small_dex_def)
qed

lemma small_pools_ready: "pools_ready small_sandbox small_assigned small_dex small_dex small_machine"
  using small_both
  by (simp add: pools_ready_def small_machine_view small_signer_def)
    (simp add: small_view_def small_dex_def small_def)

theorem seed_pools_succeeds_witness:
  "\<exists>l'. passes (seed_pools_main small_host) small_machine 0 l' \<and>
    reserves_of small_sandbox l' ''0xc'' = Some (100000000000000000000000, 100000000000000000000000) \<and>
    reserves_of small_sandbox l' ''0xd'' = Some (100000000000000000000000, 100000000000000000000000)"
  using seed_pools_succeeds [OF small_laws small_pools_ready, of "\<lambda>r. ('''', '''')" "''http://127.0.0.1:8550''" "''/sandbox''"]
  by (simp add: small_host_def small_places small_places2)
    (simp add: small_dex_def POOL_TOKEN_AMOUNT_def TOKEN_DECIMALS_def DEFAULT_TOKEN_DECIMALS_def)

section \<open>The backrun\<close>

lemma small_places3: "backrun_of small_assigned = ''0xe''"
  by (simp add: backrun_of_def small_assigned_def env_get_def)

lemma small_bot: "the_bot = 0x3c44cdddb6a900fa2b585dd299e03d12fa4293bc"
  by (simp add: address_of_def role_numbers)

lemma small_backrun_market: "backrun_market small_assigned small_chain small_dex small_dex"
proof -
  have "market small_chain deployer p small_dex (POOL_SEED_AMOUNT + (POOL_SEED_AMOUNT + VICTIM_SWAP_AMOUNT_A))
      (POOL_SEED_AMOUNT + (POOL_SEED_AMOUNT + BACKRUN_AMOUNT_B))" if "p = 12 \<or> p = 13" for p
    using small_chain_inv that
    by (auto simp: market_def) (simp_all add: small_chain_def small_dex_def mints_def supplied_def small_token_def
        backrun_amounts small_roles)
  then show ?thesis
    by (simp add: backrun_market_def Let_def small_places small_places2 small_places3 small_addresses)
      (simp add: small_dex_def exact_pool_def external_def small_chain_def small_roles small_bot small_token_def bal_def)
qed

lemma small_backrun_ready: "backrun_ready small_sandbox small_assigned small_dex small_dex small_machine"
  using small_backrun_market
  by (simp add: backrun_ready_def small_machine_view keys_sign_def small_signer_def)
    (simp add: can_start_def small_machine_def small_env_def small_view_def deployer_key_text_def victim_key_text_def)

theorem backrun_succeeds_witness:
  "\<exists>l'. passes (backrun_main small_host) small_machine 0 l' \<and>
    holds small_sandbox l' ''0xa'' victim_text = 0 \<and> holds small_sandbox l' ''0xb'' victim_text = 90661089388014913158 \<and>
    holds small_sandbox l' ''0xa'' ''0xe'' = 0 \<and> holds small_sandbox l' ''0xb'' ''0xe'' = 46055111818329587586"
proof -
  have zero: "holds small_sandbox small_machine ''0xa'' victim_text = 0" "holds small_sandbox small_machine ''0xb'' victim_text = 0"
    by (simp_all add: holds_def small_machine_view small_addresses)
      (simp_all add: small_view_def small_chain_def small_token_def bal_def)
  show ?thesis
    using backrun_succeeds [OF small_laws small_backrun_ready, of "\<lambda>r. ('''', '''')" "''http://127.0.0.1:8550''" "''/sandbox''"]
    by (simp add: small_host_def small_places small_places2 small_places3 zero planned_route_def backrun_amounts)
qed

section \<open>A bundle\<close>











end
