(* ===== verification/Spec2Isabelle.thy ===== *)
theory Spec2Isabelle
  imports Builder_Witnesses Machine_Witnesses Request_Numbers Scenario_Polling Scenario_Witnesses
    Contract_Witnesses Knight_Witnesses Sandbox_Witness
begin

text \<open>
  A verification development for the local DEX sandbox: the block builder service
  (\<^verbatim>\<open>src/services/block-builder\<close>), the scenarios that drive it (\<^verbatim>\<open>src/scenarios\<close>), the contracts
  they trade on (\<^verbatim>\<open>src/blockchain/src\<close>) and the knight, the bot that follows the service's mempool
  (\<^verbatim>\<open>src/knight\<close>).

  \<^bold>\<open>The program.\<close>  The block builder is a FastAPI service with one mempool in memory, a set of
  websocket subscribers and a client of a local Ethereum node.  A transaction posted to it is
  stored as a pending record, numbered and broadcast.  A private bundle, whose items name records
  or carry transactions, is sent to the node, mined in one block, and its receipts decide the
  records' final statuses; a simulation does the same between a snapshot and a revert.  The
  scenarios are command line programs: they deploy contracts and mint tokens by commands, switch
  the node's automatic mining on meanwhile, submit transactions and bundles over HTTP, and check
  balances and statuses.  The knight, in C++, holds a websocket to the service open, queues the
  broadcasts it reads, takes one snapshot of the pending transactions over HTTP and then handles
  the queued envelopes one by one until it is shut down.

  \<^bold>\<open>Python.\<close>  \<^verbatim>\<open>Py_Prelude\<close> has JSON values, the exceptions as a datatype, results as error sums,
  and programs as functions from a state to a result and a new state, with \<^verbatim>\<open>try\<close>/\<^verbatim>\<open>finally\<close>, loops,
  dict access and the exceptions these raise; \<^verbatim>\<open>step_order\<close> is the contract of a relation between
  states that programs keep.  \<^verbatim>\<open>Py_Text\<close> has \<^verbatim>\<open>str\<close>, \<^verbatim>\<open>hex\<close>, \<^verbatim>\<open>int\<close>, \<^verbatim>\<open>strip\<close> and \<^verbatim>\<open>split\<close>.  What the code
  does not contain is a parameter with an unknown state of its own about which nothing is
  assumed: \<^verbatim>\<open>World\<close> for the service (the node behind \<^verbatim>\<open>urlopen\<close>, \<^verbatim>\<open>uuid4\<close>, the clock, the
  websockets), \<^verbatim>\<open>Script_World\<close> for the scenarios (commands, HTTP, files, \<^verbatim>\<open>time.sleep\<close>).  Both can be
  recorded, so that theorems can speak of what was sent.

  \<^bold>\<open>The service,\<close> by module of \<^verbatim>\<open>block_builder\<close>:
  \<^item> \<^verbatim>\<open>Transactions\<close>: \<^verbatim>\<open>transaction.py\<close>.  The parser as the table of its checks, its round trip, and
    what the RPC parameters keep.
  \<^item> \<^verbatim>\<open>Anvil_Client\<close>: \<^verbatim>\<open>anvil.py\<close>.  Every reply of the node classified; polling for receipts (20
    attempts, the default of \<^verbatim>\<open>waitForReceipt\<close>, are its fuel, so the loop is total).
  \<^item> \<^verbatim>\<open>Mempool_Store\<close>, \<^verbatim>\<open>Mempool_Spec\<close>: \<^verbatim>\<open>mempool.py\<close>.  Records live in a heap, because handlers keep
    references to them; the dict leads to them in insertion order.  The invariant, the contract
    \<^verbatim>\<open>record_store\<close> the bundles rest on, and the refinement to an append-only log.
  \<^item> \<^verbatim>\<open>Bundles\<close>, \<^verbatim>\<open>Bundle_Mining\<close>, \<^verbatim>\<open>Bundle_Order\<close>: \<^verbatim>\<open>bundle.py\<close>.  Reading against a reference reader;
    executing, mining and simulating; what mining does to the mempool and reports to the caller;
    the order of the requests to the node, and the bracket of a simulation.
  \<^item> \<^verbatim>\<open>Builder_App\<close>: \<^verbatim>\<open>app.py\<close> and \<^verbatim>\<open>ws.py\<close>.  Every route, the websocket endpoint, and runs of events.
    \<^verbatim>\<open>Builder_Safety\<close> and \<^verbatim>\<open>Builder_Properties\<close> have what holds over every run;
    \<^verbatim>\<open>Request_Numbers\<close> the numbering of the RPC requests.
  \<^item> \<^verbatim>\<open>Builder_Machine\<close>: the event loop.  A submission awaits each send of its broadcast and other
    handlers run meanwhile; the step relation interleaves them, and its runs contain the
    sequential ones.  \<^verbatim>\<open>Builder_Watch\<close>: what a subscriber is told over such a run.

  \<^bold>\<open>The scenarios:\<close>
  \<^item> \<^verbatim>\<open>Scenario_Support\<close>, \<^verbatim>\<open>Amounts\<close>: \<^verbatim>\<open>scenario_support.py\<close>.  \<^verbatim>\<open>Amounts\<close> also has the quote of the
    contract (\<^verbatim>\<open>SandboxDex.sol\<close>, on 256-bit words with reverts), and \<^verbatim>\<open>amm_quote\<close>, the contract of an
    exact-input quote, holds of both.  The 30 attempts of \<^verbatim>\<open>wait_for_builder\<close> are its fuel.
  \<^item> \<^verbatim>\<open>Scenario_Mempool\<close>, \<^verbatim>\<open>Scenario_Transfers\<close>, \<^verbatim>\<open>Scenario_Swaps\<close>, \<^verbatim>\<open>Scenario_Pools\<close>: the seven
    \<^verbatim>\<open>run.py\<close>.  Code that two scenarios have in common, or that makes up one phase of a long main
    program, is a definition of its own.
  \<^item> \<^verbatim>\<open>Scenario_Automine\<close>: with the chain's setting as a parameter under the law of its requests,
    every path of every scenario leaves automatic mining off, or ends with the failure of a request
    to set it or of the deployment script.
  \<^item> \<^verbatim>\<open>Scenario_Polling\<close>: the answers to the health checks decide when and how waiting for the
    builder ends.
  \<^item> \<^verbatim>\<open>Scenario_Outcomes\<close>: what the shared functions give, the backrun's route, and what a scenario
    has checked when it ends with 0.
  \<^item> \<^verbatim>\<open>Local_Builder\<close>: the scenarios' client composed with the service.  The mempool-sequence
    scenario, run against the model of the service, passes.

  \<^bold>\<open>The contracts,\<close> by file of \<^verbatim>\<open>blockchain/src\<close>; a call is a function to an option, a revert is
  \<open>None\<close>, and arithmetic is that of 256-bit words with Solidity's overflow checks:
  \<^item> \<^verbatim>\<open>Contract_Tokens\<close>: \<^verbatim>\<open>tokens/SandboxERC20.sol\<close>; the supply is the sum of the balances.
  \<^item> \<^verbatim>\<open>Contract_Dex\<close>: \<^verbatim>\<open>dexes/SandboxDex.sol\<close> on a chain of contracts.  \<^verbatim>\<open>token_call\<close> is what a pool
    relies on: when a call of a token goes through and what it moves.
  \<^item> \<^verbatim>\<open>Contract_Chain\<close>: \<^verbatim>\<open>backrun/SandboxBackrun.sol\<close>, transactions of external accounts and
    deployments as a step relation, and its invariant.
  \<^item> \<^verbatim>\<open>Backrun_Plan\<close>: the swap and the backrun scenarios' plans executed on the contracts, with the
    amounts the Python code computes.

  \<^bold>\<open>The knight,\<close> by file of \<^verbatim>\<open>knight/src\<close>:
  \<^item> \<^verbatim>\<open>Knight_Queue\<close>: \<^verbatim>\<open>common/queue.h\<close>.  \<^verbatim>\<open>iqueue\<close> is the interface \<^verbatim>\<open>IQueue\<close> with the laws its
    clients use; the bounded queue interprets it.
  \<^item> \<^verbatim>\<open>Knight_Config\<close>: \<^verbatim>\<open>common/config.h\<close>, \<^verbatim>\<open>utils/utils.cpp\<close>.  The URL parser against a grammar.
  \<^item> \<^verbatim>\<open>Knight_Source\<close>: \<^verbatim>\<open>network/ws_source.cpp\<close>.  A record of the source with the asynchronous
    operations under way; its operations and completion handlers are functions on it, and the
    step relation lets any operation under way complete next with any error code.  Handlers of
    cancelled operations still run, as they do in Asio; an operation carries the number of the
    stream it was started on.  The bounds are those of the code: ten attempts to reconnect, at
    most 5000 milliseconds each, beside a timer that may already be live when an outage begins.
  \<^item> \<^verbatim>\<open>Knight_Feed\<close>: \<^verbatim>\<open>builder/pending_feed.cpp\<close>.  The feed over the source and its callbacks: its
    state is the last settled report of the source, and a close while it connects is lost.
  \<^item> \<^verbatim>\<open>Knight_Rest\<close>: \<^verbatim>\<open>network/rest_client.cpp\<close>, \<^verbatim>\<open>builder/rest_client.cpp\<close>.  The phases of a request,
    and the three attempts of the snapshot with their pauses.
  \<^item> \<^verbatim>\<open>Knight_Runtime\<close>: \<^verbatim>\<open>runtime/runtime.cpp\<close>, \<^verbatim>\<open>main.cpp\<close>.  Three threads as one step relation: a step
    is a handler of the network thread, one part of the main thread between two points where it
    waits, or one of the calls that \<^verbatim>\<open>stop\<close> makes.
  \<^item> \<^verbatim>\<open>Knight_Builder\<close>: the knight composed with the event loop of the service over a connection
    that delivers in order: what it has logged, handled and queued covers every pending
    transaction whose message was not lost by a send that raised or a full queue, or is under way.

  \<^bold>\<open>The whole sandbox,\<close> end to end: a scenario's main program on one machine with the service, the
  contracts, the node and the deployment the scripts leave behind:
  \<^item> \<^verbatim>\<open>Sandbox_Node\<close>: the document \<^verbatim>\<open>deploy-local.zsh\<close> writes from \<^verbatim>\<open>local.anvil.env\<close>, and the node
    (Anvil) and its tool \<^verbatim>\<open>cast\<close> as parameters.  Their documented behaviour is a set of laws
    (\<^verbatim>\<open>sandbox_laws\<close>) about a view of the node: the contracts' chain, the transactions that wait and
    the outcomes of the mined ones.  A mined transaction acts on the chain by the contracts' model.
    The laws promise an order only for transactions that offer the same fees, since the node
    sorts by fees, and a block with all that wait only if they fill it no more than half.
  \<^item> \<^verbatim>\<open>Sandbox_Service\<close>, \<^verbatim>\<open>Sandbox_Steps\<close>: what the service's handlers and the shared functions of the
    scenarios do there; a bundle of equal fees is executed as one block in its order, and each step
    of the scripts goes through and leaves the view it should.
  \<^item> \<^verbatim>\<open>Sandbox_Scenarios\<close>, \<^verbatim>\<open>Sandbox_Simulation\<close>: the token-transfer and the bundle-simulation
    scenario pass.
  \<^item> \<^verbatim>\<open>Sandbox_Logic\<close>: triples for the total correctness of scripts (\<^verbatim>\<open>does\<close>) over machines on which
    nothing is under way, with the rules for reads, transactions and seeding.
  \<^item> \<^verbatim>\<open>Sandbox_Trades\<close>, \<^verbatim>\<open>Sandbox_Swaps\<close>: a call through the mempool, the liquidity of a pool, and the
    victim-swap and the victim-swap-revert scenario; \<^verbatim>\<open>Contract_Market\<close> has their preparation on
    the contracts.
  \<^item> \<^verbatim>\<open>Sandbox_Pools\<close>, \<^verbatim>\<open>Sandbox_Backrun\<close>: the seed-pools and the backrun scenario, the latter with the
    bundle of the victim's swap and the bot's backrun and the plan of \<^verbatim>\<open>Backrun_Plan\<close> on the contracts.
  \<^item> \<^verbatim>\<open>Sandbox_Example\<close>, \<^verbatim>\<open>Sandbox_Witness\<close>: a concrete node and tool that obey the laws, and the
    scenarios run on it from a fresh deployment.

  \<^verbatim>\<open>Example_Node\<close>, \<^verbatim>\<open>Knight_Witnesses\<close>, \<^verbatim>\<open>Builder_Witnesses\<close>, \<^verbatim>\<open>Machine_Witnesses\<close>, \<^verbatim>\<open>Scenario_Witnesses\<close> and
  \<^verbatim>\<open>Contract_Witnesses\<close> apply the properties that have hypotheses at concrete states.

  \<^bold>\<open>Simplifications.\<close>  Strings are lists of characters and upper case is that of ASCII.  Texts of
  messages are kept as a list of literal pieces and values, not rendered.  Floats are rationals.
  \<^verbatim>\<open>sorted\<close> of lists of lists is refused instead of compared.  A handler without \<^verbatim>\<open>await\<close> runs
  without interruption, as it does on one event loop.  So does a handler of the knight's network
  thread, and a call of \<^verbatim>\<open>stop\<close> on the feed from the other thread is taken as one step beside
  them, although the code does not synchronise the two.  The beginning of \<^verbatim>\<open>run\<close> (the flag, the
  network thread, the feed's \<^verbatim>\<open>open\<close>) is one step as well: a \<^verbatim>\<open>stop\<close> between them would find the
  feed closed and leave it as it is.

  \<^bold>\<open>Not modelled.\<close>  Of the knight the masks and threads of the signal listener (a call of \<^verbatim>\<open>stop\<close>
  may come at any time), TLS contexts, header fields, logging and scripts; events, names, gas and the texts of reverts of the
  contracts; uvicorn, the framework's parsing of requests and its error pages; of the shell
  scripts everything but the processes and the deployment document they leave behind; the
  commands of the deployment, which are the node's; the ether that pays for gas, and the base fee,
  which the laws of the node take to be at most the configured one; the texts of tracebacks.
\<close>

end
